(* ===== verification/Prelude.thy ===== *)
theory Prelude
  imports Main "HOL-Library.Monad_Syntax" "HOL-Library.AList" "HOL-Library.Sublist"
begin

text \<open>
  The Go run time as the other theories see it.

  \<^item> A byte is a \<open>char\<close> (eight bits), a \<^verbatim>\<open>string\<close> or a \<^verbatim>\<open>[]byte\<close> is a \<open>char list\<close>.
  \<^item> A computation that may panic (an index or a slice out of range, a nil dereference) has
    type \<open>'a option\<close>: \<open>None\<close> is the panic, and \<open>do\<close> blocks propagate it.
  \<^item> A Go \<^verbatim>\<open>error\<close> is a value of the type \<open>error\<close> below; a result
    \<^verbatim>\<open>(v, err)\<close> whose value is meaningless when \<^verbatim>\<open>err != nil\<close> is \<open>error + 'a\<close>,
    and a pair with an \<open>error option\<close> where the callers read both.
  \<^item> A Go \<^verbatim>\<open>map\<close> is an association list with distinct keys (Go iterates over a map in
    an order of its own choice; where the code does, the order is a parameter).
\<close>

section \<open>Types\<close>

type_synonym byte = char
type_synonym bytes = "char list"

text \<open>The sentinel errors of the packages, and errors carrying a text
  (\<^verbatim>\<open>fmt.Errorf\<close>, \<^verbatim>\<open>errors.New\<close> inside a function, errors of the operating system).\<close>

datatype error =
    ErrWrongBackslash | ErrUnmatchedQuote | ErrUnclosed | ErrIllegalQL
  | ErrEOF | ErrUnexpectedEOF | ErrClosedPipe | ErrShortWrite
  | ErrEmptyCircles | ErrEmptyBackends | ErrEmptyBackendName | ErrDuplicatedBackendName
  | ErrInvalidHashKey
  | ErrBadRequest | ErrUnauthorized | ErrNotFound | ErrInternal | ErrUnknown
  | ErrEmptyQuery | ErrDatabaseNotFound | ErrBackendsUnavailable | ErrGetMeasurement
  | ErrGetBackends
  | ErrGetBucket | ErrEqualMeasurement | ErrMultiMeasurements | ErrIllegalFluxQuery
  | ErrIO | ErrHttp | ErrEscape string | ErrText string

section \<open>Panicking accesses\<close>

text \<open>\<^verbatim>\<open>s[i]\<close>, \<^verbatim>\<open>s[i:]\<close>, \<^verbatim>\<open>s[:j]\<close> and \<^verbatim>\<open>s[i:j]\<close>: a panic outside the range.\<close>

definition byte_at :: "'a list \<Rightarrow> nat \<Rightarrow> 'a option" where
  "byte_at s i = (if i < length s then Some (s ! i) else None)"

definition slice_from :: "'a list \<Rightarrow> nat \<Rightarrow> 'a list option" where
  "slice_from s i = (if i \<le> length s then Some (drop i s) else None)"

definition slice_to :: "'a list \<Rightarrow> nat \<Rightarrow> 'a list option" where
  "slice_to s j = (if j \<le> length s then Some (take j s) else None)"

definition slice :: "'a list \<Rightarrow> nat \<Rightarrow> nat \<Rightarrow> 'a list option" where
  "slice s i j = (if i \<le> j \<and> j \<le> length s then Some (take (j - i) (drop i s)) else None)"

lemma byte_at_Some_iff: "byte_at s i = Some c \<longleftrightarrow> i < length s \<and> s ! i = c"
  by (auto simp: byte_at_def)

lemma byte_at_None_iff: "byte_at s i = None \<longleftrightarrow> length s \<le> i"
  by (auto simp: byte_at_def)

lemma byte_at_0: "byte_at s 0 = (case s of [] \<Rightarrow> None | c # _ \<Rightarrow> Some c)"
  by (cases s) (auto simp: byte_at_def)

lemma slice_from_Some [simp]: "i \<le> length s \<Longrightarrow> slice_from s i = Some (drop i s)"
  by (simp add: slice_from_def)

lemma slice_to_Some [simp]: "j \<le> length s \<Longrightarrow> slice_to s j = Some (take j s)"
  by (simp add: slice_to_def)

text \<open>\<^verbatim>\<open>s[1 : len(s)-1]\<close>, which the code uses to strip a pair of quotes.\<close>

definition strip_ends :: "'a list \<Rightarrow> 'a list option" where
  "strip_ends s = (if 1 \<le> length s - 1 \<or> 2 \<le> length s then slice s 1 (length s - 1) else None)"

lemma strip_ends_eq: "strip_ends s = (if 2 \<le> length s then Some (butlast (tl s)) else None)"
proof (cases "2 \<le> length s")
  case True
  then obtain a b r where s: "s = a # b # r" by (cases s; cases "tl s") auto
  show ?thesis by (simp add: s strip_ends_def slice_def butlast_conv_take)
qed (auto simp: strip_ends_def)

lemma strip_ends_quoted [simp]: "strip_ends (c # s @ [d]) = Some s"
  by (simp add: strip_ends_eq butlast_append)

lemma length_strip_ends: "strip_ends s = Some t \<Longrightarrow> length t + 2 = length s"
  by (auto simp: strip_ends_eq split: if_splits)

section \<open>Go maps as association lists\<close>

type_synonym ('k, 'v) gomap = "('k \<times> 'v) list"

abbreviation map_get :: "('k, 'v) gomap \<Rightarrow> 'k \<Rightarrow> 'v option" where
  "map_get m k \<equiv> map_of m k"

abbreviation map_set :: "'k \<Rightarrow> 'v \<Rightarrow> ('k, 'v) gomap \<Rightarrow> ('k, 'v) gomap" where
  "map_set \<equiv> AList.update"

abbreviation map_del :: "'k \<Rightarrow> ('k, 'v) gomap \<Rightarrow> ('k, 'v) gomap" where
  "map_del \<equiv> AList.delete"

abbreviation map_keys :: "('k, 'v) gomap \<Rightarrow> 'k list" where
  "map_keys m \<equiv> map fst m"

definition map_ok :: "('k, 'v) gomap \<Rightarrow> bool" where
  "map_ok m \<longleftrightarrow> distinct (map_keys m)"

lemma map_ok_empty [simp]: "map_ok []"
  by (simp add: map_ok_def)

lemma map_ok_set [simp]: "map_ok m \<Longrightarrow> map_ok (map_set k v m)"
  by (simp add: map_ok_def distinct_update)

lemma map_ok_del [simp]: "map_ok m \<Longrightarrow> map_ok (map_del k m)"
  by (simp add: map_ok_def distinct_delete)

lemma map_get_set: "map_get (map_set k v m) k' = (if k' = k then Some v else map_get m k')"
  by (simp add: update_conv')

lemma map_get_del: "map_get (map_del k m) k' = (if k' = k then None else map_get m k')"
  by (simp add: delete_conv')

text \<open>The interface of a Go map, and what its clients may use: inserting a list of
  pairs one after the other keeps the last value of each key.\<close>

locale go_map =
  fixes empty :: "'m"
    and lookup :: "'m \<Rightarrow> 'k \<Rightarrow> 'v option"
    and store :: "'k \<Rightarrow> 'v \<Rightarrow> 'm \<Rightarrow> 'm"
    and remove :: "'k \<Rightarrow> 'm \<Rightarrow> 'm"
    and ok :: "'m \<Rightarrow> bool"
  assumes ok_empty: "ok empty"
    and ok_store: "ok m \<Longrightarrow> ok (store k v m)"
    and ok_remove: "ok m \<Longrightarrow> ok (remove k m)"
    and lookup_empty: "lookup empty k = None"
    and lookup_store: "ok m \<Longrightarrow> lookup (store k v m) k' = (if k' = k then Some v else lookup m k')"
    and lookup_remove: "ok m \<Longrightarrow> lookup (remove k m) k' = (if k' = k then None else lookup m k')"
begin

lemma fold_store_ok: "ok m \<Longrightarrow> ok (fold (\<lambda>x. store (f x) (g x)) xs m)"
  by (induction xs arbitrary: m) (auto simp: ok_store)

lemma fold_store_other:
  "ok m \<Longrightarrow> k \<notin> f ` set xs \<Longrightarrow> lookup (fold (\<lambda>x. store (f x) (g x)) xs m) k = lookup m k"
  by (induction xs arbitrary: m) (auto simp: ok_store lookup_store)

lemma fold_store_const:
  assumes "ok m" "k \<in> f ` set xs"
  shows "lookup (fold (\<lambda>x. store (f x) c) xs m) k = Some c"
  using assms
proof (induction xs arbitrary: m)
  case (Cons x xs)
  then show ?case
    by (cases "k \<in> f ` set xs") (auto simp: ok_store lookup_store fold_store_other)
qed simp

lemma fold_store_inj:
  assumes "ok m" "x \<in> set xs" "inj_on f (set xs)"
  shows "lookup (fold (\<lambda>x. store (f x) (g x)) xs m) (f x) = Some (g x)"
  using assms
proof (induction xs arbitrary: m)
  case (Cons y ys)
  show ?case
  proof (cases "x \<in> set ys")
    case True
    with Cons show ?thesis by (auto simp: ok_store inj_on_def)
  next
    case False
    with Cons.prems have "x = y" and "f x \<notin> f ` set ys" by (auto simp: inj_on_def)
    with Cons.prems show ?thesis by (simp add: ok_store fold_store_other lookup_store)
  qed
qed simp

lemma fold_store_range:
  assumes "ok m" "lookup (fold (\<lambda>x. store (f x) (g x)) xs m) k = Some v"
  shows "lookup m k = Some v \<or> (\<exists>x \<in> set xs. f x = k \<and> g x = v)"
  using assms
proof (induction xs arbitrary: m)
  case (Cons x xs)
  from Cons.IH [of "store (f x) (g x) m"] Cons.prems
  have "lookup (store (f x) (g x) m) k = Some v \<or> (\<exists>x \<in> set xs. f x = k \<and> g x = v)"
    by (simp add: ok_store)
  with Cons.prems(1) show ?case by (auto simp: lookup_store split: if_splits)
qed simp

end

interpretation gm: go_map "[]" map_of AList.update AList.delete map_ok
  by unfold_locales (auto simp: map_get_set map_get_del)

section \<open>Generic list facts\<close>

lemma take_take_drop_append: "i \<le> j \<Longrightarrow> take (j - i) (drop i s) @ drop j s = drop i s"
  by (metis add.commute append_take_drop_id drop_drop le_add_diff_inverse2)

lemma drop_eq_ConsD:
  assumes "drop i s = c # r"
  shows "i < length s" "s ! i = c" "drop (Suc i) s = r"
proof -
  show i: "i < length s"
    using assms by (cases "i < length s") auto
  then have "drop i s = s ! i # drop (Suc i) s" by (simp add: Cons_nth_drop_Suc)
  with assms show "s ! i = c" "drop (Suc i) s = r" by simp_all
qed

lemma dropWhile_rev_last: "s \<noteq> [] \<Longrightarrow> \<not> P (last s) \<Longrightarrow> rev (dropWhile P (rev s)) = s"
  by (cases s rule: rev_cases) auto

lemma sum_list_length_mem: "x \<in> set xs \<Longrightarrow> length x \<le> sum_list (map length xs)"
  by (induction xs) auto

lemma sum_list_drop_le: "sum_list (map length (drop n xs)) \<le> sum_list (map (length :: 'a list \<Rightarrow> nat) xs)"
proof -
  have "sum_list (map length xs) = sum_list (map length (take n xs)) + sum_list (map length (drop n xs))"
    by (metis append_take_drop_id map_append sum_list_append)
  then show ?thesis by simp
qed

lemma length_concat_sum: "length (concat xs) = sum_list (map length xs)"
  by (simp add: length_concat)

end
