(* ===== verification/GoStrings.thy ===== *)
theory GoStrings
  imports Prelude
begin

text \<open>
  What the code uses of Go's \<^verbatim>\<open>strings\<close>, \<^verbatim>\<open>bytes\<close>, \<^verbatim>\<open>strconv\<close> and \<^verbatim>\<open>net/url\<close> packages,
  on byte lists, with the lemmas the scanners share.

  The cut sets and the separators the code passes are ASCII, so the byte-wise definitions
  agree with Go's rune-wise ones. \<open>TrimSpace\<close> strips the UTF-8 encodings of all the
  code points of \<^verbatim>\<open>unicode.IsSpace\<close>. \<open>ToLower\<close> lowers the ASCII letters and the two
  other code points whose lower case is ASCII (U+0130 and U+212A); it leaves the remaining
  letters alone where Go maps them to other letters outside ASCII, which never changes
  whether a result equals an ASCII keyword, the only use the code makes of it.
\<close>

section \<open>Characters\<close>

definition lower_byte :: "byte \<Rightarrow> byte" where
  "lower_byte c =
     (case map_of (zip ''ABCDEFGHIJKLMNOPQRSTUVWXYZ'' ''abcdefghijklmnopqrstuvwxyz'') c of
        Some d \<Rightarrow> d | None \<Rightarrow> c)"

definition is_digit :: "byte \<Rightarrow> bool" where
  "is_digit c \<longleftrightarrow> c \<in> set ''0123456789''"

lemma is_digit_simps [simp]:
  "\<not> is_digit CHR '' ''" "\<not> is_digit CHR 0x00" "\<not> is_digit CHR 0x5C" "\<not> is_digit CHR '',''"
  by (simp_all add: is_digit_def)

section \<open>strings and bytes\<close>

function ToLower :: "string \<Rightarrow> string" where
  "ToLower s =
     (case s of [] \<Rightarrow> []
      | c # t \<Rightarrow>
         if prefix [CHR 0xC4, CHR 0xB0] s then CHR ''i'' # ToLower (drop 2 s)
         else if prefix [CHR 0xE2, CHR 0x84, CHR 0xAA] s then CHR ''k'' # ToLower (drop 3 s)
         else lower_byte c # ToLower t)"
  by pat_completeness auto
termination
  by (relation "measure length") (auto simp: prefix_def)

declare ToLower.simps [simp del]

lemma ToLower_Nil [simp]: "ToLower [] = []"
  by (simp add: ToLower.simps)

lemma ToLower_Cons [simp]:
  "c \<noteq> CHR 0xC4 \<Longrightarrow> c \<noteq> CHR 0xE2 \<Longrightarrow> ToLower (c # t) = lower_byte c # ToLower t"
  by (simp add: ToLower.simps [of "c # t"])

definition HasPrefix :: "string \<Rightarrow> string \<Rightarrow> bool" where
  "HasPrefix s p \<longleftrightarrow> take (length p) s = p"

lemma HasPrefix_prefix: "HasPrefix s p \<longleftrightarrow> prefix p s"
  unfolding HasPrefix_def prefix_def by (metis append_eq_conv_conj append_take_drop_id)

definition TrimLeft :: "string \<Rightarrow> string \<Rightarrow> string" where
  "TrimLeft s cs = dropWhile (\<lambda>c. c \<in> set cs) s"

definition TrimRight :: "string \<Rightarrow> string \<Rightarrow> string" where
  "TrimRight s cs = rev (dropWhile (\<lambda>c. c \<in> set cs) (rev s))"

definition Trim :: "string \<Rightarrow> string \<Rightarrow> string" where
  "Trim s cs = TrimRight (TrimLeft s cs) cs"

lemma length_TrimLeft: "length (TrimLeft s cs) \<le> length s"
  by (simp add: TrimLeft_def length_dropWhile_le)

lemma length_TrimRight: "length (TrimRight s cs) \<le> length s"
  unfolding TrimRight_def by (metis length_dropWhile_le length_rev)

lemma TrimRight_id: "s = [] \<or> last s \<notin> set cs \<Longrightarrow> TrimRight s cs = s"
  using dropWhile_rev_last [of s "\<lambda>c. c \<in> set cs"]
  by (cases "s = []") (auto simp: TrimRight_def)

lemma TrimLeft_id: "s = [] \<or> hd s \<notin> set cs \<Longrightarrow> TrimLeft s cs = s"
  by (cases s) (auto simp: TrimLeft_def)

lemma last_TrimRight: "TrimRight s cs \<noteq> [] \<Longrightarrow> last (TrimRight s cs) \<notin> set cs"
  unfolding TrimRight_def by (metis hd_dropWhile last_rev rev_is_Nil_conv)

lemma set_TrimRight: "set (TrimRight s cs) \<subseteq> set s"
  unfolding TrimRight_def by (auto dest: set_dropWhileD)

text \<open>The UTF-8 encodings of the white space of \<^verbatim>\<open>unicode.IsSpace\<close>.\<close>

definition unicode_spaces :: "string list" where
  "unicode_spaces =
     [[CHR '' ''], [CHR 0x09], [CHR 0x0A], [CHR 0x0B], [CHR 0x0C], [CHR 0x0D],
      [CHR 0xC2, CHR 0x85], [CHR 0xC2, CHR 0xA0], [CHR 0xE1, CHR 0x9A, CHR 0x80],
      [CHR 0xE2, CHR 0x80, CHR 0x80], [CHR 0xE2, CHR 0x80, CHR 0x81],
      [CHR 0xE2, CHR 0x80, CHR 0x82], [CHR 0xE2, CHR 0x80, CHR 0x83],
      [CHR 0xE2, CHR 0x80, CHR 0x84], [CHR 0xE2, CHR 0x80, CHR 0x85],
      [CHR 0xE2, CHR 0x80, CHR 0x86], [CHR 0xE2, CHR 0x80, CHR 0x87],
      [CHR 0xE2, CHR 0x80, CHR 0x88], [CHR 0xE2, CHR 0x80, CHR 0x89],
      [CHR 0xE2, CHR 0x80, CHR 0x8A], [CHR 0xE2, CHR 0x80, CHR 0xA8],
      [CHR 0xE2, CHR 0x80, CHR 0xA9], [CHR 0xE2, CHR 0x80, CHR 0xAF],
      [CHR 0xE2, CHR 0x81, CHR 0x9F], [CHR 0xE3, CHR 0x80, CHR 0x80]]"

lemma unicode_spaces_nonempty: "w \<in> set unicode_spaces \<Longrightarrow> w \<noteq> []"
  by (auto simp: unicode_spaces_def)

text \<open>Strip the words of \<open>ws\<close> from the front as long as one is a prefix.\<close>

function strip_front :: "string list \<Rightarrow> string \<Rightarrow> string" where
  "strip_front ws s =
     (case find (\<lambda>w. w \<noteq> [] \<and> prefix w s) ws of
        None \<Rightarrow> s | Some w \<Rightarrow> strip_front ws (drop (length w) s))"
  by pat_completeness auto
termination
  by (relation "measure (\<lambda>(ws, s). length s)") (auto simp: find_Some_iff prefix_def)

declare strip_front.simps [simp del]

definition TrimSpace :: "string \<Rightarrow> string" where
  "TrimSpace s = rev (strip_front (map rev unicode_spaces) (rev (strip_front unicode_spaces s)))"

lemma length_strip_front: "length (strip_front ws s) \<le> length s"
proof (induction ws s rule: strip_front.induct)
  case (1 ws s)
  then show ?case
    by (subst strip_front.simps) (fastforce split: option.splits simp: le_diff_conv)
qed

lemma length_TrimSpace: "length (TrimSpace s) \<le> length s"
  unfolding TrimSpace_def by (metis length_rev length_strip_front order_trans)

lemma strip_front_id: "(\<And>w. w \<in> set ws \<Longrightarrow> w \<noteq> [] \<Longrightarrow> \<not> prefix w s) \<Longrightarrow> strip_front ws s = s"
  by (subst strip_front.simps) (auto simp: find_Some_iff split: option.splits)

lemma strip_front_suffix: "\<exists>p. s = p @ strip_front ws s"
proof (induction ws s rule: strip_front.induct)
  case (1 ws s)
  show ?case
  proof (cases "find (\<lambda>w. w \<noteq> [] \<and> prefix w s) ws")
    case None
    then show ?thesis by (subst strip_front.simps) simp
  next
    case (Some w)
    then obtain p where "drop (length w) s = p @ strip_front ws (drop (length w) s)"
      using "1" by blast
    then have "s = (take (length w) s @ p) @ strip_front ws (drop (length w) s)"
      by (metis append.assoc append_take_drop_id)
    moreover have "strip_front ws s = strip_front ws (drop (length w) s)"
      using Some by (subst strip_front.simps) simp
    ultimately show ?thesis by metis
  qed
qed

text \<open>The first and last bytes of the encoded spaces: a string that starts and ends with
  other bytes is left alone.\<close>

definition space_heads :: "byte list" where
  "space_heads = map hd unicode_spaces"

definition space_lasts :: "byte list" where
  "space_lasts = map last unicode_spaces"

lemma TrimSpace_id:
  assumes "s = [] \<or> hd s \<notin> set space_heads \<and> last s \<notin> set space_lasts"
  shows "TrimSpace s = s"
proof -
  have front: "strip_front unicode_spaces s = s"
  proof (rule strip_front_id)
    fix w assume "w \<in> set unicode_spaces" "w \<noteq> []"
    then show "\<not> prefix w s"
      using assms by (auto simp: space_heads_def prefix_def image_iff dest!: bspec)
  qed
  have "strip_front (map rev unicode_spaces) (rev s) = rev s"
  proof (rule strip_front_id)
    fix w assume "w \<in> set (map rev unicode_spaces)" "w \<noteq> []"
    then obtain v where v: "v \<in> set unicode_spaces" "w = rev v" "v \<noteq> []" by auto
    show "\<not> prefix w (rev s)"
    proof
      assume "prefix w (rev s)"
      with v obtain zs where "s = rev zs @ v" by (auto simp: prefix_def rev_swap)
      with v have "s \<noteq> []" and "last s \<in> set space_lasts"
        by (auto simp: space_lasts_def)
      with assms show False by simp
    qed
  qed
  with front show ?thesis by (simp add: TrimSpace_def)
qed

section \<open>Index, Split, Join, Replacer\<close>

fun IndexByte :: "string \<Rightarrow> byte \<Rightarrow> nat option" where
  "IndexByte [] c = None"
| "IndexByte (d # s) c = (if d = c then Some 0 else map_option Suc (IndexByte s c))"

fun IndexFunc :: "string \<Rightarrow> (byte \<Rightarrow> bool) \<Rightarrow> nat option" where
  "IndexFunc [] P = None"
| "IndexFunc (d # s) P = (if P d then Some 0 else map_option Suc (IndexFunc s P))"

fun LastIndexByte :: "string \<Rightarrow> byte \<Rightarrow> int" where
  "LastIndexByte [] c = -1"
| "LastIndexByte (d # s) c =
     (let r = LastIndexByte s c in if 0 \<le> r then r + 1 else if d = c then 0 else -1)"

fun Index :: "string \<Rightarrow> string \<Rightarrow> nat option" where
  "Index [] sub = (if sub = [] then Some 0 else None)"
| "Index (d # s) sub =
     (if prefix sub (d # s) then Some 0 else map_option Suc (Index s sub))"

text \<open>\<^verbatim>\<open>strings.Split\<close> and \<^verbatim>\<open>SplitN\<close> for a separator that is not empty.\<close>

fun Split_aux :: "string \<Rightarrow> nat \<Rightarrow> string \<Rightarrow> string \<Rightarrow> string list" where
  "Split_aux sep 0 acc [] = [acc]"
| "Split_aux sep (Suc k) acc [] = [acc]"
| "Split_aux sep 0 acc (c # s) =
     (if prefix sep (c # s) then acc # Split_aux sep (length sep - 1) [] s
      else Split_aux sep 0 (acc @ [c]) s)"
| "Split_aux sep (Suc k) acc (c # s) = Split_aux sep k acc s"

definition Split :: "string \<Rightarrow> string \<Rightarrow> string list" where
  "Split s sep = Split_aux sep 0 [] s"

text \<open>\<^verbatim>\<open>bytes.SplitN(s, sep, n)\<close> with a one-byte separator and \<open>n > 0\<close>.\<close>

fun SplitN :: "string \<Rightarrow> byte \<Rightarrow> nat \<Rightarrow> string list" where
  "SplitN s sep 0 = []"
| "SplitN s sep (Suc 0) = [s]"
| "SplitN s sep (Suc (Suc n)) =
     (case IndexByte s sep of
        None \<Rightarrow> [s] | Some i \<Rightarrow> take i s # SplitN (drop (Suc i) s) sep (Suc n))"

fun Join :: "string list \<Rightarrow> string \<Rightarrow> string" where
  "Join [] sep = []"
| "Join [s] sep = s"
| "Join (s # t # ts) sep = s @ sep @ Join (t # ts) sep"

text \<open>\<^verbatim>\<open>strings.NewReplacer(...).Replace\<close>: at each position the first old string (in the
  order of the arguments) that matches is replaced, and the scan goes on behind it. The
  old strings are not empty.\<close>

function Replace :: "(string \<times> string) list \<Rightarrow> string \<Rightarrow> string" where
  "Replace ps s =
     (case find (\<lambda>p. fst p \<noteq> [] \<and> prefix (fst p) s) ps of
        Some p \<Rightarrow> snd p @ Replace ps (drop (length (fst p)) s)
      | None \<Rightarrow> (case s of [] \<Rightarrow> [] | c # t \<Rightarrow> c # Replace ps t))"
  by pat_completeness auto
termination
  by (relation "measure (\<lambda>(ps, s). length s)") (auto simp: find_Some_iff prefix_def)

declare Replace.simps [simp del]

lemma Replace_Nil [simp]: "Replace ps [] = []"
  by (subst Replace.simps) (auto simp: find_Some_iff split: option.splits)

lemma Index_sublist: "Index s sub \<noteq> None \<longleftrightarrow> sublist sub s"
  by (induction s sub rule: Index.induct) (auto simp: sublist_Cons_right)

lemma IndexByte_Some:
  "IndexByte s c = Some i \<longleftrightarrow> i < length s \<and> s ! i = c \<and> c \<notin> set (take i s)"
proof (induction s arbitrary: i)
  case (Cons d s)
  then show ?case by (cases i) auto
qed simp

lemma IndexByte_None: "IndexByte s c = None \<longleftrightarrow> c \<notin> set s"
  by (induction s) auto

lemma IndexByte_append [simp]: "c \<notin> set u \<Longrightarrow> IndexByte (u @ c # v) c = Some (length u)"
  by (auto simp: IndexByte_Some)

lemma IndexFunc_Some:
  "IndexFunc s P = Some i \<longleftrightarrow> i < length s \<and> P (s ! i) \<and> (\<forall>c \<in> set (take i s). \<not> P c)"
proof (induction s arbitrary: i)
  case (Cons d s)
  then show ?case by (cases i) auto
qed simp

lemma IndexFunc_None: "IndexFunc s P = None \<longleftrightarrow> (\<forall>c \<in> set s. \<not> P c)"
  by (induction s) auto

lemma LastIndexByte_bounds: "-1 \<le> LastIndexByte s c \<and> LastIndexByte s c < int (length s)"
  by (induction s) (auto simp: Let_def)

lemma LastIndexByte_nth: "0 \<le> LastIndexByte s c \<Longrightarrow> s ! nat (LastIndexByte s c) = c"
  by (induction s) (auto simp: Let_def nat_add_distrib split: if_splits)

section \<open>strconv\<close>

definition digit_char :: "nat \<Rightarrow> byte" where
  "digit_char n = ''0123456789'' ! n"

definition digit_val :: "byte \<Rightarrow> nat" where
  "digit_val c = (case IndexByte ''0123456789'' c of Some n \<Rightarrow> n | None \<Rightarrow> 0)"

fun nat_digits :: "nat \<Rightarrow> string" where
  "nat_digits n = (if n < 10 then [digit_char n] else nat_digits (n div 10) @ [digit_char (n mod 10)])"

declare nat_digits.simps [simp del]

text \<open>\<^verbatim>\<open>strconv.Itoa\<close>, \<^verbatim>\<open>strconv.FormatInt(_, 10)\<close>.\<close>

definition Itoa :: "int \<Rightarrow> string" where
  "Itoa n = (if n < 0 then CHR ''-'' # nat_digits (nat (- n)) else nat_digits (nat n))"

definition digits_val :: "string \<Rightarrow> nat" where
  "digits_val s = foldl (\<lambda>n c. 10 * n + digit_val c) 0 s"

text \<open>\<^verbatim>\<open>strconv.ParseInt(s, 10, 64)\<close> and \<^verbatim>\<open>strconv.Atoi\<close> on a 64-bit platform:
  an optional sign, at least one digit, nothing else, and a value in range.\<close>

definition ParseInt :: "string \<Rightarrow> int option" where
  "ParseInt s =
     (let neg = HasPrefix s ''-'';
          ds = (if HasPrefix s ''-'' \<or> HasPrefix s ''+'' then tl s else s);
          v = (if neg then - int (digits_val ds) else int (digits_val ds))
      in if ds \<noteq> [] \<and> list_all is_digit ds \<and> - (2 ^ 63) \<le> v \<and> v < 2 ^ 63 then Some v else None)"

text \<open>\<^verbatim>\<open>strconv.ParseBool\<close>.\<close>

definition ParseBool :: "string \<Rightarrow> bool option" where
  "ParseBool s =
     (if s \<in> set [''1'', ''t'', ''T'', ''true'', ''TRUE'', ''True''] then Some True
      else if s \<in> set [''0'', ''f'', ''F'', ''false'', ''FALSE'', ''False''] then Some False
      else None)"

lemma digit_char_cases: "n < 10 \<Longrightarrow> digit_char n \<in> set ''0123456789''"
  unfolding digit_char_def by (rule nth_mem) simp

lemma is_digit_digit_char [simp]: "n < 10 \<Longrightarrow> is_digit (digit_char n)"
  using digit_char_cases by (simp add: is_digit_def)

lemma less_10_cases: "(n :: nat) < 10 \<Longrightarrow>
  n = 0 \<or> n = 1 \<or> n = 2 \<or> n = 3 \<or> n = 4 \<or> n = 5 \<or> n = 6 \<or> n = 7 \<or> n = 8 \<or> n = 9"
  by arith

lemma digit_val_digit_char [simp]: "n < 10 \<Longrightarrow> digit_val (digit_char n) = n"
  by (drule less_10_cases) (auto simp: digit_val_def digit_char_def eval_nat_numeral)

lemma nat_digits_nonempty [simp]: "nat_digits n \<noteq> []"
  by (subst nat_digits.simps) simp

lemma nat_digits_digits: "list_all is_digit (nat_digits n)"
proof (induction n rule: nat_digits.induct)
  case (1 n)
  then show ?case by (subst nat_digits.simps) (auto simp: list_all_iff)
qed

lemma digits_val_snoc [simp]: "digits_val (s @ [c]) = 10 * digits_val s + digit_val c"
  by (simp add: digits_val_def)

lemma digits_val_Nil [simp]: "digits_val [] = 0"
  by (simp add: digits_val_def)

lemma digits_val_nat_digits [simp]: "digits_val (nat_digits n) = n"
proof (induction n rule: nat_digits.induct)
  case (1 n)
  show ?case
  proof (cases "n < 10")
    case True
    then show ?thesis by (subst nat_digits.simps) (simp add: digits_val_def)
  next
    case False
    then have "digits_val (nat_digits n) = 10 * (n div 10) + n mod 10"
      using "1" by (subst nat_digits.simps) simp
    then show ?thesis by simp
  qed
qed

lemma digits_val_zeros: "digits_val (s @ replicate k CHR ''0'') = digits_val s * 10 ^ k"
proof (induction k)
  case (Suc k)
  have "s @ replicate (Suc k) CHR ''0'' = (s @ replicate k CHR ''0'') @ [CHR ''0'']"
    by (simp add: replicate_append_same)
  then have "digits_val (s @ replicate (Suc k) CHR ''0'')
      = 10 * digits_val (s @ replicate k CHR ''0'') + digit_val CHR ''0''"
    by (simp only: digits_val_snoc)
  with Suc show ?case by (simp add: digit_val_def)
qed simp

section \<open>net/url\<close>

definition query_safe :: "byte \<Rightarrow> bool" where
  "query_safe c \<longleftrightarrow> c \<in> set
     ''ABCDEFGHIJKLMNOPQRSTUVWXYZabcdefghijklmnopqrstuvwxyz0123456789-_.~''"

definition upper_hex :: "nat \<Rightarrow> byte" where
  "upper_hex n = ''0123456789ABCDEF'' ! n"

definition unhex :: "byte \<Rightarrow> nat option" where
  "unhex c = map_of (zip ''0123456789abcdefABCDEF'' ([0..<16] @ [10..<16])) c"

text \<open>\<^verbatim>\<open>url.QueryEscape\<close>.\<close>

fun QueryEscape :: "string \<Rightarrow> string" where
  "QueryEscape [] = []"
| "QueryEscape (c # s) =
     (if c = CHR '' '' then CHR ''+'' # QueryEscape s
      else if query_safe c then c # QueryEscape s
      else CHR ''%'' # upper_hex (of_char c div 16) # upper_hex (of_char c mod 16) # QueryEscape s)"

text \<open>\<^verbatim>\<open>url.QueryUnescape\<close>: a percent sign must be followed by two hexadecimal digits.\<close>

fun QueryUnescape :: "string \<Rightarrow> error + string" where
  "QueryUnescape [] = Inr []"
| "QueryUnescape (c # s) =
     (if c = CHR ''%'' then
        (case s of
           h # l # t \<Rightarrow>
             (case (unhex h, unhex l) of
                (Some a, Some b) \<Rightarrow>
                  (case QueryUnescape t of
                     Inl e \<Rightarrow> Inl e | Inr u \<Rightarrow> Inr (char_of (16 * a + b) # u))
              | _ \<Rightarrow> Inl (ErrEscape (take 3 (c # s))))
         | _ \<Rightarrow> Inl (ErrEscape (take 3 (c # s))))
      else
        (case QueryUnescape s of
           Inl e \<Rightarrow> Inl e
         | Inr u \<Rightarrow> Inr ((if c = CHR ''+'' then CHR '' '' else c) # u)))"

lemma less_16_cases: "(n :: nat) < 16 \<Longrightarrow>
  n = 15 \<or> n = 14 \<or> n = 13 \<or> n = 12 \<or> n = 11 \<or> n = 10 \<or> n = 9 \<or> n = 8 \<or>
  n = 7 \<or> n = 6 \<or> n = 5 \<or> n = 4 \<or> n = 3 \<or> n = 2 \<or> n = 1 \<or> n = 0"
  by arith

lemma upper_hex_simps:
  "upper_hex 0 = CHR ''0''" "upper_hex 1 = CHR ''1''" "upper_hex 2 = CHR ''2''"
  "upper_hex 3 = CHR ''3''" "upper_hex 4 = CHR ''4''" "upper_hex 5 = CHR ''5''"
  "upper_hex 6 = CHR ''6''" "upper_hex 7 = CHR ''7''" "upper_hex 8 = CHR ''8''"
  "upper_hex 9 = CHR ''9''" "upper_hex 10 = CHR ''A''" "upper_hex 11 = CHR ''B''"
  "upper_hex 12 = CHR ''C''" "upper_hex 13 = CHR ''D''" "upper_hex 14 = CHR ''E''"
  "upper_hex 15 = CHR ''F''"
  by (simp_all add: upper_hex_def)

lemma unhex_upper_hex: "n < 16 \<Longrightarrow> unhex (upper_hex n) = Some n"
  by (drule less_16_cases)
    (elim disjE; simp only: upper_hex_simps; simp add: unhex_def upt_rec)

lemma upper_hex_not_space: "n < 16 \<Longrightarrow> upper_hex n \<noteq> CHR '' ''"
  by (drule less_16_cases) (elim disjE; simp only: upper_hex_simps; simp)

text \<open>Escaping is undone by unescaping, and leaves no space.\<close>

lemma QueryUnescape_QueryEscape: "QueryUnescape (QueryEscape s) = Inr s"
proof (induction s)
  case (Cons c s)
  have "of_char c < (256 :: nat)" by simp
  then have "of_char c div 16 < (16 :: nat)" by arith
  then have hex: "unhex (upper_hex (of_char c div 16)) = Some (of_char c div 16)"
    "unhex (upper_hex (of_char c mod 16)) = Some (of_char c mod 16)"
    by (simp_all add: unhex_upper_hex)
  have code: "char_of (16 * (of_char c div 16) + of_char c mod 16 :: nat) = c"
    by (simp add: mult.commute)
  show ?case
    using Cons by (auto simp: hex code query_safe_def)
qed simp

lemma QueryEscape_no_space: "CHR '' '' \<notin> set (QueryEscape s)"
proof (induction s)
  case (Cons c s)
  have "of_char c < (256 :: nat)" by simp
  then have "of_char c div 16 < (16 :: nat)" by arith
  then have "upper_hex (of_char c div 16) \<noteq> CHR '' ''" "upper_hex (of_char c mod 16) \<noteq> CHR '' ''"
    by (simp_all add: upper_hex_not_space)
  with Cons show ?case by auto
qed simp

section \<open>Trimming and lower case, further facts\<close>

lemma set_strip_front: "set (strip_front ws s) \<subseteq> set s"
  using strip_front_suffix [of s ws] by (metis set_append sup_ge2)

lemma set_TrimSpace: "set (TrimSpace s) \<subseteq> set s"
  unfolding TrimSpace_def using set_strip_front by (metis order_trans set_rev)

lemma strip_front_last:
  assumes "s \<noteq> []" "last s \<notin> last ` set ws"
  shows "strip_front ws s \<noteq> [] \<and> last (strip_front ws s) = last s"
  using assms
proof (induction ws s rule: strip_front.induct)
  case (1 ws s)
  show ?case
  proof (cases "find (\<lambda>w. w \<noteq> [] \<and> prefix w s) ws")
    case None
    with "1.prems" show ?thesis by (subst (1 2) strip_front.simps) simp
  next
    case (Some w)
    then have w: "w \<in> set ws" "w \<noteq> []" "prefix w s" by (auto simp: find_Some_iff)
    have ne: "drop (length w) s \<noteq> []"
      using w "1.prems" by (auto simp: prefix_def)
    then have la: "last (drop (length w) s) = last s" by (simp add: last_drop)
    from "1.IH" [OF Some ne] la "1.prems" have
      "strip_front ws (drop (length w) s) \<noteq> [] \<and> last (strip_front ws (drop (length w) s)) = last s"
      by simp
    with Some show ?thesis by (subst (1 2) strip_front.simps) simp
  qed
qed

lemma last_TrimSpace:
  assumes "s \<noteq> []" "last s \<notin> set space_lasts"
  shows "TrimSpace s \<noteq> []" "last (TrimSpace s) = last s"
proof -
  let ?t = "strip_front unicode_spaces s"
  have t: "?t \<noteq> []" "last ?t = last s"
    using strip_front_last [of s unicode_spaces] assms by (auto simp: space_lasts_def)
  have "strip_front (map rev unicode_spaces) (rev ?t) = rev ?t"
  proof (rule strip_front_id)
    fix w assume "w \<in> set (map rev unicode_spaces)" "w \<noteq> []"
    then obtain v where v: "v \<in> set unicode_spaces" "w = rev v" "v \<noteq> []" by auto
    show "\<not> prefix w (rev ?t)"
    proof
      assume "prefix w (rev ?t)"
      with v obtain zs where "?t = rev zs @ v" by (auto simp: prefix_def rev_swap)
      with v have "last ?t \<in> set space_lasts" by (auto simp: space_lasts_def)
      with t assms show False by simp
    qed
  qed
  then have "TrimSpace s = ?t" by (simp add: TrimSpace_def)
  with t show "TrimSpace s \<noteq> []" "last (TrimSpace s) = last s" by simp_all
qed

lemma lower_byte_space [simp]: "lower_byte CHR '' '' = CHR '' ''"
  by (simp add: lower_byte_def)

lemma ToLower_append_space: "ToLower (s @ CHR '' '' # t) = ToLower s @ CHR '' '' # ToLower t"
proof (induction s rule: ToLower.induct)
  case (1 s)
  show ?case
  proof (cases s)
    case Nil
    then show ?thesis by simp
  next
    case (Cons c u)
    have p1: "prefix [CHR 0xC4, CHR 0xB0] (s @ CHR '' '' # t) \<longleftrightarrow> prefix [CHR 0xC4, CHR 0xB0] s"
      using Cons by (cases u) auto
    have p2: "prefix [CHR 0xE2, CHR 0x84, CHR 0xAA] (s @ CHR '' '' # t) \<longleftrightarrow>
              prefix [CHR 0xE2, CHR 0x84, CHR 0xAA] s"
      using Cons by (cases u; cases "tl u") auto
    have d: "prefix p s \<Longrightarrow> drop (length p) (s @ CHR '' '' # t) = drop (length p) s @ CHR '' '' # t" for p
      by (auto simp: prefix_def)
    consider (a) "prefix [CHR 0xC4, CHR 0xB0] s"
      | (b) "\<not> prefix [CHR 0xC4, CHR 0xB0] s" "prefix [CHR 0xE2, CHR 0x84, CHR 0xAA] s"
      | (c) "\<not> prefix [CHR 0xC4, CHR 0xB0] s" "\<not> prefix [CHR 0xE2, CHR 0x84, CHR 0xAA] s"
      by blast
    then show ?thesis
    proof cases
      case a
      with "1.IH"(1) [OF Cons] p1 d [OF a] Cons show ?thesis
        by (subst (1 2) ToLower.simps) simp
    next
      case b
      with "1.IH"(2) [OF Cons] p1 p2 d [OF b(2)] Cons show ?thesis
        by (subst (1 2) ToLower.simps) (auto simp: numeral_3_eq_3)
    next
      case c
      with "1.IH"(3) [OF Cons] p1 p2 Cons show ?thesis
        by (subst (1 2) ToLower.simps) auto
    qed
  qed
qed

end
