(* ===== verification/Util.thy ===== *)
theory Util
  imports GoStrings
begin

text \<open>
  The package \<^verbatim>\<open>util\<close>: the string set of \<^verbatim>\<open>util/set.go\<close> and the escaping of
  identifiers, measurements and tags of \<^verbatim>\<open>util/escape.go\<close>, and the helpers of
  \<^verbatim>\<open>util/util.go\<close>. The set is a Go map to
  \<open>bool\<close>; its contract is the locale \<open>string_set\<close>. Each pair of an escaper and its
  unescaper is an instance of the locale \<open>escaping\<close>.
\<close>

section \<open>util/set.go\<close>

type_synonym Set = "(string, bool) gomap"

definition Add :: "Set \<Rightarrow> string \<Rightarrow> Set" where
  "Add m s = map_set s True m"

definition NewSet :: "string list \<Rightarrow> Set" where
  "NewSet items = foldl Add [] items"

definition NewSetFromSlice :: "string list \<Rightarrow> Set" where
  "NewSetFromSlice sl = NewSet sl"

definition Remove :: "Set \<Rightarrow> string \<Rightarrow> Set" where
  "Remove m s = map_del s m"

text \<open>\<^verbatim>\<open>set[s]\<close>: the zero value \<^verbatim>\<open>false\<close> for a missing key.\<close>

definition Has :: "Set \<Rightarrow> string \<Rightarrow> bool" where
  "Has m s = (case map_get m s of Some b \<Rightarrow> b | None \<Rightarrow> False)"

lemma Has_Nil [simp]: "\<not> Has [] s"
  by (simp add: Has_def)

lemma Has_Add [simp]: "Has (Add m s) t \<longleftrightarrow> t = s \<or> Has m t"
  by (auto simp: Has_def Add_def map_get_set)

lemma Has_foldl_Add: "Has (foldl Add m items) t \<longleftrightarrow> t \<in> set items \<or> Has m t"
  by (induction items arbitrary: m) auto

lemma Has_NewSet [simp]: "Has (NewSet items) t \<longleftrightarrow> t \<in> set items"
  by (simp add: NewSet_def Has_foldl_Add)

lemma Has_Remove: "map_ok m \<Longrightarrow> Has (Remove m s) t \<longleftrightarrow> t \<noteq> s \<and> Has m t"
  by (auto simp: Has_def Remove_def map_get_del)

lemma map_ok_Add: "map_ok m \<Longrightarrow> map_ok (Add m s)"
  by (simp add: Add_def)

lemma map_ok_NewSet: "map_ok (NewSet items)"
proof -
  have "map_ok m \<Longrightarrow> map_ok (foldl Add m items)" for m
    by (induction items arbitrary: m) (auto simp: map_ok_Add)
  then show ?thesis by (simp add: NewSet_def)
qed

lemma NewSet_empty_iff: "NewSet items = [] \<longleftrightarrow> items = []"
  by (metis Has_NewSet Has_Nil NewSet_def empty_set equals0I foldl_Nil set_empty)

text \<open>The contract of a set of strings. A loop that adds elements one after the other and
  stops at the first repeated one reaches the end just for a list without repetition.\<close>

locale string_set =
  fixes new :: "string list \<Rightarrow> 's"
    and has :: "'s \<Rightarrow> string \<Rightarrow> bool"
    and add :: "'s \<Rightarrow> string \<Rightarrow> 's"
    and remove :: "'s \<Rightarrow> string \<Rightarrow> 's"
    and ok :: "'s \<Rightarrow> bool"
  assumes ok_new: "ok (new xs)"
    and ok_add: "ok s \<Longrightarrow> ok (add s x)"
    and ok_remove: "ok s \<Longrightarrow> ok (remove s x)"
    and has_new: "has (new xs) y \<longleftrightarrow> y \<in> set xs"
    and has_add: "has (add s x) y \<longleftrightarrow> y = x \<or> has s y"
    and has_remove: "ok s \<Longrightarrow> has (remove s x) y \<longleftrightarrow> y \<noteq> x \<and> has s y"
begin

lemma has_foldl_add: "has (foldl add s xs) y \<longleftrightarrow> y \<in> set xs \<or> has s y"
  by (induction xs arbitrary: s) (auto simp: has_add)

lemma foldl_add_eq_new: "has (foldl add (new xs) ys) = has (new (xs @ ys))"
  by (auto simp: has_foldl_add has_new)

lemma remove_add: "ok s \<Longrightarrow> \<not> has s x \<Longrightarrow> has (remove (add s x) x) = has s"
  by (auto simp: has_remove has_add ok_add)

lemma no_repeat_iff:
  "(\<forall>i < length xs. \<not> has (foldl add s (take i xs)) (xs ! i)) \<longleftrightarrow>
   distinct xs \<and> (\<forall>x \<in> set xs. \<not> has s x)"
proof (induction xs arbitrary: s)
  case (Cons x xs)
  have "(\<forall>i < length (x # xs). \<not> has (foldl add s (take i (x # xs))) ((x # xs) ! i)) \<longleftrightarrow>
        \<not> has s x \<and> (\<forall>i < length xs. \<not> has (foldl add (add s x) (take i xs)) (xs ! i))"
    by (auto simp: less_Suc_eq_0_disj)
  also have "\<dots> \<longleftrightarrow> \<not> has s x \<and> distinct xs \<and> (\<forall>y \<in> set xs. \<not> has (add s x) y)"
    by (simp add: Cons.IH)
  also have "\<dots> \<longleftrightarrow> distinct (x # xs) \<and> (\<forall>y \<in> set (x # xs). \<not> has s y)"
    by (auto simp: has_add)
  finally show ?case .
qed simp

end

interpretation go_set: string_set NewSet Has Add Remove map_ok
  by unfold_locales (simp_all add: map_ok_NewSet map_ok_Add Has_Remove, simp add: Remove_def)

section \<open>util/escape.go\<close>

text \<open>The replacement tables.\<close>

definition identifierEscaper :: "(string \<times> string) list" where
  "identifierEscaper = [(''\"'', [CHR 0x5C, CHR ''\"''])]"

definition identifierUnescaper :: "(string \<times> string) list" where
  "identifierUnescaper = [([CHR 0x5C, CHR ''\"''], ''\"'')]"

definition measurementEscaper :: "(string \<times> string) list" where
  "measurementEscaper = [('','', [CHR 0x5C, CHR '','']), ('' '', [CHR 0x5C, CHR '' ''])]"

definition measurementUnescaper :: "(string \<times> string) list" where
  "measurementUnescaper = [([CHR 0x5C, CHR '',''], '',''), ([CHR 0x5C, CHR '' ''], '' '')]"

definition tagEscaper :: "(string \<times> string) list" where
  "tagEscaper =
     [('','', [CHR 0x5C, CHR '','']), ('' '', [CHR 0x5C, CHR '' '']), (''='', [CHR 0x5C, CHR ''=''])]"

definition tagUnescaper :: "(string \<times> string) list" where
  "tagUnescaper =
     [([CHR 0x5C, CHR '',''], '',''), ([CHR 0x5C, CHR '' ''], '' ''), ([CHR 0x5C, CHR ''=''], ''='')]"

definition EscapeIdentifier :: "string \<Rightarrow> string" where
  "EscapeIdentifier s = Replace identifierEscaper s"

definition UnescapeIdentifier :: "string \<Rightarrow> string" where
  "UnescapeIdentifier s =
     (if IndexByte s (CHR 0x5C) = None then s else Replace identifierUnescaper s)"

definition EscapeMeasurement :: "string \<Rightarrow> string" where
  "EscapeMeasurement s = Replace measurementEscaper s"

definition UnescapeMeasurement :: "string \<Rightarrow> string" where
  "UnescapeMeasurement s =
     (if IndexByte s (CHR 0x5C) = None then s else Replace measurementUnescaper s)"

definition EscapeTag :: "string \<Rightarrow> string" where
  "EscapeTag s = Replace tagEscaper s"

definition UnescapeTag :: "string \<Rightarrow> string" where
  "UnescapeTag s =
     (if IndexByte s (CHR 0x5C) = None then s else Replace tagUnescaper s)"

text \<open>The tables have a common shape: a set of special bytes, each escaped by a backslash.\<close>

abbreviation esc_pairs :: "byte list \<Rightarrow> (string \<times> string) list" where
  "esc_pairs cs \<equiv> map (\<lambda>c. ([c], [CHR 0x5C, c])) cs"

abbreviation unesc_pairs :: "byte list \<Rightarrow> (string \<times> string) list" where
  "unesc_pairs cs \<equiv> map (\<lambda>c. ([CHR 0x5C, c], [c])) cs"

fun esc :: "byte list \<Rightarrow> string \<Rightarrow> string" where
  "esc cs [] = []"
| "esc cs (c # s) = (if c \<in> set cs then [CHR 0x5C, c] else [c]) @ esc cs s"

lemma Replace_esc_pairs: "Replace (esc_pairs cs) s = esc cs s"
proof (induction cs s rule: esc.induct)
  case (2 cs c s)
  show ?case
  proof (cases "c \<in> set cs")
    case True
    then obtain p where p: "find (\<lambda>p. fst p \<noteq> [] \<and> prefix (fst p) (c # s)) (esc_pairs cs) = Some p"
      by (cases "find (\<lambda>p. fst p \<noteq> [] \<and> prefix (fst p) (c # s)) (esc_pairs cs)")
        (auto simp: find_None_iff)
    then have "p = ([c], [CHR 0x5C, c])" by (auto simp: find_Some_iff)
    with p True "2" show ?thesis by (subst Replace.simps) simp
  next
    case False
    then have "find (\<lambda>p. fst p \<noteq> [] \<and> prefix (fst p) (c # s)) (esc_pairs cs) = None"
      by (auto simp: find_None_iff)
    with False "2" show ?thesis by (subst Replace.simps) simp
  qed
qed simp

lemma esc_id: "set s \<inter> set cs = {} \<Longrightarrow> esc cs s = s"
  by (induction s) auto

lemma esc_append: "esc cs (s @ t) = esc cs s @ esc cs t"
  by (induction s) auto

lemma esc_Nil_iff [simp]: "esc cs s = [] \<longleftrightarrow> s = []"
  by (cases s) auto

lemma set_esc: "set (esc cs s) \<subseteq> insert (CHR 0x5C) (set s)"
  by (induction s) auto

lemma hd_esc_special: "CHR 0x5C \<notin> set cs \<Longrightarrow> esc cs s = c # t \<Longrightarrow> c \<notin> set cs"
  by (cases s) (auto split: if_splits)

lemma find_unesc_no_backslash:
  "c \<noteq> CHR 0x5C \<Longrightarrow> find (\<lambda>p. fst p \<noteq> [] \<and> prefix (fst p) (c # s)) (unesc_pairs cs) = None"
  by (auto simp: find_None_iff)

lemma Replace_unesc_esc: "CHR 0x5C \<notin> set cs \<Longrightarrow> Replace (unesc_pairs cs) (esc cs s) = s"
proof (induction cs s rule: esc.induct)
  case (2 cs c s)
  let ?find = "\<lambda>t. find (\<lambda>p. fst p \<noteq> [] \<and> prefix (fst p) t) (unesc_pairs cs)"
  show ?case
  proof (cases "c \<in> set cs")
    case True
    then obtain p where p: "?find (CHR 0x5C # c # esc cs s) = Some p"
      by (cases "?find (CHR 0x5C # c # esc cs s)") (auto simp: find_None_iff)
    then have "p = ([CHR 0x5C, c], [c])" by (auto simp: find_Some_iff)
    with p True "2" show ?thesis by (subst Replace.simps) simp
  next
    case False
    have "?find (c # esc cs s) = None"
    proof (cases "c = CHR 0x5C")
      case True
      with hd_esc_special [OF "2.prems"] show ?thesis
        by (cases "esc cs s") (auto simp: find_None_iff)
    qed (simp add: find_unesc_no_backslash)
    with False "2" show ?thesis by (subst Replace.simps) simp
  qed
qed simp

lemma Replace_unesc_id: "CHR 0x5C \<notin> set s \<Longrightarrow> Replace (unesc_pairs cs) s = s"
proof (induction s)
  case (Cons c s)
  then have "find (\<lambda>p. fst p \<noteq> [] \<and> prefix (fst p) (c # s)) (unesc_pairs cs) = None"
    by (intro find_unesc_no_backslash) auto
  with Cons show ?case by (subst Replace.simps) simp
qed simp

lemma escaper_tables:
  "identifierEscaper = esc_pairs ''\"''" "identifierUnescaper = unesc_pairs ''\"''"
  "measurementEscaper = esc_pairs '', ''" "measurementUnescaper = unesc_pairs '', ''"
  "tagEscaper = esc_pairs '', =''" "tagUnescaper = unesc_pairs '', =''"
  by (simp_all add: identifierEscaper_def identifierUnescaper_def measurementEscaper_def
      measurementUnescaper_def tagEscaper_def tagUnescaper_def)

lemma EscapeIdentifier_esc: "EscapeIdentifier s = esc ''\"'' s"
  by (simp only: EscapeIdentifier_def escaper_tables Replace_esc_pairs)

lemma EscapeMeasurement_esc: "EscapeMeasurement s = esc '', '' s"
  by (simp only: EscapeMeasurement_def escaper_tables Replace_esc_pairs)

lemma EscapeTag_esc: "EscapeTag s = esc '', ='' s"
  by (simp only: EscapeTag_def escaper_tables Replace_esc_pairs)

lemma UnescapeIdentifier_Replace: "UnescapeIdentifier s = Replace (unesc_pairs ''\"'') s"
  unfolding UnescapeIdentifier_def escaper_tables
  by (cases "CHR 0x5C \<in> set s") (simp_all only: IndexByte_None Replace_unesc_id if_True if_False not_True_eq_False not_False_eq_True)

lemma UnescapeMeasurement_Replace: "UnescapeMeasurement s = Replace (unesc_pairs '', '') s"
  unfolding UnescapeMeasurement_def escaper_tables
  by (cases "CHR 0x5C \<in> set s") (simp_all only: IndexByte_None Replace_unesc_id if_True if_False not_True_eq_False not_False_eq_True)

lemma UnescapeTag_Replace: "UnescapeTag s = Replace (unesc_pairs '', ='') s"
  unfolding UnescapeTag_def escaper_tables
  by (cases "CHR 0x5C \<in> set s") (simp_all only: IndexByte_None Replace_unesc_id if_True if_False not_True_eq_False not_False_eq_True)

text \<open>The contract of an escaper: its unescaper is a left inverse, so it is injective.\<close>

locale escaping =
  fixes escape :: "string \<Rightarrow> string"
    and unescape :: "string \<Rightarrow> string"
  assumes unescape_escape: "unescape (escape s) = s"
begin

lemma escape_eq_iff: "escape s = escape t \<longleftrightarrow> s = t"
  by (metis unescape_escape)

lemma inj_escape: "inj escape"
  by (rule injI) (simp add: escape_eq_iff)

lemma distinct_map_escape: "distinct (map escape xs) \<longleftrightarrow> distinct xs"
  by (simp add: distinct_map inj_on_subset [OF inj_escape])

end

interpretation ident_esc: escaping EscapeIdentifier UnescapeIdentifier
  by unfold_locales (simp add: EscapeIdentifier_esc UnescapeIdentifier_Replace
      Replace_unesc_esc del: list.map)

interpretation meas_esc: escaping EscapeMeasurement UnescapeMeasurement
  by unfold_locales (simp add: EscapeMeasurement_esc UnescapeMeasurement_Replace
      Replace_unesc_esc del: list.map)

interpretation tag_esc: escaping EscapeTag UnescapeTag
  by unfold_locales (simp add: EscapeTag_esc UnescapeTag_Replace
      Replace_unesc_esc del: list.map)

text \<open>The three escapers of \<^verbatim>\<open>util/escape.go\<close> are undone by their unescapers on
  every string, whatever backslashes, quotes, commas or spaces it already holds; so two
  different names never have the same escaped form.\<close>

theorem escape_roundtrip:
  "UnescapeIdentifier (EscapeIdentifier s) = s \<and>
   UnescapeMeasurement (EscapeMeasurement s) = s \<and>
   UnescapeTag (EscapeTag s) = s \<and>
   (EscapeTag s = EscapeTag t \<longleftrightarrow> s = t)"
  by (simp add: ident_esc.unescape_escape meas_esc.unescape_escape tag_esc.unescape_escape
      tag_esc.escape_eq_iff)

section \<open>util/util.go\<close>

text \<open>What \<^verbatim>\<open>os.Stat\<close> says of a path; \<open>made\<close> is the outcome of \<^verbatim>\<open>os.MkdirAll\<close>.\<close>

datatype stat = Exists | Missing | Unreadable error

definition PathExist :: "stat \<Rightarrow> bool \<times> error option" where
  "PathExist st = (case st of Exists \<Rightarrow> (True, None) | Missing \<Rightarrow> (False, None) | Unreadable e \<Rightarrow> (False, Some e))"

definition MakeDir :: "stat \<Rightarrow> error option \<Rightarrow> error option" where
  "MakeDir st made =
     (case PathExist st of
        (_, Some e) \<Rightarrow> Some e
      | (exist, None) \<Rightarrow> if \<not> exist then made else None)"

lemma MakeDir_ok: "MakeDir st made = None \<longleftrightarrow> st = Exists \<or> st = Missing \<and> made = None"
  by (cases st) (simp_all add: MakeDir_def PathExist_def)

text \<open>\<open>encode\<close> is the JSON library, indenting or not; its error is ignored.\<close>

definition MarshalJSON :: "('v \<Rightarrow> bool \<Rightarrow> bytes) \<Rightarrow> 'v \<Rightarrow> bool \<Rightarrow> bytes" where
  "MarshalJSON encode v pretty = encode v pretty @ [CHR 0x0A]"

end
