(* ===== verification/Config.thy ===== *)
theory Config
  imports Util
begin

text \<open>
  The configuration of \<^verbatim>\<open>backend/config.go\<close>: its records, the defaults and the check that a
  proxy passes before it starts. The Go \<^verbatim>\<open>int\<close> settings are only compared, so they are
  \<open>int\<close> here. Reading and decoding the file is the \<^verbatim>\<open>viper\<close> package, whose outcomes are
  arguments of \<open>NewFileConfig\<close>. A null in the list of circles or backends of a file, which becomes a nil
  pointer at which \<^verbatim>\<open>checkConfig\<close> panics, is outside the model.
\<close>

section \<open>Definitions\<close>

text \<open>The texts of the errors of \<^verbatim>\<open>config.go\<close>.\<close>

definition config_Error :: "error \<Rightarrow> string option" where
  "config_Error e =
     (case e of
        ErrEmptyCircles \<Rightarrow> Some ''circles cannot be empty''
      | ErrEmptyBackends \<Rightarrow> Some ''backends cannot be empty''
      | ErrEmptyBackendName \<Rightarrow> Some ''backend name cannot be empty''
      | ErrDuplicatedBackendName \<Rightarrow> Some ''backend name duplicated''
      | ErrInvalidHashKey \<Rightarrow> Some ''invalid hash_key, require idx, exi, name or url''
      | _ \<Rightarrow> None)"

record BackendConfig =
  bc_Name :: string
  bc_Url :: string
  bc_Username :: string
  bc_Password :: string
  bc_AuthEncrypt :: bool
  bc_WriteOnly :: bool

record CircleConfig =
  cc_Name :: string
  cc_Backends :: "BackendConfig list"

record ProxyConfig =
  pc_Circles :: "CircleConfig list"
  pc_ListenAddr :: string
  pc_DBList :: "string list"
  pc_DataDir :: string
  pc_TLogDir :: string
  pc_HashKey :: string
  pc_FlushSize :: int
  pc_FlushTime :: int
  pc_CheckInterval :: int
  pc_RewriteInterval :: int
  pc_ConnPoolSize :: int
  pc_WriteTimeout :: int
  pc_IdleTimeout :: int
  pc_Username :: string
  pc_Password :: string
  pc_AuthEncrypt :: bool
  pc_WriteTracing :: bool
  pc_QueryTracing :: bool
  pc_PprofEnabled :: bool
  pc_HTTPSEnabled :: bool
  pc_HTTPSCert :: string
  pc_HTTPSKey :: string
  pc_HashKeyMeasureOnly :: bool

definition default_string :: "string \<Rightarrow> string \<Rightarrow> string" where
  "default_string d s = (if s = '''' then d else s)"

definition default_int :: "int \<Rightarrow> int \<Rightarrow> int" where
  "default_int d n = (if n \<le> 0 then d else n)"

definition setDefault :: "ProxyConfig \<Rightarrow> ProxyConfig" where
  "setDefault cfg = cfg \<lparr>
     pc_ListenAddr := default_string '':7076'' (pc_ListenAddr cfg),
     pc_DataDir := default_string ''data'' (pc_DataDir cfg),
     pc_TLogDir := default_string ''log'' (pc_TLogDir cfg),
     pc_HashKey := default_string ''idx'' (pc_HashKey cfg),
     pc_FlushSize := default_int 10000 (pc_FlushSize cfg),
     pc_FlushTime := default_int 1 (pc_FlushTime cfg),
     pc_CheckInterval := default_int 1 (pc_CheckInterval cfg),
     pc_RewriteInterval := default_int 10 (pc_RewriteInterval cfg),
     pc_ConnPoolSize := default_int 20 (pc_ConnPoolSize cfg),
     pc_WriteTimeout := default_int 10 (pc_WriteTimeout cfg),
     pc_IdleTimeout := default_int 10 (pc_IdleTimeout cfg) \<rparr>"

text \<open>The two nested loops of \<^verbatim>\<open>checkConfig\<close>; the set of names goes through both.\<close>

fun check_backends :: "BackendConfig list \<Rightarrow> Set \<Rightarrow> error + Set" where
  "check_backends [] seen = Inr seen"
| "check_backends (b # bs) seen =
     (if bc_Name b = '''' then Inl ErrEmptyBackendName
      else if Has seen (bc_Name b) then Inl ErrDuplicatedBackendName
      else check_backends bs (Add seen (bc_Name b)))"

fun check_circles :: "CircleConfig list \<Rightarrow> Set \<Rightarrow> error + Set" where
  "check_circles [] seen = Inr seen"
| "check_circles (c # cs) seen =
     (if cc_Backends c = [] then Inl ErrEmptyBackends
      else case check_backends (cc_Backends c) seen of
             Inl e \<Rightarrow> Inl e
           | Inr seen' \<Rightarrow> check_circles cs seen')"

definition checkConfig :: "ProxyConfig \<Rightarrow> error option" where
  "checkConfig cfg =
     (if pc_Circles cfg = [] then Some ErrEmptyCircles
      else case check_circles (pc_Circles cfg) (NewSet []) of
             Inl e \<Rightarrow> Some e
           | Inr _ \<Rightarrow>
               if pc_HashKey cfg \<noteq> ''idx'' \<and> pc_HashKey cfg \<noteq> ''exi'' \<and>
                  pc_HashKey cfg \<noteq> ''name'' \<and> pc_HashKey cfg \<noteq> ''url''
               then Some ErrInvalidHashKey else None)"

text \<open>\<open>readInConfig\<close> is the outcome of \<^verbatim>\<open>viper.ReadInConfig\<close>, \<open>unmarshal\<close> the record that
  \<^verbatim>\<open>viper.Unmarshal\<close> leaves in \<^verbatim>\<open>cfg\<close> with its error.\<close>

definition NewFileConfig ::
    "error option \<Rightarrow> ProxyConfig \<times> error option \<Rightarrow> ProxyConfig option \<times> error option" where
  "NewFileConfig readInConfig unmarshal =
     (case readInConfig of
        Some e \<Rightarrow> (None, Some e)
      | None \<Rightarrow>
          (case unmarshal of
             (cfg, Some e) \<Rightarrow> (Some cfg, Some e)
           | (cfg, None) \<Rightarrow> (Some (setDefault cfg), checkConfig (setDefault cfg))))"

section \<open>What the check accepts\<close>

definition backend_names :: "CircleConfig list \<Rightarrow> string list" where
  "backend_names cs = concat (map (\<lambda>c. map bc_Name (cc_Backends c)) cs)"

lemma backend_names_simps [simp]:
  "backend_names [] = []"
  "backend_names (c # cs) = map bc_Name (cc_Backends c) @ backend_names cs"
  by (simp_all add: backend_names_def)

lemma check_backends_Inr:
  "check_backends bs seen = Inr seen' \<longleftrightarrow>
     seen' = fold (\<lambda>n s. Add s n) (map bc_Name bs) seen \<and> '''' \<notin> bc_Name ` set bs \<and>
     distinct (map bc_Name bs) \<and> (\<forall>b \<in> set bs. \<not> Has seen (bc_Name b))"
proof (induction bs arbitrary: seen)
  case (Cons b bs)
  show ?case by (auto simp: Cons.IH) (metis imageI)
qed auto

lemma Has_fold_Add: "Has (fold (\<lambda>n s. Add s n) ns s) k \<longleftrightarrow> k \<in> set ns \<or> Has s k"
  by (induction ns arbitrary: s) auto

lemma check_circles_Inr:
  "(\<exists>seen'. check_circles cs seen = Inr seen') \<longleftrightarrow>
     list_all (\<lambda>c. cc_Backends c \<noteq> []) cs \<and> '''' \<notin> set (backend_names cs) \<and>
     distinct (backend_names cs) \<and> (\<forall>n \<in> set (backend_names cs). \<not> Has seen n)"
proof (induction cs arbitrary: seen)
  case (Cons c cs)
  show ?case
  proof (cases "check_backends (cc_Backends c) seen")
    case (Inl e)
    then have "\<nexists>s. check_backends (cc_Backends c) seen = Inr s" by simp
    then show ?thesis unfolding check_backends_Inr by (auto simp: Inl)
  next
    case (Inr s)
    with check_backends_Inr [of "cc_Backends c" seen s] show ?thesis
      by (auto simp: Cons.IH Has_fold_Add)
  qed
qed simp

text \<open>The configuration check accepts exactly the configurations the proxy can run: at
  least one circle, each circle with at least one backend, all backend names non-empty and
  pairwise different over all circles, and one of the four hash keys.\<close>

theorem checkConfig_ok_iff:
  "checkConfig cfg = None \<longleftrightarrow>
     pc_Circles cfg \<noteq> [] \<and> list_all (\<lambda>c. cc_Backends c \<noteq> []) (pc_Circles cfg) \<and>
     '''' \<notin> set (backend_names (pc_Circles cfg)) \<and> distinct (backend_names (pc_Circles cfg)) \<and>
     pc_HashKey cfg \<in> {''idx'', ''exi'', ''name'', ''url''}"
proof -
  have "(\<exists>s. check_circles (pc_Circles cfg) (NewSet []) = Inr s) \<longleftrightarrow>
     list_all (\<lambda>c. cc_Backends c \<noteq> []) (pc_Circles cfg) \<and>
     '''' \<notin> set (backend_names (pc_Circles cfg)) \<and> distinct (backend_names (pc_Circles cfg))"
    unfolding check_circles_Inr by simp
  then show ?thesis
    by (cases "check_circles (pc_Circles cfg) (NewSet [])") (auto simp: checkConfig_def)
qed

text \<open>A configuration that loads without error has no setting left to chance: every
  interval, size and timeout is positive, the addresses and directories are set, a setting
  that was legal in the file keeps its value, and the check has accepted it.\<close>

theorem NewFileConfig_sound:
  assumes "NewFileConfig readInConfig (raw, err) = (Some cfg, None)"
  shows "list_all (\<lambda>n. 0 < n) [pc_FlushSize cfg, pc_FlushTime cfg, pc_CheckInterval cfg, pc_RewriteInterval cfg,
           pc_ConnPoolSize cfg, pc_WriteTimeout cfg, pc_IdleTimeout cfg] \<and>
         list_all (\<lambda>s. s \<noteq> []) [pc_ListenAddr cfg, pc_DataDir cfg, pc_TLogDir cfg] \<and>
         checkConfig cfg = None \<and> setDefault cfg = cfg \<and> pc_Circles cfg = pc_Circles raw \<and>
         (0 < pc_FlushSize raw \<longrightarrow> pc_FlushSize cfg = pc_FlushSize raw)"
proof -
  from assms have cfg: "cfg = setDefault raw" "checkConfig cfg = None"
    by (auto simp: NewFileConfig_def split: option.splits)
  moreover have "setDefault (setDefault raw) = setDefault raw"
    by (simp add: setDefault_def default_int_def default_string_def)
  ultimately show ?thesis
    by (simp add: setDefault_def default_int_def default_string_def)
qed

definition sample_config :: ProxyConfig where
  "sample_config = \<lparr>pc_Circles = [\<lparr>cc_Name = ''circle-1'', cc_Backends =
       [\<lparr>bc_Name = ''influxdb-1'', bc_Url = ''http://127.0.0.1:8086'', bc_Username = '''', bc_Password = '''',
         bc_AuthEncrypt = False, bc_WriteOnly = False\<rparr>]\<rparr>],
     pc_ListenAddr = '''', pc_DBList = [], pc_DataDir = '''', pc_TLogDir = '''', pc_HashKey = '''',
     pc_FlushSize = 0, pc_FlushTime = 0, pc_CheckInterval = 0, pc_RewriteInterval = 0, pc_ConnPoolSize = 0,
     pc_WriteTimeout = 0, pc_IdleTimeout = 0, pc_Username = '''', pc_Password = '''', pc_AuthEncrypt = False,
     pc_WriteTracing = False, pc_QueryTracing = False, pc_PprofEnabled = False, pc_HTTPSEnabled = False,
     pc_HTTPSCert = '''', pc_HTTPSKey = '''', pc_HashKeyMeasureOnly = False\<rparr>"

theorem NewFileConfig_sound_witness:
  "\<exists>cfg. NewFileConfig None (sample_config, None) = (Some cfg, None) \<and> checkConfig cfg = None \<and>
     setDefault cfg = cfg"
proof -
  have "checkConfig (setDefault sample_config) = None"
    by (simp add: checkConfig_def setDefault_def sample_config_def default_string_def)
  then have ok: "NewFileConfig None (sample_config, None) = (Some (setDefault sample_config), None)"
    by (simp add: NewFileConfig_def)
  with NewFileConfig_sound [OF ok] show ?thesis by blast
qed

end
