(* ===== verification/Cipher.thy ===== *)
theory Cipher
  imports GoStrings
begin

text \<open>
  The encrypted credentials of \<^verbatim>\<open>util/cipher.go\<close>: AES in CBC mode with zero padding, written
  in a base64 alphabet of its own. The block functions of \<^verbatim>\<open>crypto/aes\<close> under the fixed key
  are the parameters \<open>encrypt\<close> and \<open>decrypt\<close> on blocks of sixteen bytes; chaining, padding and
  the base64 coding are written out. The standard base64 alphabet, which basic authentication
  uses, is an instance of the same coder.
\<close>

unbundle bit_operations_syntax

section \<open>Definitions\<close>

subsection \<open>Base64\<close>

fun b64_encode :: "string \<Rightarrow> string \<Rightarrow> bytes \<Rightarrow> string" where
  "b64_encode alpha pad [] = []"
| "b64_encode alpha pad [a] =
     [alpha ! (of_char a div 4), alpha ! (of_char a mod 4 * 16)] @ pad @ pad"
| "b64_encode alpha pad [a, b] =
     [alpha ! (of_char a div 4), alpha ! (of_char a mod 4 * 16 + of_char b div 16),
      alpha ! (of_char b mod 16 * 4)] @ pad"
| "b64_encode alpha pad (a # b # c # r) =
     [alpha ! (of_char a div 4), alpha ! (of_char a mod 4 * 16 + of_char b div 16),
      alpha ! (of_char b mod 16 * 4 + of_char c div 64), alpha ! (of_char c mod 64)] @
     b64_encode alpha pad r"

fun b64_quanta :: "nat list \<Rightarrow> bytes" where
  "b64_quanta (w # x # y # z # r) =
     [char_of (w * 4 + x div 16), char_of (x mod 16 * 16 + y div 4), char_of (y mod 4 * 64 + z)] @
     b64_quanta r"
| "b64_quanta [w, x, y] = [char_of (w * 4 + x div 16), char_of (x mod 16 * 16 + y div 4)]"
| "b64_quanta [w, x] = [char_of (w * 4 + x div 16)]"
| "b64_quanta _ = []"

definition is_newline :: "byte \<Rightarrow> bool" where
  "is_newline c \<longleftrightarrow> c = CHR 0x0A \<or> c = CHR 0x0D"

text \<open>Decoding without padding: line breaks are skipped; the error is the index of the first
  byte outside the alphabet, or the last index when a single digit is left over.\<close>

definition b64_decode :: "string \<Rightarrow> string \<Rightarrow> nat + bytes" where
  "b64_decode alpha s =
     (case find (\<lambda>i. IndexByte alpha (s ! i) = None \<and> \<not> is_newline (s ! i)) [0..<length s] of
        Some i \<Rightarrow> Inl i
      | None \<Rightarrow>
          let ds = map (\<lambda>c. the (IndexByte alpha c)) (filter (\<lambda>c. \<not> is_newline c) s)
          in if length ds mod 4 = 1 then Inl (length s - 1) else Inr (b64_quanta ds))"

definition encodeURL :: string where
  "encodeURL = ''ABCDEFGHIJKLMNOPQRSTUVWXYZabcdefghijklmnopqrstuvwxyz0123456789_!''"

definition encodeStd :: string where
  "encodeStd = ''ABCDEFGHIJKLMNOPQRSTUVWXYZabcdefghijklmnopqrstuvwxyz0123456789+/''"

subsection \<open>CBC and padding\<close>

definition cipherKey :: bytes where
  "cipherKey = ''consistentcipher''"

definition CheckCipherKey :: "string \<Rightarrow> bool" where
  "CheckCipherKey key \<longleftrightarrow> key = cipherKey"

definition iv :: bytes where
  "iv = take 16 cipherKey"

definition xor_byte :: "byte \<Rightarrow> byte \<Rightarrow> byte" where
  "xor_byte a b = char_of ((of_char a :: nat) XOR of_char b)"

definition xor_block :: "bytes \<Rightarrow> bytes \<Rightarrow> bytes" where
  "xor_block x y = map2 xor_byte x y"

function cbc_encrypt :: "(bytes \<Rightarrow> bytes) \<Rightarrow> bytes \<Rightarrow> bytes \<Rightarrow> bytes" where
  "cbc_encrypt enc prev src =
     (if src = [] then []
      else let c = enc (xor_block prev (take 16 src)) in c @ cbc_encrypt enc c (drop 16 src))"
  by pat_completeness auto
termination
  by (relation "measure (\<lambda>(enc, prev, src). length src)") auto

function cbc_decrypt :: "(bytes \<Rightarrow> bytes) \<Rightarrow> bytes \<Rightarrow> bytes \<Rightarrow> bytes" where
  "cbc_decrypt dec prev src =
     (if src = [] then []
      else xor_block prev (dec (take 16 src)) @ cbc_decrypt dec (take 16 src) (drop 16 src))"
  by pat_completeness auto
termination
  by (relation "measure (\<lambda>(dec, prev, src). length src)") auto

declare cbc_encrypt.simps [simp del] cbc_decrypt.simps [simp del]

definition padding :: "bytes \<Rightarrow> nat \<Rightarrow> bytes" where
  "padding data blockSize =
     (let num = ((length data - 1) div blockSize + 1) * blockSize - length data
      in data @ replicate num (CHR 0x00))"

definition unpadding :: "bytes \<Rightarrow> bytes" where
  "unpadding data = Trim data [CHR 0x00]"

definition AesEncrypt :: "(bytes \<Rightarrow> bytes) \<Rightarrow> string \<Rightarrow> string" where
  "AesEncrypt encrypt origin =
     (if origin = [] then []
      else b64_encode encodeURL [] (cbc_encrypt encrypt iv (padding origin 16)))"

definition AesDecrypt :: "(bytes \<Rightarrow> bytes) \<Rightarrow> string \<Rightarrow> string" where
  "AesDecrypt decrypt encrypted =
     (if encrypted = [] then []
      else case b64_decode encodeURL encrypted of
             Inl i \<Rightarrow> ''illegal base64 data at input byte '' @ Itoa (int i)
           | Inr encryptBytes \<Rightarrow>
               if length encryptBytes mod 16 \<noteq> 0 then ''crypto/cipher: input not full blocks''
               else unpadding (cbc_decrypt decrypt iv encryptBytes))"

section \<open>Base64 decoding undoes encoding\<close>

text \<open>What the coder needs of an alphabet.\<close>

definition alphabet :: "string \<Rightarrow> bool" where
  "alphabet alpha \<longleftrightarrow> length alpha = 64 \<and> distinct alpha \<and> \<not> list_ex is_newline alpha"

lemma alphabet_encodeURL: "alphabet encodeURL"
  by (simp add: alphabet_def encodeURL_def is_newline_def)

lemma alphabet_encodeStd: "alphabet encodeStd"
  by (simp add: alphabet_def encodeStd_def is_newline_def)

lemma IndexByte_nth: "distinct s \<Longrightarrow> i < length s \<Longrightarrow> IndexByte s (s ! i) = Some i"
proof (induction s arbitrary: i)
  case (Cons c s)
  then show ?case by (cases i) (auto simp: nth_Cons')
qed simp

fun b64_digits :: "bytes \<Rightarrow> nat list" where
  "b64_digits [] = []"
| "b64_digits [a] = [of_char a div 4, of_char a mod 4 * 16]"
| "b64_digits [a, b] =
     [of_char a div 4, of_char a mod 4 * 16 + of_char b div 16, of_char b mod 16 * 4]"
| "b64_digits (a # b # c # r) =
     [of_char a div 4, of_char a mod 4 * 16 + of_char b div 16,
      of_char b mod 16 * 4 + of_char c div 64, of_char c mod 64] @ b64_digits r"

lemma b64_encode_digits: "b64_encode alpha [] s = map ((!) alpha) (b64_digits s)"
  by (induction s rule: b64_digits.induct) simp_all

lemma of_char_bounds:
  "(of_char c :: nat) div 4 < 64" "(of_char c :: nat) div 16 < 16" "(of_char c :: nat) div 64 < 4"
proof -
  have "(of_char c :: nat) < 256" by (rule nat_of_char_less_256)
  then show "(of_char c :: nat) div 4 < 64" "(of_char c :: nat) div 16 < 16" "(of_char c :: nat) div 64 < 4"
    by linarith+
qed

lemma digit_bounds:
  "(of_char a :: nat) mod 4 * 16 + of_char b div 16 < 64" "(of_char b :: nat) mod 16 * 4 + of_char c div 64 < 64"
proof -
  have "(of_char a :: nat) mod 4 < 4" "(of_char b :: nat) mod 16 < 16" by simp_all
  with of_char_bounds(2) [of b] of_char_bounds(3) [of c]
  show "(of_char a :: nat) mod 4 * 16 + of_char b div 16 < 64" "(of_char b :: nat) mod 16 * 4 + of_char c div 64 < 64"
    by linarith+
qed

lemma b64_digits_lt: "d \<in> set (b64_digits s) \<Longrightarrow> d < 64"
proof (induction s rule: b64_digits.induct)
  case (4 a b c r)
  then show ?case
    using of_char_bounds [of a] digit_bounds [of a b] digit_bounds [of b c] by auto
next
  case (2 a)
  then show ?case using of_char_bounds [of a] by auto
next
  case (3 a b)
  then show ?case using of_char_bounds [of a] digit_bounds [of a b] by auto
qed simp

lemma b64_digits_length: "length (b64_digits s) mod 4 \<noteq> 1"
  by (induction s rule: b64_digits.induct) auto

lemma join_bits:
  fixes a b c :: nat
  shows "a div 4 * 4 + (a mod 4 * 16) div 16 = a"
    "b < 256 \<Longrightarrow> a div 4 * 4 + (a mod 4 * 16 + b div 16) div 16 = a"
    "b < 256 \<Longrightarrow> (a mod 4 * 16 + b div 16) mod 16 * 16 + (b mod 16 * 4) div 4 = b"
    "b < 256 \<Longrightarrow> c < 256 \<Longrightarrow> (a mod 4 * 16 + b div 16) mod 16 * 16 + (b mod 16 * 4 + c div 64) div 4 = b"
    "c < 256 \<Longrightarrow> (b mod 16 * 4 + c div 64) mod 4 * 64 + c mod 64 = c"
proof -
  have b16: "b div 16 < 16" if "b < 256" using that by linarith
  have c64: "c div 64 < 4" if "c < 256" using that by linarith
  have q: "(x * k + y) div k = x" "(x * k + y) mod k = y" if "y < k" for x y k :: nat
    using that by simp_all
  show "a div 4 * 4 + (a mod 4 * 16) div 16 = a" by simp
  show "b < 256 \<Longrightarrow> a div 4 * 4 + (a mod 4 * 16 + b div 16) div 16 = a"
    using b16 by (simp only: q(1) div_mult_mod_eq)
  show "b < 256 \<Longrightarrow> (a mod 4 * 16 + b div 16) mod 16 * 16 + (b mod 16 * 4) div 4 = b"
    using b16 by (simp only: q(2)) simp
  show "b < 256 \<Longrightarrow> c < 256 \<Longrightarrow> (a mod 4 * 16 + b div 16) mod 16 * 16 + (b mod 16 * 4 + c div 64) div 4 = b"
    using b16 c64 by (simp only: q div_mult_mod_eq)
  show "c < 256 \<Longrightarrow> (b mod 16 * 4 + c div 64) mod 4 * 64 + c mod 64 = c"
    using c64 by (simp only: q(2) div_mult_mod_eq)
qed

lemma b64_quanta_digits: "b64_quanta (b64_digits s) = s"
  by (induction s rule: b64_digits.induct) (simp_all only: b64_digits.simps b64_quanta.simps
      append.simps join_bits nat_of_char_less_256 char_of_char)

lemma b64_decode_encode:
  assumes "alphabet alpha"
  shows "b64_decode alpha (b64_encode alpha [] s) = Inr s"
proof -
  let ?ds = "b64_digits s"
  let ?t = "map ((!) alpha) ?ds"
  from assms have al: "length alpha = 64" "distinct alpha" "\<And>c. c \<in> set alpha \<Longrightarrow> \<not> is_newline c"
    by (auto simp: alphabet_def list_ex_iff)
  have digit: "IndexByte alpha (alpha ! d) = Some d \<and> \<not> is_newline (alpha ! d)" if "d \<in> set ?ds" for d
    using al IndexByte_nth [of alpha d] b64_digits_lt [OF that] by simp
  have "find (\<lambda>i. IndexByte alpha (?t ! i) = None \<and> \<not> is_newline (?t ! i)) [0..<length ?t] = None"
    using digit by (auto simp: find_None_iff)
  moreover have "filter (\<lambda>c. \<not> is_newline c) ?t = ?t"
    using digit by (auto simp: filter_id_conv)
  moreover have "map (\<lambda>c. the (IndexByte alpha c)) ?t = ?ds"
    using digit by (simp add: map_idI)
  ultimately show ?thesis
    using b64_digits_length [of s]
    by (simp only: b64_decode_def b64_encode_digits Let_def b64_quanta_digits option.case length_map
        if_False length_map)
qed

section \<open>Decryption undoes encryption\<close>

lemma xor_nat_256: "a < 256 \<Longrightarrow> b < 256 \<Longrightarrow> a XOR b < (256 :: nat)"
  using take_bit_xor [of 8 a b] take_bit_nat_eq_self_iff [of 8 a] take_bit_nat_eq_self_iff [of 8 b]
    take_bit_nat_eq_self_iff [of 8 "a XOR b"] by simp

lemma xor_byte_twice [simp]: "xor_byte a (xor_byte a b) = b"
  by (simp add: xor_byte_def xor_nat_256 flip: xor.assoc)

lemma length_xor_block [simp]: "length (xor_block x y) = min (length x) (length y)"
  by (simp add: xor_block_def)

lemma xor_block_twice: "length y \<le> length x \<Longrightarrow> xor_block x (xor_block x y) = y"
  by (simp add: xor_block_def list_eq_iff_nth_eq)

text \<open>What \<^verbatim>\<open>crypto/aes\<close> promises of its block functions.\<close>

definition block_inverse :: "(bytes \<Rightarrow> bytes) \<Rightarrow> (bytes \<Rightarrow> bytes) \<Rightarrow> bool" where
  "block_inverse encrypt decrypt \<longleftrightarrow>
     (\<forall>b. length b = 16 \<longrightarrow> length (encrypt b) = 16 \<and> decrypt (encrypt b) = b)"

lemma cbc_roundtrip:
  assumes "block_inverse encrypt decrypt" "length prev = 16" "length src = 16 * n"
  shows "cbc_decrypt decrypt prev (cbc_encrypt encrypt prev src) = src \<and>
         length (cbc_encrypt encrypt prev src) = 16 * n"
  using assms(2,3)
proof (induction n arbitrary: prev src)
  case 0
  then show ?case by (simp add: cbc_encrypt.simps cbc_decrypt.simps)
next
  case (Suc n)
  let ?x = "xor_block prev (take 16 src)"
  from Suc.prems have x: "length ?x = 16" "src \<noteq> []" by auto
  with assms(1) have enc: "length (encrypt ?x) = 16" "decrypt (encrypt ?x) = ?x"
    by (auto simp: block_inverse_def)
  have step: "cbc_encrypt encrypt prev src = encrypt ?x @ cbc_encrypt encrypt (encrypt ?x) (drop 16 src)"
    using x by (subst cbc_encrypt.simps) (simp add: Let_def)
  from Suc.prems Suc.IH [OF enc(1), of "drop 16 src"]
  have IH: "cbc_decrypt decrypt (encrypt ?x) (cbc_encrypt encrypt (encrypt ?x) (drop 16 src)) = drop 16 src"
    "length (cbc_encrypt encrypt (encrypt ?x) (drop 16 src)) = 16 * n" by auto
  have "cbc_decrypt decrypt prev (cbc_encrypt encrypt prev src) = xor_block prev ?x @ drop 16 src"
    unfolding step using enc IH(1) by (subst cbc_decrypt.simps) auto
  also have "xor_block prev ?x = take 16 src"
    using Suc.prems by (intro xor_block_twice) auto
  finally show ?case using step enc IH(2) by simp
qed

lemma padding_blocks: "\<exists>n. length (padding data 16) = 16 * n"
proof -
  have "length data \<le> ((length data - 1) div 16 + 1) * 16" by presburger
  then have "length (padding data 16) = ((length data - 1) div 16 + 1) * 16"
    by (simp add: padding_def Let_def)
  then show ?thesis by (metis mult.commute)
qed

lemma unpadding_padding: "unpadding (padding data n) = Trim data [CHR 0x00]"
proof -
  have "TrimRight (s @ replicate k (CHR 0x00)) [CHR 0x00] = TrimRight s [CHR 0x00]" for s k
    by (induction k) (simp_all add: TrimRight_def replicate_app_Cons_same)
  moreover have "TrimLeft (s @ replicate k (CHR 0x00)) [CHR 0x00] =
      (if TrimLeft s [CHR 0x00] = [] then [] else TrimLeft s [CHR 0x00] @ replicate k (CHR 0x00))" for s k
    by (induction s) (auto simp: TrimLeft_def)
  ultimately show ?thesis
    by (auto simp: unpadding_def padding_def Trim_def Let_def TrimRight_def)
qed

text \<open>C40: credentials survive encryption, up to NUL bytes. Decrypting what
  \<^verbatim>\<open>AesEncrypt\<close> produced gives the text back without its leading and trailing NUL bytes,
  whatever block cipher is used, as long as its decryption inverts its encryption on
  blocks of sixteen bytes.\<close>

theorem AesDecrypt_AesEncrypt:
  assumes "block_inverse encrypt decrypt"
  shows "AesDecrypt decrypt (AesEncrypt encrypt s) = Trim s [CHR 0x00]"
proof (cases "s = []")
  case True
  then show ?thesis by (simp add: AesDecrypt_def AesEncrypt_def Trim_def TrimLeft_def TrimRight_def)
next
  case False
  obtain n where n: "length (padding s 16) = 16 * n" using padding_blocks by blast
  let ?c = "cbc_encrypt encrypt iv (padding s 16)"
  have "length iv = 16" by (simp add: iv_def cipherKey_def)
  from cbc_roundtrip [OF assms this n]
  have c: "cbc_decrypt decrypt iv ?c = padding s 16" "length ?c = 16 * n" by auto
  have "padding s 16 \<noteq> []" using False by (simp add: padding_def Let_def)
  with n c have "?c \<noteq> []" by force
  then have "b64_encode encodeURL [] ?c \<noteq> []"
    by (cases ?c rule: b64_digits.cases) auto
  with False c show ?thesis
    by (simp add: AesDecrypt_def AesEncrypt_def b64_decode_encode [OF alphabet_encodeURL] unpadding_padding)
qed

theorem AesDecrypt_AesEncrypt_witness:
  "AesDecrypt rev (AesEncrypt rev ''admin'') = ''admin''"
proof -
  have "block_inverse rev rev" by (simp add: block_inverse_def)
  then have "AesDecrypt rev (AesEncrypt rev ''admin'') = Trim ''admin'' [CHR 0x00]"
    by (rule AesDecrypt_AesEncrypt)
  then show ?thesis by (simp add: Trim_def TrimLeft_def TrimRight_def)
qed

end
