(* ===== verification/Result.thy ===== *)
theory Result
  imports Prelude
begin

text \<open>
  The answers of an InfluxDB server, \<^verbatim>\<open>backend/result.go\<close>. A JSON value is a \<open>json\<close>
  (numbers are decoded with \<^verbatim>\<open>UseNumber\<close>, so they keep their text); a row is the
  \<^verbatim>\<open>models.Row\<close> of the client library. The JSON decoder is the \<^verbatim>\<open>jsoniter\<close> package: what it
  leaves in the response, with its error, is the parameter \<open>unmarshal\<close>. A Go slice that is
  \<^verbatim>\<open>nil\<close> is the empty list.
\<close>

datatype json = JNull | JBool bool | JNumber string | JString string
  | JArray "json list" | JObject "(string \<times> json) list"

record Row =
  row_Name :: string
  row_Tags :: "(string, string) gomap"
  row_Columns :: "string list"
  row_Values :: "json list list"
  row_Partial :: bool

record Message =
  msg_Level :: string
  msg_Text :: string

record Result =
  res_StatementID :: int
  res_Series :: "Row list"
  res_Messages :: "Message list"
  res_Partial :: bool
  res_Err :: string

record Response =
  rsp_Results :: "Result list"
  rsp_Err :: string

type_synonym unmarshaller = "bytes \<Rightarrow> Response \<times> error option"

definition SeriesFromResponseBytes :: "unmarshaller \<Rightarrow> bytes \<Rightarrow> Row list \<times> error option" where
  "SeriesFromResponseBytes unmarshal b =
     (let (rsp, e) = unmarshal b in
      if e = None \<and> rsp_Results rsp \<noteq> [] \<and> res_Series (hd (rsp_Results rsp)) \<noteq> []
      then (res_Series (hd (rsp_Results rsp)), e) else ([], e))"

definition ResultsFromResponseBytes :: "unmarshaller \<Rightarrow> bytes \<Rightarrow> Result list \<times> error option" where
  "ResultsFromResponseBytes unmarshal b =
     (let (rsp, e) = unmarshal b in
      if e = None \<and> rsp_Results rsp \<noteq> [] then (rsp_Results rsp, e) else ([], e))"

definition ResponseFromResponseBytes :: "unmarshaller \<Rightarrow> bytes \<Rightarrow> Response \<times> error option" where
  "ResponseFromResponseBytes unmarshal b = unmarshal b"

definition ResponseFromSeries :: "Row list \<Rightarrow> Response" where
  "ResponseFromSeries series =
     \<lparr>rsp_Results = [\<lparr>res_StatementID = 0, res_Series = series, res_Messages = [], res_Partial = False,
                      res_Err = ''''\<rparr>], rsp_Err = ''''\<rparr>"

definition ResponseFromResults :: "Result list \<Rightarrow> Response" where
  "ResponseFromResults results = \<lparr>rsp_Results = results, rsp_Err = ''''\<rparr>"

definition ResponseFromError :: "string \<Rightarrow> Response" where
  "ResponseFromError err = \<lparr>rsp_Results = [], rsp_Err = err\<rparr>"

text \<open>The type assertion \<^verbatim>\<open>v[i].(string)\<close> on a row of values: a panic where there is no such
  value or it is no string.\<close>

definition string_at :: "json list \<Rightarrow> nat \<Rightarrow> string option" where
  "string_at v i = (case byte_at v i of Some (JString s) \<Rightarrow> Some s | _ \<Rightarrow> None)"

lemma string_at_0 [simp]: "string_at (JString s # v) 0 = Some s"
  by (simp add: string_at_def byte_at_def)

lemma SeriesFromResponseBytes_error:
  "SeriesFromResponseBytes u b = (series, Some e) \<Longrightarrow> series = [] \<and> snd (u b) = Some e"
  by (auto simp: SeriesFromResponseBytes_def Let_def split: prod.splits if_splits)

lemma SeriesFromResponseBytes_ok:
  "u b = (rsp, None) \<Longrightarrow>
   SeriesFromResponseBytes u b = ((case rsp_Results rsp of [] \<Rightarrow> [] | r # _ \<Rightarrow> res_Series r), None)"
  by (auto simp: SeriesFromResponseBytes_def split: list.splits)

end
