(* ===== verification/Http_Backend.thy ===== *)
theory Http_Backend
  imports Util Config Cipher Result "HOL-Library.Char_ord" "HOL-Library.List_Lexorder"
begin

text \<open>
  The HTTP side of a backend, \<^verbatim>\<open>backend/http.go\<close>: requests and their headers, the flags of a
  backend, writing, querying and the convenience queries. The network and the libraries
  are an environment \<open>http_env\<close> (the HTTP client and transport, gzip, URL parsing, JSON
  decoding, the AES block function), an argument of each operation. A panic is \<open>None\<close>.
\<close>

section \<open>Requests, responses and the environment\<close>

type_synonym go_values = "(string, string list) gomap"

record Request =
  rq_Method :: string
  rq_URL :: string
  rq_Form :: go_values
  rq_Header :: go_values
  rq_Body :: bytes

text \<open>The outcome of reading the body, \<^verbatim>\<open>ioutil.ReadAll(resp.Body)\<close>, comes with the response.\<close>

record HttpResponse =
  rs_StatusCode :: int
  rs_Header :: go_values
  rs_Body :: "error + bytes"

record http_env =
  he_do :: "Request \<Rightarrow> error + HttpResponse"
  he_RoundTrip :: "Request \<Rightarrow> error + HttpResponse"
  he_parse :: "string \<Rightarrow> error option"
  he_gzip :: "bytes \<Rightarrow> bytes \<times> nat \<times> error option"
  he_gunzip :: "bytes \<Rightarrow> error + bytes"
  he_unmarshal :: unmarshaller
  he_decrypt :: "bytes \<Rightarrow> bytes"

text \<open>A \<^verbatim>\<open>http.ResponseWriter\<close>: the first status counts, the body grows. Whether the
  peer still reads (\<open>rw_fail\<close>) is not in the hands of the program.\<close>

record Writer =
  rw_Header :: go_values
  rw_Status :: "int option"
  rw_Body :: bytes
  rw_fail :: "error option"

definition new_writer :: Writer where
  "new_writer = \<lparr>rw_Header = [], rw_Status = None, rw_Body = [], rw_fail = None\<rparr>"

definition WriteHeader :: "Writer \<Rightarrow> int \<Rightarrow> Writer" where
  "WriteHeader w code = (if rw_Status w = None then w\<lparr>rw_Status := Some code\<rparr> else w)"

definition WriteBody :: "Writer \<Rightarrow> bytes \<Rightarrow> Writer \<times> error option" where
  "WriteBody w p =
     (let w' = WriteHeader w 200 in
      case rw_fail w of None \<Rightarrow> (w'\<lparr>rw_Body := rw_Body w' @ p\<rparr>, None) | Some e \<Rightarrow> (w', Some e))"

text \<open>\<^verbatim>\<open>url.Values\<close> and \<^verbatim>\<open>http.Header\<close>: setting, the first value, and the query string with
  its keys in order.\<close>

definition values_get :: "go_values \<Rightarrow> string \<Rightarrow> string" where
  "values_get vs k = (case map_get vs k of Some (v # _) \<Rightarrow> v | _ \<Rightarrow> '''')"

definition Encode :: "go_values \<Rightarrow> string" where
  "Encode vs =
     Join (concat (map (\<lambda>k. map (\<lambda>v. QueryEscape k @ ''='' @ QueryEscape v) (the (map_get vs k)))
                       (sort (map_keys vs)))) ''&''"

definition FormValue :: "Request \<Rightarrow> string \<Rightarrow> string" where
  "FormValue req k = values_get (rq_Form req) k"

section \<open>Definitions\<close>

text \<open>The texts of the errors of \<^verbatim>\<open>http.go\<close>.\<close>

definition http_Error :: "error \<Rightarrow> string option" where
  "http_Error e =
     (case e of
        ErrBadRequest \<Rightarrow> Some ''bad request''
      | ErrUnauthorized \<Rightarrow> Some ''unauthorized''
      | ErrNotFound \<Rightarrow> Some ''not found''
      | ErrInternal \<Rightarrow> Some ''internal error''
      | ErrUnknown \<Rightarrow> Some ''unknown error''
      | _ \<Rightarrow> None)"

record QueryResult =
  qr_Header :: go_values
  qr_Status :: int
  qr_Body :: bytes
  qr_Err :: "error option"

text \<open>A client is known by its \<^verbatim>\<open>InsecureSkipVerify\<close> flag and its timeout; the simple backend
  has none. The \<^verbatim>\<open>atomic.Value\<close> flags are fields.\<close>

record HttpBackend =
  hb_client :: "(bool \<times> int) option"
  hb_transport :: bool
  hb_Name :: string
  hb_Url :: string
  hb_username :: string
  hb_password :: string
  hb_authEncrypt :: bool
  hb_interval :: int
  hb_running :: bool
  hb_active :: bool
  hb_rewriting :: bool
  hb_transferIn :: bool
  hb_writeOnly :: bool

definition NewSimpleHttpBackend :: "BackendConfig \<Rightarrow> HttpBackend" where
  "NewSimpleHttpBackend cfg =
     \<lparr>hb_client = None, hb_transport = HasPrefix (bc_Url cfg) ''https'', hb_Name = bc_Name cfg,
      hb_Url = bc_Url cfg, hb_username = bc_Username cfg, hb_password = bc_Password cfg,
      hb_authEncrypt = bc_AuthEncrypt cfg, hb_interval = 0, hb_running = True, hb_active = True,
      hb_rewriting = False, hb_transferIn = False, hb_writeOnly = bc_WriteOnly cfg\<rparr>"

definition NewHttpBackend :: "BackendConfig \<Rightarrow> ProxyConfig \<Rightarrow> HttpBackend" where
  "NewHttpBackend cfg pxcfg = (NewSimpleHttpBackend cfg)
     \<lparr>hb_client := Some (HasPrefix (bc_Url cfg) ''https'', pc_WriteTimeout pxcfg),
      hb_interval := pc_CheckInterval pxcfg\<rparr>"

definition NewQueryRequest :: "string \<Rightarrow> string \<Rightarrow> string \<Rightarrow> string \<Rightarrow> Request" where
  "NewQueryRequest meth db q epoch =
     (let form = map_set ''q'' [q] [];
          form = (if db \<noteq> '''' then map_set ''db'' [db] form else form);
          form = (if epoch \<noteq> '''' then map_set ''epoch'' [epoch] form else form)
      in \<lparr>rq_Method = meth, rq_URL = '''', rq_Form = form,
          rq_Header = [(''Accept-Encoding'', [''gzip''])], rq_Body = []\<rparr>)"

definition CloneQueryRequest :: "Request \<Rightarrow> Request" where
  "CloneQueryRequest r = r\<lparr>rq_Body := []\<rparr>"

definition Compress :: "http_env \<Rightarrow> bytes \<Rightarrow> bytes \<times> error option" where
  "Compress env p =
     (case he_gzip env p of
        (buf, n, Some e) \<Rightarrow> (buf, Some e)
      | (buf, n, None) \<Rightarrow> (buf, if n \<noteq> length p then Some ErrShortWrite else None))"

text \<open>\<^verbatim>\<open>CopyHeader\<close> sets one value after the other: of several values the last one stays.\<close>

definition CopyHeader :: "go_values \<Rightarrow> go_values \<Rightarrow> go_values" where
  "CopyHeader dst src = fold (\<lambda>(k, vv) d. fold (\<lambda>v. map_set k [v]) vv d) src dst"

definition basic_auth :: "string \<Rightarrow> string \<Rightarrow> string" where
  "basic_auth username password =
     ''Basic '' @ b64_encode encodeStd ''='' (username @ '':'' @ password)"

definition SetBasicAuth :: "http_env \<Rightarrow> Request \<Rightarrow> string \<Rightarrow> string \<Rightarrow> bool \<Rightarrow> Request" where
  "SetBasicAuth env req username password authEncrypt =
     (let auth = (if authEncrypt
                  then basic_auth (AesDecrypt (he_decrypt env) username) (AesDecrypt (he_decrypt env) password)
                  else basic_auth username password)
      in req\<lparr>rq_Header := map_set ''Authorization'' [auth] (rq_Header req)\<rparr>)"

definition hb_SetBasicAuth :: "http_env \<Rightarrow> HttpBackend \<Rightarrow> Request \<Rightarrow> Request" where
  "hb_SetBasicAuth env hb req =
     SetBasicAuth env req (hb_username hb) (hb_password hb) (hb_authEncrypt hb)"

definition SetTokenAuth :: "http_env \<Rightarrow> HttpBackend \<Rightarrow> Request \<Rightarrow> Request" where
  "SetTokenAuth env hb req =
     (let auth = (if hb_authEncrypt hb
                  then ''Token '' @ AesDecrypt (he_decrypt env) (hb_username hb) @ '':'' @
                       AesDecrypt (he_decrypt env) (hb_password hb)
                  else ''Token '' @ hb_username hb @ '':'' @ hb_password hb)
      in req\<lparr>rq_Header := map_set ''Authorization'' [auth] (rq_Header req)\<rparr>)"

definition has_credentials :: "HttpBackend \<Rightarrow> bool" where
  "has_credentials hb \<longleftrightarrow> hb_username hb \<noteq> '''' \<or> hb_password hb \<noteq> ''''"

text \<open>The flags.\<close>

definition IsActive :: "HttpBackend \<Rightarrow> bool" where
  "IsActive hb = hb_active hb"

definition IsRewriting :: "HttpBackend \<Rightarrow> bool" where
  "IsRewriting hb = hb_rewriting hb"

definition SetRewriting :: "HttpBackend \<Rightarrow> bool \<Rightarrow> HttpBackend" where
  "SetRewriting hb b = hb\<lparr>hb_rewriting := b\<rparr>"

definition SetTransferIn :: "HttpBackend \<Rightarrow> bool \<Rightarrow> HttpBackend" where
  "SetTransferIn hb b = hb\<lparr>hb_transferIn := b\<rparr>"

definition IsWriteOnly :: "HttpBackend \<Rightarrow> bool" where
  "IsWriteOnly hb \<longleftrightarrow> hb_writeOnly hb \<or> hb_transferIn hb"

definition hb_Close :: "HttpBackend \<Rightarrow> HttpBackend" where
  "hb_Close hb = hb\<lparr>hb_running := False\<rparr>"

definition plain_request :: "string \<Rightarrow> string \<Rightarrow> bytes \<Rightarrow> Request" where
  "plain_request meth url body =
     \<lparr>rq_Method = meth, rq_URL = url, rq_Form = [], rq_Header = [], rq_Body = body\<rparr>"

text \<open>\<^verbatim>\<open>hb.client\<close> is a pointer; using a nil client panics.\<close>

definition Ping :: "http_env \<Rightarrow> HttpBackend \<Rightarrow> bool option" where
  "Ping env hb =
     (if hb_client hb = None then None
      else case he_do env (plain_request ''GET'' (hb_Url hb @ ''/ping'') []) of
             Inl e \<Rightarrow> Some False
           | Inr resp \<Rightarrow> Some (rs_StatusCode resp = 204))"

text \<open>One round of the loop of \<^verbatim>\<open>CheckActive\<close>.\<close>

definition CheckActive :: "http_env \<Rightarrow> HttpBackend \<Rightarrow> HttpBackend option" where
  "CheckActive env hb =
     (if hb_running hb then map_option (\<lambda>b. hb\<lparr>hb_active := b\<rparr>) (Ping env hb) else Some hb)"

subsection \<open>Writing\<close>

definition write_request :: "http_env \<Rightarrow> HttpBackend \<Rightarrow> string \<Rightarrow> string \<Rightarrow> bytes \<Rightarrow> bool \<Rightarrow> Request" where
  "write_request env hb db rp stream compressed =
     (let q = map_set ''rp'' [rp] (map_set ''db'' [db] []);
          req = plain_request ''POST'' (hb_Url hb @ ''/write?'' @ Encode q) stream;
          req = (if has_credentials hb then hb_SetBasicAuth env hb req else req)
      in if compressed then req\<lparr>rq_Header := map_set ''Content-Encoding'' [''gzip''] (rq_Header req)\<rparr>
         else req)"

definition write_error :: "int \<Rightarrow> bytes \<Rightarrow> error" where
  "write_error status respbuf =
     (if Index respbuf ''retention policy not found'' \<noteq> None then ErrBadRequest
      else if status = 400 then ErrBadRequest
      else if status = 401 then ErrUnauthorized
      else if status = 404 then ErrNotFound
      else if status = 500 then ErrInternal
      else ErrUnknown)"

text \<open>The error of \<^verbatim>\<open>http.NewRequest\<close> is overwritten without a look; the nil request it comes
  with is then used, a panic.\<close>

definition WriteStream ::
    "http_env \<Rightarrow> HttpBackend \<Rightarrow> string \<Rightarrow> string \<Rightarrow> bytes \<Rightarrow> bool \<Rightarrow> (HttpBackend \<times> error option) option" where
  "WriteStream env hb db rp stream compressed =
     (let req = write_request env hb db rp stream compressed in
      if he_parse env (rq_URL req) \<noteq> None \<or> hb_client hb = None then None
      else Some (case he_do env req of
          Inl e \<Rightarrow> (hb\<lparr>hb_active := False\<rparr>, Some e)
        | Inr resp \<Rightarrow>
            if rs_StatusCode resp = 204 then (hb, None)
            else case rs_Body resp of
                   Inl e \<Rightarrow> (hb, Some e)
                 | Inr respbuf \<Rightarrow> (hb, Some (write_error (rs_StatusCode resp) respbuf))))"

definition hb_Write ::
    "http_env \<Rightarrow> HttpBackend \<Rightarrow> string \<Rightarrow> string \<Rightarrow> bytes \<Rightarrow> (HttpBackend \<times> error option) option" where
  "hb_Write env hb db rp p =
     (case Compress env p of
        (buf, Some e) \<Rightarrow> Some (hb, Some e)
      | (buf, None) \<Rightarrow> WriteStream env hb db rp buf True)"

definition WriteCompressed ::
    "http_env \<Rightarrow> HttpBackend \<Rightarrow> string \<Rightarrow> string \<Rightarrow> bytes \<Rightarrow> (HttpBackend \<times> error option) option" where
  "WriteCompressed env hb db rp p = WriteStream env hb db rp p True"

subsection \<open>Querying\<close>

text \<open>The request that \<^verbatim>\<open>Query\<close> and \<^verbatim>\<open>ReadProm\<close> send. It is the caller's request, changed in
  place, so it comes back with the result.\<close>

definition query_request :: "http_env \<Rightarrow> HttpBackend \<Rightarrow> string \<Rightarrow> Request \<Rightarrow> Request" where
  "query_request env hb path req0 =
     (let req = req0\<lparr>rq_Form := map_del ''p'' (map_del ''u'' (rq_Form req0))\<rparr>;
          req = (if has_credentials hb then hb_SetBasicAuth env hb req else req)
      in req\<lparr>rq_URL := hb_Url hb @ path @ Encode (rq_Form req)\<rparr>)"

text \<open>The common tail of \<^verbatim>\<open>ReadProm\<close> and \<^verbatim>\<open>QueryFlux\<close>: the answer goes to the client as it is.\<close>

definition forward :: "http_env \<Rightarrow> Request \<Rightarrow> Writer \<Rightarrow> Writer \<times> error option" where
  "forward env req w =
     (case he_RoundTrip env req of
        Inl e \<Rightarrow> (w, Some e)
      | Inr resp \<Rightarrow>
          let w = w\<lparr>rw_Header := CopyHeader (rw_Header w) (rs_Header resp)\<rparr>
          in case rs_Body resp of
               Inl e \<Rightarrow> (w, Some e)
             | Inr p \<Rightarrow> WriteBody (WriteHeader w (rs_StatusCode resp)) p)"

definition hb_ReadProm ::
    "http_env \<Rightarrow> HttpBackend \<Rightarrow> Request \<Rightarrow> Writer \<Rightarrow> Request \<times> Writer \<times> error option" where
  "hb_ReadProm env hb req0 w =
     (let req = query_request env hb ''/api/v1/prom/read?'' req0 in
      case he_parse env (rq_URL req) of
        Some e \<Rightarrow> (req, w, Some e)
      | None \<Rightarrow> (req, forward env req w))"

definition hb_QueryFlux ::
    "http_env \<Rightarrow> HttpBackend \<Rightarrow> Request \<Rightarrow> Writer \<Rightarrow> Request \<times> Writer \<times> error option" where
  "hb_QueryFlux env hb req0 w =
     (let req = (if has_credentials hb then SetTokenAuth env hb req0 else req0);
          req = req\<lparr>rq_URL := hb_Url hb @ ''/api/v2/query''\<rparr>
      in case he_parse env (rq_URL req) of
           Some e \<Rightarrow> (req, w, Some e)
         | None \<Rightarrow> (req, forward env req w))"

definition HeaderQueryOrigin :: string where "HeaderQueryOrigin = ''Query-Origin''"
definition QueryParallel :: string where "QueryParallel = ''Parallel''"

definition empty_result :: QueryResult where
  "empty_result = \<lparr>qr_Header = [], qr_Status = 0, qr_Body = [], qr_Err = None\<rparr>"

text \<open>A cancelled request of a parallel query is no error, and has no body.\<close>

definition transport_error :: "Request \<Rightarrow> error \<Rightarrow> error option" where
  "transport_error req e =
     (if values_get (rq_Header req) HeaderQueryOrigin \<noteq> QueryParallel \<or> e \<noteq> ErrText ''context canceled''
      then Some e else None)"

definition response_body :: "http_env \<Rightarrow> HttpResponse \<Rightarrow> bool \<Rightarrow> error + bytes" where
  "response_body env resp decompress =
     (case rs_Body resp of
        Inl e \<Rightarrow> Inl e
      | Inr b \<Rightarrow>
          if decompress \<and> values_get (rs_Header resp) ''Content-Encoding'' = ''gzip''
          then he_gunzip env b else Inr b)"

definition query_result :: "http_env \<Rightarrow> HttpResponse \<Rightarrow> bool \<Rightarrow> QueryResult" where
  "query_result env resp decompress =
     (case response_body env resp decompress of
        Inl e \<Rightarrow> empty_result\<lparr>qr_Err := Some e\<rparr>
      | Inr b \<Rightarrow>
          \<lparr>qr_Header = rs_Header resp, qr_Status = rs_StatusCode resp, qr_Body = b,
           qr_Err = (if rs_StatusCode resp \<ge> 400
                     then Some (ErrText (rsp_Err (fst (ResponseFromResponseBytes (he_unmarshal env) b))))
                     else None)\<rparr>)"

definition hb_Query ::
    "http_env \<Rightarrow> HttpBackend \<Rightarrow> Request \<Rightarrow> Writer option \<Rightarrow> bool \<Rightarrow> Request \<times> Writer option \<times> QueryResult" where
  "hb_Query env hb req0 w decompress =
     (let req = query_request env hb ''/query?'' req0 in
      case he_parse env (rq_URL req) of
        Some e \<Rightarrow> (req, w, empty_result\<lparr>qr_Err := Some e\<rparr>)
      | None \<Rightarrow>
          (case he_RoundTrip env req of
             Inl e \<Rightarrow> (req, w, empty_result\<lparr>qr_Err := transport_error req e\<rparr>)
           | Inr resp \<Rightarrow>
               (req, map_option (\<lambda>w. w\<lparr>rw_Header := CopyHeader (rw_Header w) (rs_Header resp)\<rparr>) w,
                query_result env resp decompress)))"

definition iql_result ::
    "http_env \<Rightarrow> HttpBackend \<Rightarrow> string \<Rightarrow> string \<Rightarrow> string \<Rightarrow> string \<Rightarrow> QueryResult" where
  "iql_result env hb meth db q epoch =
     snd (snd (hb_Query env hb (NewQueryRequest meth db q epoch) None True))"

definition QueryIQL ::
    "http_env \<Rightarrow> HttpBackend \<Rightarrow> string \<Rightarrow> string \<Rightarrow> string \<Rightarrow> string \<Rightarrow> bytes \<times> error option" where
  "QueryIQL env hb meth db q epoch =
     (let qr = iql_result env hb meth db q epoch in (qr_Body qr, qr_Err qr))"

subsection \<open>The convenience queries\<close>

fun row_values :: "string \<Rightarrow> json list list \<Rightarrow> string list \<Rightarrow> string list option" where
  "row_values name [] acc = Some acc"
| "row_values name (v # vs) acc =
     do { s \<leftarrow> string_at v 0;
          if name = ''databases'' \<and> s = ''_internal'' then row_values name vs acc
          else row_values name vs (acc @ [s]) }"

fun series_values :: "Row list \<Rightarrow> string list \<Rightarrow> string list option" where
  "series_values [] acc = Some acc"
| "series_values (r # rs) acc =
     do { acc' \<leftarrow> row_values (row_Name r) (row_Values r) acc; series_values rs acc' }"

definition GetSeriesValues :: "http_env \<Rightarrow> HttpBackend \<Rightarrow> string \<Rightarrow> string \<Rightarrow> string list option" where
  "GetSeriesValues env hb db q =
     (let qr = iql_result env hb ''GET'' db q '''' in
      if qr_Err qr \<noteq> None then Some []
      else series_values (fst (SeriesFromResponseBytes (he_unmarshal env) (qr_Body qr))) [])"

definition GetDatabases :: "http_env \<Rightarrow> HttpBackend \<Rightarrow> string list option" where
  "GetDatabases env hb = GetSeriesValues env hb '''' ''show databases''"

definition GetRetentionPolicies :: "http_env \<Rightarrow> HttpBackend \<Rightarrow> string \<Rightarrow> string list option" where
  "GetRetentionPolicies env hb db = GetSeriesValues env hb db ''show retention policies''"

definition GetMeasurements :: "http_env \<Rightarrow> HttpBackend \<Rightarrow> string \<Rightarrow> string list option" where
  "GetMeasurements env hb db = GetSeriesValues env hb db ''show measurements''"

text \<open>\<^verbatim>\<open>"rp"."meas"\<close>, as the two queries on keys and the transfer quote it.\<close>

definition quoted_source :: "string \<Rightarrow> string \<Rightarrow> string" where
  "quoted_source rp meas =
     ''\"'' @ EscapeIdentifier rp @ ''\".\"'' @ EscapeIdentifier meas @ ''\"''"

definition GetTagKeys :: "http_env \<Rightarrow> HttpBackend \<Rightarrow> string \<Rightarrow> string \<Rightarrow> string \<Rightarrow> string list option" where
  "GetTagKeys env hb db rp meas =
     GetSeriesValues env hb db (''show tag keys from '' @ quoted_source rp meas)"

fun field_keys_row :: "json list list \<Rightarrow> go_values \<Rightarrow> go_values option" where
  "field_keys_row [] m = Some m"
| "field_keys_row (v # vs) m =
     do { fk \<leftarrow> string_at v 0;
          t \<leftarrow> string_at v 1;
          field_keys_row vs (map_set fk (case_option [] id (map_get m fk) @ [t]) m) }"

fun field_keys :: "Row list \<Rightarrow> go_values \<Rightarrow> go_values option" where
  "field_keys [] m = Some m"
| "field_keys (r # rs) m = do { m' \<leftarrow> field_keys_row (row_Values r) m; field_keys rs m' }"

definition GetFieldKeys :: "http_env \<Rightarrow> HttpBackend \<Rightarrow> string \<Rightarrow> string \<Rightarrow> string \<Rightarrow> go_values option" where
  "GetFieldKeys env hb db rp meas =
     (let qr = iql_result env hb ''GET'' db (''show field keys from '' @ quoted_source rp meas) '''' in
      if qr_Err qr \<noteq> None then Some []
      else field_keys (fst (SeriesFromResponseBytes (he_unmarshal env) (qr_Body qr))) [])"

definition DropMeasurement :: "http_env \<Rightarrow> HttpBackend \<Rightarrow> string \<Rightarrow> string \<Rightarrow> bytes \<times> error option" where
  "DropMeasurement env hb db meas =
     (let qr = iql_result env hb ''POST'' db (''drop measurement \"'' @ EscapeIdentifier meas @ ''\"'') ''''
      in (qr_Body qr, qr_Err qr))"

section \<open>Writing\<close>

lemma WriteStream_cases:
  assumes "WriteStream env hb db rp stream compressed = Some (hb', err)"
  obtains (transport) e where "he_do env (write_request env hb db rp stream compressed) = Inl e"
      "hb' = hb\<lparr>hb_active := False\<rparr>" "err = Some e"
    | (written) resp where "he_do env (write_request env hb db rp stream compressed) = Inr resp"
      "rs_StatusCode resp = 204" "hb' = hb" "err = None"
    | (unread) resp e where "he_do env (write_request env hb db rp stream compressed) = Inr resp"
      "rs_StatusCode resp \<noteq> 204" "rs_Body resp = Inl e" "hb' = hb" "err = Some e"
    | (refused) resp body where "he_do env (write_request env hb db rp stream compressed) = Inr resp"
      "rs_StatusCode resp \<noteq> 204" "rs_Body resp = Inr body" "hb' = hb"
      "err = Some (write_error (rs_StatusCode resp) body)"
proof (cases "he_do env (write_request env hb db rp stream compressed)")
  case (Inl e)
  with assms that(1) show thesis by (simp add: WriteStream_def Let_def split: if_splits)
next
  case resp: (Inr resp)
  show thesis
  proof (cases "rs_StatusCode resp = 204")
    case True
    with assms resp that(2) show thesis by (simp add: WriteStream_def Let_def split: if_splits)
  next
    case status: False
    show thesis
    proof (cases "rs_Body resp")
      case (Inl e)
      with assms resp status that(3) show thesis by (simp add: WriteStream_def Let_def split: if_splits)
    next
      case (Inr body)
      with assms resp status that(4) show thesis by (simp add: WriteStream_def Let_def split: if_splits)
    qed
  qed
qed

lemma write_error_drop:
  "write_error status body \<in> {ErrBadRequest, ErrNotFound} \<longleftrightarrow>
     status = 400 \<or> status = 404 \<or> sublist ''retention policy not found'' body"
  unfolding Index_sublist [symmetric] by (auto simp: write_error_def)

text \<open>The network and the libraries never return the two errors that make a backend drop data.\<close>

definition foreign_errors :: "http_env \<Rightarrow> bool" where
  "foreign_errors env \<longleftrightarrow>
     (\<forall>req e. he_do env req = Inl e \<longrightarrow> e \<notin> {ErrBadRequest, ErrNotFound}) \<and>
     (\<forall>req resp e. he_do env req = Inr resp \<longrightarrow> rs_Body resp = Inl e \<longrightarrow> e \<notin> {ErrBadRequest, ErrNotFound})"

text \<open>The answers after which the caller drops the data: 400, 404, or a text that says the
  retention policy is missing.\<close>

definition refused_for_good :: "HttpResponse \<Rightarrow> bool" where
  "refused_for_good resp \<longleftrightarrow> rs_StatusCode resp \<noteq> 204 \<and>
     (\<exists>body. rs_Body resp = Inr body \<and>
        (rs_StatusCode resp = 400 \<or> rs_StatusCode resp = 404 \<or> sublist ''retention policy not found'' body))"

lemma WriteStream_reports:
  assumes "WriteStream env hb db rp stream compressed = Some (hb', err)" and "foreign_errors env"
  shows "(err = None \<longleftrightarrow> (\<exists>resp. he_do env (write_request env hb db rp stream compressed) = Inr resp \<and>
            rs_StatusCode resp = 204)) \<and>
         (err \<in> {Some ErrBadRequest, Some ErrNotFound} \<longleftrightarrow>
            (\<exists>resp. he_do env (write_request env hb db rp stream compressed) = Inr resp \<and> refused_for_good resp)) \<and>
         hb' = (case he_do env (write_request env hb db rp stream compressed) of
                  Inl _ \<Rightarrow> hb\<lparr>hb_active := False\<rparr> | Inr _ \<Rightarrow> hb)"
  using assms(1)
proof (cases rule: WriteStream_cases)
  case (transport e)
  then show ?thesis using assms(2) by (auto simp: foreign_errors_def)
next
  case (written resp)
  then show ?thesis by (simp add: refused_for_good_def)
next
  case (unread resp e)
  then show ?thesis using assms(2) unfolding foreign_errors_def refused_for_good_def by auto
next
  case (refused resp body)
  then show ?thesis using write_error_drop [of "rs_StatusCode resp" body] by (auto simp: refused_for_good_def)
qed

definition sample_env :: "(Request \<Rightarrow> error + HttpResponse) \<Rightarrow> unmarshaller \<Rightarrow> http_env" where
  "sample_env answer unmarshal =
     \<lparr>he_do = answer, he_RoundTrip = answer, he_parse = (\<lambda>_. None), he_gzip = (\<lambda>p. (p, length p, None)),
      he_gunzip = Inr, he_unmarshal = unmarshal, he_decrypt = id\<rparr>"

definition sample_backend :: HttpBackend where
  "sample_backend = \<lparr>hb_client = Some (False, 10), hb_transport = False, hb_Name = ''influxdb-1'',
     hb_Url = ''http://127.0.0.1:8086'', hb_username = ''u'', hb_password = ''p'', hb_authEncrypt = False,
     hb_interval = 1, hb_running = True, hb_active = True, hb_rewriting = False, hb_transferIn = False,
     hb_writeOnly = False\<rparr>"

text \<open>C39: what a write reports, for every answer. A request that gets no answer makes the
  backend inactive and reports the error of the transport; an answer changes no flag. 204
  reports success and nothing else does. For any other status a body that cannot be read
  reports its own error; a body that says the retention policy is missing reports a bad
  request whatever the status; else 400, 401, 404 and 500 report a bad request, unauthorized,
  not found and an internal error, and every other status an unknown error.\<close>

theorem WriteStream_outcome:
  assumes "WriteStream env hb db rp stream compressed = Some (hb', err)"
  shows "case he_do env (write_request env hb db rp stream compressed) of
           Inl e \<Rightarrow> hb' = hb\<lparr>hb_active := False\<rparr> \<and> err = Some e
         | Inr resp \<Rightarrow> hb' = hb \<and> (err = None \<longleftrightarrow> rs_StatusCode resp = 204) \<and>
             (rs_StatusCode resp \<noteq> 204 \<longrightarrow>
                (\<forall>e. rs_Body resp = Inl e \<longrightarrow> err = Some e) \<and>
                (\<forall>body. rs_Body resp = Inr body \<longrightarrow>
                   (sublist ''retention policy not found'' body \<longrightarrow> err = Some ErrBadRequest) \<and>
                   (\<not> sublist ''retention policy not found'' body \<longrightarrow>
                      (rs_StatusCode resp = 400 \<longleftrightarrow> err = Some ErrBadRequest) \<and>
                      (rs_StatusCode resp = 401 \<longleftrightarrow> err = Some ErrUnauthorized) \<and>
                      (rs_StatusCode resp = 404 \<longleftrightarrow> err = Some ErrNotFound) \<and>
                      (rs_StatusCode resp = 500 \<longleftrightarrow> err = Some ErrInternal) \<and>
                      (rs_StatusCode resp \<notin> {400, 401, 404, 500} \<longleftrightarrow> err = Some ErrUnknown))))"
  using assms
proof (cases rule: WriteStream_cases)
  case (refused resp body)
  then show ?thesis unfolding Index_sublist [symmetric] by (simp add: write_error_def)
qed simp_all

definition answering :: "int \<Rightarrow> bytes \<Rightarrow> http_env" where
  "answering status body = sample_env (\<lambda>_. Inr \<lparr>rs_StatusCode = status, rs_Header = [], rs_Body = Inr body\<rparr>)
     (\<lambda>_. (ResponseFromError [], None))"

theorem WriteStream_outcome_witness:
  "WriteStream (answering 400 ''no'') sample_backend ''db'' '''' ''cpu v=1 1'' True = Some (sample_backend, Some ErrBadRequest) \<and>
   WriteStream (answering 401 ''no'') sample_backend ''db'' '''' ''cpu v=1 1'' True = Some (sample_backend, Some ErrUnauthorized) \<and>
   WriteStream (answering 500 ''retention policy not found: a'') sample_backend ''db'' '''' ''cpu v=1 1'' True =
     Some (sample_backend, Some ErrBadRequest) \<and>
   WriteStream (answering 503 ''no'') sample_backend ''db'' '''' ''cpu v=1 1'' True = Some (sample_backend, Some ErrUnknown)"
proof -
  have "\<exists>hb err. WriteStream (answering status body) sample_backend ''db'' '''' ''cpu v=1 1'' True = Some (hb, err)"
    for status body by (simp add: WriteStream_def answering_def sample_env_def sample_backend_def Let_def)
  then obtain hb err where run:
    "WriteStream (answering status body) sample_backend ''db'' '''' ''cpu v=1 1'' True = Some (hb status body, err status body)"
    for status body by metis
  have r: "sublist ''retention policy not found'' ''retention policy not found: a''"
    "\<not> sublist ''retention policy not found'' ''no''" unfolding Index_sublist [symmetric] by simp_all
  have do: "he_do (answering status body) req = Inr \<lparr>rs_StatusCode = status, rs_Header = [], rs_Body = Inr body\<rparr>"
    for status body req by (simp add: answering_def sample_env_def)
  show ?thesis
    using WriteStream_outcome [OF run, of 400 "''no''", unfolded do] WriteStream_outcome [OF run, of 401 "''no''", unfolded do]
      WriteStream_outcome [OF run, of 500 "''retention policy not found: a''", unfolded do]
      WriteStream_outcome [OF run, of 503 "''no''", unfolded do] r
    by (simp add: run)
qed

section \<open>Requests\<close>

lemma map_get_Authorization [simp]:
  "map_get (rq_Header (SetBasicAuth env req u p enc)) ''Authorization'' =
     Some [if enc then basic_auth (AesDecrypt (he_decrypt env) u) (AesDecrypt (he_decrypt env) p) else basic_auth u p]"
  by (simp add: SetBasicAuth_def map_get_set Let_def)

text \<open>The proxy's credentials and the client's do not mix. Whatever a client asks, the
  request sent on carries none of its \<^verbatim>\<open>u\<close> and \<^verbatim>\<open>p\<close> parameters and leaves all others; its
  URL is the backend's with exactly those parameters; and a backend with credentials gets
  its own as the only authorization, decrypted where the configuration says so.\<close>

theorem query_request_safe:
  "map_get (rq_Form (query_request env hb path req)) k =
     (if k = ''u'' \<or> k = ''p'' then None else map_get (rq_Form req) k) \<and>
   rq_URL (query_request env hb path req) = hb_Url hb @ path @ Encode (rq_Form (query_request env hb path req)) \<and>
   map_get (rq_Header (query_request env hb path req)) ''Authorization'' =
     (if \<not> has_credentials hb then map_get (rq_Header req) ''Authorization''
      else if hb_authEncrypt hb
      then Some [basic_auth (AesDecrypt (he_decrypt env) (hb_username hb)) (AesDecrypt (he_decrypt env) (hb_password hb))]
      else Some [basic_auth (hb_username hb) (hb_password hb)])"
  by (cases "has_credentials hb")
     (simp_all add: query_request_def hb_SetBasicAuth_def SetBasicAuth_def Let_def map_get_del map_get_set)

lemma upper_hex_safe: "n < 16 \<Longrightarrow> query_safe (upper_hex n)"
  by (drule less_16_cases) (elim disjE; simp only: upper_hex_simps; simp add: query_safe_def)

lemma QueryEscape_chars: "c \<in> set (QueryEscape s) \<Longrightarrow> query_safe c \<or> c = CHR ''+'' \<or> c = CHR ''%''"
proof (induction s)
  case (Cons d s)
  have "of_char d < (256 :: nat)" by simp
  then have "of_char d div 16 < (16 :: nat)" by arith
  then have "query_safe (upper_hex (of_char d div 16))" "query_safe (upper_hex (of_char d mod 16))"
    by (simp_all add: upper_hex_safe)
  with Cons show ?case by (auto split: if_splits)
qed simp

lemma QueryEscape_delimiters: "CHR ''&'' \<notin> set (QueryEscape s)" "CHR ''='' \<notin> set (QueryEscape s)"
  using QueryEscape_chars [of "CHR ''&''" s] QueryEscape_chars [of "CHR ''=''" s]
  by (auto simp: query_safe_def)

lemma Split_aux_last: "c \<notin> set a \<Longrightarrow> Split_aux [c] 0 acc a = [acc @ a]"
  by (induction a arbitrary: acc) auto

lemma Split_aux_first: "c \<notin> set a \<Longrightarrow> Split_aux [c] 0 acc (a @ c # b) = (acc @ a) # Split_aux [c] 0 [] b"
  by (induction a arbitrary: acc) auto

lemma IndexByte_first: "c \<notin> set a \<Longrightarrow> IndexByte (a @ c # b) c = Some (length a)"
  by (induction a) auto

text \<open>Database and retention policy names cannot break the write URL. Whatever bytes
  they contain, the query part of the URL splits at its separators into exactly the two
  parameters, and unescaping gives both names back.\<close>

theorem write_url_roundtrip:
  "\<exists>query. rq_URL (write_request env hb db rp p compressed) = hb_Url hb @ ''/write?'' @ query \<and>
     map (\<lambda>kv. map QueryUnescape (SplitN kv (CHR ''='') 2)) (Split query ''&'') =
       [[Inr ''db'', Inr db], [Inr ''rp'', Inr rp]]"
proof -
  let ?q = "Encode (map_set ''rp'' [rp] (map_set ''db'' [db] []))"
  have enc: "?q = (''db='' @ QueryEscape db) @ CHR ''&'' # (''rp='' @ QueryEscape rp)"
    by (simp add: Encode_def query_safe_def)
  have split: "Split ?q ''&'' = [''db='' @ QueryEscape db, ''rp='' @ QueryEscape rp]"
    unfolding Split_def enc using QueryEscape_delimiters(1)
    by (subst Split_aux_first) (auto simp: Split_aux_last)
  have "rq_URL (write_request env hb db rp p compressed) = hb_Url hb @ ''/write?'' @ ?q"
    by (simp add: write_request_def plain_request_def hb_SetBasicAuth_def SetBasicAuth_def Let_def)
  moreover have "map (\<lambda>kv. map QueryUnescape (SplitN kv (CHR ''='') 2)) (Split ?q ''&'') =
      [[Inr ''db'', Inr db], [Inr ''rp'', Inr rp]]"
    unfolding split by (simp add: numeral_2_eq_2 QueryUnescape_QueryEscape)
  ultimately show ?thesis by (intro exI [of _ ?q] conjI)
qed

section \<open>Headers and lists of names\<close>

text \<open>Copying headers stores, for each name of the source, its last value alone.\<close>

lemma copy_values: "vv \<noteq> [] \<Longrightarrow> fold (\<lambda>v. map_set k [v]) vv d = map_set k [last vv] d"
proof (induction vv arbitrary: d rule: rev_induct)
  case (snoc v vv)
  then show ?case by (cases "vv = []") auto
qed simp

lemma CopyHeader_last:
  assumes "map_ok src" "map_ok dst" "(k, vv) \<in> set src" "\<And>k vv. (k, vv) \<in> set src \<Longrightarrow> vv \<noteq> []"
  shows "map_get (CopyHeader dst src) k = Some [last vv]"
proof -
  have "CopyHeader dst src = fold (\<lambda>kv. map_set (fst kv) [last (snd kv)]) src dst"
    unfolding CopyHeader_def using assms(4)
    by (intro fold_cong) (auto simp: copy_values)
  moreover have "inj_on fst (set src)"
    using assms(1) by (simp add: map_ok_def distinct_map)
  ultimately show ?thesis
    using gm.fold_store_inj [of dst "(k, vv)" src fst "\<lambda>kv. [last (snd kv)]"] assms(2,3) by simp
qed

lemma row_values_spec:
  assumes "list_all (\<lambda>v. string_at v 0 \<noteq> None) vs"
  shows "row_values name vs acc =
    Some (acc @ filter (\<lambda>s. \<not> (name = ''databases'' \<and> s = ''_internal'')) (map (\<lambda>v. the (string_at v 0)) vs))"
  using assms by (induction vs arbitrary: acc) auto

lemma series_values_spec:
  assumes "list_all (\<lambda>r. list_all (\<lambda>v. string_at v 0 \<noteq> None) (row_Values r)) rs"
  shows "series_values rs acc =
    Some (acc @ concat (map (\<lambda>r. filter (\<lambda>s. \<not> (row_Name r = ''databases'' \<and> s = ''_internal''))
            (map (\<lambda>v. the (string_at v 0)) (row_Values r))) rs))"
  using assms by (induction rs arbitrary: acc) (auto simp: row_values_spec)

text \<open>The internal database stays hidden. When the server answers \<^verbatim>\<open>show databases\<close> with
  a list of names, \<^verbatim>\<open>GetDatabases\<close> returns that list in its order without \<^verbatim>\<open>_internal\<close>; so
  neither the health report nor a transfer ever touches it.\<close>

theorem GetDatabases_filters:
  assumes "qr_Err (iql_result env hb ''GET'' '''' ''show databases'' '''') = None"
    and "SeriesFromResponseBytes (he_unmarshal env) (qr_Body (iql_result env hb ''GET'' '''' ''show databases'' '''')) =
           ([row], None)"
    and "row_Name row = ''databases''" "row_Values row = map (\<lambda>n. [JString n]) names"
  shows "GetDatabases env hb = Some (filter (\<lambda>n. n \<noteq> ''_internal'') names)"
proof -
  have "map (\<lambda>v. the (string_at v 0)) (map (\<lambda>n. [JString n]) names) = names"
    by (simp add: comp_def)
  moreover have "list_all (\<lambda>r. list_all (\<lambda>v. string_at v 0 \<noteq> None) (row_Values r)) [row]"
    by (simp add: assms(4) list_all_iff)
  ultimately have "series_values [row] [] = Some (filter (\<lambda>n. n \<noteq> ''_internal'') names)"
    by (simp only: series_values_spec) (simp add: assms(3,4) comp_def)
  with assms(1,2) show ?thesis by (simp add: GetDatabases_def GetSeriesValues_def Let_def)
qed

theorem GetDatabases_filters_witness:
  "let row = \<lparr>row_Name = ''databases'', row_Tags = [], row_Columns = [''name''],
              row_Values = map (\<lambda>n. [JString n]) [''_internal'', ''mydb''], row_Partial = False\<rparr>;
       env = sample_env (\<lambda>_. Inr \<lparr>rs_StatusCode = 200, rs_Header = [], rs_Body = Inr ''{}''\<rparr>)
               (\<lambda>_. (ResponseFromSeries [row], None))
   in GetDatabases env sample_backend = Some [''mydb'']"
proof -
  let ?row = "\<lparr>row_Name = ''databases'', row_Tags = [], row_Columns = [''name''],
              row_Values = map (\<lambda>n. [JString n]) [''_internal'', ''mydb''], row_Partial = False\<rparr>"
  let ?env = "sample_env (\<lambda>_. Inr \<lparr>rs_StatusCode = 200, rs_Header = [], rs_Body = Inr ''{}''\<rparr>)
               (\<lambda>_. (ResponseFromSeries [?row], None))"
  have "qr_Err (iql_result ?env sample_backend ''GET'' '''' ''show databases'' '''') = None"
    by (simp add: iql_result_def hb_Query_def query_result_def response_body_def sample_env_def Let_def)
  moreover have "SeriesFromResponseBytes (he_unmarshal ?env) b = ([?row], None)" for b
    by (simp add: SeriesFromResponseBytes_def sample_env_def ResponseFromSeries_def)
  ultimately show ?thesis
    using GetDatabases_filters [of ?env sample_backend ?row "[''_internal'', ''mydb'']"] by simp
qed

end
