(* ===== verification/File_Backend.thy ===== *)
theory File_Backend
  imports Prelude
begin

text \<open>
  The backlog of a backend on disk, \<^verbatim>\<open>backend/file.go\<close>: a data file of length-prefixed records
  with an appending producer and a reading consumer, and a meta file that holds the offset up
  to which the records are done. The record holds the contents of both files beside the
  handles (an offset, or \<open>None\<close> when the handle is not open). Every system call may fail: its
  outcome is a field of the \<open>_io\<close> argument of the operation, and \<open>good_\<dots>\<close> are the
  arguments without a failure. The operations that hold \<^verbatim>\<open>fb.lock\<close> are steps of their own.
\<close>

section \<open>Big-endian integers\<close>

fun be_bytes :: "nat \<Rightarrow> nat \<Rightarrow> bytes" where
  "be_bytes 0 n = []"
| "be_bytes (Suc k) n = be_bytes k (n div 256) @ [char_of (n mod 256)]"

definition be_nat :: "bytes \<Rightarrow> nat" where
  "be_nat bs = foldl (\<lambda>n c. n * 256 + of_char c) 0 bs"

definition be_int64 :: "bytes \<Rightarrow> int" where
  "be_int64 bs = (if be_nat bs < 2 ^ 63 then int (be_nat bs) else int (be_nat bs) - 2 ^ 64)"

section \<open>Definitions\<close>

record FileBackend =
  fb_filename :: string
  fb_datadir :: string
  fb_dataflag :: bool
  fb_producer :: "nat option"
  fb_consumer :: "nat option"
  fb_meta :: bool
  fb_dat :: bytes
  fb_rec :: bytes

text \<open>What a write system call does: the bytes that reach the file and the error. A read of
  \<open>n\<close> bytes ends at the end of the file, or fails after some bytes.\<close>

type_synonym write_out = "nat \<times> error option"
type_synonym read_fault = "(nat \<times> error) option"

definition good_write :: write_out where
  "good_write = (2 ^ 64, None)"

definition read_full :: "read_fault \<Rightarrow> bytes \<Rightarrow> nat \<Rightarrow> nat \<Rightarrow> nat \<times> (error + bytes)" where
  "read_full fault file off n =
     (case fault of
        Some (k, e) \<Rightarrow> (off + min k n, Inl e)
      | None \<Rightarrow>
          let avail = drop off file in
          if n = 0 then (off, Inr [])
          else if avail = [] then (off, Inl ErrEOF)
          else if length avail < n then (off + length avail, Inl ErrUnexpectedEOF)
          else (off + n, Inr (take n avail)))"

subsection \<open>Writing\<close>

record Write_io =
  wi_length :: write_out
  wi_data :: write_out
  wi_sync :: "error option"

definition good_Write :: Write_io where
  "good_Write = \<lparr>wi_length = good_write, wi_data = good_write, wi_sync = None\<rparr>"

text \<open>An append through the producer: the handle moves to the end of the file.\<close>

definition append_dat :: "FileBackend \<Rightarrow> write_out \<Rightarrow> bytes \<Rightarrow> FileBackend" where
  "append_dat fb out bs =
     (let dat = fb_dat fb @ take (fst out) bs
      in fb\<lparr>fb_dat := dat, fb_producer := Some (length dat)\<rparr>)"

definition fb_Write :: "Write_io \<Rightarrow> FileBackend \<Rightarrow> bytes \<Rightarrow> FileBackend \<times> error option" where
  "fb_Write io fb p =
     (if fb_producer fb = None then (fb, Some ErrIO)
      else
        let fb1 = append_dat fb (wi_length io) (be_bytes 4 (length p mod 2 ^ 32)) in
        case snd (wi_length io) of
          Some e \<Rightarrow> (fb1, Some e)
        | None \<Rightarrow>
            let fb2 = append_dat fb1 (wi_data io) p in
            case snd (wi_data io) of
              Some e \<Rightarrow> (fb2, Some e)
            | None \<Rightarrow>
                if fst (wi_data io) < length p then (fb2, Some ErrShortWrite)
                else case wi_sync io of
                       Some e \<Rightarrow> (fb2, Some e)
                     | None \<Rightarrow> (fb2\<lparr>fb_dataflag := True\<rparr>, None))"

definition IsData :: "FileBackend \<Rightarrow> bool" where
  "IsData fb = fb_dataflag fb"

subsection \<open>Reading\<close>

text \<open>The result is \<open>Inr None\<close> when there is no data, as \<^verbatim>\<open>nil, nil\<close> of the code.\<close>

definition fb_Read :: "read_fault \<times> read_fault \<Rightarrow> FileBackend \<Rightarrow> FileBackend \<times> (error + bytes option)" where
  "fb_Read faults fb =
     (if \<not> IsData fb then (fb, Inr None)
      else case fb_consumer fb of
        None \<Rightarrow> (fb, Inl ErrIO)
      | Some off \<Rightarrow>
          (case read_full (fst faults) (fb_dat fb) off 4 of
             (off1, Inl e) \<Rightarrow> (fb\<lparr>fb_consumer := Some off1\<rparr>, Inl e)
           | (off1, Inr bs) \<Rightarrow>
               (case read_full (snd faults) (fb_dat fb) off1 (be_nat bs) of
                  (off2, Inl e) \<Rightarrow> (fb\<lparr>fb_consumer := Some off2\<rparr>, Inl e)
                | (off2, Inr p) \<Rightarrow> (fb\<lparr>fb_consumer := Some off2\<rparr>, Inr (Some p)))))"

subsection \<open>The meta file\<close>

record Rollback_io =
  ri_seek :: "error option"
  ri_read :: read_fault
  ri_seek_consumer :: "error option"

definition good_Rollback :: Rollback_io where
  "good_Rollback = \<lparr>ri_seek = None, ri_read = None, ri_seek_consumer = None\<rparr>"

definition RollbackMeta :: "Rollback_io \<Rightarrow> FileBackend \<Rightarrow> FileBackend \<times> error option" where
  "RollbackMeta io fb =
     (if \<not> fb_meta fb then (fb, Some ErrIO)
      else case ri_seek io of
        Some e \<Rightarrow> (fb, Some e)
      | None \<Rightarrow>
          (case read_full (ri_read io) (fb_rec fb) 0 8 of
             (_, Inl e) \<Rightarrow> (fb, Some e)
           | (_, Inr bs) \<Rightarrow>
               let offset = be_int64 bs in
               if offset < 0 \<or> fb_consumer fb = None then (fb, Some ErrIO)
               else case ri_seek_consumer io of
                      Some e \<Rightarrow> (fb, Some e)
                    | None \<Rightarrow> (fb\<lparr>fb_consumer := Some (nat offset)\<rparr>, None)))"

record CleanUp_io =
  ci_seek :: "error option"
  ci_truncate :: "error option"
  ci_close :: "error option"
  ci_open :: "error option"

definition CleanUp :: "CleanUp_io \<Rightarrow> FileBackend \<Rightarrow> FileBackend \<times> error option" where
  "CleanUp io fb =
     (if fb_consumer fb = None then (fb, Some ErrIO)
      else case ci_seek io of
        Some e \<Rightarrow> (fb, Some e)
      | None \<Rightarrow>
          let fb1 = fb\<lparr>fb_consumer := Some 0\<rparr> in
          (case ci_truncate io of
             Some e \<Rightarrow> (fb1, Some e)
           | None \<Rightarrow>
               let fb2 = fb1\<lparr>fb_dat := []\<rparr> in
               (if fb_producer fb2 = None then (fb2, Some ErrIO)
                else let fb3 = fb2\<lparr>fb_producer := None\<rparr> in
                  (case ci_close io of
                     Some e \<Rightarrow> (fb3, Some e)
                   | None \<Rightarrow>
                       (case ci_open io of
                          Some e \<Rightarrow> (fb3, Some e)
                        | None \<Rightarrow> (fb3\<lparr>fb_producer := Some 0, fb_dataflag := False\<rparr>, None))))))"

record Update_io =
  ui_seek_producer :: "error option"
  ui_seek_consumer :: "error option"
  ui_cleanup :: CleanUp_io
  ui_seek :: "error option"
  ui_write :: write_out
  ui_sync :: "error option"

definition good_CleanUp :: CleanUp_io where
  "good_CleanUp = \<lparr>ci_seek = None, ci_truncate = None, ci_close = None, ci_open = None\<rparr>"

definition good_Update :: Update_io where
  "good_Update = \<lparr>ui_seek_producer = None, ui_seek_consumer = None, ui_cleanup = good_CleanUp,
     ui_seek = None, ui_write = good_write, ui_sync = None\<rparr>"

text \<open>The last steps of \<^verbatim>\<open>UpdateMeta\<close>: the offset overwrites the start of the meta file.\<close>

definition write_meta :: "Update_io \<Rightarrow> FileBackend \<Rightarrow> nat \<Rightarrow> FileBackend \<times> error option" where
  "write_meta io fb offset =
     (if \<not> fb_meta fb then (fb, Some ErrIO)
      else case ui_seek io of
        Some e \<Rightarrow> (fb, Some e)
      | None \<Rightarrow>
          let bs = take (fst (ui_write io)) (be_bytes 8 offset);
              fb1 = fb\<lparr>fb_rec := bs @ drop (length bs) (fb_rec fb)\<rparr>
          in case snd (ui_write io) of
               Some e \<Rightarrow> (fb1, Some e)
             | None \<Rightarrow> (fb1, ui_sync io))"

definition UpdateMeta :: "Update_io \<Rightarrow> FileBackend \<Rightarrow> FileBackend \<times> error option" where
  "UpdateMeta io fb =
     (case (fb_producer fb, ui_seek_producer io, fb_consumer fb, ui_seek_consumer io) of
        (Some producerOffset, None, Some offset, None) \<Rightarrow>
          if producerOffset = offset then
            (case CleanUp (ui_cleanup io) fb of
               (fb1, Some e) \<Rightarrow> (fb1, Some e)
             | (fb1, None) \<Rightarrow> write_meta io fb1 0)
          else write_meta io fb offset
      | (None, _) \<Rightarrow> (fb, Some ErrIO)
      | (_, Some e, _) \<Rightarrow> (fb, Some e)
      | (_, _, None, _) \<Rightarrow> (fb, Some ErrIO)
      | (_, _, _, Some e) \<Rightarrow> (fb, Some e))"

subsection \<open>Opening and closing\<close>

record Open_io =
  oi_producer :: "error option"
  oi_consumer :: "error option"
  oi_meta :: "error option"
  oi_rollback :: Rollback_io

definition good_Open :: Open_io where
  "good_Open = \<lparr>oi_producer = None, oi_consumer = None, oi_meta = None, oi_rollback = good_Rollback\<rparr>"

text \<open>\<open>dat\<close> and \<open>rec\<close> are the files as they are found (empty when they are created).\<close>

definition NewFileBackend ::
    "Open_io \<Rightarrow> string \<Rightarrow> string \<Rightarrow> bytes \<Rightarrow> bytes \<Rightarrow> FileBackend \<times> error option" where
  "NewFileBackend io filename datadir dat rec =
     (let fb = \<lparr>fb_filename = filename, fb_datadir = datadir, fb_dataflag = False, fb_producer = None,
                fb_consumer = None, fb_meta = False, fb_dat = dat, fb_rec = rec\<rparr>
      in case oi_producer io of
           Some e \<Rightarrow> (fb, Some e)
         | None \<Rightarrow>
             let fb = fb\<lparr>fb_producer := Some 0\<rparr> in
             (case oi_consumer io of
                Some e \<Rightarrow> (fb, Some e)
              | None \<Rightarrow>
                  let fb = fb\<lparr>fb_consumer := Some 0\<rparr> in
                  (case oi_meta io of
                     Some e \<Rightarrow> (fb, Some e)
                   | None \<Rightarrow>
                       let fb = fst (RollbackMeta (oi_rollback io) (fb\<lparr>fb_meta := True\<rparr>));
                           producerOffset = length (fb_dat fb)
                       in (fb\<lparr>fb_producer := Some producerOffset,
                              fb_dataflag := the (fb_consumer fb) < producerOffset\<rparr>, None))))"

definition fb_Close :: "FileBackend \<Rightarrow> FileBackend" where
  "fb_Close fb = fb\<lparr>fb_producer := None, fb_consumer := None, fb_meta := False\<rparr>"

section \<open>Records on disk\<close>

definition frame :: "bytes \<Rightarrow> bytes" where
  "frame p = be_bytes 4 (length p) @ p"

definition frames :: "bytes list \<Rightarrow> bytes" where
  "frames ps = concat (map frame ps)"

text \<open>Reading a sequence of records back, and the two views of the backlog it gives: the
  records not yet marked done, and those the consumer has not yet read.\<close>

function parse_frames :: "bytes \<Rightarrow> bytes list" where
  "parse_frames s =
     (if length s < 4 \<or> length s < 4 + be_nat (take 4 s) then []
      else take (be_nat (take 4 s)) (drop 4 s) # parse_frames (drop (4 + be_nat (take 4 s)) s))"
  by pat_completeness auto
termination
  by (relation "measure length") auto

declare parse_frames.simps [simp del]

definition marked :: "FileBackend \<Rightarrow> bool" where
  "marked fb \<longleftrightarrow> fb_rec fb \<noteq> []"

definition pending :: "FileBackend \<Rightarrow> bytes list" where
  "pending fb = parse_frames (drop (be_nat (take 8 (fb_rec fb))) (fb_dat fb))"

definition ahead :: "FileBackend \<Rightarrow> bytes list" where
  "ahead fb = (case fb_consumer fb of None \<Rightarrow> [] | Some off \<Rightarrow> parse_frames (drop off (fb_dat fb)))"

lemma length_be_bytes [simp]: "length (be_bytes k n) = k"
  by (induction k arbitrary: n) auto

lemma be_bytes_Nil_iff [simp]: "be_bytes k n = [] \<longleftrightarrow> k = 0"
  by (cases k) auto

lemma be_nat_snoc [simp]: "be_nat (bs @ [c]) = be_nat bs * 256 + of_char c"
  by (simp add: be_nat_def)

lemma be_nat_Nil [simp]: "be_nat [] = 0"
  by (simp add: be_nat_def)

lemma be_nat_be_bytes: "be_nat (be_bytes k n) = n mod 256 ^ k"
proof (induction k arbitrary: n)
  case (Suc k)
  then show ?case
    using mod_mult2_eq [of n 256 "256 ^ k"] by (simp add: mult.commute)
qed simp

lemma be_nat_4: "n < 2 ^ 32 \<Longrightarrow> be_nat (be_bytes 4 n) = n"
  by (simp add: be_nat_be_bytes)

lemma be_nat_8: "n < 2 ^ 63 \<Longrightarrow> be_nat (be_bytes 8 n) = n"
  by (simp add: be_nat_be_bytes)

lemma frames_simps [simp]:
  "frames [] = []" "frames (p # ps) = frame p @ frames ps" "frames (ps @ qs) = frames ps @ frames qs"
  by (simp_all add: frames_def)

lemma length_frame [simp]: "length (frame p) = 4 + length p"
  by (simp add: frame_def)

lemma parse_frames_Nil [simp]: "parse_frames [] = []"
  by (simp add: parse_frames.simps)

lemma parse_frames_frame: "length p < 2 ^ 32 \<Longrightarrow> parse_frames (frame p @ s) = p # parse_frames s"
  by (subst parse_frames.simps) (simp add: frame_def be_nat_4)

definition storable :: "bytes \<Rightarrow> bool" where
  "storable p \<longleftrightarrow> length p < 2 ^ 32"

lemma parse_frames_frames: "list_all storable ps \<Longrightarrow> parse_frames (frames ps) = ps"
  by (induction ps) (simp_all add: parse_frames_frame storable_def)

lemma drop_frames: "drop (length (frames (take i ps))) (frames ps) = frames (drop i ps)"
  by (metis append_eq_conv_conj append_take_drop_id frames_simps(3))

lemma length_frames_take:
  "length (frames (take i ps)) + length (frames (drop i ps)) = length (frames ps)"
  by (metis append_take_drop_id frames_simps(3) length_append)

lemma frames_Nil_iff [simp]: "frames ps = [] \<longleftrightarrow> ps = []"
  by (cases ps) (auto simp: frame_def)

section \<open>The invariant of the backlog\<close>

text \<open>\<open>represents fb items i j\<close>: the data file holds the records \<open>items\<close>, the consumer has read
  \<open>i\<close> of them and \<open>j\<close> of them are marked done. An empty meta file stands for \<open>j = 0\<close>.\<close>

definition represents :: "FileBackend \<Rightarrow> bytes list \<Rightarrow> nat \<Rightarrow> nat \<Rightarrow> bool" where
  "represents fb items i j \<longleftrightarrow>
     fb_dat fb = frames items \<and> list_all storable items \<and> length (frames items) < 2 ^ 63 \<and>
     j \<le> i \<and> i \<le> length items \<and> (items \<noteq> [] \<longrightarrow> j < length items) \<and>
     fb_producer fb = Some (length (frames items)) \<and>
     fb_consumer fb = Some (length (frames (take i items))) \<and> fb_meta fb \<and>
     (fb_dataflag fb \<longleftrightarrow> items \<noteq> []) \<and>
     (if fb_rec fb = [] then j = 0 else fb_rec fb = be_bytes 8 (length (frames (take j items))))"

definition fb_inv :: "FileBackend \<Rightarrow> bool" where
  "fb_inv fb \<longleftrightarrow> (\<exists>items i j. represents fb items i j)"

lemma represents_views:
  assumes "represents fb items i j"
  shows "pending fb = drop j items" "ahead fb = drop i items"
proof -
  have st: "list_all storable (drop k items)" for k
    using assms by (auto simp: represents_def list_all_iff dest: in_set_dropD)
  have "length (frames (take j items)) < 2 ^ 63"
    using assms length_frames_take [of j items] by (simp add: represents_def)
  then have "be_nat (take 8 (fb_rec fb)) = length (frames (take j items))"
    using assms by (auto simp: represents_def be_nat_8 split: if_splits)
  with assms st [of j] show "pending fb = drop j items"
    by (simp add: pending_def represents_def drop_frames parse_frames_frames)
  from assms st [of i] show "ahead fb = drop i items"
    by (simp add: ahead_def represents_def drop_frames parse_frames_frames)
qed

lemma append_dat_good:
  "length bs < 2 ^ 64 \<Longrightarrow> append_dat fb good_write bs =
     fb\<lparr>fb_dat := fb_dat fb @ bs, fb_producer := Some (length (fb_dat fb @ bs))\<rparr>"
  by (simp add: append_dat_def good_write_def Let_def)

lemma fb_Write_represents:
  assumes "represents fb items i j" "storable p" "length (fb_dat fb) + 4 + length p < 2 ^ 63"
  shows "\<exists>fb'. fb_Write good_Write fb p = (fb', None) \<and> represents fb' (items @ [p]) i j \<and> fb_rec fb' = fb_rec fb"
proof -
  have len: "length p < 2 ^ 32" "length p mod 2 ^ 32 = length p"
    using assms(2) by (simp_all add: storable_def)
  let ?fb = "fb\<lparr>fb_dat := fb_dat fb @ frame p, fb_producer := Some (length (fb_dat fb @ frame p)), fb_dataflag := True\<rparr>"
  have "fb_producer fb \<noteq> None" using assms(1) by (auto simp: represents_def)
  then have "fb_Write good_Write fb p = (?fb, None)"
    using len by (simp add: fb_Write_def good_Write_def append_dat_def good_write_def Let_def frame_def)
  moreover have "represents ?fb (items @ [p]) i j"
    using assms by (auto simp: represents_def)
  ultimately show ?thesis by auto
qed

lemma read_full_exact: "n \<le> length (drop off s) \<Longrightarrow> read_full None s off n = (if n = 0 then off else off + n, Inr (take n (drop off s)))"
  by (auto simp: read_full_def Let_def)

lemma fb_Read_represents:
  assumes "represents fb items i j" "i < length items"
  shows "\<exists>fb'. fb_Read (None, None) fb = (fb', Inr (Some (items ! i))) \<and> represents fb' items (Suc i) j \<and>
           fb_rec fb' = fb_rec fb"
proof -
  let ?off = "length (frames (take i items))"
  let ?p = "items ! i"
  have at: "drop ?off (fb_dat fb) = frame ?p @ frames (drop (Suc i) items)"
    using assms by (simp add: represents_def drop_frames flip: Cons_nth_drop_Suc)
  have len: "be_nat (be_bytes 4 (length ?p)) = length ?p"
    using assms by (intro be_nat_4) (auto simp: represents_def list_all_length storable_def)
  have r1: "read_full None (fb_dat fb) ?off 4 = (?off + 4, Inr (be_bytes 4 (length ?p)))"
    by (simp add: read_full_exact at) (simp add: frame_def)
  have "drop (?off + 4) (fb_dat fb) = ?p @ frames (drop (Suc i) items)"
    using arg_cong [OF at, of "drop 4"] by (simp add: frame_def add.commute)
  then have r2: "read_full None (fb_dat fb) (?off + 4) (length ?p) = (?off + 4 + length ?p, Inr ?p)"
    by (simp add: read_full_exact)
  have next_off: "length (frames (take (Suc i) items)) = ?off + 4 + length ?p"
    using assms(2) by (simp add: take_Suc_conv_app_nth)
  have "fb_Read (None, None) fb = (fb\<lparr>fb_consumer := Some (?off + 4 + length ?p)\<rparr>, Inr (Some ?p))"
  proof -
    have "fb_dataflag fb" "fb_consumer fb = Some ?off"
      using assms by (auto simp: represents_def)
    then show ?thesis by (simp add: fb_Read_def IsData_def r1 r2 len)
  qed
  moreover have "represents (fb\<lparr>fb_consumer := Some (?off + 4 + length ?p)\<rparr>) items (Suc i) j"
    using assms next_off by (auto simp: represents_def)
  ultimately show ?thesis by auto
qed

lemma fb_Read_exhausted:
  assumes "represents fb items i j" "i = length items"
  shows "fb_Read (None, None) fb = (fb, if items = [] then Inr None else Inl ErrEOF)"
  using assms by (auto simp: fb_Read_def IsData_def represents_def read_full_def)

lemma write_meta_good:
  assumes "fb_meta fb" "length (fb_rec fb) \<le> 8"
  shows "write_meta good_Update fb off = (fb\<lparr>fb_rec := be_bytes 8 off\<rparr>, None)"
  using assms by (simp add: write_meta_def good_Update_def good_write_def Let_def)

lemma frames_take_eq_iff:
  "i \<le> length items \<Longrightarrow> length (frames items) = length (frames (take i items)) \<longleftrightarrow> i = length items"
  using length_frames_take [of i items] by (auto simp: not_less)

lemma UpdateMeta_represents:
  assumes "represents fb items i j"
  shows "\<exists>fb'. UpdateMeta good_Update fb = (fb', None) \<and> marked fb' \<and>
           (if i = length items then represents fb' [] 0 0 else represents fb' items i i)"
proof -
  have rec: "length (fb_rec fb) \<le> 8" "fb_meta fb"
    using assms by (auto simp: represents_def split: if_splits)
  show ?thesis
  proof (cases "i = length items")
    case True
    let ?fb = "fb\<lparr>fb_consumer := Some 0, fb_dat := [], fb_producer := Some 0, fb_dataflag := False\<rparr>"
    have "CleanUp good_CleanUp fb = (?fb, None)"
      using assms by (auto simp: CleanUp_def good_CleanUp_def represents_def)
    then have "UpdateMeta good_Update fb = (?fb\<lparr>fb_rec := be_bytes 8 0\<rparr>, None)"
      using assms True rec write_meta_good [of ?fb 0]
      by (auto simp: UpdateMeta_def represents_def good_Update_def)
    with True rec show ?thesis by (auto simp: represents_def marked_def)
  next
    case False
    let ?off = "length (frames (take i items))"
    have "length (frames items) \<noteq> ?off"
      using False assms frames_take_eq_iff [of i items] by (auto simp: represents_def)
    then have "UpdateMeta good_Update fb = (fb\<lparr>fb_rec := be_bytes 8 ?off\<rparr>, None)"
      using assms rec write_meta_good [of fb ?off]
      by (auto simp: UpdateMeta_def represents_def good_Update_def)
    with False assms show ?thesis by (auto simp: represents_def marked_def)
  qed
qed

lemma be_int64_8: "n < 2 ^ 63 \<Longrightarrow> be_int64 (be_bytes 8 n) = int n"
  by (simp add: be_int64_def be_nat_8)

lemma RollbackMeta_represents:
  assumes "represents fb items i j" "marked fb"
  shows "RollbackMeta good_Rollback fb = (fb\<lparr>fb_consumer := Some (length (frames (take j items)))\<rparr>, None) \<and>
         represents (fb\<lparr>fb_consumer := Some (length (frames (take j items)))\<rparr>) items j j"
proof
  have rec: "fb_rec fb = be_bytes 8 (length (frames (take j items)))" "fb_meta fb" "fb_consumer fb \<noteq> None"
    using assms by (auto simp: represents_def marked_def)
  have "length (frames (take j items)) < 2 ^ 63"
    using assms length_frames_take [of j items] by (simp add: represents_def)
  then show "RollbackMeta good_Rollback fb = (fb\<lparr>fb_consumer := Some (length (frames (take j items)))\<rparr>, None)"
    using rec by (simp add: RollbackMeta_def good_Rollback_def read_full_exact be_int64_8)
  show "represents (fb\<lparr>fb_consumer := Some (length (frames (take j items)))\<rparr>) items j j"
    using assms by (auto simp: represents_def)
qed

lemma RollbackMeta_unmarked:
  "fb_meta fb \<Longrightarrow> \<not> marked fb \<Longrightarrow> RollbackMeta good_Rollback fb = (fb, Some ErrEOF)"
  by (simp add: RollbackMeta_def good_Rollback_def marked_def read_full_def)

section \<open>The contract of a backlog\<close>

text \<open>The rewrite of a backend uses its backlog through four operations. \<open>backlog_run\<close> is that
  use, for a given list of delivery outcomes: fetch a record, commit when the delivery is
  settled, roll back when it is to be repeated. It returns the settled records.\<close>

fun backlog_run ::
    "('s \<Rightarrow> 's \<times> 'r option) \<Rightarrow> ('s \<Rightarrow> 's) \<Rightarrow> ('s \<Rightarrow> 's) \<Rightarrow> bool list \<Rightarrow> 's \<Rightarrow> 's \<times> 'r list" where
  "backlog_run fetch commit rollback [] s = (s, [])"
| "backlog_run fetch commit rollback (settled # os) s =
     (case fetch s of
        (s1, None) \<Rightarrow> backlog_run fetch commit rollback os s1
      | (s1, Some r) \<Rightarrow>
          if settled then
            (let (s2, rs) = backlog_run fetch commit rollback os (commit s1) in (s2, r # rs))
          else backlog_run fetch commit rollback os (rollback s1))"

locale backlog =
  fixes inv :: "'s \<Rightarrow> bool"
    and pend :: "'s \<Rightarrow> 'r list"
    and rest :: "'s \<Rightarrow> 'r list"
    and mark :: "'s \<Rightarrow> bool"
    and fits :: "'s \<Rightarrow> 'r \<Rightarrow> bool"
    and enq :: "'s \<Rightarrow> 'r \<Rightarrow> 's"
    and fetch :: "'s \<Rightarrow> 's \<times> 'r option"
    and commit :: "'s \<Rightarrow> 's"
    and rollback :: "'s \<Rightarrow> 's"
  assumes enq: "inv s \<Longrightarrow> fits s r \<Longrightarrow>
      inv (enq s r) \<and> pend (enq s r) = pend s @ [r] \<and> rest (enq s r) = rest s @ [r] \<and> (mark (enq s r) \<longleftrightarrow> mark s)"
    and fetch_some: "inv s \<Longrightarrow> rest s = r # rs \<Longrightarrow>
      \<exists>s'. fetch s = (s', Some r) \<and> inv s' \<and> rest s' = rs \<and> pend s' = pend s \<and> (mark s' \<longleftrightarrow> mark s)"
    and fetch_none: "inv s \<Longrightarrow> rest s = [] \<Longrightarrow> fetch s = (s, None)"
    and commit: "inv s \<Longrightarrow>
      inv (commit s) \<and> pend (commit s) = rest s \<and> rest (commit s) = rest s \<and> mark (commit s)"
    and rollback: "inv s \<Longrightarrow> mark s \<Longrightarrow>
      inv (rollback s) \<and> pend (rollback s) = pend s \<and> rest (rollback s) = pend s \<and> mark (rollback s)"
begin

text \<open>Once an offset has been marked, the backlog is a queue: whatever deliveries fail, the
  settled records and the pending ones are the records that were pending, in their order.\<close>

lemma run_fifo:
  assumes "inv s" "mark s" "rest s = pend s" "backlog_run fetch commit rollback os s = (s', rs)"
  shows "inv s' \<and> mark s' \<and> rest s' = pend s' \<and> rs @ pend s' = pend s \<and>
         length rs = min (length (filter (\<lambda>b. b) os)) (length (pend s))"
  using assms
proof (induction os arbitrary: s rs)
  case (Cons settled os)
  show ?case
  proof (cases "pend s")
    case Nil
    with Cons.prems fetch_none [of s] Cons.IH [of s rs] show ?thesis by auto
  next
    case (Cons r t)
    with Cons.prems fetch_some [of s r t] obtain s1 where
      s1: "fetch s = (s1, Some r)" "inv s1" "rest s1 = t" "pend s1 = r # t" "mark s1" by auto
    show ?thesis
    proof (cases settled)
      case False
      with s1 Cons Cons.prems(4) rollback [of s1] Cons.IH [of "rollback s1" rs] show ?thesis by auto
    next
      case True
      with s1 Cons.prems(4) obtain rs' where
        run: "backlog_run fetch commit rollback os (commit s1) = (s', rs')" "rs = r # rs'"
        by (auto split: prod.splits)
      from commit [OF s1(2)] s1(3) Cons.IH [OF _ _ _ run(1)]
      have "inv s' \<and> mark s' \<and> rest s' = pend s' \<and> rs' @ pend s' = t \<and>
            length rs' = min (length (filter (\<lambda>b. b) os)) (length t)" by simp
      with run(2) Cons True show ?thesis by simp
    qed
  qed
qed simp

end

text \<open>The file backend without failures of the disk keeps the contract.\<close>

definition fb_fits :: "FileBackend \<Rightarrow> bytes \<Rightarrow> bool" where
  "fb_fits fb p \<longleftrightarrow> storable p \<and> length (fb_dat fb) + 4 + length p < 2 ^ 63"

definition fb_enq :: "FileBackend \<Rightarrow> bytes \<Rightarrow> FileBackend" where
  "fb_enq fb p = fst (fb_Write good_Write fb p)"

definition fb_fetch :: "FileBackend \<Rightarrow> FileBackend \<times> bytes option" where
  "fb_fetch fb =
     (case fb_Read (None, None) fb of (fb', Inr r) \<Rightarrow> (fb', r) | (fb', Inl e) \<Rightarrow> (fb', None))"

definition fb_commit :: "FileBackend \<Rightarrow> FileBackend" where
  "fb_commit fb = fst (UpdateMeta good_Update fb)"

definition fb_rollback :: "FileBackend \<Rightarrow> FileBackend" where
  "fb_rollback fb = fst (RollbackMeta good_Rollback fb)"

lemma fb_invE:
  assumes "fb_inv fb"
  obtains items i j where "represents fb items i j" "pending fb = drop j items" "ahead fb = drop i items"
  using assms represents_views unfolding fb_inv_def by blast

lemma fb_Write_inv:
  assumes "fb_inv fb" "fb_fits fb p"
  shows "\<exists>fb'. fb_Write good_Write fb p = (fb', None) \<and> fb_inv fb' \<and> pending fb' = pending fb @ [p] \<and>
           ahead fb' = ahead fb @ [p] \<and> (marked fb' \<longleftrightarrow> marked fb)"
proof -
  from assms(1) obtain items i j where r: "represents fb items i j" "pending fb = drop j items" "ahead fb = drop i items"
    by (rule fb_invE)
  with assms(2) fb_Write_represents [of fb items i j p] obtain fb' where
    w: "fb_Write good_Write fb p = (fb', None)" "represents fb' (items @ [p]) i j" "fb_rec fb' = fb_rec fb"
    by (auto simp: fb_fits_def)
  from r(1) have "j \<le> length items" "i \<le> length items" by (auto simp: represents_def)
  with w r(2,3) represents_views [OF w(2)] show ?thesis
    by (auto simp: fb_inv_def marked_def)
qed

lemma fb_Read_inv:
  assumes "fb_inv fb" "ahead fb = p # ps"
  shows "\<exists>fb'. fb_Read (None, None) fb = (fb', Inr (Some p)) \<and> fb_inv fb' \<and> ahead fb' = ps \<and>
           pending fb' = pending fb \<and> (marked fb' \<longleftrightarrow> marked fb)"
proof -
  from assms(1) obtain items i j where r: "represents fb items i j" "pending fb = drop j items" "ahead fb = drop i items"
    by (rule fb_invE)
  with assms(2) have i: "i < length items" "items ! i = p" "drop (Suc i) items = ps"
    using drop_eq_ConsD [of i items p ps] by simp_all
  from fb_Read_represents [OF r(1) i(1)] i(2) obtain fb' where
    w: "fb_Read (None, None) fb = (fb', Inr (Some p))" "represents fb' items (Suc i) j" "fb_rec fb' = fb_rec fb"
    by auto
  with represents_views [OF w(2)] r(2) i(3) show ?thesis
    by (auto simp: fb_inv_def marked_def)
qed

lemma fb_Read_none:
  assumes "fb_inv fb" "ahead fb = []"
  shows "fb_Read (None, None) fb = (fb, if fb_dataflag fb then Inl ErrEOF else Inr None)"
proof -
  from assms(1) obtain items i j where r: "represents fb items i j" "ahead fb = drop i items"
    by (rule fb_invE)
  with assms(2) have "i = length items" by (auto simp: represents_def)
  with fb_Read_exhausted [OF r(1)] r(1) show ?thesis by (auto simp: represents_def)
qed

lemma UpdateMeta_inv:
  assumes "fb_inv fb"
  shows "\<exists>fb'. UpdateMeta good_Update fb = (fb', None) \<and> fb_inv fb' \<and> pending fb' = ahead fb \<and>
           ahead fb' = ahead fb \<and> marked fb'"
proof -
  from assms obtain items i j where r: "represents fb items i j" "ahead fb = drop i items"
    by (rule fb_invE)
  from UpdateMeta_represents [OF r(1)] obtain fb' where
    u: "UpdateMeta good_Update fb = (fb', None)" "marked fb'"
      "if i = length items then represents fb' [] 0 0 else represents fb' items i i" by blast
  with r(2) represents_views [of fb'] show ?thesis
    by (cases "i = length items") (auto simp: fb_inv_def)
qed

lemma RollbackMeta_inv:
  assumes "fb_inv fb" "marked fb"
  shows "\<exists>fb'. RollbackMeta good_Rollback fb = (fb', None) \<and> fb_inv fb' \<and> pending fb' = pending fb \<and>
           ahead fb' = pending fb \<and> marked fb'"
proof -
  from assms(1) obtain items i j where r: "represents fb items i j" "pending fb = drop j items"
    by (rule fb_invE)
  from RollbackMeta_represents [OF r(1) assms(2)] represents_views [of _ items j j] r(2) assms(2)
  show ?thesis by (auto simp: fb_inv_def marked_def)
qed

interpretation fbq: backlog fb_inv pending ahead marked fb_fits fb_enq fb_fetch fb_commit fb_rollback
proof unfold_locales
  fix fb p
  assume "fb_inv fb" "fb_fits fb p"
  from fb_Write_inv [OF this]
  show "fb_inv (fb_enq fb p) \<and> pending (fb_enq fb p) = pending fb @ [p] \<and> ahead (fb_enq fb p) = ahead fb @ [p] \<and>
        (marked (fb_enq fb p) \<longleftrightarrow> marked fb)"
    by (auto simp: fb_enq_def)
next
  fix fb p ps
  assume "fb_inv fb" "ahead fb = p # ps"
  from fb_Read_inv [OF this]
  show "\<exists>fb'. fb_fetch fb = (fb', Some p) \<and> fb_inv fb' \<and> ahead fb' = ps \<and> pending fb' = pending fb \<and>
          (marked fb' \<longleftrightarrow> marked fb)"
    by (auto simp: fb_fetch_def)
next
  fix fb
  assume "fb_inv fb" "ahead fb = []"
  from fb_Read_none [OF this] show "fb_fetch fb = (fb, None)" by (simp add: fb_fetch_def)
next
  fix fb
  assume "fb_inv fb"
  from UpdateMeta_inv [OF this]
  show "fb_inv (fb_commit fb) \<and> pending (fb_commit fb) = ahead fb \<and> ahead (fb_commit fb) = ahead fb \<and>
        marked (fb_commit fb)"
    by (auto simp: fb_commit_def)
next
  fix fb
  assume "fb_inv fb" "marked fb"
  from RollbackMeta_inv [OF this]
  show "fb_inv (fb_rollback fb) \<and> pending (fb_rollback fb) = pending fb \<and> ahead (fb_rollback fb) = pending fb \<and>
        marked (fb_rollback fb)"
    by (auto simp: fb_rollback_def)
qed

section \<open>Properties\<close>

text \<open>C9: the backlog is a queue on disk. In every state that the operations reach, writing a
  record appends it to the records pending and to those ahead of the consumer; reading
  returns the first record ahead and never one that was not written; and \<^verbatim>\<open>UpdateMeta\<close>
  makes exactly the records ahead the pending ones, emptying the file when there are none.\<close>

theorem backlog_operations:
  assumes "fb_inv fb"
  shows "(fb_fits fb p \<longrightarrow> (\<exists>fb'. fb_Write good_Write fb p = (fb', None) \<and> fb_inv fb' \<and>
            pending fb' = pending fb @ [p] \<and> ahead fb' = ahead fb @ [p])) \<and>
         (\<exists>fb'. (case ahead fb of
             [] \<Rightarrow> fb_Read (None, None) fb = (fb', if IsData fb then Inl ErrEOF else Inr None) \<and> fb' = fb
           | r # rs \<Rightarrow> fb_Read (None, None) fb = (fb', Inr (Some r)) \<and> fb_inv fb' \<and>
               ahead fb' = rs \<and> pending fb' = pending fb)) \<and>
         (\<exists>fb'. UpdateMeta good_Update fb = (fb', None) \<and> fb_inv fb' \<and>
            pending fb' = ahead fb \<and> ahead fb' = ahead fb \<and> (ahead fb = [] \<longrightarrow> fb_dat fb' = []))"
proof (intro conjI)
  show "fb_fits fb p \<longrightarrow> (\<exists>fb'. fb_Write good_Write fb p = (fb', None) \<and> fb_inv fb' \<and>
            pending fb' = pending fb @ [p] \<and> ahead fb' = ahead fb @ [p])"
    using fb_Write_inv [OF assms] by blast
  show "\<exists>fb'. (case ahead fb of
             [] \<Rightarrow> fb_Read (None, None) fb = (fb', if IsData fb then Inl ErrEOF else Inr None) \<and> fb' = fb
           | r # rs \<Rightarrow> fb_Read (None, None) fb = (fb', Inr (Some r)) \<and> fb_inv fb' \<and>
               ahead fb' = rs \<and> pending fb' = pending fb)"
  proof (cases "ahead fb")
    case Nil
    with fb_Read_none [OF assms] show ?thesis by (simp add: IsData_def)
  next
    case (Cons r rs)
    with fb_Read_inv [OF assms Cons] show ?thesis by auto
  qed
  obtain items i j where r: "represents fb items i j" "ahead fb = drop i items"
    using assms by (rule fb_invE)
  from UpdateMeta_represents [OF r(1)] r(2) r(1)
  have "ahead fb = [] \<longrightarrow> fb_dat (fst (UpdateMeta good_Update fb)) = []"
    by (auto simp: represents_def)
  with UpdateMeta_inv [OF assms]
  show "\<exists>fb'. UpdateMeta good_Update fb = (fb', None) \<and> fb_inv fb' \<and>
            pending fb' = ahead fb \<and> ahead fb' = ahead fb \<and> (ahead fb = [] \<longrightarrow> fb_dat fb' = [])"
    by auto
qed

definition empty_backlog :: FileBackend where
  "empty_backlog = fst (NewFileBackend good_Open ''influxdb-1'' ''data'' [] [])"

lemma empty_backlog_represents: "represents empty_backlog [] 0 0"
  by (simp add: empty_backlog_def NewFileBackend_def good_Open_def represents_def RollbackMeta_def good_Rollback_def
      read_full_def Let_def)

lemma empty_backlog_inv: "fb_inv empty_backlog" "pending empty_backlog = []" "ahead empty_backlog = []"
  using empty_backlog_represents represents_views by (force simp: fb_inv_def)+

theorem backlog_operations_witness:
  "\<exists>fb. fb_Write good_Write empty_backlog ''db rp cpu'' = (fb, None) \<and> pending fb = [''db rp cpu'']"
proof -
  have "fb_fits empty_backlog ''db rp cpu''"
    using empty_backlog_represents by (simp add: fb_fits_def storable_def represents_def)
  with backlog_operations [OF empty_backlog_inv(1), of "''db rp cpu''"] empty_backlog_inv(2)
  show ?thesis by auto
qed

lemma NewFileBackend_represents:
  assumes "represents fb items i j"
  shows "\<exists>fb'. NewFileBackend good_Open name dir (fb_dat fb) (fb_rec fb) = (fb', None) \<and>
           represents fb' items j j \<and> fb_rec fb' = fb_rec fb"
proof -
  let ?fb = "\<lparr>fb_filename = name, fb_datadir = dir, fb_dataflag = items \<noteq> [],
     fb_producer = Some (length (frames items)), fb_consumer = Some (length (frames (take j items))),
     fb_meta = True, fb_dat = fb_dat fb, fb_rec = fb_rec fb\<rparr>"
  let ?off = "length (frames (take j items))"
  from assms have j: "j \<le> length items" "items \<noteq> [] \<longrightarrow> j < length items" "?off < 2 ^ 63"
    using length_frames_take [of j items] by (auto simp: represents_def)
  have "?off < length (frames items) \<longleftrightarrow> items \<noteq> []"
    using j frames_take_eq_iff [of j items] length_frames_take [of j items] by (auto simp: not_less)
  then have "NewFileBackend good_Open name dir (fb_dat fb) (fb_rec fb) = (?fb, None)"
    using assms j(3) unfolding NewFileBackend_def
    by (cases "fb_rec fb = []")
      (auto simp: good_Open_def RollbackMeta_def good_Rollback_def Let_def read_full_def represents_def
        be_int64_8)
  moreover have "represents ?fb items j j"
    using assms by (auto simp: represents_def)
  ultimately show ?thesis by auto
qed

text \<open>C29: what a restart and a rollback bring back. Opening the two files of any reachable
  state again, as a restart after a crash between two operations does, gives a backlog whose
  consumer stands before all pending records, those already read but not marked done
  included. \<^verbatim>\<open>RollbackMeta\<close> does the same within a run once an offset has been marked. As
  long as none has been, the meta file is empty: \<^verbatim>\<open>RollbackMeta\<close> then fails with \<^verbatim>\<open>io.EOF\<close>
  and moves nothing, so records read before stay passed over.\<close>

theorem backlog_recovery:
  assumes "fb_inv fb"
  shows "(\<exists>fb'. NewFileBackend good_Open name dir (fb_dat fb) (fb_rec fb) = (fb', None) \<and> fb_inv fb' \<and>
            pending fb' = pending fb \<and> ahead fb' = pending fb) \<and>
         (marked fb \<longrightarrow> (\<exists>fb'. RollbackMeta good_Rollback fb = (fb', None) \<and> fb_inv fb' \<and>
            pending fb' = pending fb \<and> ahead fb' = pending fb)) \<and>
         (\<not> marked fb \<longrightarrow> RollbackMeta good_Rollback fb = (fb, Some ErrEOF))"
proof -
  obtain items i j where r: "represents fb items i j" "pending fb = drop j items"
    using assms by (rule fb_invE)
  then have "fb_meta fb" by (simp add: represents_def)
  moreover from NewFileBackend_represents [OF r(1), of name dir] represents_views [of _ items j j] r(2)
  have "\<exists>fb'. NewFileBackend good_Open name dir (fb_dat fb) (fb_rec fb) = (fb', None) \<and> fb_inv fb' \<and>
          pending fb' = pending fb \<and> ahead fb' = pending fb"
    by (auto simp: fb_inv_def)
  ultimately show ?thesis using RollbackMeta_inv [OF assms] RollbackMeta_unmarked [of fb] by blast
qed

lemma sample_two:
  obtains fb where "fb_inv fb" "marked fb" "pending fb = [''a'', ''b'']" "ahead fb = [''a'', ''b'']"
proof -
  define fb0 where "fb0 = fb_commit empty_backlog"
  have fb0: "fb_inv fb0" "pending fb0 = []" "ahead fb0 = []" "marked fb0" "fb_dat fb0 = []"
    using fbq.commit [OF empty_backlog_inv(1)] UpdateMeta_represents [OF empty_backlog_represents] empty_backlog_inv(3)
    by (auto simp: fb0_def fb_commit_def represents_def)
  define fb1 where "fb1 = fb_enq fb0 ''a''"
  have fb1: "fb_inv fb1" "pending fb1 = [''a'']" "ahead fb1 = [''a'']" "marked fb1"
    using fbq.enq [OF fb0(1), of "''a''"] fb0 by (simp_all add: fb1_def fb_fits_def storable_def)
  have "length (fb_dat fb1) = 5"
    using fb0 by (auto simp: fb1_def fb_enq_def fb_Write_def good_Write_def append_dat_def good_write_def Let_def
        fb_inv_def represents_def)
  then have "fb_fits fb1 ''b''" by (simp add: fb_fits_def storable_def)
  from fbq.enq [OF fb1(1) this] fb1 that [of "fb_enq fb1 ''b''"] show thesis by simp
qed

theorem backlog_recovery_witness:
  "\<exists>fb fb1 fb2. marked fb \<and> pending fb = [''a'', ''b''] \<and> ahead fb = [''b''] \<and>
     RollbackMeta good_Rollback fb = (fb1, None) \<and> ahead fb1 = [''a'', ''b''] \<and>
     NewFileBackend good_Open ''influxdb-1'' ''data'' (fb_dat fb) (fb_rec fb) = (fb2, None) \<and> ahead fb2 = [''a'', ''b'']"
proof -
  obtain fb0 where fb0: "fb_inv fb0" "marked fb0" "pending fb0 = [''a'', ''b'']" "ahead fb0 = [''a'', ''b'']"
    by (rule sample_two)
  from fbq.fetch_some [OF fb0(1,4)] fb0(2,3) obtain fb where
    "fb_inv fb" "ahead fb = [''b'']" "pending fb = [''a'', ''b'']" "marked fb" by auto
  with backlog_recovery [of fb "''influxdb-1''" "''data''"] show ?thesis by force
qed

text \<open>In what order records are delivered. Once an offset has been marked, any sequence
  of delivery attempts, settled or to be repeated, takes the records off the backlog in the
  order they were written, each exactly once, and keeps the others.\<close>

theorem backlog_delivers_in_order:
  assumes "fb_inv fb" "marked fb" "ahead fb = pending fb"
    and "backlog_run fb_fetch fb_commit fb_rollback outcomes fb = (fb', delivered)"
  shows "delivered @ pending fb' = pending fb \<and> fb_inv fb' \<and>
         length delivered = min (length (filter (\<lambda>settled. settled) outcomes)) (length (pending fb))"
  using fbq.run_fifo [OF assms] by blast

theorem backlog_delivers_in_order_witness:
  "\<exists>fb fb' ps. pending fb = [''a'', ''b''] \<and>
     backlog_run fb_fetch fb_commit fb_rollback [False, True] fb = (fb', [''a'']) \<and> pending fb' = [''b'']"
proof -
  obtain fb where fb: "fb_inv fb" "marked fb" "pending fb = [''a'', ''b'']" "ahead fb = [''a'', ''b'']"
    by (rule sample_two)
  obtain fb' ds where run: "backlog_run fb_fetch fb_commit fb_rollback [False, True] fb = (fb', ds)"
    by (cases "backlog_run fb_fetch fb_commit fb_rollback [False, True] fb")
  with backlog_delivers_in_order [OF fb(1,2) _ run] fb have "ds @ pending fb' = [''a'', ''b'']" "length ds = 1"
    by simp_all
  then have "ds = [''a'']" "pending fb' = [''b'']" by (cases ds; simp)+
  with run fb(3) show ?thesis by blast
qed

text \<open>The first record of a new backlog can be lost. As long as the meta file is empty,
  \<^verbatim>\<open>RollbackMeta\<close> fails with \<^verbatim>\<open>io.EOF\<close> and leaves the consumer where it is; so a first record
  whose delivery fails is not read again, and when the record behind it is settled,
  \<^verbatim>\<open>UpdateMeta\<close> empties the file with the first record in it.\<close>

theorem first_record_lost:
  assumes "storable p" "storable r"
  shows "\<exists>fb1 fb2 fb3. fb_Write good_Write empty_backlog p = (fb1, None) \<and>
           fb_Write good_Write fb1 r = (fb2, None) \<and> pending fb2 = [p, r] \<and>
           backlog_run fb_fetch fb_commit fb_rollback [False, True] fb2 = (fb3, [r]) \<and> pending fb3 = []"
proof -
  have "fb_fits empty_backlog p"
    using assms(1) empty_backlog_represents by (auto simp: fb_fits_def storable_def represents_def)
  with fb_Write_inv [OF empty_backlog_inv(1)] empty_backlog_inv empty_backlog_represents obtain fb1 where
    w1: "fb_Write good_Write empty_backlog p = (fb1, None)" "fb_inv fb1" "pending fb1 = [p]" "ahead fb1 = [p]"
      "\<not> marked fb1"
    by (auto simp: represents_def empty_backlog_def NewFileBackend_def marked_def good_Open_def
        RollbackMeta_def good_Rollback_def read_full_def Let_def)
  have "length (fb_dat fb1) \<le> 4 + length p"
    using w1(1) by (auto simp: fb_Write_def good_Write_def append_dat_def good_write_def Let_def empty_backlog_def
        NewFileBackend_def good_Open_def split: if_splits)
      (auto simp: RollbackMeta_def good_Rollback_def read_full_def)
  then have "fb_fits fb1 r"
    using assms by (auto simp: fb_fits_def storable_def)
  with fb_Write_inv [OF w1(2)] w1(3-5) obtain fb2 where
    w2: "fb_Write good_Write fb1 r = (fb2, None)" "fb_inv fb2" "pending fb2 = [p, r]" "ahead fb2 = [p, r]"
      "\<not> marked fb2" by auto
  from fbq.fetch_some [OF w2(2,4)] w2(5) obtain fb2' where
    f1: "fb_fetch fb2 = (fb2', Some p)" "fb_inv fb2'" "ahead fb2' = [r]" "\<not> marked fb2'" by auto
  from f1(2) have "fb_meta fb2'" by (auto simp: fb_inv_def represents_def)
  with f1(4) have rb: "fb_rollback fb2' = fb2'" by (simp add: fb_rollback_def RollbackMeta_unmarked)
  from fbq.fetch_some [OF f1(2,3)] obtain fb2'' where
    f2: "fb_fetch fb2' = (fb2'', Some r)" "fb_inv fb2''" "ahead fb2'' = []" by auto
  from fbq.commit [OF f2(2)] f2(3) have "pending (fb_commit fb2'') = []" by simp
  moreover have "backlog_run fb_fetch fb_commit fb_rollback [False, True] fb2 = (fb_commit fb2'', [r])"
    using f1(1) f2(1) rb by simp
  ultimately show ?thesis using w1(1) w2(1,3) by blast
qed

theorem first_record_lost_witness:
  "\<exists>fb2 fb3. pending fb2 = [''a'', ''b''] \<and>
     backlog_run fb_fetch fb_commit fb_rollback [False, True] fb2 = (fb3, [''b'']) \<and> pending fb3 = []"
  using first_record_lost [of "''a''" "''b''"] by (auto simp: storable_def)

text \<open>A crash inside \<^verbatim>\<open>UpdateMeta\<close>, after the data file is truncated and before the meta
  file is written, leaves an old offset. After the restart a record written to the empty
  file lies before the consumer: the backlog says it has data, but reading it fails with
  \<^verbatim>\<open>io.EOF\<close> as long as the file is not longer than the offset.\<close>

theorem crash_in_UpdateMeta_hides_records:
  assumes "storable p" "4 + length p \<le> k" "k < 2 ^ 63"
  shows "\<exists>fb fb'. NewFileBackend good_Open name dir [] (be_bytes 8 k) = (fb, None) \<and>
           fb_Write good_Write fb p = (fb', None) \<and> IsData fb' \<and> fb_Read (None, None) fb' = (fb', Inl ErrEOF)"
proof -
  let ?fb = "\<lparr>fb_filename = name, fb_datadir = dir, fb_dataflag = False, fb_producer = Some 0,
     fb_consumer = Some k, fb_meta = True, fb_dat = [], fb_rec = be_bytes 8 k\<rparr>"
  let ?fb' = "?fb\<lparr>fb_dat := frame p, fb_producer := Some (length (frame p)), fb_dataflag := True\<rparr>"
  have "NewFileBackend good_Open name dir [] (be_bytes 8 k) = (?fb, None)"
    using assms(3) by (simp add: NewFileBackend_def good_Open_def RollbackMeta_def good_Rollback_def Let_def
        read_full_def be_int64_8)
  moreover have "length p mod 2 ^ 32 = length p" "length p < 2 ^ 64"
    using assms(1) by (simp_all add: storable_def)
  then have "fb_Write good_Write ?fb p = (?fb', None)"
    by (simp add: fb_Write_def good_Write_def append_dat_def good_write_def Let_def frame_def)
  moreover have "fb_Read (None, None) ?fb' = (?fb', Inl ErrEOF)"
    using assms(2) by (simp add: fb_Read_def IsData_def read_full_def frame_def)
  ultimately show ?thesis by (intro exI conjI) (assumption | simp add: IsData_def)+
qed

theorem crash_in_UpdateMeta_hides_records_witness:
  "\<exists>fb fb'. NewFileBackend good_Open ''influxdb-1'' ''data'' [] (be_bytes 8 100) = (fb, None) \<and>
     fb_Write good_Write fb ''a'' = (fb', None) \<and> fb_Read (None, None) fb' = (fb', Inl ErrEOF)"
  using crash_in_UpdateMeta_hides_records [of "''a''" 100 "''influxdb-1''" "''data''"] by (auto simp: storable_def)

lemma parse_frames_append: "list_all storable ps \<Longrightarrow> parse_frames (frames ps @ s) = ps @ parse_frames s"
  by (induction ps) (simp_all add: parse_frames_frame storable_def)

lemma append_dat_frame:
  assumes "represents fb items i j"
  shows "drop (length (frames (take i items))) (frames items @ s) = frames (drop i items) @ s"
    "drop (be_nat (take 8 (fb_rec fb))) (frames items @ s) = frames (drop j items) @ s"
proof -
  have "length (frames (take k items)) \<le> length (frames items)" for k
    using length_frames_take [of k items] by simp
  then have d: "drop (length (frames (take k items))) (frames items @ s) = frames (drop k items) @ s" for k
    by (simp add: drop_frames)
  then show "drop (length (frames (take i items))) (frames items @ s) = frames (drop i items) @ s" .
  have "length (frames (take j items)) < 2 ^ 63"
    using assms length_frames_take [of j items] by (simp add: represents_def)
  then have "be_nat (take 8 (fb_rec fb)) = length (frames (take j items))"
    using assms by (auto simp: represents_def be_nat_8 split: if_splits)
  with d show "drop (be_nat (take 8 (fb_rec fb))) (frames items @ s) = frames (drop j items) @ s" by simp
qed

text \<open>C25: a write that fails behind the length leaves the file torn. The error is reported and the
  record is lost, as it is logged; but nothing takes the length back, so the next record, whose
  write succeeds, is read as the payload of the failed one: what is delivered in its place is the
  start of its own frame, and what is left of it is read as further records.\<close>

theorem torn_write_swallows_next:
  assumes "fb_inv fb" "storable p" "storable q" "length p \<le> 4 + length q"
  shows "\<exists>fb1 fb2. fb_Write (good_Write\<lparr>wi_data := (0, Some e)\<rparr>) fb p = (fb1, Some e) \<and>
           fb_Write good_Write fb1 q = (fb2, None) \<and>
           ahead fb2 = ahead fb @ take (length p) (frame q) # parse_frames (drop (length p) (frame q)) \<and>
           pending fb2 = pending fb @ take (length p) (frame q) # parse_frames (drop (length p) (frame q))"
proof -
  from assms(1) obtain items i j where r: "represents fb items i j" "pending fb = drop j items" "ahead fb = drop i items"
    by (rule fb_invE)
  let ?l = "be_bytes 4 (length p)"
  let ?t = "?l @ frame q"
  let ?fb1 = "fb\<lparr>fb_dat := frames items @ ?l, fb_producer := Some (length (frames items @ ?l))\<rparr>"
  let ?fb2 = "fb\<lparr>fb_dat := frames items @ ?t, fb_producer := Some (length (frames items @ ?t)), fb_dataflag := True\<rparr>"
  have len: "length p mod 2 ^ 32 = length p" "length q mod 2 ^ 32 = length q" "length q < 2 ^ 64"
    using assms(2,3) by (simp_all add: storable_def)
  have w: "fb_producer fb = Some (length (frames items))" "fb_dat fb = frames items" using r(1) by (auto simp: represents_def)
  have w1: "fb_Write (good_Write\<lparr>wi_data := (0, Some e)\<rparr>) fb p = (?fb1, Some e)"
    using w len(1) by (simp add: fb_Write_def good_Write_def append_dat_def good_write_def Let_def)
  have w2: "fb_Write good_Write ?fb1 q = (?fb2, None)"
    using len(2,3) by (simp add: fb_Write_def good_Write_def append_dat_def good_write_def Let_def frame_def)
  have t: "parse_frames ?t = take (length p) (frame q) # parse_frames (drop (length p) (frame q))"
    using assms(2,4) by (subst parse_frames.simps) (simp add: be_nat_4 storable_def)
  have st: "list_all storable (drop k items)" for k
    using r(1) by (auto simp: represents_def list_all_iff dest: in_set_dropD)
  have c: "fb_consumer fb = Some (length (frames (take i items)))" using r(1) by (simp add: represents_def)
  have "ahead ?fb2 = drop i items @ parse_frames ?t"
    using c by (simp add: ahead_def append_dat_frame(1) [OF r(1)] parse_frames_append [OF st] del: drop_append)
  moreover have "pending ?fb2 = drop j items @ parse_frames ?t"
    by (simp add: pending_def append_dat_frame(2) [OF r(1)] parse_frames_append [OF st] del: drop_append)
  ultimately show ?thesis using w1 w2 r(2,3) t by auto
qed

theorem torn_write_swallows_next_witness:
  "\<exists>fb1 fb2. fb_Write (good_Write\<lparr>wi_data := (0, Some ErrIO)\<rparr>) empty_backlog ''abcdef'' = (fb1, Some ErrIO) \<and>
     fb_Write good_Write fb1 ''xyz'' = (fb2, None) \<and> ahead fb2 = [be_bytes 4 (length ''xyz'') @ ''xy'']"
proof -
  have "parse_frames ''z'' = []" by (simp add: parse_frames.simps)
  with torn_write_swallows_next [OF empty_backlog_inv(1), of "''abcdef''" "''xyz''" ErrIO] empty_backlog_inv
  show ?thesis by (auto simp: storable_def frame_def)
qed

text \<open>\<^verbatim>\<open>Read\<close> does not hold the lock that \<^verbatim>\<open>Write\<close> holds. A reader at the end of the file that comes
  between the two halves of a write takes the length for itself and fails; when it comes again,
  it takes the payload for records.\<close>

theorem read_meets_half_written_record:
  assumes "represents fb items (length items) j" "items \<noteq> []" "storable p" "p \<noteq> []"
  shows "\<exists>fb2. fb_Read (None, None) (append_dat fb good_write (be_bytes 4 (length p))) = (fb2, Inl ErrEOF) \<and>
           ahead (append_dat fb2 good_write p) = parse_frames p"
proof -
  let ?fb1 = "append_dat fb good_write (be_bytes 4 (length p))"
  let ?fb2 = "?fb1\<lparr>fb_consumer := Some (length (frames items) + 4)\<rparr>"
  have fb1: "?fb1 = fb\<lparr>fb_dat := frames items @ be_bytes 4 (length p), fb_producer := Some (length (frames items) + 4)\<rparr>"
    using assms(1) by (simp add: append_dat_good represents_def)
  have r: "fb_consumer ?fb1 = Some (length (frames items))" "IsData ?fb1"
    using assms(1,2) by (auto simp: fb1 represents_def IsData_def)
  have "be_nat (be_bytes 4 (length p)) = length p" using assms(3) by (simp add: be_nat_4 storable_def)
  with r assms(4) have "fb_Read (None, None) ?fb1 = (?fb2, Inl ErrEOF)"
    by (simp add: fb_Read_def read_full_def fb1)
  moreover have "ahead (append_dat ?fb2 good_write p) = parse_frames p"
    using assms(3) by (simp add: fb1 append_dat_good storable_def ahead_def)
  ultimately show ?thesis by blast
qed

theorem read_meets_half_written_record_witness:
  "\<exists>fb fb2. fb_Read (None, None) (append_dat fb good_write (be_bytes 4 (length ''abcde''))) = (fb2, Inl ErrEOF) \<and>
     ahead (append_dat fb2 good_write ''abcde'') = parse_frames ''abcde''"
proof -
  from fb_Write_represents [OF empty_backlog_represents, of "''a''"] empty_backlog_represents obtain fb where
    "represents fb [''a''] 0 0" by (auto simp: storable_def represents_def)
  from fb_Read_represents [OF this] obtain fb' where "represents fb' [''a''] (length [''a'']) 0" by auto
  from read_meets_half_written_record [OF this, of "''abcde''"] show ?thesis by (auto simp: storable_def)
qed

end
