(* ===== verification/Influxql.thy ===== *)
theory Influxql
  imports Util
begin

text \<open>
  The InfluxQL scanner and the statement classifier of \<^verbatim>\<open>backend/influxql.go\<close>: tokens,
  the database, retention policy and measurement a statement names (through subqueries),
  and the white list of statements the proxy lets through. A run-time panic of the code
  (an index out of range) is \<open>None\<close>.
\<close>

section \<open>Scanning\<close>

text \<open>The texts of the errors of \<^verbatim>\<open>influxql.go\<close>.\<close>

definition influxql_Error :: "error \<Rightarrow> string option" where
  "influxql_Error e =
     (case e of
        ErrWrongBackslash \<Rightarrow> Some ''wrong backslash''
      | ErrUnmatchedQuote \<Rightarrow> Some ''unmatched quote''
      | ErrUnclosed \<Rightarrow> Some ''unclosed parenthesis''
      | ErrIllegalQL \<Rightarrow> Some ''illegal InfluxQL''
      | _ \<Rightarrow> None)"

definition SupportCmds :: Set where
  "SupportCmds = NewSet
     [''show measurements'', ''show series'', ''show field keys'', ''show tag keys'',
      ''show tag values'', ''show stats'', ''show databases'', ''create database'',
      ''drop database'', ''show retention policies'', ''create retention policy'',
      ''alter retention policy'', ''drop retention policy'', ''delete from'',
      ''drop series from'', ''drop measurement'']"

text \<open>The loop of \<^verbatim>\<open>FindEndWithQuote\<close>. The test \<open>length data = i\<close> is the code's own
  (it never holds inside the loop); the read of the byte after a backslash panics at the
  end of the data.\<close>

function find_end :: "bytes \<Rightarrow> byte \<Rightarrow> nat \<Rightarrow> bytes \<Rightarrow> (nat \<times> bytes \<times> error option) option" where
  "find_end data endchar i unq =
     (if i < length data then
        (if data ! i = endchar then Some (i + 1, unq @ [data ! i], None)
         else if data ! i = CHR 0x5C then
           (if length data = i then Some (i, unq, Some ErrUnmatchedQuote)
            else if length data \<le> i + 1 then None
            else if data ! (i + 1) = endchar \<or> data ! (i + 1) = CHR 0x5C
            then find_end data endchar (i + 2) (unq @ [data ! (i + 1)])
            else Some (i, unq, Some ErrWrongBackslash))
         else find_end data endchar (i + 1) (unq @ [data ! i]))
      else Some (i, unq, Some ErrUnmatchedQuote))"
  by pat_completeness auto
termination
  by (relation "measure (\<lambda>(data, e, i, u). length data - i)") auto

declare find_end.simps [simp del]

definition FindEndWithQuote :: "bytes \<Rightarrow> nat \<Rightarrow> byte \<Rightarrow> (nat \<times> bytes \<times> error option) option" where
  "FindEndWithQuote data start endchar =
     do { c \<leftarrow> byte_at data start; find_end data endchar (start + 1) [c] }"

function SkipWhitespace :: "bytes \<Rightarrow> nat \<Rightarrow> nat" where
  "SkipWhitespace buf i =
     (if i < length buf then
        (if buf ! i \<noteq> CHR '' '' \<and> buf ! i \<noteq> CHR 0x09 \<and> buf ! i \<noteq> CHR 0x00 then i
         else SkipWhitespace buf (i + 1))
      else i)"
  by pat_completeness auto
termination
  by (relation "measure (\<lambda>(buf, i). length buf - i)") auto

declare SkipWhitespace.simps [simp del]

text \<open>The loop of \<^verbatim>\<open>ScanLine\<close>: the index where the line ends. The state is the index,
  whether the scan is inside a quoted field value, whether it is past the first space, and
  the counts of \<^verbatim>\<open>=\<close> and \<^verbatim>\<open>,\<close> seen there.\<close>

function scan_line :: "bytes \<Rightarrow> nat \<Rightarrow> bool \<Rightarrow> bool \<Rightarrow> nat \<Rightarrow> nat \<Rightarrow> nat" where
  "scan_line buf i quoted fields equals commas =
     (if length buf \<le> i then i
      else if buf ! i = CHR 0x5C \<and> i + 2 < length buf
      then scan_line buf (i + 2) quoted fields equals commas
      else
        let fields' = (fields \<or> buf ! i = CHR '' '') in
        if fields' \<and> \<not> quoted \<and> buf ! i = CHR ''=''
        then scan_line buf (i + 1) quoted fields' (equals + 1) commas
        else if fields' \<and> \<not> quoted \<and> buf ! i = CHR '',''
        then scan_line buf (i + 1) quoted fields' equals (commas + 1)
        else if fields' \<and> buf ! i = CHR ''\"'' \<and> commas < equals
        then scan_line buf (i + 1) (\<not> quoted) fields' equals commas
        else if buf ! i = CHR 0x0A \<and> \<not> quoted then i
        else scan_line buf (i + 1) quoted fields' equals commas)"
  by pat_completeness auto
termination
  by (relation "measure (\<lambda>(buf, i, q, f, e, c). length buf - i)") (auto simp: Let_def)

declare scan_line.simps [simp del]

definition ScanLine :: "bytes \<Rightarrow> nat \<Rightarrow> (nat \<times> bytes) option" where
  "ScanLine buf start =
     do { let i = scan_line buf start False False 0 0;
          block \<leftarrow> slice buf start i;
          Some (i, block) }"

text \<open>The parenthesis counter of \<^verbatim>\<open>ScanToken\<close>: the index where it stops and the count
  there.\<close>

function match_paren :: "bytes \<Rightarrow> nat \<Rightarrow> int \<Rightarrow> nat \<times> int" where
  "match_paren data i bracket =
     (if i < length data then
        let b = (if data ! i = CHR ''('' then bracket + 1
                 else if data ! i = CHR '')'' then bracket - 1 else bracket)
        in if b = 0 then (i, b) else match_paren data (i + 1) b
      else (i, bracket))"
  by pat_completeness auto
termination
  by (relation "measure (\<lambda>(data, i, b). length data - i)") auto

declare match_paren.simps [simp del]

text \<open>The leading spaces that \<^verbatim>\<open>ScanToken\<close> skips (only \<^verbatim>\<open>' '\<close>).\<close>

definition skip_spaces :: "bytes \<Rightarrow> nat" where
  "skip_spaces data = length (takeWhile (\<lambda>c. c = CHR '' '') data)"

text \<open>Where a token that is not quoted ends, by its first byte: the advance (\<open>-1\<close> when a
  square or curly bracket is not closed) and the error.\<close>

definition token_end :: "bytes \<Rightarrow> nat \<Rightarrow> int \<times> error option" where
  "token_end data start =
     (let c = data ! start in
      if c = CHR ''('' then
        (let (i, b) = match_paren data start 0
         in if b \<noteq> 0 then (int i, Some ErrUnclosed) else (int i + 1, None))
      else if c = CHR ''['' then
        (case IndexByte (drop start data) (CHR '']'') of
           None \<Rightarrow> (-1, Some ErrUnclosed) | Some k \<Rightarrow> (int k + int start + 1, None))
      else if c = CHR ''{'' then
        (case IndexByte (drop start data) (CHR ''}'') of
           None \<Rightarrow> (-1, Some ErrUnclosed) | Some k \<Rightarrow> (int k + int start + 1, None))
      else if c = CHR '','' \<or> c = CHR ''.'' then (int start + 1, None)
      else
        (case IndexFunc (drop start data) (\<lambda>r. r = CHR '' '' \<or> r = CHR ''.'' \<or> r = CHR ''\"'') of
           None \<Rightarrow> (int (length data), None) | Some k \<Rightarrow> (int k + int start, None)))"

text \<open>\<^verbatim>\<open>ScanToken\<close>: the advance, the token (\<open>None\<close> for nil) and the error. A quoted
  token keeps its quotes and loses its escapes.\<close>

definition ScanToken :: "bytes \<Rightarrow> bool \<Rightarrow> (int \<times> bytes option \<times> error option) option" where
  "ScanToken data atEOF =
     (if atEOF \<and> length data = 0 then Some (0, None, None)
      else let start = skip_spaces data in
        if start = length data then Some (0, None, None)
        else let c = data ! start in
          if c = CHR ''\"'' \<or> c = CHR 0x27 then
            map_option (\<lambda>(adv, unq, err). (int adv, Some unq, err)) (FindEndWithQuote data start c)
          else
            (case token_end data start of
               (advance, Some e) \<Rightarrow> Some (advance, None, Some e)
             | (advance, None) \<Rightarrow>
                 map_option (\<lambda>t. (advance, Some t, None)) (slice data start (nat advance))))"

text \<open>
  \<^verbatim>\<open>ScanTokens\<close> drives a \<^verbatim>\<open>bufio.Scanner\<close> whose buffer holds the whole query after the
  first read: it hands the unread bytes to the split function, stops at an error, at a nil
  token (no more input follows) and when \<open>n > 0\<close> tokens are there, and goes on behind
  the advance otherwise. An advance that is not positive would make the scanner stop or
  spin; \<open>scan_token_progress\<close> shows that there is none.
\<close>

function scan_tokens :: "bytes \<Rightarrow> int \<Rightarrow> string list \<Rightarrow> string list option" where
  "scan_tokens data n acc =
     (if data = [] then Some acc
      else case ScanToken data False of
        None \<Rightarrow> None
      | Some (advance, token, err) \<Rightarrow>
          (case (err, token) of
             (None, Some t) \<Rightarrow>
               if n > 0 \<and> int (length (acc @ [t])) = n then Some (acc @ [t])
               else if advance \<le> 0 then Some (acc @ [t])
               else scan_tokens (drop (nat advance) data) n (acc @ [t])
           | _ \<Rightarrow> Some acc))"
  by pat_completeness auto
termination
  by (relation "measure (\<lambda>(data, n, acc). length data)") auto

declare scan_tokens.simps [simp del]

definition ScanTokens :: "string \<Rightarrow> int \<Rightarrow> string list option" where
  "ScanTokens q n = scan_tokens (TrimRight (TrimSpace q) ''; '') n []"

section \<open>Identifiers\<close>

definition GetHeadStmtFromTokens :: "string list \<Rightarrow> int \<Rightarrow> string" where
  "GetHeadStmtFromTokens tokens n =
     (let k = (if n \<le> 0 \<or> n > int (length tokens) then length tokens else nat n)
      in ToLower (Join (take k tokens) '' ''))"

fun GetIdentifierFromTokens ::
  "string list \<Rightarrow> string list \<Rightarrow> (string list \<Rightarrow> string \<Rightarrow> string option) \<Rightarrow> (error + string) option" where
  "GetIdentifierFromTokens [] keywords fn = Some (Inl ErrIllegalQL)"
| "GetIdentifierFromTokens (t # ts) keywords fn =
     (case find (\<lambda>k. ToLower t = k) keywords of
        Some k \<Rightarrow>
          if ts \<noteq> [] then map_option Inr (fn ts k) else GetIdentifierFromTokens ts keywords fn
      | None \<Rightarrow> GetIdentifierFromTokens ts keywords fn)"

text \<open>Every identifier loses its quotes in the same way.\<close>

definition unquote :: "string \<Rightarrow> string option" where
  "unquote s =
     do { c \<leftarrow> byte_at s 0;
          if c = CHR ''\"'' \<or> c = CHR 0x27 then strip_ends s else Some s }"

definition getDatabase :: "string list \<Rightarrow> string \<Rightarrow> string option" where
  "getDatabase tokens keyword =
     (case tokens of
        [] \<Rightarrow> Some []
      | db # _ \<Rightarrow>
          do { c \<leftarrow> byte_at db 0;
               if c = CHR ''('' then Some db
               else if keyword = ''from'' \<and>
                 \<not> (4 \<le> length tokens \<and> tokens ! 1 = ''.'' \<and> tokens ! 3 = ''.'') \<and>
                 \<not> (3 \<le> length tokens \<and> tokens ! 1 = ''.'' \<and> tokens ! 2 = ''.'')
               then Some []
               else unquote db })"

text \<open>The token that holds the retention policy of \<^verbatim>\<open>db.rp.meas\<close> or \<^verbatim>\<open>rp.meas\<close>, and the
  one that holds the measurement of \<^verbatim>\<open>db.rp.meas\<close>, \<^verbatim>\<open>db..meas\<close>, \<^verbatim>\<open>rp.meas\<close> or \<^verbatim>\<open>meas\<close>.\<close>

definition rp_token :: "string list \<Rightarrow> string" where
  "rp_token tokens = (if 5 \<le> length tokens \<and> tokens ! 3 = ''.'' then tokens ! 2 else tokens ! 0)"

definition mm_token :: "string list \<Rightarrow> string" where
  "mm_token tokens =
     (if 5 \<le> length tokens \<and> tokens ! 1 = ''.'' \<and> tokens ! 3 = ''.'' then tokens ! 4
      else if 4 \<le> length tokens \<and> tokens ! 1 = ''.'' \<and> tokens ! 2 = ''.'' then tokens ! 3
      else if 3 \<le> length tokens \<and> tokens ! 1 = ''.'' then tokens ! 2
      else tokens ! 0)"

lemma rp_token_mem: "tokens \<noteq> [] \<Longrightarrow> rp_token tokens \<in> set tokens"
  by (auto simp: rp_token_def intro: nth_mem)

lemma mm_token_mem: "tokens \<noteq> [] \<Longrightarrow> mm_token tokens \<in> set tokens"
  by (auto simp: mm_token_def intro: nth_mem)

definition getRetentionPolicy :: "string list \<Rightarrow> string \<Rightarrow> string option" where
  "getRetentionPolicy tokens keyword =
     (case tokens of
        [] \<Rightarrow> Some []
      | t0 # _ \<Rightarrow>
          do { c \<leftarrow> byte_at t0 0;
               if c = CHR ''('' then Some t0
               else if c = CHR ''/'' then Some []
               else if 3 \<le> length tokens \<and> tokens ! 1 = ''.'' \<and> tokens ! 2 = ''.'' then Some []
               else if 3 \<le> length tokens \<and> tokens ! 1 = ''.'' then
                 unquote (rp_token tokens)
               else Some [] })"

definition getMeasurement :: "string list \<Rightarrow> string \<Rightarrow> string option" where
  "getMeasurement tokens keyword =
     (case tokens of
        [] \<Rightarrow> Some []
      | t0 # _ \<Rightarrow>
          do { c \<leftarrow> byte_at t0 0;
               if c = CHR ''('' then Some t0
               else if c = CHR ''/'' then
                 do { let mm = Join tokens '''';
                      (advance, unq, err) \<leftarrow> FindEndWithQuote mm 0 (CHR ''/'');
                      slice_to mm advance }
               else unquote (mm_token tokens) })"

text \<open>The test of the three callers for a parenthesised subquery.\<close>

definition is_subquery :: "string \<Rightarrow> bool" where
  "is_subquery s \<longleftrightarrow>
     16 < length s \<and> hd s = CHR ''('' \<and> last s = CHR '')'' \<and>
     HasPrefix (ToLower (TrimLeft s ''( '')) ''select ''"

section \<open>The scanner makes progress\<close>

lemma find_end_bounds:
  "find_end data e i unq = Some (j, u, err) \<Longrightarrow> i \<le> length data \<Longrightarrow>
   i \<le> j \<and> j \<le> length data \<and> (err = None \<longrightarrow> i < j) \<and>
   length unq \<le> length u \<and> length u + i \<le> j + length unq \<and> prefix unq u"
proof (induction data e i unq rule: find_end.induct)
  case (1 data e i unq)
  show ?case
  proof (cases "i < length data")
    case False
    with "1.prems" show ?thesis by (subst (asm) find_end.simps) auto
  next
    case in_range: True
    consider (stop) "data ! i = e" | (esc) "data ! i \<noteq> e" "data ! i = CHR 0x5C"
      | (other) "data ! i \<noteq> e" "data ! i \<noteq> CHR 0x5C" by blast
    then show ?thesis
    proof cases
      case stop
      with in_range "1.prems" show ?thesis by (subst (asm) find_end.simps) auto
    next
      case esc
      show ?thesis
      proof (cases "i + 1 < length data \<and> (data ! (i + 1) = e \<or> data ! (i + 1) = CHR 0x5C)")
        case True
        with esc in_range "1.prems"
        have "find_end data e (i + 2) (unq @ [data ! (i + 1)]) = Some (j, u, err)"
          by (subst (asm) find_end.simps) auto
        with "1.IH"(1) esc in_range True show ?thesis by (auto dest: append_prefixD)
      next
        case False
        with esc in_range "1.prems" show ?thesis
          by (subst (asm) find_end.simps) (auto split: if_splits)
      qed
    next
      case other
      with in_range "1.prems" have "find_end data e (i + 1) (unq @ [data ! i]) = Some (j, u, err)"
        by (subst (asm) find_end.simps) auto
      with "1.IH"(2) other in_range show ?thesis by (auto dest: append_prefixD)
    qed
  qed
qed

lemma FindEndWithQuote_bounds:
  assumes "FindEndWithQuote data start e = Some (j, u, err)"
  shows "start < j" "j \<le> length data" "length u + start \<le> j" "u \<noteq> []" "hd u = data ! start"
    "err = None \<Longrightarrow> start + 2 \<le> j"
proof -
  from assms have st: "start < length data"
    and f: "find_end data e (start + 1) [data ! start] = Some (j, u, err)"
    by (auto simp: FindEndWithQuote_def byte_at_def bind_eq_Some_conv split: if_splits)
  note b = find_end_bounds [OF f]
  from b st show "start < j" "j \<le> length data" "length u + start \<le> j"
    "err = None \<Longrightarrow> start + 2 \<le> j" by auto
  from b st have "prefix [data ! start] u" by simp
  then show "u \<noteq> []" "hd u = data ! start" by (auto simp: prefix_def)
qed

text \<open>A successful scan appends at least the closing quote.\<close>

lemma find_end_success_longer:
  "find_end data e i unq = Some (j, u, None) \<Longrightarrow> length unq < length u"
proof (induction data e i unq rule: find_end.induct)
  case (1 data e i unq)
  show ?case
  proof (cases "i < length data \<and> data ! i \<noteq> e")
    case False
    with "1.prems" show ?thesis by (subst (asm) find_end.simps) (auto split: if_splits)
  next
    case True
    then consider (esc) "data ! i = CHR 0x5C" | (other) "data ! i \<noteq> CHR 0x5C" by blast
    then show ?thesis
    proof cases
      case esc
      with True "1.prems"
      have *: "i + 1 < length data" "data ! (i + 1) = e \<or> data ! (i + 1) = CHR 0x5C"
        "find_end data e (i + 2) (unq @ [data ! (i + 1)]) = Some (j, u, None)"
        by (subst (asm) find_end.simps, auto split: if_splits)+
      with "1.IH"(1) True esc show ?thesis by simp
    next
      case other
      with True "1.prems" have "find_end data e (i + 1) (unq @ [data ! i]) = Some (j, u, None)"
        by (subst (asm) find_end.simps) auto
      with "1.IH"(2) True other show ?thesis by simp
    qed
  qed
qed

lemma FindEndWithQuote_success_length:
  assumes "FindEndWithQuote data start e = Some (j, u, None)"
  shows "2 \<le> length u"
  using assms find_end_success_longer [of data e "start + 1" "[data ! start]" j u]
  by (auto simp: FindEndWithQuote_def byte_at_def bind_eq_Some_conv split: if_splits)

lemma match_paren_bounds:
  "match_paren data i b = (j, b') \<Longrightarrow> i \<le> length data \<Longrightarrow>
   i \<le> j \<and> j \<le> length data \<and> (b' = 0 \<and> b \<noteq> 0 \<longrightarrow> j < length data)"
proof (induction data i b rule: match_paren.induct)
  case (1 data i b)
  then show ?case by (subst (asm) match_paren.simps) (auto simp: Let_def split: if_splits)
qed

lemma match_paren_closed:
  "match_paren data i b = (j, 0) \<Longrightarrow> i < length data \<Longrightarrow> data ! i = CHR ''('' \<Longrightarrow> 0 \<le> b \<Longrightarrow>
   i < j \<and> j < length data"
  using match_paren_bounds [of data "i + 1" "b + 1" j 0]
  by (subst (asm) match_paren.simps) (auto simp: Let_def)

lemma skip_spaces_le: "skip_spaces data \<le> length data"
  by (simp add: skip_spaces_def length_takeWhile_le)

lemma skip_spaces_nth:
  assumes "skip_spaces data \<noteq> length data"
  shows "skip_spaces data < length data" "data ! skip_spaces data \<noteq> CHR '' ''"
proof -
  show lt: "skip_spaces data < length data"
    using assms skip_spaces_le [of data] by simp
  then show "data ! skip_spaces data \<noteq> CHR '' ''"
    unfolding skip_spaces_def by (metis (mono_tags, lifting) nth_length_takeWhile)
qed

text \<open>What a token of the scanner looks like: not empty, no longer than the bytes it was
  read from, and with two ends where it starts with a quote.\<close>

definition proper_token :: "string \<Rightarrow> bool" where
  "proper_token t \<longleftrightarrow> t \<noteq> [] \<and> (hd t = CHR ''\"'' \<or> hd t = CHR 0x27 \<longrightarrow> 2 \<le> length t)"

lemma slice_proper:
  assumes "slice data i j = Some t" "i < j" "i < length data"
    "data ! i \<noteq> CHR ''\"''" "data ! i \<noteq> CHR 0x27"
  shows "proper_token t" "length t \<le> j"
proof -
  from assms(1) have t: "t = take (j - i) (drop i data)" "j \<le> length data"
    by (auto simp: slice_def split: if_splits)
  with assms have "hd t = data ! i" "t \<noteq> []" by (auto simp: hd_drop_conv_nth)
  with assms show "proper_token t" by (simp add: proper_token_def)
  from t show "length t \<le> j" by simp
qed

lemma token_end_bounds:
  assumes "start < length data" "data ! start \<noteq> CHR '' ''" "data ! start \<noteq> CHR ''\"''"
    and e: "token_end data start = (adv, None)"
  shows "\<exists>j. adv = int j \<and> start < j \<and> j \<le> length data"
proof -
  let ?c = "data ! start"
  consider (paren) "?c = CHR ''(''" | (square) "?c = CHR ''[''" | (curly) "?c = CHR ''{''"
    | (single) "?c = CHR '','' \<or> ?c = CHR ''.''"
    | (word) "?c \<noteq> CHR ''(''" "?c \<noteq> CHR ''[''" "?c \<noteq> CHR ''{''" "?c \<noteq> CHR '',''" "?c \<noteq> CHR ''.''"
    by blast
  then show ?thesis
  proof cases
    case paren
    with e obtain i where "match_paren data start 0 = (i, 0)" "adv = int i + 1"
      by (auto simp: token_end_def split: if_splits prod.splits)
    with match_paren_closed [of data start 0 i] assms(1) paren show ?thesis
      by (intro exI [of _ "i + 1"]) auto
  next
    case square
    with e obtain k where "IndexByte (drop start data) (CHR '']'') = Some k" "adv = int k + int start + 1"
      by (auto simp: token_end_def split: option.splits)
    then show ?thesis by (intro exI [of _ "k + start + 1"]) (auto simp: IndexByte_Some)
  next
    case curly
    with e obtain k where "IndexByte (drop start data) (CHR ''}'') = Some k" "adv = int k + int start + 1"
      by (auto simp: token_end_def split: option.splits)
    then show ?thesis by (intro exI [of _ "k + start + 1"]) (auto simp: IndexByte_Some)
  next
    case single
    with e have "adv = int start + 1" by (auto simp: token_end_def)
    with assms(1) show ?thesis by (intro exI [of _ "start + 1"]) auto
  next
    case word
    define P where "P = (\<lambda>r. r = CHR '' '' \<or> r = CHR ''.'' \<or> r = CHR ''\"'')"
    from word e have adv: "adv = (case IndexFunc (drop start data) P of
        None \<Rightarrow> int (length data) | Some k \<Rightarrow> int k + int start)"
      by (auto simp: token_end_def P_def split: option.splits)
    show ?thesis
    proof (cases "IndexFunc (drop start data) P")
      case None
      with adv assms(1) show ?thesis by (intro exI [of _ "length data"]) auto
    next
      case (Some k)
      then have k: "k < length data - start" "P (drop start data ! k)" by (auto simp: IndexFunc_Some)
      have "k \<noteq> 0"
        using k assms word by (cases k) (auto simp: P_def)
      with adv k Some show ?thesis by (intro exI [of _ "k + start"]) auto
    qed
  qed
qed

lemma scan_token_progress:
  assumes "ScanToken data False = Some (adv, Some t, None)"
  shows "0 < adv" "adv \<le> int (length data)" "int (length t) \<le> adv" "proper_token t"
proof -
  let ?s = "skip_spaces data"
  have s: "?s < length data" "data ! ?s \<noteq> CHR '' ''"
    using assms skip_spaces_nth [of data] by (auto simp: ScanToken_def Let_def split: if_splits)
  have "0 < adv \<and> adv \<le> int (length data) \<and> int (length t) \<le> adv \<and> proper_token t"
  proof (cases "data ! ?s = CHR ''\"'' \<or> data ! ?s = CHR 0x27")
    case True
    with assms s obtain j where j: "FindEndWithQuote data ?s (data ! ?s) = Some (j, t, None)" "adv = int j"
      by (auto simp: ScanToken_def Let_def split: if_splits)
    show ?thesis
      using FindEndWithQuote_bounds [OF j(1)] FindEndWithQuote_success_length [OF j(1)] j(2)
      by (simp add: proper_token_def)
  next
    case False
    with assms s have e: "token_end data ?s = (adv, None)" "slice data ?s (nat adv) = Some t"
      by (auto simp: ScanToken_def Let_def split: if_splits prod.splits option.splits)
    from token_end_bounds [OF s _ e(1)] False
    obtain j where j: "adv = int j" "?s < j" "j \<le> length data" by blast
    with e(2) have "slice data ?s j = Some t" by simp
    from slice_proper [OF this j(2) s(1)] False j show ?thesis by auto
  qed
  then show "0 < adv" "adv \<le> int (length data)" "int (length t) \<le> adv" "proper_token t" by auto
qed

text \<open>The scanner panics only at a backslash that ends the data.\<close>

lemma find_end_None: "find_end data e i unq = None \<Longrightarrow> data \<noteq> [] \<and> last data = CHR 0x5C"
proof (induction data e i unq rule: find_end.induct)
  case (1 data e i unq)
  have in_range: "i < length data"
    using "1.prems" by (subst (asm) find_end.simps) (auto split: if_splits)
  show ?case
  proof (cases "data ! i \<noteq> e \<and> data ! i = CHR 0x5C \<and> length data \<le> i + 1")
    case True
    with in_range have "i = length data - 1" "data \<noteq> []" by auto
    with True show ?thesis by (auto simp: last_conv_nth)
  next
    case False
    with "1.prems" in_range consider
      (esc) "data ! i \<noteq> e" "data ! i = CHR 0x5C" "\<not> length data \<le> i + 1"
        "data ! (i + 1) = e \<or> data ! (i + 1) = CHR 0x5C"
        "find_end data e (i + 2) (unq @ [data ! (i + 1)]) = None"
      | (other) "data ! i \<noteq> e" "data ! i \<noteq> CHR 0x5C"
        "find_end data e (i + 1) (unq @ [data ! i]) = None"
      by (subst (asm) find_end.simps) (auto split: if_splits)
    then show ?thesis
      using "1.IH" in_range by cases auto
  qed
qed

lemma ScanToken_None:
  assumes "ScanToken data False = None"
  shows "data \<noteq> []" "last data = CHR 0x5C"
proof -
  let ?s = "skip_spaces data"
  have s: "?s < length data" "data ! ?s \<noteq> CHR '' ''"
    using assms skip_spaces_nth [of data] by (auto simp: ScanToken_def Let_def split: if_splits)
  have "data \<noteq> [] \<and> last data = CHR 0x5C"
  proof (cases "data ! ?s = CHR ''\"'' \<or> data ! ?s = CHR 0x27")
    case True
    with assms s have "FindEndWithQuote data ?s (data ! ?s) = None"
      by (auto simp: ScanToken_def Let_def split: if_splits)
    with s have "find_end data (data ! ?s) (?s + 1) [data ! ?s] = None"
      by (simp add: FindEndWithQuote_def byte_at_def)
    then show ?thesis by (rule find_end_None)
  next
    case False
    with assms s obtain adv where e: "token_end data ?s = (adv, None)" "slice data ?s (nat adv) = None"
      by (auto simp: ScanToken_def Let_def split: if_splits prod.splits option.splits)
    from token_end_bounds [OF s _ e(1)] False e(2) have False by (auto simp: slice_def)
    then show ?thesis ..
  qed
  then show "data \<noteq> []" "last data = CHR 0x5C" by auto
qed

lemma scan_tokens_proper:
  "scan_tokens data n acc = Some ts \<Longrightarrow> list_all proper_token acc \<Longrightarrow>
   list_all proper_token ts \<and>
   sum_list (map length ts) \<le> sum_list (map length acc) + length data"
proof (induction data n acc rule: scan_tokens.induct)
  case (1 data n acc)
  show ?case
  proof (cases "data \<noteq> [] \<and> (\<exists>adv t. ScanToken data False = Some (adv, Some t, None))")
    case False
    with "1.prems" show ?thesis
      by (subst (asm) scan_tokens.simps) (auto split: if_splits option.splits)
  next
    case True
    then obtain adv t where st: "data \<noteq> []" "ScanToken data False = Some (adv, Some t, None)" by blast
    note pr = scan_token_progress [OF st(2)]
    show ?thesis
    proof (cases "n > 0 \<and> int (length (acc @ [t])) = n")
      case True
      with st "1.prems" have "ts = acc @ [t]"
        by (subst (asm) scan_tokens.simps) auto
      with "1.prems" pr show ?thesis by auto
    next
      case False
      with st pr "1.prems" have *: "scan_tokens (drop (nat adv) data) n (acc @ [t]) = Some ts"
        by (subst (asm) scan_tokens.simps) (auto split: if_splits)
      have "list_all proper_token ts \<and>
        sum_list (map length ts) \<le> sum_list (map length (acc @ [t])) + length (drop (nat adv) data)"
        by (rule "1.IH" [OF st(1) st(2)])
          (use st pr False * "1.prems"(2) in auto)
      with pr show ?thesis by auto
    qed
  qed
qed

lemma scan_tokens_None: "scan_tokens data n acc = None \<Longrightarrow> data \<noteq> [] \<and> last data = CHR 0x5C"
proof (induction data n acc rule: scan_tokens.induct)
  case (1 data n acc)
  have ne: "data \<noteq> []"
    using "1.prems" by (subst (asm) scan_tokens.simps) (auto split: if_splits)
  show ?case
  proof (cases "ScanToken data False")
    case None
    with ScanToken_None show ?thesis by blast
  next
    case (Some r)
    with "1.prems" ne obtain adv t where r: "r = (adv, Some t, None)"
      "0 < adv" "\<not> (n > 0 \<and> int (length (acc @ [t])) = n)"
      "scan_tokens (drop (nat adv) data) n (acc @ [t]) = None"
      by (subst (asm) scan_tokens.simps) (auto split: if_splits option.splits prod.splits)
    have "drop (nat adv) data \<noteq> [] \<and> last (drop (nat adv) data) = CHR 0x5C"
      by (rule "1.IH" [OF ne Some]) (use r in auto)
    then show ?thesis by (auto simp: last_drop not_le)
  qed
qed

lemma ScanTokens_proper:
  assumes "ScanTokens q n = Some ts"
  shows "list_all proper_token ts" "sum_list (map length ts) \<le> length q"
proof -
  note p = scan_tokens_proper [OF assms [unfolded ScanTokens_def]]
  then show "list_all proper_token ts" by simp
  have "length (TrimRight (TrimSpace q) ''; '') \<le> length q"
    using length_TrimRight length_TrimSpace order_trans by blast
  with p show "sum_list (map length ts) \<le> length q" by simp
qed

section \<open>The identifiers a statement names\<close>

lemma GetIdentifierFromTokens_mem:
  assumes "GetIdentifierFromTokens tokens kws fn = Some (Inr s)"
  shows "\<exists>i k. i < length tokens \<and> k \<in> set kws \<and> drop i tokens \<noteq> [] \<and> fn (drop i tokens) k = Some s"
  using assms
proof (induction tokens kws fn rule: GetIdentifierFromTokens.induct)
  case (2 t ts kws fn)
  have rec: "\<exists>i k. i < length (t # ts) \<and> k \<in> set kws \<and> drop i (t # ts) \<noteq> [] \<and> fn (drop i (t # ts)) k = Some s"
    if "\<exists>i k. i < length ts \<and> k \<in> set kws \<and> drop i ts \<noteq> [] \<and> fn (drop i ts) k = Some s"
    using that by (metis Suc_mono drop_Suc_Cons length_Cons)
  show ?case
  proof (cases "find (\<lambda>k. ToLower t = k) kws")
    case None
    with "2" rec show ?thesis by simp
  next
    case (Some k)
    then have k: "k \<in> set kws" by (auto simp: find_Some_iff)
    show ?thesis
    proof (cases "ts = []")
      case True
      with "2" Some rec show ?thesis by simp
    next
      case False
      with "2.prems" Some have "fn ts k = Some s" by auto
      with k False show ?thesis
        by (intro exI [of _ 1] exI [of _ k]) auto
    qed
  qed
qed simp

lemma strip_ends_length_le: "strip_ends s = Some t \<Longrightarrow> length t \<le> length s"
  using length_strip_ends by fastforce

lemma nth_length_le_sum: "i < length ts \<Longrightarrow> length (ts ! i) \<le> sum_list (map length ts)"
  by (rule sum_list_length_mem) simp

lemma unquote_length: "unquote s = Some t \<Longrightarrow> length t \<le> length s"
  by (auto simp: unquote_def bind_eq_Some_conv split: if_splits dest: strip_ends_length_le)

lemma getDatabase_length:
  "getDatabase ts k = Some s \<Longrightarrow> length s \<le> sum_list (map length ts)"
  by (cases ts)
    (auto simp: getDatabase_def bind_eq_Some_conv split: if_splits dest!: unquote_length)

lemma getRetentionPolicy_length:
  assumes "getRetentionPolicy ts k = Some s"
  shows "length s \<le> sum_list (map length ts)"
proof (cases ts)
  case (Cons t0 r)
  then have "length (rp_token ts) \<le> sum_list (map length ts)"
    by (intro sum_list_length_mem rp_token_mem) simp
  moreover have "length t0 \<le> sum_list (map length ts)"
    using Cons by simp
  ultimately show ?thesis
    using assms Cons
    by (auto simp: getRetentionPolicy_def bind_eq_Some_conv split: if_splits
        dest!: unquote_length)
qed (use assms in \<open>simp add: getRetentionPolicy_def\<close>)

lemma Join_empty_sep: "Join ts '''' = concat ts"
  by (induction ts rule: induct_list012) auto

lemma getMeasurement_length:
  assumes "getMeasurement ts k = Some s"
  shows "length s \<le> sum_list (map length ts)"
proof (cases ts)
  case (Cons t0 r)
  from assms Cons obtain c where c: "byte_at t0 0 = Some c"
    by (auto simp: getMeasurement_def bind_eq_Some_conv)
  consider "c = CHR ''(''" | "c = CHR ''/''" | (plain) "c \<noteq> CHR ''(''" "c \<noteq> CHR ''/''" by blast
  then show ?thesis
  proof cases
    case 1
    with assms Cons c show ?thesis by (simp add: getMeasurement_def)
  next
    case 2
    with assms Cons c obtain a where "slice_to (Join ts '''') a = Some s"
      by (auto simp: getMeasurement_def bind_eq_Some_conv Let_def)
    then have "length s \<le> length (concat ts)"
      by (auto simp: Join_empty_sep slice_to_def split: if_splits)
    then show ?thesis by (simp add: length_concat_sum)
  next
    case plain
    have "getMeasurement ts k = unquote (mm_token ts)"
      using c plain by (simp add: getMeasurement_def Cons)
    with assms have "length s \<le> length (mm_token ts)" by (auto dest: unquote_length)
    also have "\<dots> \<le> sum_list (map length ts)"
      using Cons by (intro sum_list_length_mem mm_token_mem) simp
    finally show ?thesis .
  qed
qed (use assms in \<open>simp add: getMeasurement_def\<close>)

lemma GetIdentifierFromTokens_length:
  assumes "GetIdentifierFromTokens tokens kws fn = Some (Inr s)"
    and fn: "\<And>ts k s. fn ts k = Some s \<Longrightarrow> length s \<le> sum_list (map length ts)"
  shows "length s \<le> sum_list (map length tokens)"
proof -
  from GetIdentifierFromTokens_mem [OF assms(1)] obtain i k where "fn (drop i tokens) k = Some s"
    by blast
  then have "length s \<le> sum_list (map length (drop i tokens))" by (rule fn)
  with sum_list_drop_le [of i tokens] show ?thesis by linarith
qed

lemma subquery_tokens_smaller:
  assumes "GetIdentifierFromTokens tokens kws fn = Some (Inr s)"
    and "\<And>ts k s. fn ts k = Some s \<Longrightarrow> length s \<le> sum_list (map length ts)"
    and "ScanTokens u n = Some ts" "length u < length s"
  shows "sum_list (map length ts) < sum_list (map length tokens)"
proof -
  have "length s \<le> sum_list (map length tokens)"
    using GetIdentifierFromTokens_length assms(1,2) by blast
  with ScanTokens_proper(2) [OF assms(3)] assms(4) show ?thesis by linarith
qed

text \<open>The three entry points descend into a subquery as long as the identifier found is one.
  The text inside the parentheses is shorter than the tokens it came from, so the descent
  ends.\<close>

function GetDatabaseFromTokens :: "string list \<Rightarrow> (error + string) option" where
  "GetDatabaseFromTokens tokens =
     (case GetIdentifierFromTokens tokens [''on'', ''database'', ''from''] getDatabase of
        None \<Rightarrow> None
      | Some (Inl e) \<Rightarrow> Some (Inl e)
      | Some (Inr db) \<Rightarrow>
          if is_subquery db
          then (case ScanTokens (drop 1 db) 0 of
                  None \<Rightarrow> None | Some ts \<Rightarrow> GetDatabaseFromTokens ts)
          else Some (Inr db))"
  by pat_completeness auto
termination
  by (relation "measure (\<lambda>tokens. sum_list (map length tokens))")
    (auto intro!: subquery_tokens_smaller [OF _ getDatabase_length] simp: is_subquery_def)

function GetRetentionPolicyFromTokens :: "string list \<Rightarrow> (error + string) option" where
  "GetRetentionPolicyFromTokens tokens =
     (case GetIdentifierFromTokens tokens [''from''] getRetentionPolicy of
        None \<Rightarrow> None
      | Some (Inl e) \<Rightarrow> Some (Inl e)
      | Some (Inr rp) \<Rightarrow>
          if is_subquery rp
          then (case ScanTokens (drop 1 rp) 0 of
                  None \<Rightarrow> None | Some ts \<Rightarrow> GetRetentionPolicyFromTokens ts)
          else Some (Inr rp))"
  by pat_completeness auto
termination
  by (relation "measure (\<lambda>tokens. sum_list (map length tokens))")
    (auto intro!: subquery_tokens_smaller [OF _ getRetentionPolicy_length] simp: is_subquery_def)

text \<open>A quoted measurement that only looks like a subquery is no token of its own (the token
  keeps its quotes), so it is left alone.\<close>

function GetMeasurementFromTokens :: "string list \<Rightarrow> (error + string) option" where
  "GetMeasurementFromTokens tokens =
     (case GetIdentifierFromTokens tokens [''from'', ''measurement''] getMeasurement of
        None \<Rightarrow> None
      | Some (Inl e) \<Rightarrow> Some (Inl e)
      | Some (Inr mm) \<Rightarrow>
          if is_subquery mm \<and> mm \<in> set tokens
          then (case ScanTokens (take (length mm - 2) (drop 1 mm)) 0 of
                  None \<Rightarrow> None | Some ts \<Rightarrow> GetMeasurementFromTokens ts)
          else Some (Inr mm))"
  by pat_completeness auto
termination
  by (relation "measure (\<lambda>tokens. sum_list (map length tokens))")
    (auto intro!: subquery_tokens_smaller [OF _ getMeasurement_length] simp: is_subquery_def)

declare GetDatabaseFromTokens.simps [simp del] GetRetentionPolicyFromTokens.simps [simp del]
  GetMeasurementFromTokens.simps [simp del]

definition GetDatabaseFromInfluxQL :: "string \<Rightarrow> (error + string) option" where
  "GetDatabaseFromInfluxQL q = do { ts \<leftarrow> ScanTokens q 0; GetDatabaseFromTokens ts }"

definition GetRetentionPolicyFromInfluxQL :: "string \<Rightarrow> (error + string) option" where
  "GetRetentionPolicyFromInfluxQL q = do { ts \<leftarrow> ScanTokens q 0; GetRetentionPolicyFromTokens ts }"

definition GetMeasurementFromInfluxQL :: "string \<Rightarrow> (error + string) option" where
  "GetMeasurementFromInfluxQL q = do { ts \<leftarrow> ScanTokens q 0; GetMeasurementFromTokens ts }"

section \<open>The statement classifier\<close>

text \<open>The loop over the tokens of a \<^verbatim>\<open>select\<close> from index 2: \<^verbatim>\<open>into\<close> first refuses it,
  \<^verbatim>\<open>from\<close> first accepts it.\<close>

fun select_ok :: "string list \<Rightarrow> bool" where
  "select_ok [] = False"
| "select_ok (t # ts) =
     (if ToLower t = ''into'' then False else if ToLower t = ''from'' then True else select_ok ts)"

text \<open>The index of the first \<^verbatim>\<open>from\<close> at or behind index \<open>i\<close>.\<close>

fun from_index :: "string list \<Rightarrow> nat \<Rightarrow> nat option" where
  "from_index [] i = None"
| "from_index (t # ts) i = (if ToLower t = ''from'' then Some i else from_index ts (i + 1))"

text \<open>\<^verbatim>\<open>CheckQuery\<close>: the tokens, whether the statement is supported, whether it names a
  measurement. \<open>None\<close> when reading \<^verbatim>\<open>tokens[0]\<close> panics.\<close>

definition CheckQuery :: "string \<Rightarrow> (string list \<times> bool \<times> bool) option" where
  "CheckQuery q =
     do { tokens \<leftarrow> ScanTokens q 0;
          t0 \<leftarrow> byte_at tokens 0;
          let stmt = ToLower t0;
          let rest =
            (let stmt2 = GetHeadStmtFromTokens tokens 2;
                 stmt3 = GetHeadStmtFromTokens tokens 3
             in if Has SupportCmds stmt2
                then (tokens, True, stmt2 = ''delete from'' \<or> stmt2 = ''drop measurement'')
                else if Has SupportCmds stmt3 then (tokens, True, stmt3 = ''drop series from'')
                else (tokens, False, False));
          Some
            (if stmt = ''select'' then
               (if select_ok (drop 2 tokens) then (tokens, True, True) else (tokens, False, False))
             else if stmt = ''show'' then
               (case from_index (drop 2 tokens) 2 of
                  Some i \<Rightarrow>
                    (tokens,
                     Has SupportCmds (GetHeadStmtFromTokens tokens (int i)) \<or>
                     Has SupportCmds (GetHeadStmtFromTokens tokens (int i - 2)),
                     True)
                | None \<Rightarrow> rest)
             else rest) }"

definition CheckDatabaseFromTokens :: "string list \<Rightarrow> (bool \<times> bool \<times> bool \<times> string) option" where
  "CheckDatabaseFromTokens tokens =
     (let stmt = GetHeadStmtFromTokens tokens 2;
          show_db = (stmt = ''show databases'');
          alter = (stmt = ''create database'' \<or> stmt = ''drop database'')
      in if alter \<and> 3 \<le> length tokens
         then map_option (\<lambda>db. (show_db \<or> alter, show_db, alter, db))
                (getDatabase (drop 2 tokens) ''database'')
         else Some (show_db \<or> alter, show_db, alter, []))"

definition CheckRetentionPolicyFromTokens :: "string list \<Rightarrow> bool" where
  "CheckRetentionPolicyFromTokens tokens =
     (if 3 \<le> length tokens then
        let stmt = GetHeadStmtFromTokens tokens 3
        in stmt = ''create retention policy'' \<or> stmt = ''alter retention policy'' \<or>
           stmt = ''drop retention policy''
      else False)"

definition CheckSelectOrShowFromTokens :: "string list \<Rightarrow> bool option" where
  "CheckSelectOrShowFromTokens tokens =
     do { t0 \<leftarrow> byte_at tokens 0;
          let stmt = ToLower t0;
          Some (stmt = ''select'' \<or> stmt = ''show'') }"

definition CheckDeleteOrDropMeasurementFromTokens :: "string list \<Rightarrow> bool" where
  "CheckDeleteOrDropMeasurementFromTokens tokens =
     (if 3 \<le> length tokens then
        let stmt = GetHeadStmtFromTokens tokens 2
        in stmt = ''delete from'' \<or> stmt = ''drop measurement'' \<or> stmt = ''drop series''
      else False)"

section \<open>Tokens and panics\<close>

definition query_text :: "string \<Rightarrow> string" where
  "query_text q = TrimRight (TrimSpace q) ''; ''"

text \<open>Whatever the query, the scanner stops; its tokens are never empty, a token that
  starts with a quote has two ends to strip, together they are no longer than the query,
  and a positive bound on their number is kept.\<close>

theorem ScanTokens_sound:
  assumes "ScanTokens q n = Some ts"
  shows "list_all proper_token ts \<and> sum_list (map length ts) \<le> length q \<and>
         (0 < n \<longrightarrow> int (length ts) \<le> n)"
proof -
  have "scan_tokens data n acc = Some ts \<Longrightarrow> 0 < n \<Longrightarrow> int (length acc) < n \<Longrightarrow> int (length ts) \<le> n"
    for data acc
  proof (induction data n acc rule: scan_tokens.induct)
    case (1 data n acc)
    show ?case
    proof (cases "data \<noteq> [] \<and> (\<exists>adv t. ScanToken data False = Some (adv, Some t, None))")
      case False
      with "1.prems" show ?thesis
        by (subst (asm) scan_tokens.simps) (auto split: if_splits option.splits)
    next
      case True
      then obtain adv t where st: "data \<noteq> []" "ScanToken data False = Some (adv, Some t, None)" by blast
      note pr = scan_token_progress [OF st(2)]
      show ?thesis
      proof (cases "int (length (acc @ [t])) = n")
        case True
        with st "1.prems" show ?thesis by (subst (asm) scan_tokens.simps) auto
      next
        case False
        with st pr "1.prems" have *: "scan_tokens (drop (nat adv) data) n (acc @ [t]) = Some ts"
          by (subst (asm) scan_tokens.simps) (auto split: if_splits)
        show ?thesis
          by (rule "1.IH" [OF st(1) st(2)]) (use * pr False "1.prems" in auto)
      qed
    qed
  qed
  with assms ScanTokens_proper [OF assms] show ?thesis
    by (auto simp: ScanTokens_def)
qed

theorem ScanTokens_sound_witness:
  "\<exists>ts. ScanTokens ''drop measurement cpu;'' 2 = Some ts \<and> list_all proper_token ts \<and> length ts \<le> 2"
proof -
  have "ScanTokens ''drop measurement cpu;'' 2 \<noteq> None" by code_simp
  then obtain ts where ts: "ScanTokens ''drop measurement cpu;'' 2 = Some ts" by blast
  from ScanTokens_sound [OF ts] ts show ?thesis by auto
qed

lemma proper_token_head: "proper_token t \<Longrightarrow> byte_at t 0 = Some (hd t)"
  by (cases t) (auto simp: proper_token_def byte_at_def)

lemma unquote_proper: "proper_token t \<Longrightarrow> \<exists>s. unquote t = Some s"
  by (auto simp: unquote_def proper_token_head strip_ends_eq proper_token_def)

lemma getDatabase_proper:
  "list_all proper_token ts \<Longrightarrow> \<exists>s. getDatabase ts k = Some s"
  by (cases ts) (auto simp: getDatabase_def proper_token_head intro: unquote_proper)

lemma getRetentionPolicy_proper:
  "list_all proper_token ts \<Longrightarrow> \<exists>s. getRetentionPolicy ts k = Some s"
  using unquote_proper [of "rp_token ts"] rp_token_mem [of ts]
  by (cases ts) (auto simp: getRetentionPolicy_def proper_token_head list_all_iff)

lemma getMeasurement_proper:
  "list_all proper_token ts \<Longrightarrow> ts \<noteq> [] \<longrightarrow> hd (hd ts) \<noteq> CHR ''/'' \<Longrightarrow>
   \<exists>s. getMeasurement ts k = Some s"
  using unquote_proper [of "mm_token ts"] mm_token_mem [of ts]
  by (cases ts) (auto simp: getMeasurement_def proper_token_head list_all_iff)

lemma GetIdentifierFromTokens_proper:
  assumes "list_all proper_token ts"
    and "\<And>us k. list_all proper_token us \<Longrightarrow> \<exists>s. fn us k = Some s"
  shows "GetIdentifierFromTokens ts kws fn \<noteq> None"
  using assms
proof (induction ts kws fn rule: GetIdentifierFromTokens.induct)
  case (2 t ts kws fn)
  then show ?case
    by (cases "find (\<lambda>k. ToLower t = k) kws"; cases "ts = []") (auto split: option.splits)
qed simp

lemma query_text_Nil: "set q \<subseteq> set ''; '' \<Longrightarrow> query_text q = []"
  using set_TrimSpace [of q] by (auto simp: query_text_def TrimRight_def subset_iff)

lemma query_text_last: "query_text q \<noteq> [] \<Longrightarrow> last (query_text q) \<notin> set ''; ''"
  unfolding query_text_def by (rule last_TrimRight)

lemma ScanTokens_no_panic:
  "query_text q = [] \<or> last (query_text q) \<noteq> CHR 0x5C \<Longrightarrow> ScanTokens q n \<noteq> None"
  using scan_tokens_None [of "query_text q" n "[]"] by (auto simp: ScanTokens_def query_text_def)

lemma subquery_text_last:
  assumes "is_subquery s"
  shows "last (query_text (drop 1 s)) = CHR '')''"
proof -
  from assms have s: "16 < length s" "last s = CHR '')''" by (auto simp: is_subquery_def)
  then have ne: "drop 1 s \<noteq> []" and la: "last (drop 1 s) = CHR '')''" by (auto simp: last_drop)
  have "last (drop 1 s) \<notin> set space_lasts"
    unfolding la by (simp add: space_lasts_def unicode_spaces_def)
  from last_TrimSpace [OF ne this] la show ?thesis
    by (simp add: query_text_def TrimRight_id)
qed

lemma GetDatabaseFromTokens_no_panic:
  "list_all proper_token tokens \<Longrightarrow> GetDatabaseFromTokens tokens \<noteq> None"
proof (induction tokens rule: GetDatabaseFromTokens.induct)
  case (1 tokens)
  obtain r where r: "GetIdentifierFromTokens tokens [''on'', ''database'', ''from''] getDatabase = Some r"
    using GetIdentifierFromTokens_proper [OF "1.prems", of getDatabase] getDatabase_proper by blast
  show ?case
  proof (cases "\<exists>db. r = Inr db \<and> is_subquery db")
    case True
    then obtain db where db: "r = Inr db" "is_subquery db" by blast
    then obtain ts where ts: "ScanTokens (drop 1 db) 0 = Some ts"
      using ScanTokens_no_panic [of "drop 1 db" 0] subquery_text_last [of db] by auto
    have "GetDatabaseFromTokens ts \<noteq> None"
      by (rule "1.IH" [OF r db ts]) (use ScanTokens_proper [OF ts] in auto)
    with r db ts show ?thesis by (subst GetDatabaseFromTokens.simps) simp
  next
    case False
    with r show ?thesis by (subst GetDatabaseFromTokens.simps) (auto split: sum.splits)
  qed
qed

lemma GetRetentionPolicyFromTokens_no_panic:
  "list_all proper_token tokens \<Longrightarrow> GetRetentionPolicyFromTokens tokens \<noteq> None"
proof (induction tokens rule: GetRetentionPolicyFromTokens.induct)
  case (1 tokens)
  obtain r where r: "GetIdentifierFromTokens tokens [''from''] getRetentionPolicy = Some r"
    using GetIdentifierFromTokens_proper [OF "1.prems", of getRetentionPolicy] getRetentionPolicy_proper
    by blast
  show ?case
  proof (cases "\<exists>rp. r = Inr rp \<and> is_subquery rp")
    case True
    then obtain rp where rp: "r = Inr rp" "is_subquery rp" by blast
    then obtain ts where ts: "ScanTokens (drop 1 rp) 0 = Some ts"
      using ScanTokens_no_panic [of "drop 1 rp" 0] subquery_text_last [of rp] by auto
    have "GetRetentionPolicyFromTokens ts \<noteq> None"
      by (rule "1.IH" [OF r rp ts]) (use ScanTokens_proper [OF ts] in auto)
    with r rp ts show ?thesis by (subst GetRetentionPolicyFromTokens.simps) simp
  next
    case False
    with r show ?thesis by (subst GetRetentionPolicyFromTokens.simps) (auto split: sum.splits)
  qed
qed

text \<open>Unless the query, without the white space around it and the spaces and semicolons
  behind it, ends with a backslash, no index of the scanner, of the database lookup or of
  the retention policy lookup is out of range, at any depth of subqueries.\<close>

theorem identifier_lookup_no_panic:
  assumes "query_text q = [] \<or> last (query_text q) \<noteq> CHR 0x5C"
  shows "ScanTokens q n \<noteq> None \<and> GetDatabaseFromInfluxQL q \<noteq> None \<and>
         GetRetentionPolicyFromInfluxQL q \<noteq> None"
proof -
  obtain ts where ts: "ScanTokens q 0 = Some ts"
    using ScanTokens_no_panic [OF assms, of 0] by blast
  with ScanTokens_proper(1) [OF ts] ScanTokens_no_panic [OF assms, of n] show ?thesis
    by (simp add: GetDatabaseFromInfluxQL_def GetRetentionPolicyFromInfluxQL_def
        GetDatabaseFromTokens_no_panic GetRetentionPolicyFromTokens_no_panic)
qed

theorem identifier_lookup_no_panic_witness:
  "GetDatabaseFromInfluxQL ''select * from (select v from db..cpu)'' \<noteq> None"
proof -
  have "last (query_text ''select * from (select v from db..cpu)'') \<noteq> CHR 0x5C" by code_simp
  then show ?thesis using identifier_lookup_no_panic by blast
qed

text \<open>A query of which nothing but spaces and semicolons is there, such as \<^verbatim>\<open>;\<close>,
  makes \<^verbatim>\<open>CheckQuery\<close> panic, since it reads the first of no tokens; so does a query whose
  first token is not closed. On every other query whose scan returns it returns.\<close>

theorem CheckQuery_panic_iff:
  "(CheckQuery q = None \<longleftrightarrow> ScanTokens q 0 = None \<or> ScanTokens q 0 = Some []) \<and>
   (set q \<subseteq> {CHR '' '', CHR '';''} \<longrightarrow> CheckQuery q = None)"
proof -
  have eq: "CheckQuery q = None \<longleftrightarrow> ScanTokens q 0 = None \<or> ScanTokens q 0 = Some []"
    by (cases "ScanTokens q 0") (auto simp: CheckQuery_def Let_def byte_at_def)
  have "CheckQuery q = None" if "set q \<subseteq> {CHR '' '', CHR '';''}"
  proof -
    from that have "query_text q = []" by (intro query_text_Nil) auto
    then have "ScanTokens q 0 = Some []"
      unfolding ScanTokens_def query_text_def [symmetric] by (subst scan_tokens.simps) simp
    with eq show ?thesis by simp
  qed
  with eq show ?thesis by blast
qed

theorem CheckQuery_panic_iff_witness:
  "CheckQuery '';'' = None \<and> ScanTokens ''show databases'' 0 \<noteq> None \<and> CheckQuery ''show databases'' \<noteq> None"
proof -
  have "ScanTokens ''show databases'' 0 = Some [''show'', ''databases'']" by code_simp
  then show ?thesis
    using CheckQuery_panic_iff [of "'';''"] CheckQuery_panic_iff [of "''show databases''"] by simp
qed

section \<open>The white list\<close>

lemma select_ok_iff:
  "select_ok ts \<longleftrightarrow>
   (\<exists>i < length ts. ToLower (ts ! i) = ''from'' \<and> (\<forall>j < i. ToLower (ts ! j) \<noteq> ''into'' \<and> ToLower (ts ! j) \<noteq> ''from''))"
proof (induction ts)
  case (Cons t ts)
  show ?case
  proof (cases "ToLower t = ''into'' \<or> ToLower t = ''from''")
    case True
    then show ?thesis by (auto simp: Ex_less_Suc2 All_less_Suc2)
  next
    case False
    then have "select_ok (t # ts) = select_ok ts" by simp
    also have "\<dots> \<longleftrightarrow> (\<exists>i < length ts. ToLower ((t # ts) ! Suc i) = ''from'' \<and>
        (\<forall>j < Suc i. ToLower ((t # ts) ! j) \<noteq> ''into'' \<and> ToLower ((t # ts) ! j) \<noteq> ''from''))"
      unfolding Cons.IH using False by (simp add: All_less_Suc2)
    also have "\<dots> \<longleftrightarrow> (\<exists>i < length (t # ts). ToLower ((t # ts) ! i) = ''from'' \<and>
        (\<forall>j < i. ToLower ((t # ts) ! j) \<noteq> ''into'' \<and> ToLower ((t # ts) ! j) \<noteq> ''from''))"
      using False by (simp add: Ex_less_Suc2)
    finally show ?thesis .
  qed
qed simp

definition supported_statements :: "string list" where
  "supported_statements =
     [''show measurements'', ''show series'', ''show field keys'', ''show tag keys'',
      ''show tag values'', ''show stats'', ''show databases'', ''create database'',
      ''drop database'', ''show retention policies'', ''create retention policy'',
      ''alter retention policy'', ''drop retention policy'', ''delete from'',
      ''drop series from'', ''drop measurement'']"

lemma Has_SupportCmds: "Has SupportCmds s \<longleftrightarrow> s \<in> set supported_statements"
  by (simp only: SupportCmds_def Has_NewSet supported_statements_def)

text \<open>The head of a statement, read as a whole number of tokens.\<close>

lemma GetHeadStmt_take:
  "\<exists>k. GetHeadStmtFromTokens tokens n = ToLower (Join (take k tokens) '' '') \<and>
       k \<le> length tokens \<and> (tokens \<noteq> [] \<longrightarrow> 0 < k)"
  by (intro exI [of _ "if n \<le> 0 \<or> n > int (length tokens) then length tokens else nat n"])
    (auto simp: GetHeadStmtFromTokens_def Let_def)

lemma Join_head:
  "Join (t # ts) sep = (if ts = [] then t else t @ sep @ Join ts sep)"
  by (cases ts) auto

text \<open>A statement that \<^verbatim>\<open>CheckQuery\<close> lets through is a \<^verbatim>\<open>select\<close> with a \<^verbatim>\<open>from\<close>
  that no \<^verbatim>\<open>into\<close> precedes, or it starts with one of the sixteen supported statements,
  token by token and in any case of letters; in particular \<^verbatim>\<open>GRANT\<close>, \<^verbatim>\<open>REVOKE\<close>,
  \<^verbatim>\<open>KILL\<close> and \<^verbatim>\<open>EXPLAIN\<close> statements are always refused.\<close>

theorem CheckQuery_whitelist:
  assumes "CheckQuery q = Some (tokens, True, from)"
  shows "tokens \<noteq> [] \<and>
     (ToLower (hd tokens) = ''select'' \<and>
        (\<exists>i < length (drop 2 tokens). ToLower (drop 2 tokens ! i) = ''from'' \<and>
          (\<forall>j < i. ToLower (drop 2 tokens ! j) \<noteq> ''into'')) \<or>
      (\<exists>k. 0 < k \<and> k \<le> length tokens \<and>
         ToLower (Join (take k tokens) '' '') \<in> set supported_statements)) \<and>
     ToLower (hd tokens) \<notin> {''grant'', ''revoke'', ''kill'', ''explain''}"
proof -
  from assms obtain t0 ts where t: "tokens = t0 # ts"
    by (cases tokens) (auto simp: CheckQuery_def bind_eq_Some_conv byte_at_def Let_def
        split: if_splits option.splits)
  have cases: "ToLower t0 = ''select'' \<and> select_ok (drop 2 tokens) \<or>
      (\<exists>n. Has SupportCmds (GetHeadStmtFromTokens tokens n))"
    using assms t by (auto simp: CheckQuery_def bind_eq_Some_conv byte_at_def Let_def
        split: if_splits option.splits)
  show ?thesis
  proof (cases "\<exists>n. Has SupportCmds (GetHeadStmtFromTokens tokens n)")
    case True
    then obtain k where k: "0 < k" "k \<le> length tokens"
      "ToLower (Join (take k tokens) '' '') \<in> set supported_statements"
      using GetHeadStmt_take t unfolding Has_SupportCmds by (metis list.distinct(1))
    have "Join (take k tokens) '' '' = t0 \<or> (\<exists>r. Join (take k tokens) '' '' = t0 @ CHR '' '' # r)"
      using k t by (cases k) (auto simp: Join_head)
    then have "ToLower t0 \<in> set supported_statements \<or>
        (\<exists>r. ToLower t0 @ CHR '' '' # r \<in> set supported_statements)"
      using k(3) ToLower_append_space by metis
    then have "ToLower t0 \<notin> {''grant'', ''revoke'', ''kill'', ''explain''}"
      by (auto simp: supported_statements_def)
    with k t show ?thesis by auto
  next
    case False
    with cases have "ToLower t0 = ''select''" "select_ok (drop 2 tokens)" by auto
    with t show ?thesis unfolding select_ok_iff by auto
  qed
qed

theorem CheckQuery_whitelist_witness:
  "CheckQuery ''SELECT v FROM cpu'' = Some ([''SELECT'', ''v'', ''FROM'', ''cpu''], True, True) \<and>
   ToLower (hd [''SELECT'', ''v'', ''FROM'', ''cpu'']) \<notin> {''grant'', ''revoke'', ''kill'', ''explain''}"
proof -
  have "CheckQuery ''SELECT v FROM cpu'' = Some ([''SELECT'', ''v'', ''FROM'', ''cpu''], True, True)"
    by code_simp
  with CheckQuery_whitelist [OF this] show ?thesis by blast
qed

text \<open>The check reads one statement, and says nothing about what follows a semicolon:
  a query whose first statement is a plain \<^verbatim>\<open>select\<close> passes with any text behind it,
  the statements the proxy promises to refuse included (the README lists multiple queries
  as forbidden).\<close>

theorem CheckQuery_multiple_queries:
  "\<exists>tokens. CheckQuery ''select v from cpu; drop database db'' = Some (tokens, True, True) \<and>
     set [''drop'', ''database'', ''db''] \<subseteq> set tokens"
  by (intro exI [of _ "[''select'', ''v'', ''from'', ''cpu;'', ''drop'', ''database'', ''db'']"] conjI)
    (code_simp, simp)

section \<open>Quoted identifiers\<close>

lemma find_end_escaped:
  assumes "CHR 0x5C \<notin> set s" "e \<noteq> CHR 0x5C"
    and "drop i data = esc [e] s @ e # rest"
  shows "find_end data e i unq = Some (i + length (esc [e] s) + 1, unq @ s @ [e], None)"
  using assms
proof (induction s arbitrary: i unq)
  case Nil
  then have "drop i data = e # rest" by simp
  with drop_eq_ConsD [OF this] show ?case by (subst find_end.simps) simp
next
  case (Cons c s)
  show ?case
  proof (cases "c = e")
    case True
    with Cons.prems have "drop i data = CHR 0x5C # e # esc [e] s @ e # rest" by simp
    note i = drop_eq_ConsD [OF this]
    note j = drop_eq_ConsD [OF i(3)]
    from Cons.IH [of "i + 2" "unq @ [e]"] Cons.prems True i j show ?thesis
      by (subst find_end.simps) simp
  next
    case False
    with Cons.prems have "drop i data = c # esc [e] s @ e # rest" by simp
    note i = drop_eq_ConsD [OF this]
    from Cons.prems(1) have "c \<noteq> CHR 0x5C" by auto
    with Cons.IH [of "i + 1" "unq @ [c]"] Cons.prems False i show ?thesis
      by (subst find_end.simps) simp
  qed
qed

text \<open>Reading back a quoted identifier. Between double quotes, with its double quotes
  escaped as \<^verbatim>\<open>util.EscapeIdentifier\<close> does, any name without a backslash is scanned to
  the closing quote and comes out unchanged, whatever follows it.\<close>

theorem FindEndWithQuote_EscapeIdentifier:
  assumes "CHR 0x5C \<notin> set s"
  shows "FindEndWithQuote (pre @ CHR ''\"'' # EscapeIdentifier s @ CHR ''\"'' # rest) (length pre) (CHR ''\"'') =
         Some (length pre + length (EscapeIdentifier s) + 2, CHR ''\"'' # s @ [CHR ''\"''], None)"
  using find_end_escaped [of s "CHR ''\"''" "length pre + 1"
      "pre @ CHR ''\"'' # EscapeIdentifier s @ CHR ''\"'' # rest" rest "[CHR ''\"'']"] assms
  by (simp add: FindEndWithQuote_def byte_at_def EscapeIdentifier_esc)

theorem FindEndWithQuote_EscapeIdentifier_witness:
  "FindEndWithQuote (''x '' @ CHR ''\"'' # EscapeIdentifier ''c\"pu'' @ CHR ''\"'' # '' y'') (length ''x '') (CHR ''\"'') =
   Some (length ''x '' + length (EscapeIdentifier ''c\"pu'') + 2, CHR ''\"'' # ''c\"pu'' @ [CHR ''\"''], None)"
  by (rule FindEndWithQuote_EscapeIdentifier) simp

end
