(* ===== verification/Lineproto.thy ===== *)
theory Lineproto
  imports Influxql "HOL-Library.Word"
begin

text \<open>
  The line protocol helpers of \<^verbatim>\<open>backend/lineproto.go\<close>: the measurement of a line
  (\<^verbatim>\<open>ScanKey\<close>), its time stamp (\<^verbatim>\<open>ScanTime\<close>, \<^verbatim>\<open>AppendNano\<close>) and the shape check
  (\<^verbatim>\<open>RapidCheck\<close>). An out-of-range index is \<open>None\<close> of the outer option; a loop of
  \<^verbatim>\<open>RapidCheck\<close> that does not end is \<open>None\<close> of \<open>rapid_first\<close>. Two things come from
  outside: the clock (\<open>now\<close>, nanoseconds) and \<^verbatim>\<open>models.GetPrecisionMultiplier\<close> of the
  InfluxDB client library (\<open>mulOf\<close>), both parameters.
\<close>

section \<open>Definitions\<close>

record LinePoint =
  lp_db :: string
  lp_rp :: string
  lp_line :: bytes

fun scan_key :: "bytes \<Rightarrow> bytes \<Rightarrow> (error + string) option" where
  "scan_key [] b = Some (Inl ErrEOF)"
| "scan_key (c # s) b =
     (if c = CHR 0x5C then (case s of [] \<Rightarrow> None | d # t \<Rightarrow> scan_key t (b @ [d]))
      else if c = CHR '' '' \<or> c = CHR '','' then Some (Inr b)
      else scan_key s (b @ [c]))"

definition ScanKey :: "bytes \<Rightarrow> (error + string) option" where
  "ScanKey pointbuf = scan_key pointbuf []"

text \<open>\<^verbatim>\<open>ScanTime\<close>: the index of the last byte that is no digit, and whether the digits
  behind it are a time stamp.\<close>

definition ScanTime :: "bytes \<Rightarrow> int \<times> bool" where
  "ScanTime buf =
     (let i = int (length (dropWhile is_digit (rev buf))) - 1
      in (i, 0 < i \<and> i < int (length buf) - 1 \<and>
             (buf ! nat i = CHR '' '' \<or> buf ! nat i = CHR 0x00)))"

definition Int64ToBytes :: "64 word \<Rightarrow> bytes" where
  "Int64ToBytes n = Itoa (sint n)"

text \<open>\<^verbatim>\<open>int64(buf[i]-'0')\<close>: the difference is a byte and wraps there; the sum wraps at 64 bits.\<close>

definition BytesToInt64 :: "bytes \<Rightarrow> 64 word" where
  "BytesToInt64 buf =
     foldl (\<lambda>res c. res * 10 + ucast (of_char c - 48 :: 8 word)) 0 buf"

definition AppendNano :: "(string \<Rightarrow> 64 word) \<Rightarrow> int \<Rightarrow> bytes \<Rightarrow> string \<Rightarrow> bytes" where
  "AppendNano mulOf now line0 precision =
     (let line = TrimSpace line0;
          (pos, found) = ScanTime line
      in if found then
           (if precision = ''ns'' \<or> precision = ''n'' then line
            else if precision = ''us'' \<or> precision = ''u'' then line @ ''000''
            else if precision = ''ms'' then line @ ''000000''
            else if precision = ''s'' then line @ ''000000000''
            else
              let mul = mulOf precision;
                  nano = BytesToInt64 (drop (nat (pos + 1)) line) * mul
              in take (nat (pos + 1)) line @ Int64ToBytes nano)
         else line @ '' '' @ Itoa now)"

text \<open>The inner loop of \<^verbatim>\<open>RapidCheck\<close> at a space: it moves to the last space of the run and
  breaks out of both loops there, or falls through when the buffer ends.\<close>

function space_run :: "bytes \<Rightarrow> nat \<Rightarrow> nat \<times> bool" where
  "space_run buf i =
     (if i < length buf - 1 then
        (if buf ! (i + 1) = CHR '' '' then space_run buf (i + 1) else (i, True))
      else (i, False))"
  by pat_completeness auto
termination
  by (relation "measure (\<lambda>(buf, i). length buf - i)") auto

declare space_run.simps [simp del]

text \<open>The outer loop. Where the inner loop falls through at a space that ends the buffer,
  the outer one meets the same space again: it does not end, and the result is \<open>None\<close>.\<close>

partial_function (option) rapid_first :: "bytes \<Rightarrow> nat \<Rightarrow> nat option" where
  "rapid_first buf i =
     (if i < length buf then
        (if buf ! i = CHR 0x5C then rapid_first buf (i + 2)
         else if buf ! i = CHR '' '' then
           (if snd (space_run buf i) then Some (fst (space_run buf i))
            else rapid_first buf (fst (space_run buf i)))
         else rapid_first buf (i + 1))
      else Some i)"

function back_run :: "bytes \<Rightarrow> int \<Rightarrow> int" where
  "back_run buf j =
     (if 0 < j \<and> buf ! nat (j - 1) = CHR '' '' then back_run buf (j - 1) else j)"
  by pat_completeness auto
termination
  by (relation "measure (\<lambda>(buf, j). nat j)") auto

declare back_run.simps [simp del]

definition RapidCheck :: "bytes \<Rightarrow> bool option" where
  "RapidCheck buf =
     map_option (\<lambda>i. back_run buf (LastIndexByte buf (CHR '' '')) - int i > 3) (rapid_first buf 0)"

section \<open>The measurement of a line\<close>

lemma scan_key_escaped:
  assumes "CHR 0x5C \<notin> set m" "sep = CHR '' '' \<or> sep = CHR '',''"
  shows "scan_key (esc '', '' m @ sep # rest) b = Some (Inr (b @ m))"
  using assms
proof (induction m arbitrary: b)
  case (Cons c m)
  then show ?case by (auto split: if_splits)
qed auto

text \<open>A measurement name, escaped as \<^verbatim>\<open>util.EscapeMeasurement\<close> does, is read back from the
  front of its line.\<close>

lemma ScanKey_EscapeMeasurement:
  assumes "CHR 0x5C \<notin> set m" "sep = CHR '' '' \<or> sep = CHR '',''"
  shows "ScanKey (EscapeMeasurement m @ sep # rest) = Some (Inr m)"
  using scan_key_escaped [OF assms, of rest "[]"] by (simp add: ScanKey_def EscapeMeasurement_esc)

lemma scan_key_None: "scan_key s b = None \<Longrightarrow> s \<noteq> [] \<and> last s = CHR 0x5C"
  by (induction s b rule: scan_key.induct) (auto split: if_splits list.splits)

lemma scan_key_length: "scan_key s b = Some (Inr k) \<Longrightarrow> length k < length s + length b"
  by (induction s b rule: scan_key.induct) (auto split: if_splits list.splits)

section \<open>Time stamps\<close>

lemma ScanTime_stamp:
  assumes "list_all is_digit ts" "ts \<noteq> []" "body \<noteq> []"
  shows "ScanTime (body @ CHR '' '' # ts) = (int (length body), True)"
proof -
  have "dropWhile is_digit (rev ts @ CHR '' '' # rev body) = dropWhile is_digit (CHR '' '' # rev body)"
    by (rule dropWhile_append2) (use assms in \<open>auto simp: list_all_iff\<close>)
  then have "dropWhile is_digit (rev (body @ CHR '' '' # ts)) = rev (body @ [CHR '' ''])"
    by simp
  with assms show ?thesis by (simp add: ScanTime_def Let_def nth_append)
qed

lemma is_digit_hd_last:
  assumes "is_digit c"
  shows "c \<notin> set space_heads" "c \<notin> set space_lasts" "c \<noteq> CHR '' ''" "c \<noteq> CHR 0x5C"
  using assms by (auto simp: is_digit_def space_heads_def space_lasts_def unicode_spaces_def)

lemma digit_word:
  assumes "is_digit c"
  shows "ucast (of_char c - 48 :: 8 word) = (of_nat (digit_val c) :: 64 word)"
proof -
  have "c = CHR ''0'' \<or> c = CHR ''1'' \<or> c = CHR ''2'' \<or> c = CHR ''3'' \<or> c = CHR ''4'' \<or>
        c = CHR ''5'' \<or> c = CHR ''6'' \<or> c = CHR ''7'' \<or> c = CHR ''8'' \<or> c = CHR ''9''"
    using assms by (simp add: is_digit_def)
  then show ?thesis
    by (elim disjE) (simp_all add: digit_val_def)
qed

lemma BytesToInt64_digits:
  assumes "list_all is_digit ts"
  shows "BytesToInt64 ts = of_nat (digits_val ts)"
  using assms
proof (induction ts rule: rev_induct)
  case (snoc c ts)
  then have "BytesToInt64 (ts @ [c]) = of_nat (digits_val ts) * 10 + of_nat (digit_val c)"
    by (simp add: BytesToInt64_def digit_word)
  then show ?case by (simp add: mult.commute)
qed (simp add: BytesToInt64_def)

text \<open>The multiplier of each precision the code handles by appending zeros; the others
  come from the library.\<close>

definition precision_factor :: "(string \<Rightarrow> 64 word) \<Rightarrow> string \<Rightarrow> nat" where
  "precision_factor mulOf precision =
     (if precision = ''ns'' \<or> precision = ''n'' then 1
      else if precision = ''us'' \<or> precision = ''u'' then 10 ^ 3
      else if precision = ''ms'' then 10 ^ 6
      else if precision = ''s'' then 10 ^ 9
      else unat (mulOf precision))"

lemma Itoa_nat: "Itoa (int n) = nat_digits n"
  by (simp add: Itoa_def)

lemma sint_of_nat_64: "n < 2 ^ 63 \<Longrightarrow> sint (of_nat n :: 64 word) = int n"
  by (simp add: signed_of_nat signed_take_bit_int_eq_self)

lemma line_trimmed:
  assumes "body \<noteq> []" "hd body \<notin> set space_heads" "list_all is_digit ts" "ts \<noteq> []"
  shows "TrimSpace (body @ CHR '' '' # ts) = body @ CHR '' '' # ts"
proof -
  have "is_digit (last ts)" using assms by (simp add: list_all_iff)
  then show ?thesis
    using assms is_digit_hd_last(2) by (intro TrimSpace_id) auto
qed

text \<open>Time stamps are scaled to nanoseconds. For a line that ends with a space and a
  decimal time stamp, \<^verbatim>\<open>AppendNano\<close> keeps the line up to the time stamp and replaces the
  stamp by decimal digits whose value is the old value times the factor of the precision,
  provided the product fits in an int64 and the line carries no white space around it.\<close>

theorem AppendNano_scales:
  assumes "body \<noteq> []" "hd body \<notin> set space_heads" "list_all is_digit ts" "ts \<noteq> []"
    and "digits_val ts * precision_factor mulOf precision < 2 ^ 63"
  shows "\<exists>ts'. AppendNano mulOf now (body @ CHR '' '' # ts) precision = body @ CHR '' '' # ts' \<and>
           ts' \<noteq> [] \<and> list_all is_digit ts' \<and>
           digits_val ts' = digits_val ts * precision_factor mulOf precision"
proof -
  let ?line = "body @ CHR '' '' # ts"
  note trim = line_trimmed [OF assms(1-4)] and time = ScanTime_stamp [OF assms(3,4,1)]
  have zeros: "\<exists>ts'. ?line @ replicate k CHR ''0'' = body @ CHR '' '' # ts' \<and> ts' \<noteq> [] \<and>
      list_all is_digit ts' \<and> digits_val ts' = digits_val ts * 10 ^ k" for k
  proof -
    have "list_all is_digit (replicate k CHR ''0'')" by (simp add: list_all_iff is_digit_def)
    with assms(3,4) show ?thesis
      by (intro exI [of _ "ts @ replicate k CHR ''0''"]) (simp add: digits_val_zeros)
  qed
  have lit: "''000'' = replicate 3 CHR ''0''" "''000000'' = replicate 6 CHR ''0''"
    "''000000000'' = replicate 9 CHR ''0''"
    by (simp_all add: numeral_eq_Suc)
  consider (ns) "precision = ''ns'' \<or> precision = ''n''" | (us) "precision = ''us'' \<or> precision = ''u''"
    | (ms) "precision = ''ms''" | (s) "precision = ''s''"
    | (other) "precision \<notin> {''ns'', ''n'', ''us'', ''u'', ''ms'', ''s''}" by auto
  then show ?thesis
  proof cases
    case ns
    then show ?thesis
      using zeros [of 0] by (auto simp: AppendNano_def trim time precision_factor_def)
  next
    case us
    then show ?thesis
      using zeros [of 3] by (auto simp: AppendNano_def trim time precision_factor_def lit(1))
  next
    case ms
    then show ?thesis
      using zeros [of 6] by (auto simp: AppendNano_def trim time precision_factor_def lit(2))
  next
    case s
    then show ?thesis
      using zeros [of 9] by (auto simp: AppendNano_def trim time precision_factor_def lit(3))
  next
    case other
    let ?n = "digits_val ts * unat (mulOf precision)"
    have f: "precision_factor mulOf precision = unat (mulOf precision)"
      using other by (auto simp: precision_factor_def)
    have "BytesToInt64 ts * mulOf precision = of_nat ?n"
      by (simp add: BytesToInt64_digits [OF assms(3)])
    moreover have "sint (of_nat ?n :: 64 word) = int ?n"
      by (rule sint_of_nat_64) (use assms(5) f in simp)
    ultimately have "sint (BytesToInt64 ts * mulOf precision) = int ?n" by (simp only:)
    then have "Int64ToBytes (BytesToInt64 ts * mulOf precision) = nat_digits ?n"
      by (simp only: Int64ToBytes_def Itoa_nat)
    with other have "AppendNano mulOf now ?line precision = body @ CHR '' '' # nat_digits ?n"
      by (auto simp: AppendNano_def trim time Let_def nat_add_distrib)
    then show ?thesis
      by (intro exI [of _ "nat_digits ?n"]) (simp add: f nat_digits_digits)
  qed
qed

theorem AppendNano_scales_witness:
  "\<exists>ts'. AppendNano (\<lambda>_. 60000000000) 7 (''cpu v=1'' @ CHR '' '' # ''42'') ''m'' = ''cpu v=1'' @ CHR '' '' # ts' \<and>
     digits_val ts' = 42 * 60000000000"
proof -
  have v: "digits_val ''42'' = 42" by (simp add: digits_val_def digit_val_def)
  have f: "precision_factor (\<lambda>_. 60000000000) ''m'' = 60000000000" by (simp add: precision_factor_def)
  have "hd ''cpu v=1'' \<notin> set space_heads" "list_all is_digit ''42''"
    by (simp_all add: space_heads_def unicode_spaces_def is_digit_def)
  with AppendNano_scales [of "''cpu v=1''" "''42''" "\<lambda>_. 60000000000" "''m''" 7]
  show ?thesis by (auto simp: v f)
qed

section \<open>Every stamped line can be scanned\<close>

lemma last_Itoa: "Itoa n \<noteq> [] \<and> is_digit (last (Itoa n))"
proof -
  have "is_digit (last (nat_digits k))" for k
    using nat_digits_digits [of k] by (simp add: list_all_iff)
  then show ?thesis by (simp add: Itoa_def)
qed

lemma ScanTime_found_last:
  assumes "ScanTime line = (pos, True)"
  shows "line \<noteq> []" "is_digit (last line)" "0 \<le> pos + 1" "nat (pos + 1) \<le> length line"
proof -
  let ?d = "dropWhile is_digit (rev line)"
  from assms have p: "pos = int (length ?d) - 1" "length ?d < length line" "1 < length ?d"
    by (auto simp: ScanTime_def Let_def)
  then show "line \<noteq> []" by auto
  show "is_digit (last line)"
  proof (rule ccontr)
    assume "\<not> is_digit (last line)"
    with \<open>line \<noteq> []\<close> have "?d = rev line" by (cases line rule: rev_cases) auto
    with p(2) show False by simp
  qed
  from p show "0 \<le> pos + 1" "nat (pos + 1) \<le> length line" by auto
qed

lemma AppendNano_last:
  "AppendNano mulOf now line precision \<noteq> [] \<and> is_digit (last (AppendNano mulOf now line precision))"
proof (cases "ScanTime (TrimSpace line)")
  case (Pair pos found)
  show ?thesis
  proof (cases found)
    case False
    with Pair last_Itoa [of now] show ?thesis by (simp add: AppendNano_def)
  next
    case True
    with Pair have st: "ScanTime (TrimSpace line) = (pos, True)" by simp
    have zero: "is_digit CHR ''0''" by (simp add: is_digit_def)
    have nano: "Int64ToBytes n \<noteq> []" "is_digit (last (Int64ToBytes n))" for n
      using last_Itoa [of "sint n"] by (simp_all add: Int64ToBytes_def)
    show ?thesis
      using ScanTime_found_last [OF st] nano
      by (simp add: AppendNano_def st Let_def zero)
  qed
qed

lemma space_run_bounds: "fst (space_run buf i) \<ge> i"
proof (induction buf i rule: space_run.induct)
  case (1 buf i)
  then show ?case by (subst space_run.simps) auto
qed

lemma space_run_falls_through:
  assumes "\<not> snd (space_run buf i)" "i < length buf" "buf ! i = CHR '' ''"
  shows "last buf = CHR '' ''"
  using assms
proof (induction buf i rule: space_run.induct)
  case (1 buf i)
  show ?case
  proof (cases "i < length buf - 1")
    case True
    show ?thesis
    proof (cases "buf ! (i + 1) = CHR '' ''")
      case space: True
      then have "\<not> snd (space_run buf (i + 1))"
        using "1.prems"(1) True by (subst (asm) space_run.simps) simp
      with "1.IH" [OF True space] True space show ?thesis by simp
    next
      case False
      then have "snd (space_run buf i)"
        using True by (subst space_run.simps) simp
      with "1.prems"(1) show ?thesis by simp
    qed
  next
    case False
    with "1.prems"(2) have "i = length buf - 1" "buf \<noteq> []" by auto
    with "1.prems"(3) show ?thesis by (simp add: last_conv_nth)
  qed
qed

lemma rapid_first_returns:
  assumes "buf = [] \<or> last buf \<noteq> CHR '' ''"
  shows "\<exists>r. rapid_first buf i = Some r"
proof (induction "length buf - i" arbitrary: i rule: less_induct)
  case less
  show ?case
  proof (cases "i < length buf")
    case True
    consider (esc) "buf ! i = CHR 0x5C" | (space) "buf ! i = CHR '' ''"
      | (other) "buf ! i \<noteq> CHR 0x5C" "buf ! i \<noteq> CHR '' ''" by blast
    then show ?thesis
    proof cases
      case esc
      with True less [of "i + 2"] show ?thesis by (subst rapid_first.simps) auto
    next
      case space
      with assms True have "snd (space_run buf i)"
        using space_run_falls_through [of buf i] by auto
      with True space show ?thesis by (subst rapid_first.simps) auto
    next
      case other
      with True less [of "i + 1"] show ?thesis by (subst rapid_first.simps) auto
    qed
  next
    case False
    then show ?thesis by (subst rapid_first.simps) auto
  qed
qed

lemma stamped_line_scans:
  "ScanKey (AppendNano mulOf now line precision) \<noteq> None \<and>
   RapidCheck (drop n (AppendNano mulOf now line precision)) \<noteq> None"
proof -
  let ?nanoLine = "AppendNano mulOf now line precision"
  have d: "?nanoLine \<noteq> []" "is_digit (last ?nanoLine)"
    using AppendNano_last by auto
  from d is_digit_hd_last(4) have "ScanKey ?nanoLine \<noteq> None"
    using scan_key_None [of ?nanoLine "[]"] by (auto simp: ScanKey_def)
  moreover have "drop n ?nanoLine = [] \<or> last (drop n ?nanoLine) \<noteq> CHR '' ''"
    using d is_digit_hd_last(3) by (auto simp: last_drop not_le)
  then have "RapidCheck (drop n ?nanoLine) \<noteq> None"
    using rapid_first_returns [of "drop n ?nanoLine" 0] by (auto simp: RapidCheck_def)
  ultimately show ?thesis by blast
qed

text \<open>Stamping makes a line safe. Whatever bytes a client sends as a line, after
  \<^verbatim>\<open>AppendNano\<close> the line ends with a digit; then \<^verbatim>\<open>ScanKey\<close> does not index beyond it
  and both loops of \<^verbatim>\<open>RapidCheck\<close> end, on the whole line and on any rest of it.\<close>

theorem stamped_line_safe:
  fixes mulOf now line precision
  defines "nanoLine \<equiv> AppendNano mulOf now line precision"
  shows "ScanKey nanoLine \<noteq> None \<and> RapidCheck (drop n nanoLine) \<noteq> None"
  unfolding nanoLine_def by (rule stamped_line_scans)

text \<open>Without the stamp the loop need not end: \<^verbatim>\<open>RapidCheck\<close> never returns on a
  buffer of spaces only.\<close>

theorem RapidCheck_diverges: "RapidCheck (replicate (Suc n) (CHR '' '')) = None"
proof -
  let ?buf = "replicate (Suc n) (CHR '' '')"
  have run: "space_run ?buf i = (n, False)" if "i \<le> n" for i
    using that
  proof (induction ?buf i rule: space_run.induct)
    case (1 i)
    then show ?case by (subst space_run.simps) (auto simp: nth_append simp del: replicate_Suc)
  qed
  have never: "buf = ?buf \<longrightarrow> n < i" if ret: "rapid_first buf i = Some r" for buf i r
  proof (rule rapid_first.raw_induct [where P = "\<lambda>buf i r. buf = ?buf \<longrightarrow> n < i", OF _ ret])
    fix f buf i r
    assume IH: "\<And>buf i r. f buf i = Some r \<Longrightarrow> buf = ?buf \<longrightarrow> n < i"
      and eq: "(if i < length buf then
         if buf ! i = CHR 0x5C then f buf (i + 2)
         else if buf ! i = CHR '' '' then
           if snd (space_run buf i) then Some (fst (space_run buf i)) else f buf (fst (space_run buf i))
         else f buf (i + 1)
       else Some i) = Some r"
    show "buf = ?buf \<longrightarrow> n < i"
    proof (intro impI, rule ccontr)
      assume buf: "buf = ?buf" and "\<not> n < i"
      then have "i < length buf" "buf ! i = CHR '' ''" "space_run buf i = (n, False)"
        using run [of i] by (simp_all del: replicate_Suc)
      with eq have "f buf n = Some r" by simp
      with IH buf have "n < n" by blast
      then show False by simp
    qed
  qed
  show ?thesis
    using never [of ?buf 0] by (cases "rapid_first ?buf 0") (auto simp: RapidCheck_def)
qed

section \<open>What the shape check decides\<close>

text \<open>A run of bytes without an unescaped space, closed under the escapes.\<close>

fun key_text :: "bytes \<Rightarrow> bool" where
  "key_text [] \<longleftrightarrow> True"
| "key_text (c # s) \<longleftrightarrow>
     (if c = CHR 0x5C then (case s of [] \<Rightarrow> False | _ # t \<Rightarrow> key_text t)
      else c \<noteq> CHR '' '' \<and> key_text s)"

lemma rapid_first_key:
  assumes "key_text k"
  shows "rapid_first (p @ k @ r) (length p) = rapid_first (p @ k @ r) (length p + length k)"
  using assms
proof (induction k arbitrary: p rule: key_text.induct)
  case (2 c s)
  show ?case
  proof (cases "c = CHR 0x5C")
    case True
    with "2.prems" obtain d t where s: "s = d # t" "key_text t" by (cases s) auto
    have "rapid_first (p @ (c # s) @ r) (length p) = rapid_first ((p @ [c, d]) @ t @ r) (length (p @ [c, d]))"
      by (subst rapid_first.simps) (simp add: True s nth_append)
    also have "\<dots> = rapid_first ((p @ [c, d]) @ t @ r) (length (p @ [c, d]) + length t)"
      using "2.IH"(1) [OF True s(1,2)] .
    finally show ?thesis by (simp add: s)
  next
    case False
    with "2.prems" have c: "c \<noteq> CHR '' ''" "key_text s" by auto
    have "rapid_first (p @ (c # s) @ r) (length p) = rapid_first ((p @ [c]) @ s @ r) (length (p @ [c]))"
      by (subst rapid_first.simps) (simp add: False c nth_append)
    also have "\<dots> = rapid_first ((p @ [c]) @ s @ r) (length (p @ [c]) + length s)"
      using "2.IH"(2) [OF False c(2)] .
    finally show ?thesis by simp
  qed
qed simp

lemma space_run_spaces:
  assumes "c \<noteq> CHR '' ''"
  shows "space_run (p @ replicate (Suc a) (CHR '' '') @ c # r) (length p) = (length p + a, True)"
proof (induction a arbitrary: p)
  case 0
  then show ?case using assms by (subst space_run.simps) (simp add: nth_append)
next
  case (Suc a)
  have "space_run (p @ replicate (Suc (Suc a)) (CHR '' '') @ c # r) (length p) =
        space_run ((p @ [CHR '' '']) @ replicate (Suc a) (CHR '' '') @ c # r) (length (p @ [CHR '' '']))"
    by (subst space_run.simps) (simp add: nth_append)
  with Suc [of "p @ [CHR '' '']"] show ?case by simp
qed

lemma rapid_first_spec:
  assumes "key_text k" "c \<noteq> CHR '' ''"
  shows "rapid_first (k @ replicate (Suc a) (CHR '' '') @ c # r) 0 = Some (length k + a)"
proof -
  let ?r = "replicate (Suc a) (CHR '' '') @ c # r"
  have "rapid_first (k @ ?r) 0 = rapid_first (k @ ?r) (length k)"
    using rapid_first_key [OF assms(1), of "[]" ?r] by simp
  also have "\<dots> = Some (length k + a)"
    using space_run_spaces [OF assms(2), of k a r] by (subst rapid_first.simps) (simp add: nth_append)
  finally show ?thesis .
qed

lemma back_run_spaces:
  assumes "p \<noteq> [] \<Longrightarrow> last p \<noteq> CHR '' ''"
  shows "back_run (p @ replicate (Suc b) (CHR '' '') @ r) (int (length p + b)) = int (length p)"
proof (induction b arbitrary: r)
  case 0
  show ?case
  proof (cases p rule: rev_cases)
    case (snoc q d)
    with assms have "d \<noteq> CHR '' ''" by simp
    with snoc show ?thesis by (subst back_run.simps) (simp add: nth_append nat_diff_distrib)
  qed (subst back_run.simps, simp)
next
  case (Suc b)
  let ?s = "p @ replicate (Suc b) (CHR '' '') @ CHR '' '' # r"
  have eq: "p @ replicate (Suc (Suc b)) (CHR '' '') @ r = ?s"
    using replicate_append_same [of "Suc b" "CHR '' ''"] by simp
  have "?s ! nat (int (length p + b)) = CHR '' ''"
    unfolding nat_int by (simp add: nth_append del: replicate_Suc)
  then have "back_run ?s (int (length p + Suc b)) = back_run ?s (int (length p + b))"
    by (subst back_run.simps) (simp del: replicate_Suc)
  with Suc [of "CHR '' '' # r"] show ?case unfolding eq by simp
qed

lemma LastIndexByte_append:
  "c \<notin> set r \<Longrightarrow> LastIndexByte (p @ c # r) c = int (length p)"
proof (induction p)
  case Nil
  then have "LastIndexByte r c = -1"
    by (induction r) (auto simp: Let_def)
  then show ?case by (simp add: Let_def)
qed (simp add: Let_def)

lemma back_run_last:
  assumes "p \<noteq> [] \<Longrightarrow> last p \<noteq> CHR '' ''" "CHR '' '' \<notin> set ts"
  shows "back_run (p @ replicate (Suc b) (CHR '' '') @ ts)
           (LastIndexByte (p @ replicate (Suc b) (CHR '' '') @ ts) (CHR '' '')) = int (length p)"
proof -
  have "p @ replicate (Suc b) (CHR '' '') @ ts = (p @ replicate b (CHR '' '')) @ CHR '' '' # ts"
    using replicate_append_same [of b "CHR '' ''"] by simp
  then have "LastIndexByte (p @ replicate (Suc b) (CHR '' '') @ ts) (CHR '' '') = int (length p + b)"
    using LastIndexByte_append [OF assms(2), of "p @ replicate b (CHR '' '')"] by simp
  with back_run_spaces [of p b ts] assms(1) show ?thesis by simp
qed

text \<open>The shape check accepts a line exactly when its field part has three bytes. On a
  key without unescaped space, a field part that neither begins nor ends with a space, and
  a time stamp, separated by runs of spaces of any length, \<^verbatim>\<open>RapidCheck\<close> returns and
  answers whether the field part is at least three bytes long.\<close>

theorem RapidCheck_fields:
  assumes "key_text k" "f \<noteq> []" "hd f \<noteq> CHR '' ''" "last f \<noteq> CHR '' ''" "CHR '' '' \<notin> set ts"
  shows "RapidCheck (k @ replicate (Suc a) (CHR '' '') @ f @ replicate (Suc b) (CHR '' '') @ ts) =
           Some (3 \<le> length f)"
proof -
  from assms(2) obtain c f' where f: "f = c # f'" by (cases f) auto
  have "rapid_first (k @ replicate (Suc a) (CHR '' '') @ f @ replicate (Suc b) (CHR '' '') @ ts) 0 =
        Some (length k + a)"
    using rapid_first_spec [of k c a "f' @ replicate (Suc b) (CHR '' '') @ ts"] assms(1,3) f by simp
  moreover have "last (k @ replicate (Suc a) (CHR '' '') @ f) \<noteq> CHR '' ''"
    using assms(2,4) by simp
  with back_run_last [of "k @ replicate (Suc a) (CHR '' '') @ f" ts b] assms(5)
  have "back_run (k @ replicate (Suc a) (CHR '' '') @ f @ replicate (Suc b) (CHR '' '') @ ts)
          (LastIndexByte (k @ replicate (Suc a) (CHR '' '') @ f @ replicate (Suc b) (CHR '' '') @ ts) (CHR '' '')) =
        int (length k + Suc a + length f)"
    by (simp del: replicate_Suc)
  ultimately show ?thesis by (auto simp: RapidCheck_def simp del: replicate_Suc)
qed

theorem RapidCheck_fields_witness:
  "RapidCheck (''cpu,h=a'' @ '' '' @ ''v=1'' @ '' '' @ ''42'') = Some True \<and>
   RapidCheck (''cpu'' @ ''  '' @ ''v='' @ '' '' @ ''42'') = Some False"
proof
  have "key_text ''cpu,h=a''" "key_text ''cpu''" by simp_all
  from RapidCheck_fields [OF this(1), of "''v=1''" "''42''" 0 0]
    RapidCheck_fields [OF this(2), of "''v=''" "''42''" 1 0]
  show "RapidCheck (''cpu,h=a'' @ '' '' @ ''v=1'' @ '' '' @ ''42'') = Some True"
    "RapidCheck (''cpu'' @ ''  '' @ ''v='' @ '' '' @ ''42'') = Some False"
    by (simp_all add: numeral_eq_Suc)
qed

text \<open>A line without fields is refused, also when nothing but one run of spaces
  separates its key from its time stamp.\<close>

theorem RapidCheck_no_fields:
  assumes "key_text k" "k \<noteq> [] \<Longrightarrow> last k \<noteq> CHR '' ''" "CHR '' '' \<notin> set ts" "ts \<noteq> []"
  shows "RapidCheck (k @ replicate (Suc a) (CHR '' '') @ ts) = Some False"
proof -
  from assms(4) obtain c t where ts: "ts = c # t" by (cases ts) auto
  with assms(3) have "c \<noteq> CHR '' ''" by auto
  with ts have "rapid_first (k @ replicate (Suc a) (CHR '' '') @ ts) 0 = Some (length k + a)"
    using rapid_first_spec [OF assms(1), of c a t] by simp
  with back_run_last [OF assms(2,3), of a] show ?thesis
    by (auto simp: RapidCheck_def simp del: replicate_Suc)
qed

theorem RapidCheck_no_fields_witness: "RapidCheck (''cpu'' @ ''  '' @ ''42'') = Some False"
  using RapidCheck_no_fields [of "''cpu''" "''42''" 1] by (simp add: numeral_eq_Suc)

text \<open>A negative time stamp is not recognised. InfluxDB accepts time stamps before
  1970; \<^verbatim>\<open>AppendNano\<close> leaves such a stamp in the line, unscaled, and appends the clock
  as a second one.\<close>

theorem AppendNano_negative_stamp:
  assumes "body \<noteq> []" "hd body \<notin> set space_heads" "list_all is_digit ts" "ts \<noteq> []"
  shows "AppendNano mulOf now (body @ '' -'' @ ts) precision = (body @ '' -'' @ ts) @ '' '' @ Itoa now"
proof -
  have "is_digit (last ts)" using assms by (simp add: list_all_iff)
  then have trim: "TrimSpace (body @ '' -'' @ ts) = body @ '' -'' @ ts"
    using assms is_digit_hd_last(2) by (intro TrimSpace_id) auto
  have "dropWhile is_digit (rev ts @ CHR ''-'' # CHR '' '' # rev body) =
        dropWhile is_digit (CHR ''-'' # CHR '' '' # rev body)"
    by (rule dropWhile_append2) (use assms in \<open>auto simp: list_all_iff\<close>)
  then have "dropWhile is_digit (rev (body @ '' -'' @ ts)) = CHR ''-'' # CHR '' '' # rev body"
    by (simp add: is_digit_def)
  then have "ScanTime (body @ '' -'' @ ts) = (int (Suc (length body)), False)"
    by (simp add: ScanTime_def Let_def nth_append)
  with trim show ?thesis by (simp add: AppendNano_def)
qed

theorem AppendNano_negative_stamp_witness:
  "AppendNano (\<lambda>_. 1) 7 (''cpu v=1'' @ '' -'' @ ''5'') ''ns'' = ''cpu v=1 -5 7''"
proof -
  have "hd ''cpu v=1'' \<notin> set space_heads" "list_all is_digit ''5''"
    by (simp_all add: space_heads_def unicode_spaces_def is_digit_def)
  moreover have "Itoa 7 = ''7''" by (simp add: Itoa_def nat_digits.simps digit_char_def)
  ultimately show ?thesis
    using AppendNano_negative_stamp [of "''cpu v=1''" "''5''" "\<lambda>_. 1" 7 "''ns''"] by simp
qed

end
