(* ===== verification/Backend.thy ===== *)
theory Backend
  imports Http_Backend File_Backend Lineproto
begin

text \<open>
  A backend of the proxy, \<^verbatim>\<open>backend/backend.go\<close>: the queue of points its worker goroutine
  receives, the buffers per database and retention policy, the flush of a buffer to the
  server or to the backlog on disk, and the loop that rewrites the backlog. The worker is a
  step relation; the functions a pool or a goroutine runs are operations of their own, so
  any interleaving is a sequence of them. \<^verbatim>\<open>bytes.Buffer\<close> never fails to write, as its
  documentation says. A panic is \<open>None\<close>.
\<close>

section \<open>Definitions\<close>

record CacheBuffer =
  cb_Buffer :: "bytes option"
  cb_Counter :: int

type_synonym buffers = "(string, (string, CacheBuffer) gomap) gomap"

text \<open>The channel is the list of the points in it and whether it is closed; a nil timer
  channel is \<open>False\<close>. A backend for queries only has neither files nor channel.\<close>

record Backend =
  ib_hb :: HttpBackend
  ib_fb :: "FileBackend option"
  ib_running :: bool
  ib_flushSize :: int
  ib_flushTime :: int
  ib_rewriteInterval :: int
  ib_chWrite :: "LinePoint list"
  ib_chClosed :: bool
  ib_chTimer :: bool
  ib_buffers :: buffers

text \<open>\<open>opened\<close> is the result of opening the files of the backend and making its pool; a failure
  panics, as \<^verbatim>\<open>time.NewTicker\<close> does on an interval that is not positive.\<close>

definition NewBackend :: "BackendConfig \<Rightarrow> ProxyConfig \<Rightarrow> FileBackend \<times> error option \<Rightarrow> Backend option" where
  "NewBackend cfg pxcfg opened =
     (if pc_RewriteInterval pxcfg \<le> 0 then None
      else case opened of
        (fb, Some e) \<Rightarrow> None
      | (fb, None) \<Rightarrow> Some
          \<lparr>ib_hb = NewHttpBackend cfg pxcfg, ib_fb = Some fb, ib_running = True,
           ib_flushSize = pc_FlushSize pxcfg, ib_flushTime = pc_FlushTime pxcfg,
           ib_rewriteInterval = pc_RewriteInterval pxcfg, ib_chWrite = [], ib_chClosed = False,
           ib_chTimer = False, ib_buffers = []\<rparr>)"

lemma NewBackend_Some:
  "NewBackend cfg pxcfg opened = Some ib \<longleftrightarrow>
     0 < pc_RewriteInterval pxcfg \<and> snd opened = None \<and>
     ib = \<lparr>ib_hb = NewHttpBackend cfg pxcfg, ib_fb = Some (fst opened), ib_running = True,
           ib_flushSize = pc_FlushSize pxcfg, ib_flushTime = pc_FlushTime pxcfg,
           ib_rewriteInterval = pc_RewriteInterval pxcfg, ib_chWrite = [], ib_chClosed = False,
           ib_chTimer = False, ib_buffers = []\<rparr>"
  by (cases opened) (auto simp: NewBackend_def split: option.split)

definition NewSimpleBackend :: "BackendConfig \<Rightarrow> Backend" where
  "NewSimpleBackend cfg =
     \<lparr>ib_hb = NewSimpleHttpBackend cfg, ib_fb = None, ib_running = False, ib_flushSize = 0,
      ib_flushTime = 0, ib_rewriteInterval = 0, ib_chWrite = [], ib_chClosed = False,
      ib_chTimer = False, ib_buffers = []\<rparr>"

subsection \<open>Buffering\<close>

text \<open>Sending on a channel: a panic when it is closed. (A full channel blocks; the step
  relations below send only when there is room.)\<close>

definition send_chWrite :: "Backend \<Rightarrow> LinePoint \<Rightarrow> Backend option" where
  "send_chWrite ib point =
     (if ib_chClosed ib then None else Some (ib\<lparr>ib_chWrite := ib_chWrite ib @ [point]\<rparr>))"

text \<open>A point is sent to the channel unless the backend has been closed. The check and the
  send are one step here. In the program they are two, and a \<^verbatim>\<open>Close\<close> between them makes the
  send panic (theorem \<open>close_between_check_and_send\<close>); nothing in the program calls \<^verbatim>\<open>Close\<close> on
  a backend that is written to.\<close>

definition WritePoint :: "Backend \<Rightarrow> LinePoint \<Rightarrow> Backend \<times> error option" where
  "WritePoint ib point =
     (if \<not> ib_running ib then (ib, Some ErrClosedPipe)
      else (ib\<lparr>ib_chWrite := ib_chWrite ib @ [point]\<rparr>, None))"

text \<open>\<^verbatim>\<open>ib.buffers[db][rp]\<close>, and storing it back.\<close>

definition get_cb :: "buffers \<Rightarrow> string \<Rightarrow> string \<Rightarrow> CacheBuffer option" where
  "get_cb bs db rp = (case map_get bs db of None \<Rightarrow> None | Some m \<Rightarrow> map_get m rp)"

definition set_cb :: "buffers \<Rightarrow> string \<Rightarrow> string \<Rightarrow> CacheBuffer \<Rightarrow> buffers" where
  "set_cb bs db rp cb =
     (let m = (case map_get bs db of None \<Rightarrow> [] | Some m \<Rightarrow> m) in map_set db (map_set rp cb m) bs)"

text \<open>A buffer handed to the pool: database, retention policy and the lines.\<close>

type_synonym task = "string \<times> string \<times> bytes"

definition FlushBuffer :: "Backend \<Rightarrow> string \<Rightarrow> string \<Rightarrow> (Backend \<times> task list) option" where
  "FlushBuffer ib db rp =
     (case get_cb (ib_buffers ib) db rp of
        None \<Rightarrow> None
      | Some cb \<Rightarrow>
          (case cb_Buffer cb of
             None \<Rightarrow> Some (ib, [])
           | Some p \<Rightarrow>
               let ib' = ib\<lparr>ib_buffers := set_cb (ib_buffers ib) db rp \<lparr>cb_Buffer = None, cb_Counter = 0\<rparr>\<rparr>
               in Some (ib', if p = [] then [] else [(db, rp, p)])))"

definition end_line :: "bytes \<Rightarrow> bytes" where
  "end_line line = (if last line \<noteq> CHR 0x0A then line @ [CHR 0x0A] else line)"

definition WriteBuffer :: "Backend \<Rightarrow> LinePoint \<Rightarrow> (Backend \<times> task list) option" where
  "WriteBuffer ib point =
     (let db = lp_db point; rp = lp_rp point; line = lp_line point;
          cb0 = (case get_cb (ib_buffers ib) db rp of
                   None \<Rightarrow> \<lparr>cb_Buffer = Some [], cb_Counter = 0\<rparr> | Some cb \<Rightarrow> cb)
      in if line = [] then None
         else
           let buf = (case cb_Buffer cb0 of None \<Rightarrow> [] | Some b \<Rightarrow> b) @ end_line line;
               cb = \<lparr>cb_Buffer = Some buf, cb_Counter = cb_Counter cb0 + 1\<rparr>;
               ib1 = ib\<lparr>ib_buffers := set_cb (ib_buffers ib) db rp cb\<rparr>
           in if ib_flushSize ib \<le> cb_Counter cb then FlushBuffer ib1 db rp
              else Some (ib1\<lparr>ib_chTimer := True\<rparr>, []))"

text \<open>The two loops of \<^verbatim>\<open>Flush\<close>, over the keys in the order of the association lists.\<close>

definition buffer_keys :: "buffers \<Rightarrow> (string \<times> string) list" where
  "buffer_keys bs = concat (map (\<lambda>(db, m). map (\<lambda>rp. (db, rp)) (map_keys m)) bs)"

fun flush_all :: "(string \<times> string) list \<Rightarrow> Backend \<Rightarrow> (Backend \<times> task list) option" where
  "flush_all [] ib = Some (ib, [])"
| "flush_all ((db, rp) # ks) ib =
     (case get_cb (ib_buffers ib) db rp of
        None \<Rightarrow> None
      | Some cb \<Rightarrow>
          if 0 < cb_Counter cb then
            do { (ib1, ts1) \<leftarrow> FlushBuffer ib db rp;
                 (ib2, ts2) \<leftarrow> flush_all ks ib1;
                 Some (ib2, ts1 @ ts2) }
          else flush_all ks ib)"

definition Flush :: "Backend \<Rightarrow> (Backend \<times> task list) option" where
  "Flush ib = (let ib1 = ib\<lparr>ib_chTimer := False\<rparr> in flush_all (buffer_keys (ib_buffers ib1)) ib1)"

subsection \<open>Flushing to the server or the backlog\<close>

definition backlog_record :: "string \<Rightarrow> string \<Rightarrow> bytes \<Rightarrow> bytes" where
  "backlog_record db rp p = Join [QueryEscape db, QueryEscape rp, p] '' ''"

text \<open>What became of a buffer: the server took it, it was dropped because of the answer of
  the server, it went to the backlog, or a failure of the compression or the disk lost it.\<close>

datatype outcome = Written | Dropped | Backlogged | Lost

definition to_backlog :: "Write_io \<Rightarrow> Backend \<Rightarrow> string \<Rightarrow> string \<Rightarrow> bytes \<Rightarrow> (Backend \<times> outcome) option" where
  "to_backlog io ib db rp p =
     (case ib_fb ib of
        None \<Rightarrow> None
      | Some fb \<Rightarrow>
          let (fb', err) = fb_Write io fb (backlog_record db rp p)
          in Some (ib\<lparr>ib_fb := Some fb'\<rparr>, if err = None then Backlogged else Lost))"

text \<open>The function that \<^verbatim>\<open>FlushBuffer\<close> submits to the pool.\<close>

definition run_task :: "http_env \<Rightarrow> Write_io \<Rightarrow> Backend \<Rightarrow> task \<Rightarrow> (Backend \<times> outcome) option" where
  "run_task env io ib task =
     (case task of (db, rp, p0) \<Rightarrow>
        (case Compress env p0 of
           (buf, Some e) \<Rightarrow> Some (ib, Lost)
         | (p, None) \<Rightarrow>
             if IsActive (ib_hb ib) then
               (case WriteCompressed env (ib_hb ib) db rp p of
                  None \<Rightarrow> None
                | Some (hb, err) \<Rightarrow>
                    let ib1 = ib\<lparr>ib_hb := hb\<rparr>
                    in if err = None then Some (ib1, Written)
                       else if err = Some ErrBadRequest \<or> err = Some ErrNotFound then Some (ib1, Dropped)
                       else to_backlog io ib1 db rp p)
             else to_backlog io ib db rp p))"

subsection \<open>Rewriting the backlog\<close>

record Rewrite_io =
  rio_read :: "read_fault \<times> read_fault"
  rio_update :: Update_io
  rio_rollback :: Rollback_io

definition good_Rewrite :: Rewrite_io where
  "good_Rewrite = \<lparr>rio_read = (None, None), rio_update = good_Update, rio_rollback = good_Rollback\<rparr>"

text \<open>The default branch returns the error of \<^verbatim>\<open>RollbackMeta\<close>, not the one of the write.\<close>

definition settle :: "Rewrite_io \<Rightarrow> Backend \<Rightarrow> error option \<Rightarrow> (Backend \<times> error option) option" where
  "settle io ib err =
     (case ib_fb ib of
        None \<Rightarrow> None
      | Some fb \<Rightarrow>
          let (fb', err') = (if err \<in> {None, Some ErrBadRequest, Some ErrNotFound}
                             then UpdateMeta (rio_update io) fb else RollbackMeta (rio_rollback io) fb)
          in Some (ib\<lparr>ib_fb := Some fb'\<rparr>, err'))"

text \<open>\<^verbatim>\<open>Rewrite\<close> from where the record \<open>b\<close> has been read. Beside the error it says what the write
  has come to, if there was one.\<close>

definition verdict :: "error option \<Rightarrow> outcome" where
  "verdict err =
     (if err = None then Written
      else if err = Some ErrBadRequest \<or> err = Some ErrNotFound then Dropped else Backlogged)"

definition resend ::
    "http_env \<Rightarrow> Rewrite_io \<Rightarrow> Backend \<Rightarrow> bytes \<Rightarrow> (Backend \<times> error option \<times> outcome option) option" where
  "resend env io ib b =
     (case SplitN b (CHR '' '') 3 of
        [d, r, z] \<Rightarrow>
          (case QueryUnescape d of
             Inl e \<Rightarrow> Some (ib, Some e, None)
           | Inr db \<Rightarrow>
               (case QueryUnescape r of
                  Inl e \<Rightarrow> Some (ib, Some e, None)
                | Inr rp \<Rightarrow>
                    do { (hb, err) \<leftarrow> WriteCompressed env (ib_hb ib) db rp z;
                         (ib', err') \<leftarrow> settle io (ib\<lparr>ib_hb := hb\<rparr>) err;
                         Some (ib', err', Some (verdict err)) }))
      | _ \<Rightarrow> Some (ib, None, None))"

definition Rewrite :: "http_env \<Rightarrow> Rewrite_io \<Rightarrow> Backend \<Rightarrow> (Backend \<times> error option) option" where
  "Rewrite env io ib =
     (case ib_fb ib of
        None \<Rightarrow> None
      | Some fb0 \<Rightarrow>
          (case fb_Read (rio_read io) fb0 of
             (fb, Inl e) \<Rightarrow> Some (ib\<lparr>ib_fb := Some fb\<rparr>, Some e)
           | (fb, Inr None) \<Rightarrow> Some (ib\<lparr>ib_fb := Some fb\<rparr>, None)
           | (fb, Inr (Some b)) \<Rightarrow>
               do { (ib', err, oc) \<leftarrow> resend env io (ib\<lparr>ib_fb := Some fb\<rparr>) b; Some (ib', err) }))"

text \<open>The ticker case of the worker: it starts the loop, whose being alive is the rewriting flag.\<close>

definition RewriteIdle :: "Backend \<Rightarrow> Backend option" where
  "RewriteIdle ib =
     (if IsRewriting (ib_hb ib) then Some ib
      else case ib_fb ib of
             None \<Rightarrow> None
           | Some fb \<Rightarrow> Some (if IsData fb then ib\<lparr>ib_hb := SetRewriting (ib_hb ib) True\<rparr> else ib))"

text \<open>One round of \<^verbatim>\<open>RewriteLoop\<close> ends the loop, sleeps for the rewrite interval or goes on at
  once. Between two rounds the other goroutines may change the active flag: \<open>rd_active\<close> is
  its value when the round looks at it.\<close>

record Round =
  rd_env :: http_env
  rd_io :: Rewrite_io
  rd_active :: bool

datatype turn = Finished | Stopped | Sleep | Again

definition rewrite_round :: "Round \<Rightarrow> Backend \<Rightarrow> (Backend \<times> turn) option" where
  "rewrite_round rd ib =
     (case ib_fb ib of
        None \<Rightarrow> None
      | Some fb \<Rightarrow>
          if \<not> IsData fb then Some (ib\<lparr>ib_hb := SetRewriting (ib_hb ib) False\<rparr>, Finished)
          else if \<not> ib_running ib then Some (ib, Stopped)
          else
            let ib1 = ib\<lparr>ib_hb := (ib_hb ib)\<lparr>hb_active := rd_active rd\<rparr>\<rparr> in
            if \<not> IsActive (ib_hb ib1) then Some (ib1, Sleep)
            else case Rewrite (rd_env rd) (rd_io rd) ib1 of
                   None \<Rightarrow> None
                 | Some (ib2, err) \<Rightarrow> Some (ib2, if err = None then Again else Sleep))"

text \<open>The loop over a list of rounds; the result says whether it has ended by then.\<close>

fun RewriteLoop :: "Round list \<Rightarrow> Backend \<Rightarrow> (Backend \<times> bool) option" where
  "RewriteLoop [] ib = Some (ib, False)"
| "RewriteLoop (rd # rds) ib =
     (case rewrite_round rd ib of
        None \<Rightarrow> None
      | Some (ib', t) \<Rightarrow>
          if t = Finished \<or> t = Stopped then Some (ib', True) else RewriteLoop rds ib')"

subsection \<open>The worker\<close>

definition ib_Close :: "Backend \<Rightarrow> Backend" where
  "ib_Close ib = ib\<lparr>ib_running := False, ib_chClosed := True\<rparr>"

text \<open>The end of the worker, once the pool has run all tasks.\<close>

definition shut_down :: "Backend \<Rightarrow> Backend" where
  "shut_down ib = ib\<lparr>ib_hb := hb_Close (ib_hb ib), ib_fb := map_option fb_Close (ib_fb ib)\<rparr>"

text \<open>What happens to a backend: other goroutines send points and close it; the worker looks
  at the running flag at the head of its loop, waits in the \<^verbatim>\<open>select\<close> for a point, its timer,
  its ticker or the closed channel, and hands tasks to the pool. Each step says which tasks it
  submits. After the final flush the worker waits for the pool before it closes the files. When
  the flag is down at the head, the loop ends there, without the final flush.\<close>

datatype phase = AtHead | AtSelect | Closing | Gone

datatype event = Send LinePoint | CloseCall | Look | Receive | Timer | Ticker | Drain | Finish

inductive worker_step :: "Backend \<times> phase \<Rightarrow> event \<Rightarrow> Backend \<times> phase \<Rightarrow> task list \<Rightarrow> bool" where
  send: "WritePoint ib pt = (ib', None) \<Longrightarrow> length (ib_chWrite ib) < 16 \<Longrightarrow>
     worker_step (ib, ph) (Send pt) (ib', ph) []"
| close: "\<not> ib_chClosed ib \<Longrightarrow> worker_step (ib, ph) CloseCall (ib_Close ib, ph) []"
| look: "worker_step (ib, AtHead) Look (ib, if ib_running ib then AtSelect else Gone) []"
| receive: "ib_chWrite ib = pt # pts \<Longrightarrow> WriteBuffer (ib\<lparr>ib_chWrite := pts\<rparr>) pt = Some (ib', ts) \<Longrightarrow>
     worker_step (ib, AtSelect) Receive (ib', AtHead) ts"
| timer: "ib_chTimer ib \<Longrightarrow> Flush ib = Some (ib', ts) \<Longrightarrow>
     worker_step (ib, AtSelect) Timer (ib', if ib_running ib' then AtHead else Closing) ts"
| ticker: "RewriteIdle ib = Some ib' \<Longrightarrow> worker_step (ib, AtSelect) Ticker (ib', AtHead) []"
| drain: "ib_chClosed ib \<Longrightarrow> ib_chWrite ib = [] \<Longrightarrow> Flush ib = Some (ib', ts) \<Longrightarrow>
     worker_step (ib, AtSelect) Drain (ib', Closing) ts"
| finish: "worker_step (ib, Closing) Finish (shut_down ib, Gone) []"

inductive_cases worker_stepE: "worker_step st ev st' us"

section \<open>Buffers\<close>

definition content :: "buffers \<Rightarrow> string \<Rightarrow> string \<Rightarrow> bytes" where
  "content bs db rp =
     (case get_cb bs db rp of None \<Rightarrow> [] | Some cb \<Rightarrow> (case cb_Buffer cb of None \<Rightarrow> [] | Some b \<Rightarrow> b))"

definition task_bytes :: "task list \<Rightarrow> string \<Rightarrow> string \<Rightarrow> bytes" where
  "task_bytes ts db rp = concat (map (\<lambda>(d, r, p). if d = db \<and> r = rp then p else []) ts)"

lemma task_bytes_simps [simp]:
  "task_bytes [] db rp = []"
  "task_bytes ((d, r, p) # ts) db rp = (if d = db \<and> r = rp then p else []) @ task_bytes ts db rp"
  "task_bytes (ts @ us) db rp = task_bytes ts db rp @ task_bytes us db rp"
  by (simp_all add: task_bytes_def)

text \<open>A counter counts the lines in its buffer, and stays below the flush size.\<close>

definition cb_ok :: "int \<Rightarrow> CacheBuffer \<Rightarrow> bool" where
  "cb_ok fsize cb \<longleftrightarrow>
     (case cb_Buffer cb of
        None \<Rightarrow> cb_Counter cb = 0
      | Some b \<Rightarrow> 0 < cb_Counter cb \<and> cb_Counter cb < fsize \<and> b \<noteq> [])"

definition buffers_ok :: "int \<Rightarrow> buffers \<Rightarrow> bool" where
  "buffers_ok fsize bs \<longleftrightarrow> map_ok bs \<and> (\<forall>db rp cb. get_cb bs db rp = Some cb \<longrightarrow> cb_ok fsize cb)"

definition idle_cb :: CacheBuffer where
  "idle_cb = \<lparr>cb_Buffer = None, cb_Counter = 0\<rparr>"

lemma cb_ok_idle [simp]: "cb_ok fsize idle_cb"
  by (simp add: cb_ok_def idle_cb_def)

lemma get_set_cb [simp]:
  "get_cb (set_cb bs db rp cb) db' rp' = (if db' = db \<and> rp' = rp then Some cb else get_cb bs db' rp')"
  by (auto simp: get_cb_def set_cb_def Let_def map_get_set split: option.split)

lemma map_ok_set_cb [simp]: "map_ok bs \<Longrightarrow> map_ok (set_cb bs db rp cb)"
  by (simp add: set_cb_def Let_def)

lemma buffers_ok_set_cb: "buffers_ok fsize bs \<Longrightarrow> cb_ok fsize cb \<Longrightarrow> buffers_ok fsize (set_cb bs db rp cb)"
  by (auto simp: buffers_ok_def)

lemma content_set_cb [simp]:
  "content (set_cb bs db rp cb) db' rp' =
     (if db' = db \<and> rp' = rp then (case cb_Buffer cb of None \<Rightarrow> [] | Some b \<Rightarrow> b) else content bs db' rp')"
  by (simp add: content_def)

lemma buffer_keys_get: "map_ok bs \<Longrightarrow> (db, rp) \<in> set (buffer_keys bs) \<longleftrightarrow> get_cb bs db rp \<noteq> None"
proof -
  assume ok: "map_ok bs"
  have "(db, rp) \<in> set (buffer_keys bs) \<longleftrightarrow> (\<exists>m. (db, m) \<in> set bs \<and> rp \<in> fst ` set m)"
    by (force simp: buffer_keys_def)
  also have "\<dots> \<longleftrightarrow> (\<exists>m. map_get bs db = Some m \<and> map_get m rp \<noteq> None)"
    using ok by (auto simp: map_ok_def map_of_eq_None_iff)
  also have "\<dots> \<longleftrightarrow> get_cb bs db rp \<noteq> None"
    by (auto simp: get_cb_def split: option.splits)
  finally show ?thesis .
qed

lemma FlushBuffer_full:
  assumes "get_cb (ib_buffers ib) db rp = Some cb" "cb_Buffer cb = Some b" "b \<noteq> []"
  shows "FlushBuffer ib db rp =
    Some (ib\<lparr>ib_buffers := set_cb (ib_buffers ib) db rp idle_cb\<rparr>, [(db, rp, b)])"
  using assms by (simp add: FlushBuffer_def idle_cb_def)

text \<open>Flushing hands every buffer to the pool and forgets none of its bytes.\<close>

lemma flush_all_spec:
  assumes "buffers_ok fsize (ib_buffers ib)" "\<forall>(db, rp) \<in> set ks. get_cb (ib_buffers ib) db rp \<noteq> None"
  shows "\<exists>bs ts. flush_all ks ib = Some (ib\<lparr>ib_buffers := bs\<rparr>, ts) \<and> buffers_ok fsize bs \<and>
    (\<forall>db rp. task_bytes ts db rp @ content bs db rp = content (ib_buffers ib) db rp) \<and>
    (\<forall>(db, rp) \<in> set ks. get_cb bs db rp = Some idle_cb) \<and>
    (\<forall>db rp. get_cb bs db rp \<in> {get_cb (ib_buffers ib) db rp, Some idle_cb}) \<and>
    (\<forall>(db, rp, p) \<in> set ts. p \<noteq> [])"
  using assms
proof (induction ks arbitrary: ib)
  case Nil
  then show ?case by (intro exI [of _ "ib_buffers ib"] exI [of _ "[]"]) auto
next
  case (Cons k ks)
  obtain db rp where k: "k = (db, rp)" by (cases k)
  with Cons.prems obtain cb where cb: "get_cb (ib_buffers ib) db rp = Some cb" "cb_ok fsize cb"
    by (auto simp: buffers_ok_def)
  show ?case
  proof (cases "0 < cb_Counter cb")
    case False
    with cb(2) have idle: "cb = idle_cb" by (auto simp: cb_ok_def idle_cb_def split: option.splits)
    from Cons.prems have "\<forall>(db, rp) \<in> set ks. get_cb (ib_buffers ib) db rp \<noteq> None" by auto
    from Cons.IH [OF Cons.prems(1) this] obtain bs ts where
      IH: "flush_all ks ib = Some (ib\<lparr>ib_buffers := bs\<rparr>, ts)" "buffers_ok fsize bs"
        "\<forall>db rp. task_bytes ts db rp @ content bs db rp = content (ib_buffers ib) db rp"
        "\<forall>(db, rp) \<in> set ks. get_cb bs db rp = Some idle_cb"
        "\<forall>db rp. get_cb bs db rp \<in> {get_cb (ib_buffers ib) db rp, Some idle_cb}"
        "\<forall>(db, rp, p) \<in> set ts. p \<noteq> []" by blast
    from IH(5) cb(1) idle have "get_cb bs db rp = Some idle_cb" by (metis insertE singletonD)
    with IH k cb False show ?thesis by (intro exI [of _ bs] exI [of _ ts]) simp
  next
    case True
    with cb(2) obtain b where b: "cb_Buffer cb = Some b" "b \<noteq> []"
      by (auto simp: cb_ok_def split: option.splits)
    let ?ib = "ib\<lparr>ib_buffers := set_cb (ib_buffers ib) db rp idle_cb\<rparr>"
    have "buffers_ok fsize (ib_buffers ?ib)" using Cons.prems(1) by (simp add: buffers_ok_set_cb)
    moreover have "\<forall>(db, rp) \<in> set ks. get_cb (ib_buffers ?ib) db rp \<noteq> None" using Cons.prems(2) by auto
    ultimately obtain bs ts where
      IH: "flush_all ks ?ib = Some (ib\<lparr>ib_buffers := bs\<rparr>, ts)" "buffers_ok fsize bs"
        "\<forall>db rp. task_bytes ts db rp @ content bs db rp = content (ib_buffers ?ib) db rp"
        "\<forall>(db, rp) \<in> set ks. get_cb bs db rp = Some idle_cb"
        "\<forall>db rp. get_cb bs db rp \<in> {get_cb (ib_buffers ?ib) db rp, Some idle_cb}"
        "\<forall>(db, rp, p) \<in> set ts. p \<noteq> []"
      using Cons.IH [of ?ib] by auto
    have "flush_all (k # ks) ib = Some (ib\<lparr>ib_buffers := bs\<rparr>, (db, rp, b) # ts)"
      using k cb(1) True FlushBuffer_full [OF cb(1) b] IH(1) by simp
    moreover have "task_bytes ((db, rp, b) # ts) d r @ content bs d r = content (ib_buffers ib) d r" for d r
      using IH(3) [rule_format, of d r] cb(1) b(1) by (auto simp: content_def [of "ib_buffers ib"] idle_cb_def)
    moreover have "get_cb bs db rp = Some idle_cb"
      using IH(5) [rule_format, of db rp] by auto
    moreover have "get_cb bs d r \<in> {get_cb (ib_buffers ib) d r, Some idle_cb}" for d r
      using IH(5) [rule_format, of d r] by (auto split: if_splits)
    ultimately show ?thesis
      using IH(2,4,6) k b(2) by (intro exI [of _ bs] exI [of _ "(db, rp, b) # ts"]) auto
  qed
qed

lemma content_idle:
  assumes "\<forall>db rp cb. get_cb bs db rp = Some cb \<longrightarrow> cb = idle_cb"
  shows "content bs db rp = []"
proof (cases "get_cb bs db rp")
  case (Some cb)
  with assms have "cb = idle_cb" by blast
  with Some show ?thesis by (simp add: content_def idle_cb_def)
qed (simp add: content_def)

lemma Flush_spec:
  assumes "buffers_ok fsize (ib_buffers ib)"
  shows "\<exists>bs ts. Flush ib = Some (ib\<lparr>ib_chTimer := False, ib_buffers := bs\<rparr>, ts) \<and> buffers_ok fsize bs \<and>
    (\<forall>db rp. task_bytes ts db rp = content (ib_buffers ib) db rp) \<and>
    (\<forall>db rp cb. get_cb bs db rp = Some cb \<longrightarrow> cb = idle_cb)"
proof -
  let ?ib = "ib\<lparr>ib_chTimer := False\<rparr>"
  from assms have "map_ok (ib_buffers ib)" by (simp add: buffers_ok_def)
  note keys = buffer_keys_get [OF this]
  have "\<forall>(db, rp) \<in> set (buffer_keys (ib_buffers ib)). get_cb (ib_buffers ?ib) db rp \<noteq> None"
    using keys by auto
  with flush_all_spec [of fsize ?ib "buffer_keys (ib_buffers ib)"] assms obtain bs ts where
    f: "flush_all (buffer_keys (ib_buffers ib)) ?ib = Some (?ib\<lparr>ib_buffers := bs\<rparr>, ts)" "buffers_ok fsize bs"
      "\<forall>db rp. task_bytes ts db rp @ content bs db rp = content (ib_buffers ib) db rp"
      "\<forall>(db, rp) \<in> set (buffer_keys (ib_buffers ib)). get_cb bs db rp = Some idle_cb"
      "\<forall>db rp. get_cb bs db rp \<in> {get_cb (ib_buffers ib) db rp, Some idle_cb}" by auto
  have idle: "cb = idle_cb" if "get_cb bs db rp = Some cb" for db rp cb
  proof (cases "get_cb (ib_buffers ib) db rp")
    case None
    with f(5) [rule_format, of db rp] that show ?thesis by simp
  next
    case (Some c)
    then have "(db, rp) \<in> set (buffer_keys (ib_buffers ib))" using keys by simp
    with f(4) that show ?thesis by auto
  qed
  have "content bs db rp = []" for db rp
    using idle [of db rp] by (cases "get_cb bs db rp") (simp_all add: content_def idle_cb_def)
  with f idle show ?thesis by (intro exI [of _ bs] exI [of _ ts]) (simp add: Flush_def Let_def)
qed


text \<open>Writing a point appends its line, ended by a newline, to the bytes that are buffered
  or handed to the pool for its database and retention policy, and to no others.\<close>

lemma WriteBuffer_spec:
  assumes "buffers_ok (ib_flushSize ib) (ib_buffers ib)" "0 < ib_flushSize ib" "lp_line pt \<noteq> []"
  shows "\<exists>bs t ts. WriteBuffer ib pt = Some (ib\<lparr>ib_chTimer := t, ib_buffers := bs\<rparr>, ts) \<and>
    buffers_ok (ib_flushSize ib) bs \<and>
    (\<forall>db rp. task_bytes ts db rp @ content bs db rp = content (ib_buffers ib) db rp @
       (if db = lp_db pt \<and> rp = lp_rp pt then end_line (lp_line pt) else [])) \<and>
    (ib_chTimer ib \<longrightarrow> t) \<and>
    (t \<or> (\<forall>db rp cb. get_cb bs db rp = Some cb \<longrightarrow> cb = idle_cb \<or> get_cb (ib_buffers ib) db rp = Some cb))"
proof -
  let ?db = "lp_db pt" and ?rp = "lp_rp pt" and ?line = "end_line (lp_line pt)"
  let ?size = "ib_flushSize ib"
  define cb0 where "cb0 = (case get_cb (ib_buffers ib) ?db ?rp of
      None \<Rightarrow> \<lparr>cb_Buffer = Some [], cb_Counter = 0\<rparr> | Some cb \<Rightarrow> cb)"
  define cb where "cb = \<lparr>cb_Buffer = Some (content (ib_buffers ib) ?db ?rp @ ?line), cb_Counter = cb_Counter cb0 + 1\<rparr>"
  have line: "?line \<noteq> []" using assms(3) by (simp add: end_line_def)
  have cnt: "0 \<le> cb_Counter cb0"
  proof (cases "get_cb (ib_buffers ib) ?db ?rp")
    case (Some cb)
    with assms(1) have "cb_ok ?size cb" by (simp add: buffers_ok_def)
    with Some show ?thesis by (auto simp: cb0_def cb_ok_def split: option.splits)
  qed (simp add: cb0_def)
  have buf: "(case cb_Buffer cb0 of None \<Rightarrow> [] | Some b \<Rightarrow> b) = content (ib_buffers ib) ?db ?rp"
    by (simp add: cb0_def content_def split: option.split)
  let ?ib1 = "ib\<lparr>ib_buffers := set_cb (ib_buffers ib) ?db ?rp cb\<rparr>"
  have W: "WriteBuffer ib pt = (if ?size \<le> cb_Counter cb then FlushBuffer ?ib1 ?db ?rp
      else Some (?ib1\<lparr>ib_chTimer := True\<rparr>, []))"
    using assms(3) by (simp add: WriteBuffer_def Let_def cb_def cb0_def [symmetric] buf)
  show ?thesis
  proof (cases "?size \<le> cb_Counter cb")
    case True
    let ?bs = "set_cb (set_cb (ib_buffers ib) ?db ?rp cb) ?db ?rp idle_cb"
    let ?b = "content (ib_buffers ib) ?db ?rp @ ?line"
    have "FlushBuffer ?ib1 ?db ?rp = Some (?ib1\<lparr>ib_buffers := ?bs\<rparr>, [(?db, ?rp, ?b)])"
      using FlushBuffer_full [of ?ib1 ?db ?rp cb ?b] line by (simp add: cb_def)
    with W True have "WriteBuffer ib pt = Some (ib\<lparr>ib_chTimer := ib_chTimer ib, ib_buffers := ?bs\<rparr>, [(?db, ?rp, ?b)])"
      by simp
    moreover have "buffers_ok ?size ?bs"
      using assms(1) by (auto simp: buffers_ok_def)
    ultimately show ?thesis
      by (intro exI [of _ ?bs] exI [of _ "ib_chTimer ib"] exI [of _ "[(?db, ?rp, ?b)]"])
        (auto simp: idle_cb_def)
  next
    case False
    let ?bs = "set_cb (ib_buffers ib) ?db ?rp cb"
    have "cb_ok ?size cb" using False cnt line by (simp add: cb_ok_def cb_def)
    with assms(1) have "buffers_ok ?size ?bs" by (rule buffers_ok_set_cb)
    with W False show ?thesis
      by (intro exI [of _ ?bs] exI [of _ True] exI [of _ "[]"]) (auto simp: cb_def)
  qed
qed

section \<open>Runs of the worker\<close>

text \<open>The points sent so far, the tasks submitted so far, and the state they led to. Every
  line sent is non-empty, as the lines that the proxy stamps are.\<close>

inductive worker_run :: "Backend \<Rightarrow> LinePoint list \<Rightarrow> task list \<Rightarrow> Backend \<times> phase \<Rightarrow> bool" for ib0 where
  start: "worker_run ib0 [] [] (ib0, AtHead)"
| step: "worker_run ib0 sent ts st \<Longrightarrow> worker_step st ev st' us \<Longrightarrow>
     (\<And>pt. ev = Send pt \<Longrightarrow> lp_line pt \<noteq> []) \<Longrightarrow>
     worker_run ib0 (sent @ (case ev of Send pt \<Rightarrow> [pt] | _ \<Rightarrow> [])) (ts @ us) st'"

definition lines_for :: "LinePoint list \<Rightarrow> string \<Rightarrow> string \<Rightarrow> bytes" where
  "lines_for pts db rp =
     concat (map (\<lambda>pt. if db = lp_db pt \<and> rp = lp_rp pt then end_line (lp_line pt) else []) pts)"

lemma lines_for_simps [simp]:
  "lines_for [] db rp = []"
  "lines_for (pt # pts) db rp =
     (if db = lp_db pt \<and> rp = lp_rp pt then end_line (lp_line pt) else []) @ lines_for pts db rp"
  "lines_for (pts @ qts) db rp = lines_for pts db rp @ lines_for qts db rp"
  by (simp_all add: lines_for_def)

definition worker_inv :: "Backend \<Rightarrow> bool" where
  "worker_inv ib \<longleftrightarrow>
     0 < ib_flushSize ib \<and> ib_fb ib \<noteq> None \<and> buffers_ok (ib_flushSize ib) (ib_buffers ib) \<and>
     (\<forall>pt \<in> set (ib_chWrite ib). lp_line pt \<noteq> []) \<and>
     (ib_chTimer ib \<or> (\<forall>db rp cb. get_cb (ib_buffers ib) db rp = Some cb \<longrightarrow> cb = idle_cb))"

definition conserves :: "LinePoint list \<Rightarrow> task list \<Rightarrow> Backend \<Rightarrow> bool" where
  "conserves sent ts ib \<longleftrightarrow>
     (\<forall>db rp. task_bytes ts db rp @ content (ib_buffers ib) db rp @ lines_for (ib_chWrite ib) db rp =
              lines_for sent db rp)"

lemma Flush_step:
  assumes "Flush ib = Some (ib', us)" "worker_inv ib" "conserves sent ts ib"
  shows "worker_inv ib' \<and> conserves sent (ts @ us) ib' \<and> ib_flushSize ib' = ib_flushSize ib"
proof -
  from assms(2) Flush_spec [of "ib_flushSize ib" ib] assms(1) obtain bs where
    f: "ib' = ib\<lparr>ib_chTimer := False, ib_buffers := bs\<rparr>" "buffers_ok (ib_flushSize ib) bs"
      "\<forall>db rp. task_bytes us db rp = content (ib_buffers ib) db rp"
      "\<forall>db rp cb. get_cb bs db rp = Some cb \<longrightarrow> cb = idle_cb"
    by (auto simp: worker_inv_def)
  with assms(2,3) content_idle [OF f(4)] show ?thesis
    by (auto simp: worker_inv_def conserves_def)
qed

lemma shut_down_inv: "worker_inv ib \<Longrightarrow> worker_inv (shut_down ib)" "conserves sent ts ib \<Longrightarrow> conserves sent ts (shut_down ib)"
  by (auto simp: shut_down_def worker_inv_def conserves_def)

lemma receive_inv:
  assumes "worker_inv ib" "ib_chWrite ib = pt # pts"
  shows "\<exists>bs t ts. WriteBuffer (ib\<lparr>ib_chWrite := pts\<rparr>) pt = Some (ib\<lparr>ib_chWrite := pts, ib_chTimer := t, ib_buffers := bs\<rparr>, ts) \<and>
    worker_inv (ib\<lparr>ib_chWrite := pts, ib_chTimer := t, ib_buffers := bs\<rparr>) \<and>
    (\<forall>db rp. task_bytes ts db rp @ content bs db rp = content (ib_buffers ib) db rp @
       (if db = lp_db pt \<and> rp = lp_rp pt then end_line (lp_line pt) else []))"
proof -
  let ?ib = "ib\<lparr>ib_chWrite := pts\<rparr>"
  from assms have "buffers_ok (ib_flushSize ?ib) (ib_buffers ?ib)" "0 < ib_flushSize ?ib" "lp_line pt \<noteq> []"
    by (auto simp: worker_inv_def)
  from WriteBuffer_spec [OF this] obtain bs t ts where
    w: "WriteBuffer ?ib pt = Some (?ib\<lparr>ib_chTimer := t, ib_buffers := bs\<rparr>, ts)" "buffers_ok (ib_flushSize ib) bs"
      "\<forall>db rp. task_bytes ts db rp @ content bs db rp = content (ib_buffers ib) db rp @
         (if db = lp_db pt \<and> rp = lp_rp pt then end_line (lp_line pt) else [])"
      "ib_chTimer ib \<longrightarrow> t"
      "t \<or> (\<forall>db rp cb. get_cb bs db rp = Some cb \<longrightarrow> cb = idle_cb \<or> get_cb (ib_buffers ib) db rp = Some cb)"
    by auto
  have "t \<or> (\<forall>db rp cb. get_cb bs db rp = Some cb \<longrightarrow> cb = idle_cb)"
    using w(4,5) assms(1) unfolding worker_inv_def by blast
  with w(2) assms have "worker_inv (?ib\<lparr>ib_chTimer := t, ib_buffers := bs\<rparr>)" unfolding worker_inv_def by auto
  with w(1,3) show ?thesis by (intro exI [of _ bs] exI [of _ t] exI [of _ ts]) simp
qed

lemma worker_step_inv:
  assumes "worker_step st ev st' us" "worker_inv (fst st)" "conserves sent ts (fst st)"
    and "\<And>pt. ev = Send pt \<Longrightarrow> lp_line pt \<noteq> []"
  shows "worker_inv (fst st') \<and> conserves (sent @ (case ev of Send pt \<Rightarrow> [pt] | _ \<Rightarrow> [])) (ts @ us) (fst st')"
  using assms(1)
proof (cases rule: worker_step.cases)
  case (send ib pt ib' ph)
  with assms(2-4) show ?thesis
    by (auto simp: WritePoint_def worker_inv_def conserves_def split: if_splits)
next
  case (receive ib pt pts ib')
  note inv = assms(2) [unfolded receive fst_conv] and con = assms(3) [unfolded receive fst_conv]
  from receive_inv [OF inv] receive obtain bs t where w: "ib' = ib\<lparr>ib_chWrite := pts, ib_chTimer := t, ib_buffers := bs\<rparr>"
    "worker_inv ib'" "\<And>db rp. task_bytes us db rp @ content bs db rp = content (ib_buffers ib) db rp @
       (if db = lp_db pt \<and> rp = lp_rp pt then end_line (lp_line pt) else [])" by fastforce
  have "conserves sent (ts @ us) ib'"
    using con receive w(1) w(3) unfolding conserves_def
    by (simp add: append_assoc [symmetric] del: append_assoc) (metis append_assoc)
  with w(2) show ?thesis using receive by simp
next
  case (timer ib ib')
  with Flush_step [of ib ib' us sent ts] assms(2,3) shut_down_inv show ?thesis by auto
next
  case (ticker ib ib')
  with assms(2,3) show ?thesis
    by (auto simp: RewriteIdle_def worker_inv_def conserves_def split: if_splits option.splits)
next
  case (close ib ph)
  with assms(2,3) show ?thesis by (auto simp: ib_Close_def worker_inv_def conserves_def)
next
  case (look ib)
  with assms(2,3) show ?thesis by simp
next
  case (drain ib ib')
  with Flush_step [of ib ib' us sent ts] assms(2,3) show ?thesis by auto
next
  case (finish ib)
  with assms(2,3) shut_down_inv show ?thesis by auto
qed

lemma worker_run_inv:
  assumes "worker_run ib0 sent ts st" "worker_inv ib0" "conserves [] [] ib0"
  shows "worker_inv (fst st) \<and> conserves sent ts (fst st)"
  using assms(1)
proof (induction rule: worker_run.induct)
  case start
  with assms(2,3) show ?case by simp
next
  case (step sent ts st ev st' us)
  with worker_step_inv [OF step.hyps(2)] show ?case by blast
qed

lemma NewBackend_inv:
  assumes "NewBackend cfg pxcfg opened = Some ib" "0 < pc_FlushSize pxcfg"
  shows "worker_inv ib" "conserves [] [] ib"
proof -
  from assms(1) have ib: "ib_flushSize ib = pc_FlushSize pxcfg" "ib_fb ib = Some (fst opened)" "ib_buffers ib = []"
    "ib_chWrite ib = []"
    by (simp_all add: NewBackend_Some)
  then show "worker_inv ib" using assms(2) by (simp add: worker_inv_def buffers_ok_def get_cb_def)
  from ib show "conserves [] [] ib" by (simp add: conserves_def content_def get_cb_def)
qed

text \<open>Between the client and the pool no line is lost, doubled or reordered. In every
  state the worker of a new backend can reach, for each database and retention policy, the
  bytes of the tasks submitted so far, then those in the buffer, then those of the points in
  the channel are exactly the lines sent, in order, each ended by a newline. Whenever a
  buffer holds lines the flush timer is armed, and neither receiving a point nor flushing
  panics.\<close>

theorem worker_conserves_lines:
  assumes "NewBackend cfg pxcfg opened = Some ib0" "0 < pc_FlushSize pxcfg"
    and "worker_run ib0 sent ts (ib, ph)"
  shows "task_bytes ts db rp @ content (ib_buffers ib) db rp @ lines_for (ib_chWrite ib) db rp = lines_for sent db rp \<and>
         (content (ib_buffers ib) db rp \<noteq> [] \<longrightarrow> ib_chTimer ib) \<and>
         Flush ib \<noteq> None \<and>
         (case ib_chWrite ib of [] \<Rightarrow> True | pt # pts \<Rightarrow> WriteBuffer (ib\<lparr>ib_chWrite := pts\<rparr>) pt \<noteq> None)"
proof -
  from worker_run_inv [OF assms(3) NewBackend_inv [OF assms(1,2)]]
  have inv: "worker_inv ib" "conserves sent ts ib" by simp_all
  then have "content (ib_buffers ib) db rp \<noteq> [] \<longrightarrow> ib_chTimer ib"
    using content_idle [of "ib_buffers ib" db rp] by (auto simp: worker_inv_def)
  moreover have "Flush ib \<noteq> None"
    using Flush_spec [of "ib_flushSize ib" ib] inv(1) by (auto simp: worker_inv_def)
  moreover have "WriteBuffer (ib\<lparr>ib_chWrite := pts\<rparr>) pt \<noteq> None" if "ib_chWrite ib = pt # pts" for pt pts
    using WriteBuffer_spec [of "ib\<lparr>ib_chWrite := pts\<rparr>" pt] inv(1) that by (auto simp: worker_inv_def)
  ultimately show ?thesis
    using inv(2) by (auto simp: conserves_def split: list.split)
qed

definition sample_pxcfg :: ProxyConfig where
  "sample_pxcfg = setDefault sample_config"

lemma sample_interval [simp]: "pc_RewriteInterval sample_pxcfg = 10"
  by (simp add: sample_pxcfg_def setDefault_def default_int_def sample_config_def)

definition sample_ib :: Backend where
  "sample_ib = the (NewBackend (hd (cc_Backends (hd (pc_Circles sample_config)))) sample_pxcfg (empty_backlog, None))"

lemma sample_ib: "NewBackend (hd (cc_Backends (hd (pc_Circles sample_config)))) sample_pxcfg (empty_backlog, None) = Some sample_ib"
  by (simp add: sample_ib_def NewBackend_def)

lemma sample_pxcfg_pos: "0 < pc_FlushSize sample_pxcfg"
  by (simp add: sample_pxcfg_def setDefault_def default_int_def sample_config_def)

theorem worker_conserves_lines_witness:
  "\<exists>ib. worker_run sample_ib [\<lparr>lp_db = ''db'', lp_rp = '''', lp_line = ''cpu v=1 1''\<rparr>] [] (ib, AtHead) \<and>
     lines_for (ib_chWrite ib) ''db'' '''' = ''cpu v=1 1'' @ [CHR 0x0A] \<and> Flush ib \<noteq> None"
proof -
  let ?pt = "\<lparr>lp_db = ''db'', lp_rp = '''', lp_line = ''cpu v=1 1''\<rparr>"
  let ?ib = "sample_ib\<lparr>ib_chWrite := [?pt]\<rparr>"
  have "WritePoint sample_ib ?pt = (?ib, None)" "ib_chWrite sample_ib = []"
    by (simp_all add: WritePoint_def sample_ib_def NewBackend_def)
  then have "worker_step (sample_ib, AtHead) (Send ?pt) (?ib, AtHead) []" by (intro worker_step.send) auto
  from worker_run.step [OF worker_run.start this] have run: "worker_run sample_ib [?pt] [] (?ib, AtHead)" by simp
  with worker_conserves_lines [OF sample_ib sample_pxcfg_pos run, of "''db''" "''''"]
  show ?thesis by (intro exI [of _ ?ib]) (simp add: end_line_def)
qed

text \<open>Closing a backend can lose what it has buffered. The worker of a new backend that
  has put one line into its buffer, below the flush size, and is back at the head of its loop
  when the backend is closed ends there: the line was accepted, is still in the buffer, no
  task was submitted, and nothing will ever flush it. The case of the closed channel, which flushes, is only reached by a worker that waits in the \<^verbatim>\<open>select\<close>.\<close>

theorem Close_loses_buffered_lines:
  assumes "NewBackend cfg pxcfg opened = Some ib0" "1 < pc_FlushSize pxcfg" "lp_line pt \<noteq> []"
  shows "\<exists>ib. worker_run ib0 [pt] [] (ib, Gone) \<and>
    content (ib_buffers ib) (lp_db pt) (lp_rp pt) = end_line (lp_line pt) \<and>
    \<not> (\<exists>ev st us. worker_step (ib, Gone) ev st us \<and> us \<noteq> [])"
proof -
  from assms(1) have ib0: "ib_flushSize ib0 = pc_FlushSize pxcfg" "ib_buffers ib0 = []" "ib_chWrite ib0 = []"
    "ib_running ib0" "\<not> ib_chClosed ib0"
    by (simp_all add: NewBackend_Some)
  let ?cb = "\<lparr>cb_Buffer = Some (end_line (lp_line pt)), cb_Counter = 1\<rparr>"
  let ?ib1 = "ib0\<lparr>ib_chWrite := [pt]\<rparr>"
  let ?ib2 = "ib0\<lparr>ib_buffers := set_cb [] (lp_db pt) (lp_rp pt) ?cb, ib_chTimer := True\<rparr>"
  have wb: "WriteBuffer (?ib1\<lparr>ib_chWrite := []\<rparr>) pt = Some (?ib2, [])"
    using assms(2,3) ib0 by (simp add: WriteBuffer_def get_cb_def Let_def)
  have "worker_step (ib0, AtHead) (Send pt) (?ib1, AtHead) []"
    by (rule worker_step.send) (use ib0 in \<open>simp_all add: WritePoint_def\<close>)
  from worker_run.step [OF worker_run.start this] assms(3) have r1: "worker_run ib0 [pt] [] (?ib1, AtHead)" by simp
  have "worker_step (?ib1, AtHead) Look (?ib1, AtSelect) []" using worker_step.look [of ?ib1] ib0 by simp
  from worker_run.step [OF r1 this] have r2: "worker_run ib0 [pt] [] (?ib1, AtSelect)" by simp
  have "worker_step (?ib1, AtSelect) Receive (?ib2, AtHead) []"
    by (rule worker_step.receive [OF _ wb]) simp
  from worker_run.step [OF r2 this] have r3: "worker_run ib0 [pt] [] (?ib2, AtHead)" by simp
  have "worker_step (?ib2, AtHead) CloseCall (ib_Close ?ib2, AtHead) []" by (rule worker_step.close) (use ib0 in simp)
  from worker_run.step [OF r3 this] have r4: "worker_run ib0 [pt] [] (ib_Close ?ib2, AtHead)" by simp
  have "worker_step (ib_Close ?ib2, AtHead) Look (ib_Close ?ib2, Gone) []"
    using worker_step.look [of "ib_Close ?ib2"] by (simp add: ib_Close_def)
  from worker_run.step [OF r4 this] have "worker_run ib0 [pt] [] (ib_Close ?ib2, Gone)" by simp
  moreover have "content (ib_buffers (ib_Close ?ib2)) (lp_db pt) (lp_rp pt) = end_line (lp_line pt)"
    by (simp add: ib_Close_def content_def)
  moreover have "us = []" if "worker_step (ib_Close ?ib2, Gone) ev st us" for ev st us
    using that by (cases rule: worker_step.cases) auto
  ultimately show ?thesis by blast
qed

theorem Close_loses_buffered_lines_witness:
  "\<exists>ib. worker_run sample_ib [\<lparr>lp_db = ''db'', lp_rp = '''', lp_line = ''cpu v=1 1''\<rparr>] [] (ib, Gone)"
proof -
  have "1 < pc_FlushSize sample_pxcfg"
    by (simp add: sample_pxcfg_def setDefault_def default_int_def sample_config_def)
  from Close_loses_buffered_lines [OF sample_ib this, of "\<lparr>lp_db = ''db'', lp_rp = '''', lp_line = ''cpu v=1 1''\<rparr>"]
  show ?thesis by auto
qed

text \<open>The check of \<^verbatim>\<open>WritePoint\<close> does not protect its send. While the flag is up and the
  channel open, the two parts together are \<^verbatim>\<open>WritePoint\<close>; but when \<^verbatim>\<open>Close\<close> runs after the check
  succeeded, the send panics.\<close>

theorem close_between_check_and_send:
  assumes "ib_running ib" "\<not> ib_chClosed ib"
  shows "send_chWrite ib pt = Some (fst (WritePoint ib pt)) \<and> snd (WritePoint ib pt) = None \<and>
         send_chWrite (ib_Close ib) pt = None \<and> snd (WritePoint (ib_Close ib) pt) = Some ErrClosedPipe"
  using assms by (simp add: send_chWrite_def WritePoint_def ib_Close_def)

section \<open>From a buffer to the server or the backlog\<close>

text \<open>C24: what becomes of a buffer, for every answer of its server. When compression and
  disk work, a task is written if and only if the backend is active and the server answers 204;
  it is dropped if and only if the backend is active and the server refuses it for good (another
  status with 400, 404 or a text that says the retention policy is missing); in both cases the
  backlog is left alone. In every other case, and in no other, its record is appended to the
  backlog, behind all others, which stay as they are.\<close>

theorem run_task_outcome:
  assumes "run_task env good_Write ib (db, rp, p) = Some (ib', oc)"
    and "Compress env p = (z, None)" and "foreign_errors env"
    and "ib_fb ib = Some fb" and "fb_inv fb" and "fb_fits fb (backlog_record db rp z)"
  defines "answer \<equiv> he_do env (write_request env (ib_hb ib) db rp z True)"
  shows "(oc = Written \<longleftrightarrow> IsActive (ib_hb ib) \<and> (\<exists>resp. answer = Inr resp \<and> rs_StatusCode resp = 204)) \<and>
         (oc = Dropped \<longleftrightarrow> IsActive (ib_hb ib) \<and>
            (\<exists>resp body. answer = Inr resp \<and> rs_StatusCode resp \<noteq> 204 \<and> rs_Body resp = Inr body \<and>
               (rs_StatusCode resp \<in> {400, 404} \<or> sublist ''retention policy not found'' body))) \<and>
         (oc \<in> {Written, Dropped} \<longrightarrow> ib_fb ib' = Some fb) \<and>
         (oc \<notin> {Written, Dropped} \<longrightarrow> oc = Backlogged \<and> (\<exists>fb'. ib_fb ib' = Some fb' \<and> fb_inv fb' \<and>
            pending fb' = pending fb @ [backlog_record db rp z] \<and> ahead fb' = ahead fb @ [backlog_record db rp z]))"
proof -
  obtain fb' where w: "fb_Write good_Write fb (backlog_record db rp z) = (fb', None)" "fb_inv fb'"
    "pending fb' = pending fb @ [backlog_record db rp z]" "ahead fb' = ahead fb @ [backlog_record db rp z]"
    using fb_Write_inv [OF assms(5,6)] by blast
  have bl: "to_backlog good_Write ib1 db rp z = Some (ib1\<lparr>ib_fb := Some fb'\<rparr>, Backlogged)" if "ib_fb ib1 = Some fb" for ib1
    using that by (simp add: to_backlog_def w(1))
  show ?thesis
  proof (cases "IsActive (ib_hb ib)")
    case False
    with assms(1,2,4) bl [of ib] w(2-4) show ?thesis by (auto simp: run_task_def)
  next
    case True
    with assms(1,2) obtain hb err where
      wc: "WriteStream env (ib_hb ib) db rp z True = Some (hb, err)"
      by (cases "WriteStream env (ib_hb ib) db rp z True") (auto simp: run_task_def WriteCompressed_def)
    let ?ib1 = "ib\<lparr>ib_hb := hb\<rparr>"
    have "run_task env good_Write ib (db, rp, p) = (if err = None then Some (?ib1, Written)
        else if err = Some ErrBadRequest \<or> err = Some ErrNotFound then Some (?ib1, Dropped)
        else to_backlog good_Write ?ib1 db rp z)"
      using assms(2) True wc by (simp add: run_task_def WriteCompressed_def Let_def)
    with assms(1,4) bl [of ?ib1] have run: "(ib', oc) = (if err = None then (?ib1, Written)
        else if err \<in> {Some ErrBadRequest, Some ErrNotFound} then (?ib1, Dropped)
        else (?ib1\<lparr>ib_fb := Some fb'\<rparr>, Backlogged))" by (auto split: if_splits)
    have oc: "oc = Written \<longleftrightarrow> err = None" "oc = Dropped \<longleftrightarrow> err \<in> {Some ErrBadRequest, Some ErrNotFound}"
      using run by (auto split: if_splits)
    have "ib_fb ib' = Some fb \<and> oc \<in> {Written, Dropped} \<or> ib_fb ib' = Some fb' \<and> oc = Backlogged"
      using run assms(4) by (auto split: if_splits)
    with WriteStream_reports [OF wc assms(3)] True w(2-4) show ?thesis
      unfolding oc assms(7) refused_for_good_def by auto
  qed
qed

lemma backlog_record_split:
  "SplitN (backlog_record db rp p) (CHR '' '') 3 = [QueryEscape db, QueryEscape rp, p]"
proof -
  have r: "backlog_record db rp p = QueryEscape db @ CHR '' '' # (QueryEscape rp @ CHR '' '' # p)"
    by (simp add: backlog_record_def)
  have "IndexByte (QueryEscape db @ CHR '' '' # s) (CHR '' '') = Some (length (QueryEscape db))" for db s
    by (rule IndexByte_first) (rule QueryEscape_no_space)
  then show ?thesis
    unfolding r by (simp add: eval_nat_numeral)
qed

section \<open>Rewriting\<close>

definition settled :: "error option \<Rightarrow> bool" where
  "settled err \<longleftrightarrow> err \<in> {None, Some ErrBadRequest, Some ErrNotFound}"

lemma resend_record:
  "resend env io ib (backlog_record db rp z) =
     do { (hb, err) \<leftarrow> WriteCompressed env (ib_hb ib) db rp z;
          (ib', err') \<leftarrow> settle io (ib\<lparr>ib_hb := hb\<rparr>) err;
          Some (ib', err', Some (verdict err)) }"
  by (simp add: resend_def backlog_record_split QueryUnescape_QueryEscape)

lemma Rewrite_record:
  assumes "ib_fb ib = Some fb" "fb_inv fb" "ahead fb = backlog_record db rp z # rs"
    and "WriteCompressed env (ib_hb ib) db rp z = Some (hb, err)"
  shows "\<exists>fb1. fb_Read (None, None) fb = (fb1, Inr (Some (backlog_record db rp z))) \<and> fb_inv fb1 \<and>
           ahead fb1 = rs \<and> pending fb1 = pending fb \<and> (marked fb1 \<longleftrightarrow> marked fb) \<and>
           Rewrite env good_Rewrite ib = settle good_Rewrite (ib\<lparr>ib_hb := hb, ib_fb := Some fb1\<rparr>) err"
proof -
  from fb_Read_inv [OF assms(2,3)] obtain fb1 where
    r: "fb_Read (None, None) fb = (fb1, Inr (Some (backlog_record db rp z)))" "fb_inv fb1" "ahead fb1 = rs"
      "pending fb1 = pending fb" "marked fb1 \<longleftrightarrow> marked fb" by blast
  then have "Rewrite env good_Rewrite ib = settle good_Rewrite (ib\<lparr>ib_fb := Some fb1, ib_hb := hb\<rparr>) err"
    using assms(1,4)
    by (cases "settle good_Rewrite (ib\<lparr>ib_fb := Some fb1, ib_hb := hb\<rparr>) err")
      (auto simp: Rewrite_def good_Rewrite_def resend_record)
  moreover have "ib\<lparr>ib_fb := Some fb1, ib_hb := hb\<rparr> = ib\<lparr>ib_hb := hb, ib_fb := Some fb1\<rparr>" by simp
  ultimately show ?thesis using r by auto
qed

lemma Rewrite_step:
  assumes "ib_fb ib = Some fb" "fb_inv fb" "ahead fb = backlog_record db rp z # rs"
    and "WriteCompressed env (ib_hb ib) db rp z = Some (hb, err)"
  shows "\<exists>fb' err'. Rewrite env good_Rewrite ib = Some (ib\<lparr>ib_hb := hb, ib_fb := Some fb'\<rparr>, err') \<and> fb_inv fb' \<and>
           (if settled err then err' = None \<and> pending fb' = rs \<and> ahead fb' = rs \<and> marked fb'
            else pending fb' = pending fb \<and> (if marked fb then err' = None \<and> ahead fb' = pending fb
                                             else err' = Some ErrEOF \<and> ahead fb' = rs))"
proof -
  from Rewrite_record [OF assms] obtain fb1 where
    r: "fb_inv fb1" "ahead fb1 = rs" "pending fb1 = pending fb" "marked fb1 \<longleftrightarrow> marked fb"
      "Rewrite env good_Rewrite ib = settle good_Rewrite (ib\<lparr>ib_hb := hb, ib_fb := Some fb1\<rparr>) err" by blast
  show ?thesis
  proof (cases "settled err")
    case True
    with UpdateMeta_inv [OF r(1)] r show ?thesis
      by (auto simp: settle_def settled_def good_Rewrite_def)
  next
    case False
    then have s: "settle good_Rewrite (ib\<lparr>ib_hb := hb, ib_fb := Some fb1\<rparr>) err =
        (let (fb', err') = RollbackMeta good_Rollback fb1 in Some (ib\<lparr>ib_hb := hb, ib_fb := Some fb'\<rparr>, err'))"
      by (auto simp: settle_def settled_def good_Rewrite_def)
    show ?thesis
    proof (cases "marked fb")
      case True
      with RollbackMeta_inv [OF r(1)] r False s show ?thesis by auto
    next
      case unmarked: False
      with r have "fb_meta fb1" "\<not> marked fb1" by (auto simp: fb_inv_def represents_def)
      with RollbackMeta_unmarked [of fb1] r False s unmarked show ?thesis by auto
    qed
  qed
qed

text \<open>C28: the backlog is written as the flush would have written it. When the next record is
  one that a flush stored for a database, a retention policy and compressed lines, then
  \<^verbatim>\<open>Rewrite\<close> sends exactly these to the server; if the server takes or rejects it the record
  leaves the backlog for good, and otherwise the backlog keeps all pending records and, once
  an offset is marked, the consumer returns to the first of them.\<close>

theorem Rewrite_resends:
  assumes "ib_fb ib = Some fb" "fb_inv fb" "ahead fb = backlog_record db rp z # rs"
    and "WriteCompressed env (ib_hb ib) db rp z = Some (hb, err)"
  shows "\<exists>fb' err'. Rewrite env good_Rewrite ib = Some (ib\<lparr>ib_hb := hb, ib_fb := Some fb'\<rparr>, err') \<and> fb_inv fb' \<and>
           (if settled err then err' = None \<and> pending fb' = rs \<and> ahead fb' = rs \<and> marked fb'
            else pending fb' = pending fb \<and> (if marked fb then err' = None \<and> ahead fb' = pending fb
                                             else err' = Some ErrEOF \<and> ahead fb' = rs))"
  using assms by (rule Rewrite_step)

definition answer :: "int \<Rightarrow> http_env" where
  "answer status = sample_env (\<lambda>_. Inr \<lparr>rs_StatusCode = status, rs_Header = [], rs_Body = Inr []\<rparr>)
     (\<lambda>_. (ResponseFromError [], None))"

definition one_record :: FileBackend where
  "one_record = fb_enq empty_backlog (backlog_record ''db'' ''rp'' ''cpu v=1 1'')"

lemma QueryEscape_samples: "QueryEscape ''db'' = ''db''" "QueryEscape ''rp'' = ''rp''"
  by (simp_all add: query_safe_def)

lemma sample_record_fits: "fb_fits empty_backlog (backlog_record ''db'' ''rp'' ''cpu v=1 1'')"
  using empty_backlog_represents
  by (simp add: fb_fits_def storable_def represents_def backlog_record_def QueryEscape_samples del: QueryEscape.simps)

lemma one_record: "fb_inv one_record" "pending one_record = [backlog_record ''db'' ''rp'' ''cpu v=1 1'']"
  "ahead one_record = [backlog_record ''db'' ''rp'' ''cpu v=1 1'']"
  using fbq.enq [OF empty_backlog_inv(1) sample_record_fits] empty_backlog_inv by (simp_all add: one_record_def)

lemma answer_204: "WriteCompressed (answer 204) sample_backend db rp p = Some (sample_backend, None)"
  by (simp add: WriteCompressed_def WriteStream_def answer_def sample_env_def sample_backend_def)

theorem Rewrite_resends_witness:
  "\<exists>fb'. Rewrite (answer 204) good_Rewrite (sample_ib\<lparr>ib_hb := sample_backend, ib_fb := Some one_record\<rparr>) =
     Some (sample_ib\<lparr>ib_hb := sample_backend, ib_fb := Some fb'\<rparr>, None) \<and> pending fb' = []"
  using Rewrite_resends [of "sample_ib\<lparr>ib_hb := sample_backend, ib_fb := Some one_record\<rparr>" one_record
      "''db''" "''rp''" "''cpu v=1 1''" "[]" "answer 204" sample_backend None]
    one_record answer_204 by (auto simp: settled_def)

theorem run_task_outcome_witness:
  "\<exists>ib fb. run_task (answer 500) good_Write (sample_ib\<lparr>ib_hb := sample_backend\<rparr>) (''db'', ''rp'', ''cpu v=1 1'') =
     Some (ib, Backlogged) \<and> ib_fb ib = Some fb \<and> pending fb = [backlog_record ''db'' ''rp'' ''cpu v=1 1'']"
proof -
  let ?ib = "sample_ib\<lparr>ib_hb := sample_backend\<rparr>"
  have fb: "ib_fb ?ib = Some empty_backlog" by (simp add: sample_ib_def NewBackend_def)
  have comp: "Compress (answer 500) p = (p, None)" for p by (simp add: Compress_def answer_def sample_env_def)
  have wc: "WriteCompressed (answer 500) sample_backend db rp p = Some (sample_backend, Some ErrInternal)" for db rp p
    by (simp add: WriteCompressed_def WriteStream_def answer_def sample_env_def sample_backend_def write_error_def)
  have act: "IsActive sample_backend" by (simp add: IsActive_def sample_backend_def)
  obtain fb' where "fb_Write good_Write empty_backlog (backlog_record ''db'' ''rp'' ''cpu v=1 1'') = (fb', None)"
    using fb_Write_inv [OF empty_backlog_inv(1) sample_record_fits] by blast
  with fb comp wc act have "run_task (answer 500) good_Write ?ib (''db'', ''rp'', ''cpu v=1 1'') =
      Some (?ib\<lparr>ib_fb := Some fb'\<rparr>, Backlogged)"
    by (simp add: run_task_def to_backlog_def Let_def)
  then obtain ib oc where run: "run_task (answer 500) good_Write ?ib (''db'', ''rp'', ''cpu v=1 1'') = Some (ib, oc)"
    and oc: "oc \<notin> {Written, Dropped}" by auto
  have "foreign_errors (answer 500)" by (simp add: foreign_errors_def answer_def sample_env_def)
  from run_task_outcome [OF run comp this fb empty_backlog_inv(1) sample_record_fits] oc empty_backlog_inv(2) run
  show ?thesis by auto
qed

lemma IsData_pending: "fb_inv fb \<Longrightarrow> IsData fb \<longleftrightarrow> pending fb \<noteq> []"
  by (elim fb_invE) (auto simp: IsData_def represents_def)

text \<open>A refused write is retried without a pause. When the server answers with an error
  that does not drop the data, \<^verbatim>\<open>Rewrite\<close> returns the result of \<^verbatim>\<open>RollbackMeta\<close> in place of the
  write error; once an offset is marked that is no error, so the loop goes on at once with
  the same record instead of waiting for the rewrite interval.\<close>

theorem refused_write_retried_at_once:
  assumes "ib_fb ib = Some fb" "fb_inv fb" "marked fb" "ahead fb = backlog_record db rp z # rs" "ahead fb = pending fb"
    and "ib_running ib" "rd_active rd" "rd_io rd = good_Rewrite"
    and "WriteCompressed (rd_env rd) ((ib_hb ib)\<lparr>hb_active := True\<rparr>) db rp z = Some (hb, err)" "\<not> settled err"
  shows "\<exists>ib' fb'. rewrite_round rd ib = Some (ib', Again) \<and> ib_fb ib' = Some fb' \<and> ahead fb' = ahead fb"
proof -
  let ?ib = "ib\<lparr>ib_hb := (ib_hb ib)\<lparr>hb_active := True\<rparr>\<rparr>"
  from Rewrite_step [of ?ib fb db rp z rs "rd_env rd" hb err] assms obtain fb' where
    r: "Rewrite (rd_env rd) good_Rewrite ?ib = Some (?ib\<lparr>ib_hb := hb, ib_fb := Some fb'\<rparr>, None)" "ahead fb' = pending fb"
    by auto
  have "IsData fb" using IsData_pending [OF assms(2)] assms(4,5) by simp
  with r assms show ?thesis by (simp add: rewrite_round_def Let_def IsActive_def)
qed

definition retried :: FileBackend where
  "retried = fb_enq (fb_commit empty_backlog) (backlog_record ''db'' ''rp'' ''cpu v=1 1'')"

lemma retried: "fb_inv retried" "marked retried" "pending retried = [backlog_record ''db'' ''rp'' ''cpu v=1 1'']"
  "ahead retried = [backlog_record ''db'' ''rp'' ''cpu v=1 1'']"
proof -
  have c: "fb_inv (fb_commit empty_backlog)" "marked (fb_commit empty_backlog)" "pending (fb_commit empty_backlog) = []"
    "ahead (fb_commit empty_backlog) = []"
    using fbq.commit [OF empty_backlog_inv(1)] empty_backlog_inv(3) by simp_all
  have "fb_dat (fb_commit empty_backlog) = []"
    using UpdateMeta_represents [OF empty_backlog_represents] by (auto simp: fb_commit_def represents_def)
  then have "fb_fits (fb_commit empty_backlog) (backlog_record ''db'' ''rp'' ''cpu v=1 1'')"
    using sample_record_fits by (simp add: fb_fits_def)
  from fbq.enq [OF c(1) this] c(2-4)
  show "fb_inv retried" "marked retried" "pending retried = [backlog_record ''db'' ''rp'' ''cpu v=1 1'']"
    "ahead retried = [backlog_record ''db'' ''rp'' ''cpu v=1 1'']"
    by (simp_all add: retried_def)
qed

lemma sample_ib_running: "ib_running sample_ib"
  by (simp add: sample_ib_def NewBackend_def)

theorem refused_write_retried_at_once_witness:
  "\<exists>ib fb. rewrite_round \<lparr>rd_env = answer 500, rd_io = good_Rewrite, rd_active = True\<rparr>
     (sample_ib\<lparr>ib_hb := sample_backend, ib_fb := Some retried\<rparr>) = Some (ib, Again) \<and>
     ib_fb ib = Some fb \<and> ahead fb = [backlog_record ''db'' ''rp'' ''cpu v=1 1'']"
proof -
  let ?rd = "\<lparr>rd_env = answer 500, rd_io = good_Rewrite, rd_active = True\<rparr>"
  let ?ib = "sample_ib\<lparr>ib_hb := sample_backend, ib_fb := Some retried\<rparr>"
  have "sample_backend\<lparr>hb_active := True\<rparr> = sample_backend" by (simp add: sample_backend_def)
  then have "WriteCompressed (rd_env ?rd) ((ib_hb ?ib)\<lparr>hb_active := True\<rparr>) ''db'' ''rp'' ''cpu v=1 1'' =
      Some (sample_backend, Some ErrInternal)"
    by (simp add: WriteCompressed_def WriteStream_def answer_def sample_env_def sample_backend_def write_error_def)
  from refused_write_retried_at_once [OF _ retried(1,2,4) _ _ _ _ this] retried sample_ib_running
  show ?thesis by (simp add: settled_def)
qed

text \<open>A server that takes every write.\<close>

definition accepting :: "http_env \<Rightarrow> bool" where
  "accepting env \<longleftrightarrow> (\<forall>req. he_parse env (rq_URL req) = None \<and>
     (\<exists>resp. he_do env req = Inr resp \<and> rs_StatusCode resp = 204))"

lemma WriteCompressed_accepting:
  assumes "accepting env" "hb_client hb \<noteq> None"
  shows "WriteCompressed env hb db rp z = Some (hb, None)"
proof -
  obtain resp where "he_do env (write_request env hb db rp z True) = Inr resp" "rs_StatusCode resp = 204"
    using assms(1) unfolding accepting_def by blast
  with assms show ?thesis by (auto simp: WriteCompressed_def WriteStream_def Let_def accepting_def)
qed

text \<open>The backlog drains. While the backend runs, is active and its server takes every
  write, one round more than there are records is enough for \<^verbatim>\<open>RewriteLoop\<close> to end, with an
  empty backlog and the rewriting flag taken back, so that queries reach the backend again.\<close>

theorem RewriteLoop_drains:
  assumes "ib_fb ib = Some fb" "fb_inv fb" "ahead fb = pending fb"
    and "pending fb = map (\<lambda>(db, rp, z). backlog_record db rp z) recs"
    and "ib_running ib" "hb_client (ib_hb ib) \<noteq> None"
    and "list_all (\<lambda>rd. accepting (rd_env rd) \<and> rd_io rd = good_Rewrite \<and> rd_active rd) rds"
    and "length recs < length rds"
  shows "\<exists>ib' fb'. RewriteLoop rds ib = Some (ib', True) \<and> ib_fb ib' = Some fb' \<and> pending fb' = [] \<and>
           \<not> IsData fb' \<and> \<not> IsRewriting (ib_hb ib')"
  using assms
proof (induction recs arbitrary: ib fb rds)
  case Nil
  then obtain rd rds' where rds: "rds = rd # rds'" by (cases rds) auto
  from Nil have "\<not> IsData fb" "pending fb = []" using IsData_pending [of fb] by simp_all
  with Nil rds show ?case by (simp add: rewrite_round_def IsRewriting_def SetRewriting_def)
next
  case (Cons r recs)
  obtain db rp z where r: "r = (db, rp, z)" by (cases r)
  from Cons.prems obtain rd rds' where rds: "rds = rd # rds'" by (cases rds) auto
  with Cons.prems(7) have rd: "accepting (rd_env rd)" "rd_io rd = good_Rewrite" "rd_active rd" by auto
  let ?hb = "(ib_hb ib)\<lparr>hb_active := True\<rparr>" and ?rs = "map (\<lambda>(db, rp, z). backlog_record db rp z) recs"
  have "WriteCompressed (rd_env rd) ?hb db rp z = Some (?hb, None)"
    using WriteCompressed_accepting [OF rd(1), of ?hb] Cons.prems(6) by simp
  with Rewrite_step [of "ib\<lparr>ib_hb := ?hb\<rparr>" fb db rp z ?rs "rd_env rd" ?hb None] Cons.prems r obtain fb' where
    w: "Rewrite (rd_env rd) good_Rewrite (ib\<lparr>ib_hb := ?hb\<rparr>) = Some (ib\<lparr>ib_hb := ?hb, ib_fb := Some fb'\<rparr>, None)"
      "fb_inv fb'" "pending fb' = ?rs" "ahead fb' = ?rs"
    by (auto simp: settled_def)
  have "IsData fb" using IsData_pending [OF Cons.prems(2)] Cons.prems(4) by simp
  with w(1) Cons.prems(1,5) rd have "rewrite_round rd ib = Some (ib\<lparr>ib_hb := ?hb, ib_fb := Some fb'\<rparr>, Again)"
    by (simp add: rewrite_round_def Let_def IsActive_def)
  moreover have "\<exists>ib'' fb''. RewriteLoop rds' (ib\<lparr>ib_hb := ?hb, ib_fb := Some fb'\<rparr>) = Some (ib'', True) \<and>
      ib_fb ib'' = Some fb'' \<and> pending fb'' = [] \<and> \<not> IsData fb'' \<and> \<not> IsRewriting (ib_hb ib'')"
    by (rule Cons.IH [of _ fb']) (use Cons.prems rds w in auto)
  ultimately show ?case using rds by simp
qed

theorem RewriteLoop_drains_witness:
  "\<exists>ib fb. RewriteLoop (replicate 2 \<lparr>rd_env = answer 204, rd_io = good_Rewrite, rd_active = True\<rparr>)
     (sample_ib\<lparr>ib_hb := sample_backend, ib_fb := Some one_record\<rparr>) = Some (ib, True) \<and>
     ib_fb ib = Some fb \<and> pending fb = []"
proof -
  let ?rd = "\<lparr>rd_env = answer 204, rd_io = good_Rewrite, rd_active = True\<rparr>"
  have "accepting (answer 204)" by (simp add: accepting_def answer_def sample_env_def)
  then have "list_all (\<lambda>rd. accepting (rd_env rd) \<and> rd_io rd = good_Rewrite \<and> rd_active rd) (replicate 2 ?rd)"
    by (simp add: list_all_iff)
  moreover have "hb_client sample_backend \<noteq> None" by (simp add: sample_backend_def)
  ultimately show ?thesis
    using RewriteLoop_drains [of "sample_ib\<lparr>ib_hb := sample_backend, ib_fb := Some one_record\<rparr>" one_record
        "[(''db'', ''rp'', ''cpu v=1 1'')]" "replicate 2 ?rd"] one_record sample_ib_running by auto
qed

end
