(* ===== verification/Circle.thy ===== *)
theory Circle
  imports Backend
begin

text \<open>
  A circle of backends, \<^verbatim>\<open>backend/circle.go\<close>, with the sharding key of \<^verbatim>\<open>backend/proxy.go\<close> and the
  health report of a backend, which needs the circle. The consistent hash of
  \<^verbatim>\<open>stathat.com/c/consistent\<close> is a parameter \<open>lookup\<close>: the member it picks for a key, given the
  members added so far (\<open>None\<close> when there are none). A backend pointer is the index of the
  backend in its circle, and a nil pointer is \<open>None\<close>.
\<close>

section \<open>Definitions\<close>

type_synonym router = "string list \<Rightarrow> string \<Rightarrow> string option"

record Circle =
  ic_CircleId :: nat
  ic_Name :: string
  ic_Backends :: "Backend list"
  ic_router :: "string list"
  ic_routerCache :: "(string, nat option) gomap"
  ic_mapToBackend :: "(string, nat) gomap"

text \<open>\<^verbatim>\<open>HashKeyMeasureOnly\<close> is a global variable, an argument here.\<close>

definition GetKey :: "bool \<Rightarrow> string \<Rightarrow> string \<Rightarrow> string" where
  "GetKey measureOnly db meas = (if measureOnly then meas else db @ '','' @ meas)"

definition router_key :: "Backend \<Rightarrow> nat \<Rightarrow> string \<Rightarrow> string" where
  "router_key be idx hashKey =
     (if hashKey = ''name'' then hb_Name (ib_hb be)
      else if hashKey = ''url'' then hb_Url (ib_hb be)
      else if hashKey = ''exi'' then ''|'' @ Itoa (int idx)
      else Itoa (int idx))"

definition addRouter :: "Circle \<Rightarrow> Backend \<Rightarrow> nat \<Rightarrow> string \<Rightarrow> Circle" where
  "addRouter ic be idx hashKey =
     (let str = router_key be idx hashKey in
      ic\<lparr>ic_router := ic_router ic @ [str], ic_mapToBackend := map_set str idx (ic_mapToBackend ic)\<rparr>)"

text \<open>The loop of \<^verbatim>\<open>NewCircle\<close>: each backend is made (its files are opened, a panic on failure)
  and added to the router.\<close>

fun add_backends ::
    "ProxyConfig \<Rightarrow> (BackendConfig \<Rightarrow> FileBackend \<times> error option) \<Rightarrow> nat \<Rightarrow> BackendConfig list \<Rightarrow> Circle \<Rightarrow> Circle option" where
  "add_backends pxcfg opened idx [] ic = Some ic"
| "add_backends pxcfg opened idx (cfg # cfgs) ic =
     (case NewBackend cfg pxcfg (opened cfg) of
        None \<Rightarrow> None
      | Some be \<Rightarrow>
          add_backends pxcfg opened (Suc idx) cfgs
            (addRouter (ic\<lparr>ic_Backends := ic_Backends ic @ [be]\<rparr>) be idx (pc_HashKey pxcfg)))"

definition NewCircle ::
    "(BackendConfig \<Rightarrow> FileBackend \<times> error option) \<Rightarrow> CircleConfig \<Rightarrow> ProxyConfig \<Rightarrow> nat \<Rightarrow> Circle option" where
  "NewCircle opened cfg pxcfg circleId =
     add_backends pxcfg opened 0 (cc_Backends cfg)
       \<lparr>ic_CircleId = circleId, ic_Name = cc_Name cfg, ic_Backends = [], ic_router = [],
        ic_routerCache = [], ic_mapToBackend = []\<rparr>"

definition GetBackend :: "router \<Rightarrow> Circle \<Rightarrow> string \<Rightarrow> Circle \<times> nat option" where
  "GetBackend lookup ic key =
     (case map_get (ic_routerCache ic) key of
        Some be \<Rightarrow> (ic, be)
      | None \<Rightarrow>
          let val = (case lookup (ic_router ic) key of None \<Rightarrow> '''' | Some v \<Rightarrow> v);
              be = map_get (ic_mapToBackend ic) val
          in (ic\<lparr>ic_routerCache := map_set key be (ic_routerCache ic)\<rparr>, be))"

definition ic_IsActive :: "Circle \<Rightarrow> bool" where
  "ic_IsActive ic \<longleftrightarrow> list_all (\<lambda>be. IsActive (ib_hb be)) (ic_Backends ic)"

definition ic_IsWriteOnly :: "Circle \<Rightarrow> bool" where
  "ic_IsWriteOnly ic \<longleftrightarrow> list_ex (\<lambda>be. IsWriteOnly (ib_hb be)) (ic_Backends ic)"

definition ic_SetTransferIn :: "Circle \<Rightarrow> bool \<Rightarrow> Circle" where
  "ic_SetTransferIn ic b =
     ic\<lparr>ic_Backends := map (\<lambda>be. be\<lparr>ib_hb := SetTransferIn (ib_hb be) b\<rparr>) (ic_Backends ic)\<rparr>"

definition ic_Close :: "Circle \<Rightarrow> Circle" where
  "ic_Close ic = ic\<lparr>ic_Backends := map ib_Close (ic_Backends ic)\<rparr>"

subsection \<open>Health\<close>

record db_stats =
  ds_measurements :: nat
  ds_inplace :: nat
  ds_incorrect :: nat

record Health =
  he_Name :: string
  he_Url :: string
  he_Active :: bool
  he_Backlog :: bool
  he_Rewriting :: bool
  he_WriteOnly :: bool
  he_Healthy :: bool
  he_Stats :: "(string, db_stats) gomap option"

record CircleHealth =
  ch_Id :: nat
  ch_Name :: string
  ch_Active :: bool
  ch_WriteOnly :: bool
  ch_Backends :: "Health list"

text \<open>The count over the measurements of a database: where the circle would put each.\<close>

fun count_places ::
    "router \<Rightarrow> bool \<Rightarrow> string \<Rightarrow> string \<Rightarrow> string list \<Rightarrow> Circle \<Rightarrow> nat \<times> nat \<Rightarrow> (Circle \<times> nat \<times> nat) option" where
  "count_places lookup mo url db [] ic n = Some (ic, n)"
| "count_places lookup mo url db (meas # ms) ic n =
     (case GetBackend lookup ic (GetKey mo db meas) of
        (ic', None) \<Rightarrow> None
      | (ic', Some nb) \<Rightarrow>
          count_places lookup mo url db ms ic'
            (if hb_Url (ib_hb (ic_Backends ic' ! nb)) = url then (fst n + 1, snd n) else (fst n, snd n + 1)))"

text \<open>The databases are looked at in parallel and the answers stored by name; one after the
  other gives the same map.\<close>

fun health_stats ::
    "http_env \<Rightarrow> router \<Rightarrow> bool \<Rightarrow> HttpBackend \<Rightarrow> string list \<Rightarrow> Circle \<Rightarrow> (string, db_stats) gomap \<Rightarrow>
       (Circle \<times> (string, db_stats) gomap) option" where
  "health_stats env lookup mo hb [] ic st = Some (ic, st)"
| "health_stats env lookup mo hb (db # dbs) ic st =
     do { ms \<leftarrow> GetMeasurements env hb db;
          (ic', inp, inc) \<leftarrow> count_places lookup mo (hb_Url hb) db ms ic (0, 0);
          health_stats env lookup mo hb dbs ic'
            (map_set db \<lparr>ds_measurements = length ms, ds_inplace = inp, ds_incorrect = inc\<rparr> st) }"

definition ib_GetHealth ::
    "http_env \<Rightarrow> router \<Rightarrow> bool \<Rightarrow> Backend \<Rightarrow> Circle \<Rightarrow> bool \<Rightarrow> (Circle \<times> Health) option" where
  "ib_GetHealth env lookup mo ib ic withStats =
     (case ib_fb ib of
        None \<Rightarrow> None
      | Some fb \<Rightarrow>
          let hb = ib_hb ib;
              health = \<lparr>he_Name = hb_Name hb, he_Url = hb_Url hb, he_Active = IsActive hb, he_Backlog = IsData fb,
                        he_Rewriting = IsRewriting hb, he_WriteOnly = IsWriteOnly hb, he_Healthy = False,
                        he_Stats = None\<rparr>
          in if \<not> withStats then Some (ic, health)
             else do { dbs \<leftarrow> GetDatabases env hb;
                       (ic', st) \<leftarrow> health_stats env lookup mo hb dbs ic [];
                       Some (ic', health\<lparr>he_Healthy := list_all (\<lambda>(db, s). ds_incorrect s = 0) st,
                                        he_Stats := Some st\<rparr>) })"

fun health_all ::
    "(Backend \<Rightarrow> http_env) \<Rightarrow> router \<Rightarrow> bool \<Rightarrow> bool \<Rightarrow> Backend list \<Rightarrow> Circle \<Rightarrow> (Circle \<times> Health list) option" where
  "health_all envs lookup mo stats [] ic = Some (ic, [])"
| "health_all envs lookup mo stats (be # bes) ic =
     do { (ic1, h) \<leftarrow> ib_GetHealth (envs be) lookup mo be ic stats;
          (ic2, hs) \<leftarrow> health_all envs lookup mo stats bes ic1;
          Some (ic2, h # hs) }"

definition ic_GetHealth ::
    "(Backend \<Rightarrow> http_env) \<Rightarrow> router \<Rightarrow> bool \<Rightarrow> Circle \<Rightarrow> bool \<Rightarrow> (Circle \<times> CircleHealth) option" where
  "ic_GetHealth envs lookup mo ic stats =
     do { (ic', hs) \<leftarrow> health_all envs lookup mo stats (ic_Backends ic) ic;
          Some (ic', \<lparr>ch_Id = ic_CircleId ic, ch_Name = ic_Name ic, ch_Active = ic_IsActive ic,
                      ch_WriteOnly = ic_IsWriteOnly ic, ch_Backends = hs\<rparr>) }"

section \<open>The contract of a cached lookup\<close>

text \<open>What the clients of \<^verbatim>\<open>GetBackend\<close> rely on: a lookup has a value that the cache may
  shorten but never change.\<close>

locale cached_lookup =
  fixes lookup :: "'s \<Rightarrow> 'k \<Rightarrow> 's \<times> 'v"
    and val :: "'s \<Rightarrow> 'k \<Rightarrow> 'v"
    and coherent :: "'s \<Rightarrow> bool"
  assumes lookup_val: "coherent s \<Longrightarrow> snd (lookup s k) = val s k"
    and lookup_coherent: "coherent s \<Longrightarrow> coherent (fst (lookup s k))"
    and lookup_frame: "val (fst (lookup s k)) = val s"
begin

lemma lookups_frame: "val (foldl (\<lambda>s k. fst (lookup s k)) s ks) = val s"
  by (induction ks arbitrary: s) (simp_all add: lookup_frame)

lemma lookups_coherent: "coherent s \<Longrightarrow> coherent (foldl (\<lambda>s k. fst (lookup s k)) s ks)"
  by (induction ks arbitrary: s) (simp_all add: lookup_coherent)

text \<open>Whatever was looked up before, a key has the same value.\<close>

lemma lookup_after_lookups:
  "coherent s \<Longrightarrow> snd (lookup (foldl (\<lambda>s k. fst (lookup s k)) s ks) k) = val s k"
  by (simp add: lookup_val lookups_coherent lookups_frame)

end

definition route :: "router \<Rightarrow> Circle \<Rightarrow> string \<Rightarrow> nat option" where
  "route lookup ic key =
     map_get (ic_mapToBackend ic) (case lookup (ic_router ic) key of None \<Rightarrow> '''' | Some v \<Rightarrow> v)"

definition cache_ok :: "router \<Rightarrow> Circle \<Rightarrow> bool" where
  "cache_ok lookup ic \<longleftrightarrow> (\<forall>key be. map_get (ic_routerCache ic) key = Some be \<longrightarrow> be = route lookup ic key)"

lemma GetBackend_frame:
  "\<exists>c. fst (GetBackend lookup ic key) = ic\<lparr>ic_routerCache := c\<rparr>"
  by (cases "map_get (ic_routerCache ic) key")
    (auto simp: GetBackend_def Let_def intro: exI [of _ "ic_routerCache ic"])

lemma GetBackend_fields [simp]:
  "ic_Backends (fst (GetBackend lookup ic key)) = ic_Backends ic"
  "ic_router (fst (GetBackend lookup ic key)) = ic_router ic"
  "ic_mapToBackend (fst (GetBackend lookup ic key)) = ic_mapToBackend ic"
  using GetBackend_frame [of lookup ic key] by auto

lemma route_GetBackend [simp]: "route lookup' (fst (GetBackend lookup ic key)) = route lookup' ic"
  by (intro ext) (simp add: route_def)

lemma route_cache [simp]: "route lookup (ic\<lparr>ic_routerCache := c\<rparr>) = route lookup ic"
  by (intro ext) (simp add: route_def)

lemma GetBackend_cases:
  "GetBackend lookup ic key =
     (case map_get (ic_routerCache ic) key of
        Some be \<Rightarrow> (ic, be)
      | None \<Rightarrow> (ic\<lparr>ic_routerCache := map_set key (route lookup ic key) (ic_routerCache ic)\<rparr>, route lookup ic key))"
  by (simp add: GetBackend_def route_def Let_def split: option.split)

interpretation circle_cache: cached_lookup "GetBackend lookup" "route lookup" "cache_ok lookup" for lookup
proof unfold_locales
  fix ic k
  assume ok: "cache_ok lookup ic"
  show "snd (GetBackend lookup ic k) = route lookup ic k"
  proof (cases "map_get (ic_routerCache ic) k")
    case (Some be)
    with ok have "be = route lookup ic k" unfolding cache_ok_def by blast
    with Some show ?thesis by (simp add: GetBackend_cases)
  qed (simp add: GetBackend_cases)
  show "cache_ok lookup (fst (GetBackend lookup ic k))"
    using ok unfolding cache_ok_def route_GetBackend
    by (cases "map_get (ic_routerCache ic) k") (simp_all add: GetBackend_cases map_get_set)
qed simp

section \<open>Building a circle\<close>

definition circle_inv :: "string \<Rightarrow> BackendConfig list \<Rightarrow> Circle \<Rightarrow> bool" where
  "circle_inv hashKey cfgs ic \<longleftrightarrow>
     length (ic_Backends ic) = length cfgs \<and>
     ic_router ic = map (\<lambda>i. router_key (ic_Backends ic ! i) i hashKey) [0..<length cfgs] \<and>
     (\<forall>i < length cfgs. hb_Name (ib_hb (ic_Backends ic ! i)) = bc_Name (cfgs ! i) \<and>
        hb_Url (ib_hb (ic_Backends ic ! i)) = bc_Url (cfgs ! i)) \<and>
     (distinct (ic_router ic) \<longrightarrow> (\<forall>i < length cfgs. map_get (ic_mapToBackend ic) (ic_router ic ! i) = Some i)) \<and>
     (\<forall>m \<in> set (ic_router ic). \<exists>i < length cfgs. map_get (ic_mapToBackend ic) m = Some i) \<and>
     ic_routerCache ic = []"

lemma NewBackend_names:
  "NewBackend cfg pxcfg op = Some be \<Longrightarrow> hb_Name (ib_hb be) = bc_Name cfg \<and> hb_Url (ib_hb be) = bc_Url cfg"
  by (simp_all add: NewBackend_Some NewHttpBackend_def NewSimpleHttpBackend_def)

lemma circle_inv_add:
  assumes "circle_inv hashKey cfgs ic" "hb_Name (ib_hb be) = bc_Name cfg" "hb_Url (ib_hb be) = bc_Url cfg"
  shows "circle_inv hashKey (cfgs @ [cfg])
           (addRouter (ic\<lparr>ic_Backends := ic_Backends ic @ [be]\<rparr>) be (length cfgs) hashKey)"
proof -
  let ?n = "length cfgs" and ?str = "router_key be (length cfgs) hashKey"
  from assms(1) have len: "length (ic_Backends ic) = ?n" "length (ic_router ic) = ?n"
    by (auto simp: circle_inv_def)
  have keys: "map (\<lambda>i. router_key ((ic_Backends ic @ [be]) ! i) i hashKey) [0..<Suc ?n] = ic_router ic @ [?str]"
    using assms(1) len by (auto simp: circle_inv_def nth_append)
  have at: "map_get (map_set ?str ?n (ic_mapToBackend ic)) ((ic_router ic @ [?str]) ! i) = Some i"
    if "distinct (ic_router ic @ [?str])" "i < Suc ?n" for i
  proof (cases "i = ?n")
    case True
    then show ?thesis using len by (simp add: map_get_set nth_append)
  next
    case False
    with that(2) have "i < ?n" by simp
    moreover from this len have "ic_router ic ! i \<in> set (ic_router ic)" by simp
    with that(1) have "ic_router ic ! i \<noteq> ?str" by auto
    ultimately have "i < ?n" "ic_router ic ! i \<noteq> ?str" by simp_all
    with that assms(1) len show ?thesis by (auto simp: map_get_set nth_append circle_inv_def)
  qed
  have "\<exists>i < Suc ?n. map_get (map_set ?str ?n (ic_mapToBackend ic)) m = Some i" if "m \<in> set (ic_router ic @ [?str])" for m
  proof (cases "m = ?str")
    case False
    with that have "m \<in> set (ic_router ic)" by simp
    with assms(1) obtain i where "i < ?n" "map_get (ic_mapToBackend ic) m = Some i"
      unfolding circle_inv_def by blast
    with False show ?thesis by (intro exI [of _ i]) (simp add: map_get_set)
  qed (simp add: map_get_set)
  then show ?thesis
    using assms len keys at
    unfolding circle_inv_def addRouter_def Let_def
    by (auto simp: nth_append less_Suc_eq)
qed

lemma add_backends_inv:
  assumes "circle_inv (pc_HashKey pxcfg) done ic" "add_backends pxcfg opened (length done) cfgs ic = Some ic'"
  shows "circle_inv (pc_HashKey pxcfg) (done @ cfgs) ic'"
  using assms
proof (induction cfgs arbitrary: "done" ic)
  case (Cons cfg cfgs)
  from Cons.prems(2) obtain be where be: "NewBackend cfg pxcfg (opened cfg) = Some be"
    "add_backends pxcfg opened (length (done @ [cfg])) cfgs
       (addRouter (ic\<lparr>ic_Backends := ic_Backends ic @ [be]\<rparr>) be (length done) (pc_HashKey pxcfg)) = Some ic'"
    by (auto split: option.splits)
  from NewBackend_names [OF be(1)] circle_inv_add [OF Cons.prems(1)]
  have "circle_inv (pc_HashKey pxcfg) (done @ [cfg])
      (addRouter (ic\<lparr>ic_Backends := ic_Backends ic @ [be]\<rparr>) be (length done) (pc_HashKey pxcfg))" by blast
  from Cons.IH [OF this be(2)] show ?case by simp
qed simp

lemma NewCircle_inv:
  assumes "NewCircle opened cfg pxcfg cid = Some ic"
  shows "circle_inv (pc_HashKey pxcfg) (cc_Backends cfg) ic"
proof -
  let ?ic = "\<lparr>ic_CircleId = cid, ic_Name = cc_Name cfg, ic_Backends = [], ic_router = [],
    ic_routerCache = [], ic_mapToBackend = []\<rparr>"
  have "circle_inv (pc_HashKey pxcfg) [] ?ic" by (simp add: circle_inv_def)
  from add_backends_inv [OF this, of opened "cc_Backends cfg" ic] assms show ?thesis
    by (simp add: NewCircle_def)
qed

lemma Itoa_inj: "Itoa (int i) = Itoa (int j) \<Longrightarrow> i = j"
  by (metis Itoa_nat digits_val_nat_digits)

lemma router_distinct:
  assumes "circle_inv hashKey cfgs ic" "hashKey \<noteq> ''url''" "hashKey = ''name'' \<longrightarrow> distinct (map bc_Name cfgs)"
  shows "distinct (ic_router ic)"
proof -
  have "inj_on (\<lambda>i. router_key (ic_Backends ic ! i) i hashKey) {0..<length cfgs}"
  proof (rule inj_onI)
    fix i j
    assume ij: "i \<in> {0..<length cfgs}" "j \<in> {0..<length cfgs}"
      and eq: "router_key (ic_Backends ic ! i) i hashKey = router_key (ic_Backends ic ! j) j hashKey"
    show "i = j"
    proof (cases "hashKey = ''name''")
      case True
      with eq ij assms(1) have "bc_Name (cfgs ! i) = bc_Name (cfgs ! j)"
        by (auto simp: router_key_def circle_inv_def)
      with ij assms(3) True show ?thesis by (auto simp: distinct_conv_nth)
    next
      case False
      with eq assms(2) have "Itoa (int i) = Itoa (int j)" by (auto simp: router_key_def split: if_splits)
      then show ?thesis by (rule Itoa_inj)
    qed
  qed
  with assms(1) show ?thesis by (auto simp: circle_inv_def distinct_map)
qed


text \<open>Every backend of a circle is addressed by a router member of its own. For the hash
  keys \<^verbatim>\<open>idx\<close> and \<^verbatim>\<open>exi\<close>, and for \<^verbatim>\<open>name\<close> when the names differ as the configuration check
  demands, a new circle has one backend per configuration entry, in order, as many members
  as backends, all different, and the \<open>i\<close>-th member is mapped to the \<open>i\<close>-th backend.\<close>

theorem NewCircle_addresses:
  assumes "NewCircle opened cfg pxcfg cid = Some ic" "pc_HashKey pxcfg \<noteq> ''url''"
    and "pc_HashKey pxcfg = ''name'' \<longrightarrow> distinct (map bc_Name (cc_Backends cfg))"
  shows "map (\<lambda>be. hb_Name (ib_hb be)) (ic_Backends ic) = map bc_Name (cc_Backends cfg) \<and>
         distinct (ic_router ic) \<and>
         map (map_get (ic_mapToBackend ic)) (ic_router ic) = map Some [0..<length (cc_Backends cfg)]"
proof -
  from NewCircle_inv [OF assms(1)] have inv: "circle_inv (pc_HashKey pxcfg) (cc_Backends cfg) ic" .
  with router_distinct [OF inv assms(2,3)] show ?thesis
    by (auto simp: circle_inv_def intro!: nth_equalityI)
qed

definition sample_circle :: Circle where
  "sample_circle = the (NewCircle (\<lambda>_. (empty_backlog, None)) (hd (pc_Circles sample_config)) sample_pxcfg 0)"

lemma sample_circle:
  "NewCircle (\<lambda>_. (empty_backlog, None)) (hd (pc_Circles sample_config)) sample_pxcfg 0 = Some sample_circle"
  by (simp add: sample_circle_def NewCircle_def sample_config_def NewBackend_def)

theorem NewCircle_addresses_witness:
  "map (map_get (ic_mapToBackend sample_circle)) (ic_router sample_circle) = [Some 0]"
proof -
  have "pc_HashKey sample_pxcfg = ''idx''" by (simp add: sample_pxcfg_def setDefault_def sample_config_def default_string_def)
  moreover have "length (cc_Backends (hd (pc_Circles sample_config))) = 1" by (simp add: sample_config_def)
  ultimately show ?thesis using NewCircle_addresses [OF sample_circle] by simp
qed

section \<open>Routing\<close>

text \<open>What the consistent hash promises: it picks one of its members.\<close>

definition picks_member :: "router \<Rightarrow> bool" where
  "picks_member lookup \<longleftrightarrow> (\<forall>ms key. ms \<noteq> [] \<longrightarrow> (\<exists>m \<in> set ms. lookup ms key = Some m))"

lemma route_in_range:
  assumes "circle_inv hashKey cfgs ic" "cfgs \<noteq> []" "picks_member lookup"
  shows "\<exists>i < length cfgs. route lookup ic key = Some i"
proof -
  from assms have "ic_router ic \<noteq> []" by (auto simp: circle_inv_def)
  with assms(3) obtain m where "m \<in> set (ic_router ic)" "lookup (ic_router ic) key = Some m"
    unfolding picks_member_def by blast
  with assms(1) show ?thesis by (auto simp: circle_inv_def route_def)
qed

text \<open>A key belongs to one backend for good. In a new circle every key is routed to an
  existing backend, never to a nil pointer, and the routing of a key does not depend on
  which keys were looked up before: the cache of the circle changes no answer.\<close>

theorem GetBackend_stable:
  assumes "NewCircle opened cfg pxcfg cid = Some ic" "cc_Backends cfg \<noteq> []" "picks_member lookup"
  shows "\<exists>i < length (ic_Backends ic).
           snd (GetBackend lookup ic key) = Some i \<and>
           snd (GetBackend lookup (foldl (\<lambda>c k. fst (GetBackend lookup c k)) ic keys) key) = Some i"
proof -
  from NewCircle_inv [OF assms(1)] have inv: "circle_inv (pc_HashKey pxcfg) (cc_Backends cfg) ic" .
  from route_in_range [OF inv assms(2,3), of key] obtain i where
    i: "i < length (cc_Backends cfg)" "route lookup ic key = Some i" by blast
  have ok: "cache_ok lookup ic" using inv by (simp add: circle_inv_def cache_ok_def)
  with i inv circle_cache.lookup_val [OF ok, of key] circle_cache.lookup_after_lookups [OF ok, of keys key]
  show ?thesis by (auto simp: circle_inv_def)
qed

definition first_member :: router where
  "first_member ms key = (case ms of [] \<Rightarrow> None | m # _ \<Rightarrow> Some m)"

lemma picks_member_first: "picks_member first_member"
  by (auto simp: picks_member_def first_member_def neq_Nil_conv)

theorem GetBackend_stable_witness:
  "\<exists>i. snd (GetBackend first_member sample_circle ''db,cpu'') = Some i \<and>
     snd (GetBackend first_member (foldl (\<lambda>c k. fst (GetBackend first_member c k)) sample_circle [''db,mem'', ''db,cpu'']) ''db,cpu'') = Some i"
proof -
  have "cc_Backends (hd (pc_Circles sample_config)) \<noteq> []" by (simp add: sample_config_def)
  then show ?thesis
    using GetBackend_stable [OF sample_circle _ picks_member_first, of "''db,cpu''" "[''db,mem'', ''db,cpu'']"] by auto
qed

section \<open>Health\<close>

definition in_place :: "router \<Rightarrow> bool \<Rightarrow> Circle \<Rightarrow> string \<Rightarrow> string \<Rightarrow> string \<Rightarrow> bool" where
  "in_place lookup mo ic url db meas \<longleftrightarrow>
     (case route lookup ic (GetKey mo db meas) of
        None \<Rightarrow> False | Some nb \<Rightarrow> hb_Url (ib_hb (ic_Backends ic ! nb)) = url)"

definition same_routing :: "router \<Rightarrow> Circle \<Rightarrow> Circle \<Rightarrow> bool" where
  "same_routing lookup ic ic' \<longleftrightarrow>
     cache_ok lookup ic' \<and> route lookup ic' = route lookup ic \<and> ic_Backends ic' = ic_Backends ic"

lemma in_place_same: "same_routing lookup ic ic' \<Longrightarrow> in_place lookup mo ic' = in_place lookup mo ic"
  by (intro ext) (auto simp: in_place_def same_routing_def split: option.split)

lemma same_routing_trans: "same_routing lookup a b \<Longrightarrow> same_routing lookup b c \<Longrightarrow> same_routing lookup a c"
  by (simp add: same_routing_def)

lemma count_places_spec:
  assumes "cache_ok lookup ic" "\<And>key. route lookup ic key \<noteq> None"
  shows "\<exists>ic'. same_routing lookup ic ic' \<and>
    count_places lookup mo url db ms ic (a, b) =
      Some (ic', a + length (filter (in_place lookup mo ic url db) ms),
                 b + length (filter (\<lambda>m. \<not> in_place lookup mo ic url db m) ms))"
  using assms
proof (induction ms arbitrary: ic a b)
  case Nil
  then show ?case by (simp add: same_routing_def)
next
  case (Cons m ms)
  let ?key = "GetKey mo db m"
  from Cons.prems(2) [of ?key] obtain nb where nb: "route lookup ic ?key = Some nb" by auto
  obtain ic1 where G: "GetBackend lookup ic ?key = (ic1, Some nb)"
    using circle_cache.lookup_val [OF Cons.prems(1), of ?key] nb by (metis prod.collapse)
  then have ic1: "ic1 = fst (GetBackend lookup ic ?key)" by simp
  have same: "same_routing lookup ic ic1"
    using circle_cache.lookup_coherent [OF Cons.prems(1)] by (simp add: same_routing_def ic1)
  then have here: "in_place lookup mo ic url db m \<longleftrightarrow> hb_Url (ib_hb (ic_Backends ic1 ! nb)) = url"
    using nb by (simp add: in_place_def same_routing_def)
  have "cache_ok lookup ic1" "\<And>key. route lookup ic1 key \<noteq> None"
    using same Cons.prems(2) by (simp_all add: same_routing_def)
  note IH = Cons.IH [OF this, unfolded in_place_same [OF same]]
  show ?case
  proof (cases "in_place lookup mo ic url db m")
    case True
    with IH [of "a + 1" b] obtain ic' where "same_routing lookup ic1 ic'"
      "count_places lookup mo url db ms ic1 (a + 1, b) =
        Some (ic', a + 1 + length (filter (in_place lookup mo ic url db) ms),
          b + length (filter (\<lambda>m. \<not> in_place lookup mo ic url db m) ms))" by blast
    with G True here same_routing_trans [OF same] show ?thesis by (intro exI [of _ ic']) simp
  next
    case False
    with IH [of a "b + 1"] obtain ic' where "same_routing lookup ic1 ic'"
      "count_places lookup mo url db ms ic1 (a, b + 1) =
        Some (ic', a + length (filter (in_place lookup mo ic url db) ms),
          b + 1 + length (filter (\<lambda>m. \<not> in_place lookup mo ic url db m) ms))" by blast
    with G False here same_routing_trans [OF same] show ?thesis by (intro exI [of _ ic']) simp
  qed
qed

definition place_stats :: "router \<Rightarrow> bool \<Rightarrow> Circle \<Rightarrow> string \<Rightarrow> string \<Rightarrow> string list \<Rightarrow> db_stats" where
  "place_stats lookup mo ic url db ms =
     \<lparr>ds_measurements = length ms, ds_inplace = length (filter (in_place lookup mo ic url db) ms),
      ds_incorrect = length (filter (\<lambda>m. \<not> in_place lookup mo ic url db m) ms)\<rparr>"

lemma health_stats_spec:
  assumes "cache_ok lookup ic" "\<And>key. route lookup ic key \<noteq> None" "map_ok st"
    and "\<And>db. db \<in> set dbs \<Longrightarrow> GetMeasurements env hb db = Some (ms db)"
  shows "\<exists>ic' st'. health_stats env lookup mo hb dbs ic st = Some (ic', st') \<and> map_ok st' \<and>
    (\<forall>db. map_get st' db = (if db \<in> set dbs then Some (place_stats lookup mo ic (hb_Url hb) db (ms db)) else map_get st db))"
  using assms
proof (induction dbs arbitrary: ic st)
  case Nil
  then show ?case by simp
next
  case (Cons db dbs)
  from count_places_spec [OF Cons.prems(1,2), of mo "hb_Url hb" db "ms db" 0 0] obtain ic1 where
    c: "same_routing lookup ic ic1"
      "count_places lookup mo (hb_Url hb) db (ms db) ic (0, 0) =
        Some (ic1, length (filter (in_place lookup mo ic (hb_Url hb) db) (ms db)),
          length (filter (\<lambda>m. \<not> in_place lookup mo ic (hb_Url hb) db m) (ms db)))" by auto
  let ?st = "map_set db (place_stats lookup mo ic (hb_Url hb) db (ms db)) st"
  have "cache_ok lookup ic1" "\<And>key. route lookup ic1 key \<noteq> None" "map_ok ?st"
    using c(1) Cons.prems(2,3) by (simp_all add: same_routing_def)
  from Cons.IH [OF this] Cons.prems(4) obtain ic' st' where
    "health_stats env lookup mo hb dbs ic1 ?st = Some (ic', st')" "map_ok st'"
    "\<forall>d. map_get st' d = (if d \<in> set dbs then Some (place_stats lookup mo ic1 (hb_Url hb) d (ms d)) else map_get ?st d)"
    by auto
  moreover have "place_stats lookup mo ic1 = place_stats lookup mo ic"
    using in_place_same [OF c(1)] by (intro ext) (simp add: place_stats_def)
  ultimately show ?case
    using c(2) Cons.prems(4) by (auto simp: place_stats_def map_get_set)
qed

lemma GetHealth_verdict:
  assumes "cache_ok lookup ic" "\<And>key. route lookup ic key \<noteq> None" "ib_fb ib \<noteq> None"
    and "GetDatabases env (ib_hb ib) = Some dbs"
    and "\<And>db. db \<in> set dbs \<Longrightarrow> GetMeasurements env (ib_hb ib) db = Some (ms db)"
  shows "\<exists>ic' h. ib_GetHealth env lookup mo ib ic True = Some (ic', h) \<and>
    (he_Healthy h \<longleftrightarrow>
       list_all (\<lambda>db. list_all (in_place lookup mo ic (hb_Url (ib_hb ib)) db) (ms db)) dbs)"
proof -
  from health_stats_spec [OF assms(1,2) map_ok_empty, of dbs env "ib_hb ib" ms mo] assms(5) obtain ic' st where
    st: "health_stats env lookup mo (ib_hb ib) dbs ic [] = Some (ic', st)" "map_ok st"
      "\<And>db. map_get st db =
        (if db \<in> set dbs then Some (place_stats lookup mo ic (hb_Url (ib_hb ib)) db (ms db)) else None)"
    by auto
  have "list_all (\<lambda>(db, s). ds_incorrect s = 0) st \<longleftrightarrow> (\<forall>db s. map_get st db = Some s \<longrightarrow> ds_incorrect s = 0)"
    using st(2) by (auto simp: list_all_iff map_ok_def)
  also have "\<dots> \<longleftrightarrow> (\<forall>db \<in> set dbs. ds_incorrect (place_stats lookup mo ic (hb_Url (ib_hb ib)) db (ms db)) = 0)"
    unfolding st(3) by auto
  also have "\<dots> \<longleftrightarrow> list_all (\<lambda>db. list_all (in_place lookup mo ic (hb_Url (ib_hb ib)) db) (ms db)) dbs"
    by (simp add: place_stats_def list_all_iff filter_empty_conv)
  finally show ?thesis
    using assms(3,4) st(1) by (auto simp: ib_GetHealth_def Let_def)
qed

text \<open>C32: what a healthy backend is. With statistics, the report of a backend says healthy
  exactly when every measurement that its server lists, in every database that it lists, is
  one that the circle routes to this backend, so that queries find it there.\<close>

theorem GetHealth_healthy_iff:
  assumes "cache_ok lookup ic" "\<And>key. route lookup ic key \<noteq> None" "ib_fb ib \<noteq> None"
    and "GetDatabases env (ib_hb ib) = Some dbs"
    and "\<And>db. db \<in> set dbs \<Longrightarrow> GetMeasurements env (ib_hb ib) db = Some (ms db)"
  shows "\<exists>ic' h. ib_GetHealth env lookup mo ib ic True = Some (ic', h) \<and>
    (he_Healthy h \<longleftrightarrow>
       list_all (\<lambda>db. list_all (in_place lookup mo ic (hb_Url (ib_hb ib)) db) (ms db)) dbs)"
  using GetHealth_verdict [OF assms] .

text \<open>A server with one database of one measurement, both of the same name.\<close>

definition one_listed :: http_env where
  "one_listed = sample_env (\<lambda>_. Inr \<lparr>rs_StatusCode = 200, rs_Header = [], rs_Body = Inr ''{}''\<rparr>)
     (\<lambda>_. (ResponseFromSeries [\<lparr>row_Name = ''names'', row_Tags = [], row_Columns = [''name''],
              row_Values = [[JString ''cpu'']], row_Partial = False\<rparr>], None))"

lemma one_listed: "GetSeriesValues one_listed hb db q = Some [''cpu'']"
  by (simp add: GetSeriesValues_def iql_result_def hb_Query_def query_result_def response_body_def one_listed_def sample_env_def
      Let_def SeriesFromResponseBytes_def ResponseFromSeries_def string_at_def byte_at_def)

text \<open>The only backend of its circle is healthy; one of another address that holds the same is not.\<close>

theorem GetHealth_healthy_iff_witness:
  "(\<exists>ic' h. ib_GetHealth one_listed first_member False sample_ib sample_circle True = Some (ic', h) \<and> he_Healthy h) \<and>
   (\<exists>ic' h. ib_GetHealth one_listed first_member False
        (sample_ib\<lparr>ib_hb := (ib_hb sample_ib)\<lparr>hb_Url := ''http://elsewhere''\<rparr>\<rparr>) sample_circle True = Some (ic', h) \<and> \<not> he_Healthy h)"
proof -
  have inv: "circle_inv (pc_HashKey sample_pxcfg) (cc_Backends (hd (pc_Circles sample_config))) sample_circle"
    by (rule NewCircle_inv [OF sample_circle])
  have ne: "cc_Backends (hd (pc_Circles sample_config)) \<noteq> []" by (simp add: sample_config_def)
  have routes: "route first_member sample_circle k \<noteq> None" for k
    using route_in_range [OF inv ne picks_member_first, of k] by auto
  have ok: "cache_ok first_member sample_circle" using inv by (simp add: circle_inv_def cache_ok_def)
  have n: "ic_Backends sample_circle = [sample_ib]"
    by (simp add: sample_circle_def NewCircle_def sample_config_def sample_ib_def addRouter_def Let_def NewBackend_def)
  have "route first_member sample_circle k = Some 0" for k
    using route_in_range [OF inv ne picks_member_first, of k] by (auto simp: sample_config_def)
  then have home: "in_place first_member False sample_circle url ''cpu'' ''cpu'' \<longleftrightarrow> hb_Url (ib_hb sample_ib) = url" for url
    by (simp add: in_place_def n)
  have fb: "ib_fb sample_ib \<noteq> None" by (simp add: sample_ib_def NewBackend_def)
  have u: "hb_Url (ib_hb sample_ib) \<noteq> ''http://elsewhere''"
    by (simp add: sample_ib_def NewBackend_def NewHttpBackend_def NewSimpleHttpBackend_def sample_config_def)
  have l: "GetDatabases one_listed hb = Some [''cpu'']" "GetMeasurements one_listed hb db = Some [''cpu'']" for hb db
    by (simp_all add: GetDatabases_def GetMeasurements_def one_listed)
  have fb': "ib_fb (sample_ib\<lparr>ib_hb := (ib_hb sample_ib)\<lparr>hb_Url := ''http://elsewhere''\<rparr>\<rparr>) \<noteq> None" using fb by simp
  from GetHealth_healthy_iff [OF ok routes fb l(1), of "\<lambda>_. [''cpu'']" False] GetHealth_healthy_iff [OF ok routes fb' l(1), of "\<lambda>_. [''cpu'']" False] u
  show ?thesis by (auto simp: l home)
qed

end
