(* ===== verification/Identifiers.thy ===== *)
theory Identifiers
  imports Influxql Http_Backend
begin

text \<open>
  Names that travel through queries. The proxy and the transfer build statements around quoted,
  escaped names; the tokenizer of \<^verbatim>\<open>backend/influxql.go\<close> finds the names in the statements it
  receives. The lemmas here follow the tokenizer over words, dots and quoted identifiers; the
  property is that the two directions fit together.
\<close>

section \<open>The tokenizer on statements\<close>

definition plain_word :: "string \<Rightarrow> bool" where
  "plain_word w \<longleftrightarrow> w \<noteq> [] \<and> hd w \<notin> set ''([{,'' \<and> hd w \<noteq> CHR 0x27 \<and>
     list_all (\<lambda>c. c \<noteq> CHR '' '' \<and> c \<noteq> CHR ''.'' \<and> c \<noteq> CHR ''\"'') w"

definition token_ends :: "string \<Rightarrow> bool" where
  "token_ends r \<longleftrightarrow> r = [] \<or> hd r = CHR '' '' \<or> hd r = CHR ''.'' \<or> hd r = CHR ''\"''"

lemma IndexFunc_word:
  "list_all (\<lambda>c. \<not> P c) w \<Longrightarrow> IndexFunc (w @ r) P = (if r = [] then None else map_option ((+) (length w)) (IndexFunc r P))"
  by (induction w) (cases "IndexFunc r P"; auto)+

lemma skip_spaces_replicate:
  "c \<noteq> CHR '' '' \<Longrightarrow> skip_spaces (replicate k (CHR '' '') @ c # s) = k"
  by (induction k) (simp_all add: skip_spaces_def)

lemma scan_word:
  assumes "plain_word w" "token_ends r" "n \<le> 0"
  shows "scan_tokens (replicate k (CHR '' '') @ w @ r) n acc = scan_tokens r n (acc @ [w])"
proof -
  let ?data = "replicate k (CHR '' '') @ w @ r"
  obtain c w' where w: "w = c # w'" using assms(1) by (cases w) (auto simp: plain_word_def)
  with assms(1) have c: "c \<noteq> CHR '' ''" "c \<noteq> CHR ''\"''" "c \<noteq> CHR 0x27" "c \<noteq> CHR ''(''" "c \<noteq> CHR ''[''" "c \<noteq> CHR ''{''"
    "c \<noteq> CHR '',''" "c \<noteq> CHR ''.''"
    by (auto simp: plain_word_def)
  have nn: "nat (1 + (int k + int (length w'))) = Suc (k + length w')" by arith
  have start: "skip_spaces ?data = k" using skip_spaces_replicate [of c k "w' @ r"] c w by simp
  have at: "?data ! k = c" using w by (simp add: nth_append)
  let ?P = "\<lambda>r. r = CHR '' '' \<or> r = CHR ''.'' \<or> r = CHR ''\"''"
  have "list_all (\<lambda>c. \<not> ?P c) w" using assms(1) by (simp add: plain_word_def)
  then have "IndexFunc (w @ r) ?P = (if r = [] then None else Some (length w))"
    using IndexFunc_word [of ?P w r] assms(2) by (cases r) (auto simp: token_ends_def)
  then have "token_end ?data k = (int (k + length w), None)"
    using at c by (simp add: token_end_def Let_def)
  then have "ScanToken ?data False = Some (int (k + length w), Some w, None)"
    using start at c w nn by (simp add: ScanToken_def Let_def slice_def)
  then show ?thesis
    using assms(3) w nn by (subst scan_tokens.simps) simp
qed

lemma scan_dot:
  assumes "n \<le> 0"
  shows "scan_tokens (replicate k (CHR '' '') @ CHR ''.'' # r) n acc = scan_tokens r n (acc @ [''.''])"
proof -
  let ?data = "replicate k (CHR '' '') @ CHR ''.'' # r"
  have start: "skip_spaces ?data = k" by (rule skip_spaces_replicate) simp
  have at: "?data ! k = CHR ''.''" by (simp add: nth_append)
  then have "token_end ?data k = (int k + 1, None)" by (simp add: token_end_def Let_def)
  then have "ScanToken ?data False = Some (int k + 1, Some ''.'', None)"
    using start at by (simp add: ScanToken_def Let_def slice_def nat_add_distrib)
  then show ?thesis using assms by (subst scan_tokens.simps) (simp add: nat_add_distrib)
qed

lemma find_quoted:
  assumes "CHR 0x5C \<notin> set s"
  shows "FindEndWithQuote (pre @ CHR ''\"'' # EscapeIdentifier s @ CHR ''\"'' # rest) (length pre) (CHR ''\"'') =
         Some (length pre + length (EscapeIdentifier s) + 2, CHR ''\"'' # s @ [CHR ''\"''], None)"
  using find_end_escaped [of s "CHR ''\"''" "length pre + 1"
      "pre @ CHR ''\"'' # EscapeIdentifier s @ CHR ''\"'' # rest" rest "[CHR ''\"'']"] assms
  by (simp add: FindEndWithQuote_def byte_at_def EscapeIdentifier_esc)

definition quoted :: "string \<Rightarrow> string" where
  "quoted s = CHR ''\"'' # EscapeIdentifier s @ [CHR ''\"'']"

definition quoted_token :: "string \<Rightarrow> string" where
  "quoted_token s = CHR ''\"'' # s @ [CHR ''\"'']"

lemma scan_quoted:
  assumes "CHR 0x5C \<notin> set s" "n \<le> 0"
  shows "scan_tokens (replicate k (CHR '' '') @ quoted s @ r) n acc = scan_tokens r n (acc @ [quoted_token s])"
proof -
  let ?data = "replicate k (CHR '' '') @ CHR ''\"'' # EscapeIdentifier s @ CHR ''\"'' # r"
  have start: "skip_spaces ?data = k" by (rule skip_spaces_replicate) simp
  have at: "?data ! k = CHR ''\"''" by (simp add: nth_append)
  from find_quoted [OF assms(1), of "replicate k (CHR '' '')" r]
  have "ScanToken ?data False = Some (int (k + length (EscapeIdentifier s) + 2), Some (quoted_token s), None)"
    using start at by (simp add: ScanToken_def Let_def quoted_token_def)
  moreover have "drop (k + length (EscapeIdentifier s) + 2) ?data = r" by simp
  ultimately have "scan_tokens ?data n acc = scan_tokens r n (acc @ [quoted_token s])"
    using assms(2) by (subst scan_tokens.simps) (simp add: nat_add_distrib)
  then show ?thesis by (simp add: quoted_def)
qed

fun spaced :: "string list \<Rightarrow> string" where
  "spaced [] = []"
| "spaced (w # ws) = w @ '' '' @ spaced ws"

lemma scan_spaced:
  assumes "list_all plain_word ws" "n \<le> 0" "r \<noteq> []" "hd r \<noteq> CHR '' ''"
  shows "\<exists>k. scan_tokens (replicate j (CHR '' '') @ spaced ws @ r) n acc =
             scan_tokens (replicate k (CHR '' '') @ r) n (acc @ ws)"
  using assms(1)
proof (induction ws arbitrary: j acc)
  case (Cons w ws)
  have "scan_tokens (replicate j (CHR '' '') @ w @ (CHR '' '' # spaced ws @ r)) n acc =
        scan_tokens (CHR '' '' # spaced ws @ r) n (acc @ [w])"
    by (rule scan_word) (use Cons.prems assms(2) in \<open>simp_all add: token_ends_def\<close>)
  with Cons.IH [of 1 "acc @ [w]"] Cons.prems show ?case by simp
qed auto

lemma quoted_simps: "quoted s \<noteq> []" "hd (quoted s) = CHR ''\"''" "last (quoted s) = CHR ''\"''"
  by (simp_all add: quoted_def)

lemma scan_tokens_Nil: "scan_tokens [] n acc = Some acc"
  by (simp add: scan_tokens.simps)

lemma ScanTokens_statement:
  assumes "list_all plain_word (w # ws)" "hd w \<notin> set space_heads" "r \<noteq> []" "hd r = CHR ''\"''" "last r = CHR ''\"''"
  shows "\<exists>k. ScanTokens (spaced (w # ws) @ r) 0 = scan_tokens (replicate k (CHR '' '') @ r) 0 (w # ws)"
proof -
  let ?q = "spaced (w # ws) @ r"
  have "w \<noteq> []" using assms(1) by (simp add: plain_word_def)
  then have "hd ?q = hd w" "last ?q = CHR ''\"''" using assms(3,5) by simp_all
  moreover have "CHR ''\"'' \<notin> set space_lasts" by (simp add: space_lasts_def unicode_spaces_def)
  ultimately have "TrimSpace ?q = ?q" using assms(2) by (intro TrimSpace_id) simp
  moreover have "TrimRight ?q ''; '' = ?q" using \<open>last ?q = _\<close> by (intro TrimRight_id) simp
  ultimately have "ScanTokens ?q 0 = scan_tokens (replicate 0 (CHR '' '') @ spaced (w # ws) @ r) 0 []"
    by (simp add: ScanTokens_def)
  with scan_spaced [OF assms(1), of 0 r 0 "[]"] assms(3,4) show ?thesis by simp
qed

lemma ScanTokens_name:
  assumes "list_all plain_word (w # ws)" "hd w \<notin> set space_heads" "CHR 0x5C \<notin> set m"
  shows "ScanTokens (spaced (w # ws) @ quoted m) 0 = Some ((w # ws) @ [quoted_token m])"
proof -
  from ScanTokens_statement [OF assms(1,2) quoted_simps(1-3)] obtain k where
    "ScanTokens (spaced (w # ws) @ quoted m) 0 = scan_tokens (replicate k (CHR '' '') @ quoted m) 0 (w # ws)" by blast
  with scan_quoted [OF assms(3), of 0 k "[]" "w # ws"] show ?thesis by (simp add: scan_tokens_Nil)
qed

lemma quoted_source_eq: "quoted_source rp m = quoted rp @ CHR ''.'' # quoted m"
  by (simp add: quoted_source_def quoted_def)

lemma ScanTokens_source:
  assumes "list_all plain_word (w # ws)" "hd w \<notin> set space_heads" "CHR 0x5C \<notin> set rp" "CHR 0x5C \<notin> set m"
  shows "ScanTokens (spaced (w # ws) @ quoted_source rp m) 0 =
         Some ((w # ws) @ [quoted_token rp, ''.'', quoted_token m])"
proof -
  have r: "quoted_source rp m \<noteq> []" "hd (quoted_source rp m) = CHR ''\"''" "last (quoted_source rp m) = CHR ''\"''"
    by (simp_all add: quoted_source_eq quoted_simps)
  from ScanTokens_statement [OF assms(1,2) r] obtain k where
    "ScanTokens (spaced (w # ws) @ quoted_source rp m) 0 =
       scan_tokens (replicate k (CHR '' '') @ quoted rp @ CHR ''.'' # quoted m) 0 (w # ws)"
    by (auto simp: quoted_source_eq)
  also have "\<dots> = scan_tokens (replicate 0 (CHR '' '') @ CHR ''.'' # quoted m) 0 ((w # ws) @ [quoted_token rp])"
    using scan_quoted [OF assms(3), of 0 k "CHR ''.'' # quoted m" "w # ws"] by simp
  also have "\<dots> = scan_tokens (replicate 0 (CHR '' '') @ quoted m @ []) 0 ((w # ws) @ [quoted_token rp, ''.''])"
    by (subst scan_dot) simp_all
  also have "\<dots> = scan_tokens [] 0 ((w # ws) @ [quoted_token rp, ''.'', quoted_token m])"
    using scan_quoted [OF assms(4), of 0 0 "[]" "(w # ws) @ [quoted_token rp, ''.'']"] by simp
  finally show ?thesis by (simp add: scan_tokens_Nil)
qed

section \<open>Names found in statements\<close>

lemma unquote_quoted_token [simp]: "unquote (quoted_token s) = Some s"
  by (simp add: unquote_def quoted_token_def byte_at_def)

lemma quoted_token_not_dot [simp]: "quoted_token s \<noteq> ''.''"
  by (simp add: quoted_token_def)

lemma byte_at_quoted_token [simp]: "byte_at (quoted_token s) 0 = Some (CHR ''\"'')"
  by (simp add: quoted_token_def byte_at_def)

lemma mm_token_name: "mm_token [quoted_token m] = quoted_token m"
  by (simp add: mm_token_def)

lemma mm_token_source: "mm_token [quoted_token rp, ''.'', quoted_token m] = quoted_token m"
  by (simp add: mm_token_def eval_nat_numeral)

lemma getMeasurement_name: "getMeasurement [quoted_token m] kw = Some m"
  by (simp add: getMeasurement_def mm_token_name)

lemma getMeasurement_source: "getMeasurement [quoted_token rp, ''.'', quoted_token m] kw = Some m"
  by (simp add: getMeasurement_def mm_token_source)

lemma not_a_subquery_token:
  assumes "list_all (\<lambda>t. hd t \<noteq> CHR ''('') ts"
  shows "\<not> (is_subquery m \<and> m \<in> set ts)"
  using assms by (auto simp: is_subquery_def list_all_iff)

lemma lower_keywords:
  "ToLower ''select'' = ''select''" "ToLower ''*'' = ''*''" "ToLower ''from'' = ''from''"
  "ToLower ''drop'' = ''drop''" "ToLower ''measurement'' = ''measurement''"
  "ToLower ''show'' = ''show''" "ToLower ''tag'' = ''tag''" "ToLower ''field'' = ''field''" "ToLower ''keys'' = ''keys''"
  by code_simp+

lemma GetMeasurement_at:
  assumes "GetIdentifierFromTokens ts [''from'', ''measurement''] getMeasurement = Some (Inr m)"
    and "list_all (\<lambda>t. hd t \<noteq> CHR ''('') ts"
  shows "GetMeasurementFromTokens ts = Some (Inr m)"
  using not_a_subquery_token [OF assms(2), of m] assms(1) by (subst GetMeasurementFromTokens.simps) auto

lemma plain_words:
  "list_all plain_word [''select'', ''*'', ''from'']" "list_all plain_word [''drop'', ''measurement'']"
  "list_all plain_word [''show'', ''tag'', ''keys'', ''from'']" "list_all plain_word [''show'', ''field'', ''keys'', ''from'']"
  by (simp_all add: plain_word_def)

lemma statement_heads: "CHR ''s'' \<notin> set space_heads" "CHR ''d'' \<notin> set space_heads"
  by (simp_all add: space_heads_def unicode_spaces_def)

lemma hd_quoted_token [simp]: "hd (quoted_token s) = CHR ''\"''"
  by (simp add: quoted_token_def)

lemma measurement_tokens:
  "GetMeasurementFromTokens [''select'', ''*'', ''from'', quoted_token m] = Some (Inr m)"
  "GetMeasurementFromTokens [''select'', ''*'', ''from'', quoted_token rp, ''.'', quoted_token m] = Some (Inr m)"
  "GetMeasurementFromTokens [''drop'', ''measurement'', quoted_token m] = Some (Inr m)"
  "GetMeasurementFromTokens [''show'', ''tag'', ''keys'', ''from'', quoted_token rp, ''.'', quoted_token m] = Some (Inr m)"
  "GetMeasurementFromTokens [''show'', ''field'', ''keys'', ''from'', quoted_token rp, ''.'', quoted_token m] = Some (Inr m)"
  by (rule GetMeasurement_at; simp add: lower_keywords getMeasurement_name getMeasurement_source)+

text \<open>C38: a measurement is found under its own name. In every statement that the proxy and the
  transfer build around a quoted, escaped measurement (\<^verbatim>\<open>select\<close> with or without a retention
  policy, \<^verbatim>\<open>drop measurement\<close>, \<^verbatim>\<open>show tag keys\<close> and \<^verbatim>\<open>show field keys\<close>) the tokenizer and the
  identifier lookup find exactly that measurement, whatever bytes but a backslash it holds:
  quotes, spaces, dots, parentheses or keywords in the name do not mislead them.\<close>

theorem measurement_found_in_statements:
  assumes "CHR 0x5C \<notin> set rp" "CHR 0x5C \<notin> set m"
  shows "map GetMeasurementFromInfluxQL
           [''select * from '' @ quoted m, ''select * from '' @ quoted_source rp m,
            ''drop measurement \"'' @ EscapeIdentifier m @ ''\"'',
            ''show tag keys from '' @ quoted_source rp m, ''show field keys from '' @ quoted_source rp m] =
         replicate 5 (Some (Inr m))"
proof -
  note n = ScanTokens_name [OF _ _ assms(2)] and s = ScanTokens_source [OF _ _ assms]
  have "GetMeasurementFromInfluxQL (''select * from '' @ quoted m) = Some (Inr m)"
    using n [of "''select''" "[''*'', ''from'']"] plain_words statement_heads measurement_tokens(1)
    by (simp add: GetMeasurementFromInfluxQL_def)
  moreover have "GetMeasurementFromInfluxQL (''select * from '' @ quoted_source rp m) = Some (Inr m)"
    using s [of "''select''" "[''*'', ''from'']"] plain_words statement_heads measurement_tokens(2)
    by (simp add: GetMeasurementFromInfluxQL_def)
  moreover have "GetMeasurementFromInfluxQL (''drop measurement \"'' @ EscapeIdentifier m @ ''\"'') = Some (Inr m)"
    using n [of "''drop''" "[''measurement'']"] plain_words statement_heads measurement_tokens(3)
    by (simp add: GetMeasurementFromInfluxQL_def quoted_def)
  moreover have "GetMeasurementFromInfluxQL (''show tag keys from '' @ quoted_source rp m) = Some (Inr m)"
    using s [of "''show''" "[''tag'', ''keys'', ''from'']"] plain_words statement_heads measurement_tokens(4)
    by (simp add: GetMeasurementFromInfluxQL_def)
  moreover have "GetMeasurementFromInfluxQL (''show field keys from '' @ quoted_source rp m) = Some (Inr m)"
    using s [of "''show''" "[''field'', ''keys'', ''from'']"] plain_words statement_heads measurement_tokens(5)
    by (simp add: GetMeasurementFromInfluxQL_def)
  ultimately show ?thesis by (simp add: eval_nat_numeral)
qed

theorem measurement_found_in_statements_witness:
  "GetMeasurementFromInfluxQL (''select * from '' @ quoted ''a \"b\".(select'') = Some (Inr ''a \"b\".(select'')"
  using measurement_found_in_statements [of "''autogen''" "''a \"b\".(select''"] by (simp add: eval_nat_numeral)

end
