(* ===== verification/Proxy.thy ===== *)
theory Proxy
  imports Circle Identifiers
begin

text \<open>
  The proxy itself, \<^verbatim>\<open>backend/proxy.go\<close>: its circles, the routing of a key to one backend of
  every circle, and the write path from a request body to the channels of the backends. (The
  query path is in the theories of the executor and of Flux.) A backend pointer is the pair of
  its circle's index and its own. What comes from outside is in \<open>write_env\<close>: the consistent
  hash, the precision multiplier of the client library, the global \<^verbatim>\<open>HashKeyMeasureOnly\<close>; and
  the clock, by the number of the line. A full channel makes the sender wait; the points arrive
  in the order sent, which is what the model keeps. A panic is \<open>None\<close>.
\<close>

section \<open>Definitions\<close>

record Proxy =
  ip_Circles :: "Circle list"
  ip_dbSet :: Set

type_synonym be_ptr = "nat \<times> nat"

record write_env =
  we_lookup :: router
  we_measureOnly :: bool
  we_multiplier :: "string \<Rightarrow> 64 word"

fun new_circles ::
    "(BackendConfig \<Rightarrow> FileBackend \<times> error option) \<Rightarrow> ProxyConfig \<Rightarrow> nat \<Rightarrow> CircleConfig list \<Rightarrow> Circle list option" where
  "new_circles opened cfg idx [] = Some []"
| "new_circles opened cfg idx (c # cs) =
     do { ic \<leftarrow> NewCircle opened c cfg idx;
          ics \<leftarrow> new_circles opened cfg (Suc idx) cs;
          Some (ic # ics) }"

text \<open>\<open>mkdir\<close> is what the system says of the data directory and of its creation; a failure ends the
  program. The result comes with the new value of the global \<^verbatim>\<open>HashKeyMeasureOnly\<close>.\<close>

definition NewProxy ::
    "stat \<times> error option \<Rightarrow> (BackendConfig \<Rightarrow> FileBackend \<times> error option) \<Rightarrow> ProxyConfig \<Rightarrow> bool \<Rightarrow> (Proxy \<times> bool) option" where
  "NewProxy mkdir opened cfg measureOnly =
     (if MakeDir (fst mkdir) (snd mkdir) \<noteq> None then None
      else do { circles \<leftarrow> new_circles opened cfg 0 (pc_Circles cfg);
                Some (\<lparr>ip_Circles = circles, ip_dbSet = foldl Add (NewSet []) (pc_DBList cfg)\<rparr>,
                      pc_HashKeyMeasureOnly cfg \<or> measureOnly) })"

subsection \<open>Backends of a key\<close>

fun circle_backends :: "router \<Rightarrow> string \<Rightarrow> nat \<Rightarrow> Circle list \<Rightarrow> Circle list \<times> be_ptr option list" where
  "circle_backends lookup key i [] = ([], [])"
| "circle_backends lookup key i (ic # ics) =
     (let (ic', be) = GetBackend lookup ic key;
          (ics', bes) = circle_backends lookup key (Suc i) ics
      in (ic' # ics', map_option (Pair i) be # bes))"

definition GetBackends :: "router \<Rightarrow> Proxy \<Rightarrow> string \<Rightarrow> Proxy \<times> be_ptr option list" where
  "GetBackends lookup ip key =
     (let (ics, bes) = circle_backends lookup key 0 (ip_Circles ip) in (ip\<lparr>ip_Circles := ics\<rparr>, bes))"

definition GetAllBackends :: "Proxy \<Rightarrow> be_ptr list" where
  "GetAllBackends ip =
     concat (map (\<lambda>(i, ic). map (Pair i) [0..<length (ic_Backends ic)])
                 (zip [0..<length (ip_Circles ip)] (ip_Circles ip)))"

definition get_be :: "Proxy \<Rightarrow> be_ptr \<Rightarrow> Backend" where
  "get_be ip p = ic_Backends (ip_Circles ip ! fst p) ! snd p"

definition set_be :: "Proxy \<Rightarrow> be_ptr \<Rightarrow> Backend \<Rightarrow> Proxy" where
  "set_be ip p be =
     (let ic = ip_Circles ip ! fst p
      in ip\<lparr>ip_Circles := (ip_Circles ip)[fst p := ic\<lparr>ic_Backends := (ic_Backends ic)[snd p := be]\<rparr>]\<rparr>)"

definition IsForbiddenDB :: "Proxy \<Rightarrow> string \<Rightarrow> bool" where
  "IsForbiddenDB ip db \<longleftrightarrow> ip_dbSet ip \<noteq> [] \<and> \<not> Has (ip_dbSet ip) db"

fun ip_health ::
    "(Backend \<Rightarrow> http_env) \<Rightarrow> router \<Rightarrow> bool \<Rightarrow> bool \<Rightarrow> Circle list \<Rightarrow> (Circle list \<times> CircleHealth list) option" where
  "ip_health envs lookup mo stats [] = Some ([], [])"
| "ip_health envs lookup mo stats (ic # ics) =
     do { (ic', h) \<leftarrow> ic_GetHealth envs lookup mo ic stats;
          (ics', hs) \<leftarrow> ip_health envs lookup mo stats ics;
          Some (ic' # ics', h # hs) }"

definition ip_GetHealth ::
    "(Backend \<Rightarrow> http_env) \<Rightarrow> router \<Rightarrow> bool \<Rightarrow> Proxy \<Rightarrow> bool \<Rightarrow> (Proxy \<times> CircleHealth list) option" where
  "ip_GetHealth envs lookup mo ip stats =
     do { (ics, hs) \<leftarrow> ip_health envs lookup mo stats (ip_Circles ip);
          Some (ip\<lparr>ip_Circles := ics\<rparr>, hs) }"

definition ip_Close :: "Proxy \<Rightarrow> Proxy" where
  "ip_Close ip = ip\<lparr>ip_Circles := map ic_Close (ip_Circles ip)\<rparr>"

subsection \<open>Writing\<close>

text \<open>The loop over the backends of a point: the error is that of the last backend.\<close>

fun write_all :: "be_ptr option list \<Rightarrow> LinePoint \<Rightarrow> error option \<Rightarrow> Proxy \<Rightarrow> (Proxy \<times> error option) option" where
  "write_all [] point err ip = Some (ip, err)"
| "write_all (be # bes) point err ip =
     (case be of
        None \<Rightarrow> None
      | Some p \<Rightarrow>
          let (ib, err') = WritePoint (get_be ip p) point in write_all bes point err' (set_be ip p ib))"

definition WriteRow ::
    "write_env \<Rightarrow> int \<Rightarrow> Proxy \<Rightarrow> bytes \<Rightarrow> string \<Rightarrow> string \<Rightarrow> string \<Rightarrow> Proxy option" where
  "WriteRow env now ip line db rp precision =
     (let nanoLine = AppendNano (we_multiplier env) now line precision in
      case ScanKey nanoLine of
        None \<Rightarrow> None
      | Some (Inl e) \<Rightarrow> Some ip
      | Some (Inr meas) \<Rightarrow>
          do { rest \<leftarrow> slice_from nanoLine (length meas);
               valid \<leftarrow> RapidCheck rest;
               if \<not> valid then Some ip
               else
                 let (ip', backends) = GetBackends (we_lookup env) ip (GetKey (we_measureOnly env) db meas)
                 in if backends = [] then Some ip'
                    else map_option fst (write_all backends
                           \<lparr>lp_db = db, lp_rp = rp, lp_line = nanoLine\<rparr> None ip') })"

text \<open>What \<^verbatim>\<open>Write\<close> takes out of a block: nothing for a blank one or a comment.\<close>

definition row_of_block :: "bytes \<Rightarrow> bytes option" where
  "row_of_block block =
     (if block = [] then None
      else let start = SkipWhitespace block 0 in
        if length block \<le> start \<or> block ! start = CHR ''#'' then None
        else let block = (if last block = CHR 0x0A then butlast block else block)
             in Some (drop start block))"

lemma ScanLine_advance:
  "ScanLine p pos = Some (i, block) \<Longrightarrow> pos \<le> i \<and> i \<le> length p \<and> block = take (i - pos) (drop pos p)"
  by (auto simp: ScanLine_def Prelude.slice_def Let_def bind_eq_Some_conv split: if_splits)

function write_loop ::
    "write_env \<Rightarrow> (nat \<Rightarrow> int) \<Rightarrow> bytes \<Rightarrow> string \<Rightarrow> string \<Rightarrow> string \<Rightarrow> nat \<Rightarrow> nat \<Rightarrow> Proxy \<Rightarrow> Proxy option" where
  "write_loop env clock p db rp precision pos n ip =
     (if pos < length p then
        (case ScanLine p pos of
           None \<Rightarrow> None
         | Some (pos', block) \<Rightarrow>
             (case row_of_block block of
                None \<Rightarrow> write_loop env clock p db rp precision (pos' + 1) n ip
              | Some line \<Rightarrow>
                  (case WriteRow env (clock n) ip line db rp precision of
                     None \<Rightarrow> None
                   | Some ip' \<Rightarrow> write_loop env clock p db rp precision (pos' + 1) (Suc n) ip')))
      else Some ip)"
  by pat_completeness auto
termination
  by (relation "measure (\<lambda>(env, clock, p, db, rp, precision, pos, n, ip). length p - pos)")
    (auto dest: ScanLine_advance)

declare write_loop.simps [simp del]

definition ip_Write ::
    "write_env \<Rightarrow> (nat \<Rightarrow> int) \<Rightarrow> Proxy \<Rightarrow> bytes \<Rightarrow> string \<Rightarrow> string \<Rightarrow> string \<Rightarrow> Proxy option" where
  "ip_Write env clock ip p db rp precision = write_loop env clock p db rp precision 0 0 ip"

text \<open>A \<^verbatim>\<open>models.Point\<close> is its name and its line, \<^verbatim>\<open>pt.Name()\<close> and \<^verbatim>\<open>pt.String()\<close>.\<close>

fun WritePoints ::
    "write_env \<Rightarrow> (string \<times> bytes) list \<Rightarrow> string \<Rightarrow> string \<Rightarrow> error option \<Rightarrow> Proxy \<Rightarrow> (Proxy \<times> error option) option" where
  "WritePoints env [] db rp err ip = Some (ip, err)"
| "WritePoints env ((meas, line) # pts) db rp err ip =
     (let (ip', backends) = GetBackends (we_lookup env) ip (GetKey (we_measureOnly env) db meas) in
      if backends = [] then WritePoints env pts db rp (Some ErrEmptyBackends) ip'
      else
        case write_all backends \<lparr>lp_db = db, lp_rp = rp, lp_line = line\<rparr> err ip' of
          None \<Rightarrow> None
        | Some (ip'', err') \<Rightarrow> WritePoints env pts db rp err' ip'')"

section \<open>Routing invariant\<close>

text \<open>Every circle has a coherent cache and routes every key to one of its backends.\<close>

definition circle_routes :: "router \<Rightarrow> Circle \<Rightarrow> bool" where
  "circle_routes lookup ic \<longleftrightarrow>
     cache_ok lookup ic \<and> (\<forall>key. \<exists>i < length (ic_Backends ic). route lookup ic key = Some i)"

definition proxy_inv :: "router \<Rightarrow> Proxy \<Rightarrow> bool" where
  "proxy_inv lookup ip \<longleftrightarrow> list_all (circle_routes lookup) (ip_Circles ip)"

fun targets :: "router \<Rightarrow> string \<Rightarrow> nat \<Rightarrow> Circle list \<Rightarrow> be_ptr list" where
  "targets lookup key i [] = []"
| "targets lookup key i (ic # ics) = (i, the (route lookup ic key)) # targets lookup key (Suc i) ics"

lemma same_routing_routes: "same_routing lookup ic ic' \<Longrightarrow> circle_routes lookup ic \<Longrightarrow> circle_routes lookup ic'"
  by (simp add: same_routing_def circle_routes_def)

lemma same_routing_refl: "cache_ok lookup ic \<Longrightarrow> same_routing lookup ic ic"
  by (simp add: same_routing_def)

lemma circle_backends_spec:
  assumes "list_all (circle_routes lookup) ics"
  shows "\<exists>ics'. circle_backends lookup key i ics = (ics', map Some (targets lookup key i ics)) \<and>
           list_all2 (same_routing lookup) ics ics'"
  using assms
proof (induction ics arbitrary: i)
  case (Cons ic ics)
  from Cons.prems have ic: "cache_ok lookup ic" and r: "\<exists>j. route lookup ic key = Some j"
    by (auto simp: circle_routes_def)
  obtain ic' be where G: "GetBackend lookup ic key = (ic', be)" by (cases "GetBackend lookup ic key")
  with circle_cache.lookup_val [OF ic, of key] r have "be = Some (the (route lookup ic key))" by auto
  moreover from G have ic': "ic' = fst (GetBackend lookup ic key)" by simp
  have "same_routing lookup ic ic'"
    unfolding ic' using circle_cache.lookup_coherent [OF ic] by (simp add: same_routing_def)
  moreover from Cons.IH [of "Suc i"] Cons.prems obtain ics' where
    "circle_backends lookup key (Suc i) ics = (ics', map Some (targets lookup key (Suc i) ics))"
    "list_all2 (same_routing lookup) ics ics'" by auto
  ultimately show ?case using G by simp
qed simp

lemma length_targets [simp]: "length (targets lookup key i ics) = length ics"
  by (induction ics arbitrary: i) auto

lemma targets_nth:
  "j < length ics \<Longrightarrow> targets lookup key i ics ! j = (i + j, the (route lookup (ics ! j) key))"
  by (induction ics arbitrary: i j) (auto simp: nth_Cons' split: if_splits)

lemma GetBackends_spec:
  assumes "proxy_inv lookup ip"
  shows "\<exists>ics. GetBackends lookup ip key = (ip\<lparr>ip_Circles := ics\<rparr>, map Some (targets lookup key 0 (ip_Circles ip))) \<and>
           list_all2 (same_routing lookup) (ip_Circles ip) ics"
  using circle_backends_spec [of lookup "ip_Circles ip" key 0] assms
  by (auto simp: GetBackends_def proxy_inv_def)

lemma same_routing_proxy_inv:
  assumes "list_all2 (same_routing lookup) (ip_Circles ip) ics" "proxy_inv lookup ip"
  shows "proxy_inv lookup (ip\<lparr>ip_Circles := ics\<rparr>)"
  using assms by (auto simp: proxy_inv_def list_all_length list_all2_conv_all_nth) (metis same_routing_routes)

definition valid_ptr :: "Proxy \<Rightarrow> be_ptr \<Rightarrow> bool" where
  "valid_ptr ip p \<longleftrightarrow> fst p < length (ip_Circles ip) \<and> snd p < length (ic_Backends (ip_Circles ip ! fst p))"

lemma get_set_be [simp]: "valid_ptr ip p \<Longrightarrow> get_be (set_be ip p be) q = (if q = p then be else get_be ip q)"
  by (cases p; cases q) (auto simp: valid_ptr_def get_be_def set_be_def Let_def nth_list_update)

lemma valid_set_be [simp]: "valid_ptr (set_be ip p be) q \<longleftrightarrow> valid_ptr ip q"
  by (cases "fst p < length (ip_Circles ip)")
    (auto simp: valid_ptr_def set_be_def Let_def nth_list_update)

lemma circle_routes_set [simp]:
  "circle_routes lookup (ic\<lparr>ic_Backends := (ic_Backends ic)[i := be]\<rparr>) \<longleftrightarrow> circle_routes lookup ic"
proof -
  have "route lookup (ic\<lparr>ic_Backends := bs\<rparr>) = route lookup ic" for bs
    by (intro ext) (simp add: route_def)
  then show ?thesis by (simp add: circle_routes_def cache_ok_def)
qed

lemma proxy_inv_set_be: "proxy_inv lookup ip \<Longrightarrow> proxy_inv lookup (set_be ip p be)"
  by (cases "fst p < length (ip_Circles ip)")
    (auto simp: proxy_inv_def set_be_def Let_def list_all_length nth_list_update)

lemma targets_valid:
  "proxy_inv lookup ip \<Longrightarrow> p \<in> set (targets lookup key 0 (ip_Circles ip)) \<Longrightarrow> valid_ptr ip p"
  by (auto simp: proxy_inv_def list_all_length circle_routes_def valid_ptr_def in_set_conv_nth targets_nth)
    (metis option.sel)

lemma targets_distinct: "distinct (targets lookup key i ics)"
  by (auto simp: distinct_conv_nth targets_nth)

section \<open>Writing a row\<close>

lemma write_all_spec:
  assumes "\<forall>p \<in> set ps. valid_ptr ip p" "distinct ps"
  shows "\<exists>ip' err'. write_all (map Some ps) point err ip = Some (ip', err') \<and>
    (\<forall>q. get_be ip' q = (if q \<in> set ps then fst (WritePoint (get_be ip q) point) else get_be ip q)) \<and>
    (\<forall>q. valid_ptr ip' q \<longleftrightarrow> valid_ptr ip q) \<and> (\<forall>lookup. proxy_inv lookup ip \<longrightarrow> proxy_inv lookup ip')"
  using assms
proof (induction ps arbitrary: ip err)
  case (Cons p ps)
  obtain ib e where w: "WritePoint (get_be ip p) point = (ib, e)" by (cases "WritePoint (get_be ip p) point")
  from Cons.IH [of "set_be ip p ib" e] Cons.prems obtain ip' err' where
    "write_all (map Some ps) point e (set_be ip p ib) = Some (ip', err')"
    "\<forall>q. get_be ip' q = (if q \<in> set ps then fst (WritePoint (get_be (set_be ip p ib) q) point) else get_be (set_be ip p ib) q)"
    "\<forall>q. valid_ptr ip' q \<longleftrightarrow> valid_ptr ip q" "\<forall>lookup. proxy_inv lookup (set_be ip p ib) \<longrightarrow> proxy_inv lookup ip'"
    by auto
  with w Cons.prems proxy_inv_set_be show ?case by auto
qed simp

text \<open>The body of \<^verbatim>\<open>WriteRow\<close> behind the checks.\<close>

lemma write_point_to_targets:
  assumes "proxy_inv lookup ip" "GetBackends lookup ip key = (ip1, bes)"
  shows "\<exists>ip' err'. write_all bes point err ip1 = Some (ip', err') \<and> proxy_inv lookup ip' \<and>
    (\<forall>q. valid_ptr ip' q \<longleftrightarrow> valid_ptr ip q) \<and>
    (\<forall>q. valid_ptr ip q \<longrightarrow> get_be ip' q =
       (if q \<in> set (targets lookup key 0 (ip_Circles ip)) then fst (WritePoint (get_be ip q) point) else get_be ip q))"
proof -
  from GetBackends_spec [OF assms(1), of key] assms(2) obtain ics where
    g: "ip1 = ip\<lparr>ip_Circles := ics\<rparr>" "bes = map Some (targets lookup key 0 (ip_Circles ip))"
      "list_all2 (same_routing lookup) (ip_Circles ip) ics" by auto
  have inv1: "proxy_inv lookup ip1" unfolding g(1) by (rule same_routing_proxy_inv [OF g(3) assms(1)])
  have v1: "valid_ptr ip1 q \<longleftrightarrow> valid_ptr ip q" for q
    using g(3) by (auto simp: g(1) valid_ptr_def list_all2_conv_all_nth same_routing_def)
  have b1: "get_be ip1 q = get_be ip q" if "valid_ptr ip q" for q
    using g(3) that by (auto simp: g(1) valid_ptr_def get_be_def list_all2_conv_all_nth same_routing_def)
  have "\<forall>p \<in> set (targets lookup key 0 (ip_Circles ip)). valid_ptr ip1 p"
    using targets_valid [OF assms(1)] v1 by blast
  from write_all_spec [OF this targets_distinct, of point err] g(2) inv1 v1 b1
  show ?thesis by auto
qed

lemma row_checks:
  fixes env now line precision
  defines "nanoLine \<equiv> AppendNano (we_multiplier env) now line precision"
  assumes "ScanKey nanoLine = Some (Inr meas)"
  shows "length meas \<le> length nanoLine" "\<exists>b. RapidCheck (drop (length meas) nanoLine) = Some b"
proof -
  show "length meas \<le> length nanoLine"
    using scan_key_length [of nanoLine "[]" meas] assms(2) by (simp add: ScanKey_def)
  show "\<exists>b. RapidCheck (drop (length meas) nanoLine) = Some b"
    using stamped_line_scans [of "we_multiplier env" now line precision "length meas"] by (simp add: nanoLine_def)
qed

lemma WriteRow_total:
  assumes "proxy_inv (we_lookup env) ip"
  shows "\<exists>ip'. WriteRow env now ip line db rp precision = Some ip' \<and> proxy_inv (we_lookup env) ip'"
proof -
  let ?n = "AppendNano (we_multiplier env) now line precision"
  consider (panic) "ScanKey ?n = None" | (err) e where "ScanKey ?n = Some (Inl e)"
    | (meas) meas where "ScanKey ?n = Some (Inr meas)"
    by (metis option.exhaust sum.exhaust)
  then show ?thesis
  proof cases
    case panic
    then show ?thesis using stamped_line_scans [of "we_multiplier env" now line precision 0] by simp
  next
    case err
    then show ?thesis using assms by (simp add: WriteRow_def Let_def)
  next
    case meas
    note c = row_checks [OF meas]
    from c(2) obtain b where b: "RapidCheck (drop (length meas) ?n) = Some b" by blast
    obtain ip1 bes where g: "GetBackends (we_lookup env) ip (GetKey (we_measureOnly env) db meas) = (ip1, bes)"
      by (cases "GetBackends (we_lookup env) ip (GetKey (we_measureOnly env) db meas)")
    have inv1: "proxy_inv (we_lookup env) ip1"
      using GetBackends_spec [OF assms, of "GetKey (we_measureOnly env) db meas"] g same_routing_proxy_inv [OF _ assms]
      by auto
    from write_point_to_targets [OF assms g, of "\<lparr>lp_db = db, lp_rp = rp, lp_line = ?n\<rparr>" None] inv1 assms
    show ?thesis using meas c(1) b g by (auto simp: WriteRow_def Let_def)
  qed
qed

section \<open>A new proxy\<close>

lemma new_circles_routes:
  assumes "new_circles opened cfg idx cs = Some ics" "picks_member lookup"
    and "list_all (\<lambda>c. cc_Backends c \<noteq> []) cs"
  shows "list_all (circle_routes lookup) ics"
  using assms
proof (induction cs arbitrary: idx ics)
  case (Cons c cs)
  from Cons.prems(1) obtain ic ics' where ic: "NewCircle opened c cfg idx = Some ic"
    "new_circles opened cfg (Suc idx) cs = Some ics'" "ics = ic # ics'"
    by (auto simp: bind_eq_Some_conv)
  have inv: "circle_inv (pc_HashKey cfg) (cc_Backends c) ic" by (rule NewCircle_inv [OF ic(1)])
  from route_in_range [OF inv] Cons.prems inv have "circle_routes lookup ic"
    by (simp add: circle_routes_def cache_ok_def circle_inv_def)
  with Cons.IH [OF ic(2)] Cons.prems ic(3) show ?case by simp
qed simp

lemma config_accepted:
  assumes "checkConfig cfg = None"
  shows "pc_Circles cfg \<noteq> []" "list_all (\<lambda>c. cc_Backends c \<noteq> []) (pc_Circles cfg)"
    "distinct (backend_names (pc_Circles cfg))"
proof -
  from assms obtain s where "check_circles (pc_Circles cfg) (NewSet []) = Inr s" and ne: "pc_Circles cfg \<noteq> []"
    by (auto simp: checkConfig_def split: if_splits sum.splits)
  with check_circles_Inr [of "pc_Circles cfg" "NewSet []"]
  show "list_all (\<lambda>c. cc_Backends c \<noteq> []) (pc_Circles cfg)" "distinct (backend_names (pc_Circles cfg))"
    by auto
  show "pc_Circles cfg \<noteq> []" by (rule ne)
qed

lemma NewProxy_routes:
  assumes "NewProxy mkdir opened cfg mo = Some (ip, mo')" "checkConfig cfg = None" "picks_member lookup"
  shows "proxy_inv lookup ip"
proof -
  from assms(1) have "new_circles opened cfg 0 (pc_Circles cfg) = Some (ip_Circles ip)"
    by (auto simp: NewProxy_def bind_eq_Some_conv split: if_splits)
  from new_circles_routes [OF this assms(3) config_accepted(2) [OF assms(2)]]
  show ?thesis by (simp add: proxy_inv_def)
qed

section \<open>The write path\<close>

lemma scan_line_bounds:
  "i \<le> length buf \<Longrightarrow> i \<le> scan_line buf i q f e c \<and> scan_line buf i q f e c \<le> length buf"
proof (induction "length buf - i" arbitrary: i q f e c rule: less_induct)
  case less
  show ?case
  proof (cases "i < length buf")
    case True
    have r1: "i \<le> scan_line buf (i + 1) q f e c \<and> scan_line buf (i + 1) q f e c \<le> length buf" for q f e c
      using less.hyps [of "i + 1" q f e c] True by force
    have r2: "i + 2 < length buf \<Longrightarrow> i \<le> scan_line buf (i + 2) q f e c \<and> scan_line buf (i + 2) q f e c \<le> length buf" for q f e c
      using less.hyps [of "i + 2" q f e c] by force
    show ?thesis
      using True r1 r2 by (subst (1 2) scan_line.simps) (simp add: Let_def)
  qed (use less.prems in \<open>subst (1 2) scan_line.simps, simp\<close>)
qed

lemma write_loop_total:
  assumes "proxy_inv (we_lookup env) ip"
  shows "\<exists>ip'. write_loop env clock p db rp precision pos n ip = Some ip' \<and> proxy_inv (we_lookup env) ip'"
  using assms
proof (induction "length p - pos" arbitrary: pos n ip rule: less_induct)
  case less
  show ?case
  proof (cases "pos < length p")
    case True
    have le: "pos \<le> scan_line p pos False False 0 0" "scan_line p pos False False 0 0 \<le> length p"
      using scan_line_bounds [of pos p False False 0 0] True by auto
    then obtain i block where scan: "ScanLine p pos = Some (i, block)" "pos \<le> i"
      by (simp add: ScanLine_def Prelude.slice_def Let_def)
    then have rec: "\<exists>ip'. write_loop env clock p db rp precision (i + 1) n ip = Some ip' \<and> proxy_inv (we_lookup env) ip'"
      if "proxy_inv (we_lookup env) ip" for n ip
      using less.hyps [of "i + 1"] True that by simp
    show ?thesis
    proof (cases "row_of_block block")
      case None
      with True scan(1) rec [OF less.prems, of n] show ?thesis by (subst write_loop.simps) simp
    next
      case (Some line)
      from WriteRow_total [OF less.prems] obtain ip1 where
        "WriteRow env (clock n) ip line db rp precision = Some ip1" "proxy_inv (we_lookup env) ip1" by blast
      with True scan(1) Some rec [of ip1 "Suc n"] show ?thesis by (subst write_loop.simps) simp
    qed
  next
    case False
    with less.prems show ?thesis by (subst write_loop.simps) simp
  qed
qed

text \<open>A sequence of write requests.\<close>

fun write_bodies :: "write_env \<Rightarrow> (bytes \<times> string \<times> string \<times> string) list \<Rightarrow> (nat \<Rightarrow> int) \<Rightarrow> Proxy \<Rightarrow> Proxy option" where
  "write_bodies env [] clock ip = Some ip"
| "write_bodies env ((p, db, rp, precision) # bs) clock ip =
     do { ip' \<leftarrow> ip_Write env clock ip p db rp precision; write_bodies env bs clock ip' }"

lemma write_bodies_total:
  "proxy_inv (we_lookup env) ip \<Longrightarrow>
     \<exists>ip'. write_bodies env bs clock ip = Some ip' \<and> proxy_inv (we_lookup env) ip'"
proof (induction bs arbitrary: ip)
  case (Cons b bs)
  obtain p db rp precision where b: "b = (p, db, rp, precision)" by (cases b) auto
  from write_loop_total [OF Cons.prems, of clock p db rp precision 0 0] obtain ip1 where
    "ip_Write env clock ip p db rp precision = Some ip1" "proxy_inv (we_lookup env) ip1"
    by (auto simp: ip_Write_def)
  with Cons.IH [of ip1] show ?case by (simp add: b)
qed simp

text \<open>No write request can bring the proxy down. With a configuration that the check
  accepts and a consistent hash that picks one of its members, a
  new proxy handles any sequence of request bodies, of any bytes, databases, retention
  policies and precisions: no index runs out of range, no nil backend is used and every loop
  ends.\<close>

theorem write_requests_safe:
  assumes "NewProxy mkdir opened cfg mo = Some (ip, mo')" "checkConfig cfg = None"
    and "picks_member (we_lookup env)"
  shows "write_bodies env bodies clock ip \<noteq> None"
  using write_bodies_total [OF NewProxy_routes [OF assms]] by blast

definition sample_px :: Proxy where
  "sample_px = \<lparr>ip_Circles = [sample_circle], ip_dbSet = []\<rparr>"

definition sample_we :: write_env where
  "sample_we = \<lparr>we_lookup = first_member, we_measureOnly = False, we_multiplier = (\<lambda>_. 1)\<rparr>"
lemma NewProxy_sample: "NewProxy (Exists, None) (\<lambda>_. (empty_backlog, None)) sample_pxcfg False = Some (sample_px, False)"
proof -
  have c: "pc_Circles sample_pxcfg = [hd (pc_Circles sample_config)]" "pc_DBList sample_pxcfg = []"
    "\<not> pc_HashKeyMeasureOnly sample_pxcfg"
    by (simp_all add: sample_pxcfg_def setDefault_def sample_config_def)
  show ?thesis
    by (simp add: NewProxy_def MakeDir_ok c sample_circle sample_px_def NewSet_def)
qed

lemma sample_pxcfg_ok: "checkConfig sample_pxcfg = None"
  by (simp add: checkConfig_def sample_pxcfg_def setDefault_def sample_config_def default_string_def)

lemma sample_px_inv: "proxy_inv first_member sample_px"
  by (rule NewProxy_routes [OF NewProxy_sample sample_pxcfg_ok picks_member_first])

theorem write_requests_safe_witness:
  "write_bodies sample_we [(''cpu v=1'', ''db'', '''', ''ns'')] (\<lambda>_. 7) sample_px \<noteq> None"
  by (rule write_requests_safe [OF NewProxy_sample sample_pxcfg_ok]) (simp add: sample_we_def picks_member_first)

subsection \<open>The lines of a body\<close>

lemma scan_line_plain:
  assumes "CHR 0x5C \<notin> set buf" "CHR ''\"'' \<notin> set buf" "i \<le> length buf"
  shows "scan_line buf i False f e c = i + length (takeWhile (\<lambda>c. c \<noteq> CHR 0x0A) (drop i buf))"
  using assms(3)
proof (induction "length buf - i" arbitrary: i f e c rule: less_induct)
  case less
  show ?case
  proof (cases "i < length buf")
    case True
    then have d: "drop i buf = buf ! i # drop (Suc i) buf" by (simp add: Cons_nth_drop_Suc)
    from True assms(1,2) have n: "buf ! i \<noteq> CHR 0x5C" "buf ! i \<noteq> CHR ''\"''" by (metis nth_mem)+
    have "scan_line buf (i + 1) False f' e' c' = i + 1 + length (takeWhile (\<lambda>c. c \<noteq> CHR 0x0A) (drop (i + 1) buf))" for f' e' c'
      using less.hyps [of "i + 1"] True by simp
    with True n show ?thesis by (subst scan_line.simps) (auto simp: d Let_def)
  qed (use less.prems in \<open>subst scan_line.simps, simp\<close>)
qed

definition ws :: "byte \<Rightarrow> bool" where
  "ws c \<longleftrightarrow> c = CHR '' '' \<or> c = CHR 0x09 \<or> c = CHR 0x00"

lemma SkipWhitespace_spec:
  "i \<le> length buf \<Longrightarrow> SkipWhitespace buf i = i + length (takeWhile ws (drop i buf))"
proof (induction buf i rule: SkipWhitespace.induct)
  case (1 buf i)
  show ?case
  proof (cases "i < length buf")
    case True
    then have d: "drop i buf = buf ! i # drop (Suc i) buf" by (simp add: Cons_nth_drop_Suc)
    show ?thesis
    proof (cases "ws (buf ! i)")
      case w: True
      then have "\<not> (buf ! i \<noteq> CHR '' '' \<and> buf ! i \<noteq> CHR 0x09 \<and> buf ! i \<noteq> CHR 0x00)" by (auto simp: ws_def)
      with "1.IH" [OF True this] True w show ?thesis by (subst SkipWhitespace.simps) (auto simp: d)
    next
      case False
      then have "buf ! i \<noteq> CHR '' '' \<and> buf ! i \<noteq> CHR 0x09 \<and> buf ! i \<noteq> CHR 0x00" by (simp add: ws_def)
      with True False show ?thesis by (subst SkipWhitespace.simps) (simp add: d)
    qed
  qed (use "1.prems" in \<open>subst SkipWhitespace.simps, simp\<close>)
qed

lemma row_of_block_plain:
  assumes "CHR 0x0A \<notin> set block"
  shows "row_of_block block =
    (let l = dropWhile ws block in if l = [] \<or> hd l = CHR ''#'' then None else Some l)"
proof (cases "block = []")
  case False
  let ?n = "length (takeWhile ws block)"
  from SkipWhitespace_spec [of 0 block] have s: "SkipWhitespace block 0 = ?n" by simp
  have d: "drop ?n block = dropWhile ws block" by (simp add: dropWhile_eq_drop)
  have "length block \<le> ?n \<longleftrightarrow> dropWhile ws block = []" by (metis d drop_eq_Nil)
  moreover have "block ! ?n = hd (dropWhile ws block)" if "dropWhile ws block \<noteq> []"
    using that d by (metis drop_eq_Nil hd_drop_conv_nth not_le)
  moreover have "last block \<noteq> CHR 0x0A" using assms False by (metis last_in_set)
  ultimately show ?thesis using False by (auto simp: row_of_block_def s d Let_def)
qed (simp add: row_of_block_def)

definition body_rows :: "bytes \<Rightarrow> bytes list" where
  "body_rows p = filter (\<lambda>l. l \<noteq> [] \<and> hd l \<noteq> CHR ''#'') (map (dropWhile ws) (Split p [CHR 0x0A]))"

fun write_rows ::
    "write_env \<Rightarrow> (nat \<Rightarrow> int) \<Rightarrow> string \<Rightarrow> string \<Rightarrow> string \<Rightarrow> nat \<Rightarrow> bytes list \<Rightarrow> Proxy \<Rightarrow> Proxy option" where
  "write_rows env clock db rp precision n [] ip = Some ip"
| "write_rows env clock db rp precision n (l # ls) ip =
     do { ip' \<leftarrow> WriteRow env (clock n) ip l db rp precision;
          write_rows env clock db rp precision (Suc n) ls ip' }"

lemma write_loop_rows:
  assumes "CHR 0x5C \<notin> set (d @ r)" "CHR ''\"'' \<notin> set (d @ r)"
  shows "write_loop env clock (d @ r) db rp precision (length d) n ip =
    write_rows env clock db rp precision n (body_rows r) ip"
  using assms
proof (induction "length r" arbitrary: d r n ip rule: less_induct)
  case less
  define a where "a = takeWhile (\<lambda>c. c \<noteq> CHR 0x0A) r"
  have a: "CHR 0x0A \<notin> set a" by (auto simp: a_def dest: set_takeWhileD)
  show ?case
  proof (cases "r = []")
    case True
    then show ?thesis by (subst write_loop.simps) (simp add: body_rows_def Split_def)
  next
    case r: False
    have scan: "ScanLine (d @ r) (length d) = Some (length d + length a, a)"
      using scan_line_plain [OF less.prems, of "length d" False 0 0]
        takeWhile_eq_take [of "\<lambda>c. c \<noteq> CHR 0x0A" r] length_takeWhile_le [of "\<lambda>c. c \<noteq> CHR 0x0A" r]
      by (simp add: ScanLine_def Prelude.slice_def a_def)
    obtain r' where r': "body_rows r = (case row_of_block a of None \<Rightarrow> [] | Some l \<Rightarrow> [l]) @ body_rows r'"
      and go: "\<And>n ip. write_loop env clock (d @ r) db rp precision (length d + length a + 1) n ip =
        write_rows env clock db rp precision n (body_rows r') ip"
    proof (cases "dropWhile (\<lambda>c. c \<noteq> CHR 0x0A) r")
      case Nil
      then have ra: "r = a" by (metis a_def append_Nil2 takeWhile_dropWhile_id)
      have "body_rows r = (case row_of_block a of None \<Rightarrow> [] | Some l \<Rightarrow> [l]) @ body_rows []"
        using a by (simp add: ra body_rows_def Split_def Split_aux_last row_of_block_plain Let_def)
      moreover have "write_loop env clock (d @ r) db rp precision (length d + length a + 1) n ip =
          write_rows env clock db rp precision n (body_rows []) ip" for n ip
        by (subst write_loop.simps) (simp add: ra body_rows_def Split_def)
      ultimately show ?thesis by (rule that)
    next
      case (Cons c b)
      from hd_dropWhile [of "\<lambda>c. c \<noteq> CHR 0x0A" r] Cons have "c = CHR 0x0A" by simp
      with Cons have rb: "r = a @ CHR 0x0A # b" by (metis a_def takeWhile_dropWhile_id)
      have "body_rows r = (case row_of_block a of None \<Rightarrow> [] | Some l \<Rightarrow> [l]) @ body_rows b"
        using a by (simp add: rb body_rows_def Split_def Split_aux_first row_of_block_plain Let_def)
      moreover have "write_loop env clock (d @ r) db rp precision (length d + length a + 1) n ip =
          write_rows env clock db rp precision n (body_rows b) ip" for n ip
        using less.hyps [of b "d @ a @ [CHR 0x0A]" n ip] less.prems by (simp add: rb)
      ultimately show ?thesis by (rule that)
    qed
    have "write_loop env clock (d @ r) db rp precision (length d) n ip =
      (case row_of_block a of
         None \<Rightarrow> write_loop env clock (d @ r) db rp precision (length d + length a + 1) n ip
       | Some l \<Rightarrow> (case WriteRow env (clock n) ip l db rp precision of None \<Rightarrow> None
           | Some ip' \<Rightarrow> write_loop env clock (d @ r) db rp precision (length d + length a + 1) (Suc n) ip'))"
      using r scan by (subst write_loop.simps) simp
    then show ?thesis unfolding go r' by (auto split: option.split)
  qed
qed

text \<open>C37: a request body is its lines. For a body without quotes and backslashes, \<^verbatim>\<open>Write\<close> writes
  the pieces between the newlines, stripped of leading blanks, in order, each under its own
  reading of the clock, and passes over the blank ones and the comments; the missing newline
  of a last line and empty lines make no difference.\<close>

theorem Write_writes_the_lines:
  assumes "CHR 0x5C \<notin> set p" "CHR ''\"'' \<notin> set p"
  shows "ip_Write env clock ip p db rp precision = write_rows env clock db rp precision 0 (body_rows p) ip"
  using write_loop_rows [of "[]" p] assms by (simp add: ip_Write_def)

theorem Write_writes_the_lines_witness:
  "ip_Write sample_we (\<lambda>_. 7) sample_px (''a v=1'' @ [CHR 0x0A, CHR 0x0A] @ ''# c'' @ CHR 0x0A # ''  b v=2'') ''db'' [] ''ns'' =
   write_rows sample_we (\<lambda>_. 7) ''db'' [] ''ns'' 0 [''a v=1'', ''b v=2''] sample_px"
proof -
  have "body_rows (''a v=1'' @ [CHR 0x0A, CHR 0x0A] @ ''# c'' @ CHR 0x0A # ''  b v=2'') = [''a v=1'', ''b v=2'']"
    by code_simp
  with Write_writes_the_lines [of "''a v=1'' @ [CHR 0x0A, CHR 0x0A] @ ''# c'' @ CHR 0x0A # ''  b v=2''"] show ?thesis by simp
qed

section \<open>Where a line goes\<close>

lemma WriteRow_spec:
  fixes env now line precision
  defines "nanoLine \<equiv> AppendNano (we_multiplier env) now line precision"
  assumes "proxy_inv (we_lookup env) ip" "ScanKey nanoLine = Some (Inr meas)"
    and "RapidCheck (drop (length meas) nanoLine) = Some valid"
  shows "\<exists>ip'. WriteRow env now ip line db rp precision = Some ip' \<and>
    (\<forall>q. valid_ptr ip q \<longrightarrow> get_be ip' q =
       (if valid \<and> q \<in> set (targets (we_lookup env) (GetKey (we_measureOnly env) db meas) 0 (ip_Circles ip))
        then fst (WritePoint (get_be ip q) \<lparr>lp_db = db, lp_rp = rp, lp_line = nanoLine\<rparr>) else get_be ip q))"
proof -
  let ?key = "GetKey (we_measureOnly env) db meas" and ?pt = "\<lparr>lp_db = db, lp_rp = rp, lp_line = nanoLine\<rparr>"
  have len: "slice_from nanoLine (length meas) = Some (drop (length meas) nanoLine)"
    using row_checks(1) [of env now line precision meas] assms(3) by (simp add: nanoLine_def)
  obtain ip1 bes where g: "GetBackends (we_lookup env) ip ?key = (ip1, bes)"
    by (cases "GetBackends (we_lookup env) ip ?key")
  show ?thesis
  proof (cases valid)
    case True
    show ?thesis
    proof (cases "bes = []")
      case e: True
      from GetBackends_spec [OF assms(2), of ?key] g e have "ip_Circles ip = []"
        by (metis length_0_conv length_map length_targets prod.inject)
      with e True len assms(3,4) g show ?thesis
        by (auto simp: WriteRow_def nanoLine_def Let_def valid_ptr_def)
    next
      case False
      from write_point_to_targets [OF assms(2) g, of ?pt None] obtain ip' err' where
        "write_all bes ?pt None ip1 = Some (ip', err')"
        "\<forall>q. valid_ptr ip q \<longrightarrow> get_be ip' q =
           (if q \<in> set (targets (we_lookup env) ?key 0 (ip_Circles ip)) then fst (WritePoint (get_be ip q) ?pt)
            else get_be ip q)" by blast
      with False True len assms(3,4) g show ?thesis
        by (auto simp: WriteRow_def nanoLine_def Let_def)
    qed
  qed (use len assms(3,4) in \<open>auto simp: WriteRow_def nanoLine_def Let_def\<close>)
qed

text \<open>C2: a line goes to one backend of every circle. \<^verbatim>\<open>WriteRow\<close> on a proxy whose circles route
  every key and whose backends run, with a line whose measurement is found: every circle has a
  backend, the one it routes the line's key to, that gets the stamped line as the last point of
  its channel if the shape check accepts the line; nothing else of that backend changes, and
  the other backends of the circle are as before. When the line is refused, all are as before.\<close>

theorem WriteRow_delivers:
  fixes env now line precision
  defines "nanoLine \<equiv> AppendNano (we_multiplier env) now line precision"
  assumes "proxy_inv (we_lookup env) ip" "ScanKey nanoLine = Some (Inr meas)"
    and "RapidCheck (drop (length meas) nanoLine) = Some valid"
    and "\<forall>q. valid_ptr ip q \<longrightarrow> ib_running (get_be ip q)"
  shows "\<exists>ip'. WriteRow env now ip line db rp precision = Some ip' \<and>
    (\<forall>i < length (ip_Circles ip). \<exists>j < length (ic_Backends (ip_Circles ip ! i)).
       route (we_lookup env) (ip_Circles ip ! i) (GetKey (we_measureOnly env) db meas) = Some j \<and>
       get_be ip' (i, j) = (get_be ip (i, j))\<lparr>ib_chWrite := ib_chWrite (get_be ip (i, j)) @
         (if valid then [\<lparr>lp_db = db, lp_rp = rp, lp_line = nanoLine\<rparr>] else [])\<rparr> \<and>
       (\<forall>j' < length (ic_Backends (ip_Circles ip ! i)). j' \<noteq> j \<longrightarrow> get_be ip' (i, j') = get_be ip (i, j')))"
proof -
  let ?key = "GetKey (we_measureOnly env) db meas" and ?pt = "\<lparr>lp_db = db, lp_rp = rp, lp_line = nanoLine\<rparr>"
  let ?ts = "targets (we_lookup env) ?key 0 (ip_Circles ip)"
  from WriteRow_spec [of env ip now line precision, OF assms(2-4) [unfolded nanoLine_def], of db rp]
  obtain ip' where w: "WriteRow env now ip line db rp precision = Some ip'"
    "\<And>q. valid_ptr ip q \<Longrightarrow> get_be ip' q = (if valid \<and> q \<in> set ?ts then fst (WritePoint (get_be ip q) ?pt) else get_be ip q)"
    by (auto simp: nanoLine_def)
  have "\<exists>j < length (ic_Backends ic). route (we_lookup env) ic ?key = Some j \<and>
      get_be ip' (i, j) = (get_be ip (i, j))\<lparr>ib_chWrite := ib_chWrite (get_be ip (i, j)) @ (if valid then [?pt] else [])\<rparr> \<and>
      (\<forall>j' < length (ic_Backends ic). j' \<noteq> j \<longrightarrow> get_be ip' (i, j') = get_be ip (i, j'))"
    if i: "i < length (ip_Circles ip)" and ic: "ic = ip_Circles ip ! i" for i ic
  proof -
    obtain j where j: "j < length (ic_Backends ic)" "route (we_lookup env) ic ?key = Some j"
      using assms(2) i unfolding proxy_inv_def circle_routes_def list_all_length ic by blast
    have mem: "(i, j') \<in> set ?ts \<longleftrightarrow> j' = j" for j'
      using i j(2) targets_nth [of _ "ip_Circles ip" "we_lookup env" ?key 0] unfolding ic
      by (auto simp: in_set_conv_nth)
    have v: "valid_ptr ip (i, j')" if "j' < length (ic_Backends ic)" for j'
      using that i by (simp add: valid_ptr_def ic)
    from w(2) [OF v] assms(5) v j mem show ?thesis by (intro exI [of _ j]) (simp add: WritePoint_def)
  qed
  with w(1) show ?thesis by blast
qed

lemma AppendNano_sample: "AppendNano (\<lambda>_. 1) 7 ''cpu v=1 5'' ''ns'' = ''cpu v=1 5''"
proof -
  have "TrimSpace ''cpu v=1 5'' = ''cpu v=1 5''"
    by (rule TrimSpace_id) (simp add: space_heads_def space_lasts_def unicode_spaces_def)
  moreover have "ScanTime (''cpu v=1'' @ CHR '' '' # ''5'') = (int (length ''cpu v=1''), True)"
    by (rule ScanTime_stamp) (simp_all add: is_digit_def)
  ultimately show ?thesis by (simp add: AppendNano_def)
qed

lemma RapidCheck_sample: "RapidCheck '' v=1 5'' = Some True"
proof -
  have "rapid_first ([] @ replicate (Suc 0) (CHR '' '') @ CHR ''v'' # ''=1 5'') 0 = Some (length [] + 0)"
    using rapid_first_spec [of "[]" "CHR ''v''" 0 "''=1 5''"] by simp
  moreover have "back_run '' v=1 5'' 4 = 4" by (subst back_run.simps) simp
  ultimately show ?thesis by (simp add: RapidCheck_def)
qed

lemma sample_running: "\<forall>q. valid_ptr sample_px q \<longrightarrow> ib_running (get_be sample_px q)"
  by (auto simp: valid_ptr_def get_be_def sample_px_def sample_circle_def NewCircle_def sample_config_def NewBackend_def
      addRouter_def Let_def)

theorem WriteRow_delivers_witness:
  "\<exists>ip'. WriteRow sample_we 7 sample_px ''cpu v=1 5'' ''db'' '''' ''ns'' = Some ip' \<and>
     ib_chWrite (get_be sample_px (0, 0)) = [] \<and>
     ib_chWrite (get_be ip' (0, 0)) = [\<lparr>lp_db = ''db'', lp_rp = '''', lp_line = ''cpu v=1 5''\<rparr>]"
proof -
  have k: "ScanKey (AppendNano (we_multiplier sample_we) 7 ''cpu v=1 5'' ''ns'') = Some (Inr ''cpu'')"
    by (simp add: sample_we_def AppendNano_sample ScanKey_def)
  have v: "RapidCheck (drop (length ''cpu'') (AppendNano (we_multiplier sample_we) 7 ''cpu v=1 5'' ''ns'')) = Some True"
    by (simp add: sample_we_def AppendNano_sample RapidCheck_sample)
  have p: "proxy_inv (we_lookup sample_we) sample_px" using sample_px_inv by (simp add: sample_we_def)
  have c: "length (ip_Circles sample_px) = 1" "length (ic_Backends (ip_Circles sample_px ! 0)) = 1"
    "ib_chWrite (get_be sample_px (0, 0)) = []"
    by (simp_all add: sample_px_def get_be_def sample_circle_def NewCircle_def sample_config_def NewBackend_def
        addRouter_def Let_def)
  have l: "AppendNano (we_multiplier sample_we) 7 ''cpu v=1 5'' ''ns'' = ''cpu v=1 5''"
    by (simp add: sample_we_def AppendNano_sample)
  from WriteRow_delivers [OF p k v sample_running, of "''db''" "''''"]
  show ?thesis using c by (auto simp: l)
qed

subsection \<open>Writes and queries meet\<close>

lemma ScanTime_beyond:
  assumes "\<not> is_digit c"
  shows "int (length k) \<le> fst (ScanTime (k @ c # r))"
proof -
  have "length (dropWhile is_digit (rev r @ [c] @ rev k)) \<ge> length ([c] @ rev k)"
    using assms by (induction r rule: rev_induct) auto
  then show ?thesis by (simp add: ScanTime_def Let_def)
qed

lemma AppendNano_prefix:
  assumes "\<not> is_digit c" "TrimSpace (k @ c # r) = k @ c # r"
  shows "\<exists>r'. AppendNano mulOf now (k @ c # r) precision = k @ c # r'"
proof -
  define L where "L = k @ c # r"
  obtain pos found where st: "ScanTime L = (pos, found)" by (cases "ScanTime L")
  with ScanTime_beyond [OF assms(1), of k r] have "int (length k) \<le> pos" by (simp add: L_def)
  then have cut: "take (nat (pos + 1)) L = k @ c # take (nat pos - length k) r"
    by (simp add: L_def nat_add_distrib Suc_diff_le take_Cons' nat_le_iff le_nat_iff)
  have t: "TrimSpace L = L" using assms(2) by (simp add: L_def)
  have "\<exists>s. AppendNano mulOf now L precision = L @ s \<or> AppendNano mulOf now L precision = take (nat (pos + 1)) L @ s"
    unfolding AppendNano_def t st Let_def prod.case by (cases found) auto
  then show ?thesis unfolding cut by (auto simp: L_def)
qed

text \<open>C1: writes and queries meet. Let a line begin with a measurement, escaped as the line
  protocol demands, and let a query select from the same measurement, quoted and escaped as
  InfluxQL demands, in the same database. Then the query's measurement, by which \<^verbatim>\<open>Query\<close>
  chooses its backends, is found, and the line is put on the channels of backends routed to
  by the key of that measurement and no others: no line is stored where the query for it does
  not look. Only measurements with a backslash are excluded.\<close>

theorem write_meets_query:
  fixes env now line precision
  defines "nanoLine \<equiv> AppendNano (we_multiplier env) now line precision"
  assumes "proxy_inv (we_lookup env) ip" "CHR 0x5C \<notin> set m" "CHR 0x5C \<notin> set rp'"
    and "line = EscapeMeasurement m @ sep # rest" "sep = CHR '' '' \<or> sep = CHR '',''"
    and "hd line \<notin> set space_heads" "last line \<notin> set space_lasts"
  shows "\<exists>ip' m' valid. GetMeasurementFromInfluxQL (''select * from '' @ quoted_source rp' m) = Some (Inr m') \<and>
    WriteRow env now ip line db rp precision = Some ip' \<and>
    (\<forall>q. valid_ptr ip q \<longrightarrow> get_be ip' q =
       (if valid \<and> q \<in> set (targets (we_lookup env) (GetKey (we_measureOnly env) db m') 0 (ip_Circles ip))
        then fst (WritePoint (get_be ip q) \<lparr>lp_db = db, lp_rp = rp, lp_line = nanoLine\<rparr>) else get_be ip q))"
proof -
  have trim: "TrimSpace line = line" by (rule TrimSpace_id) (use assms(7,8) in simp)
  have "\<not> is_digit sep" using assms(6) by (auto simp: is_digit_def)
  from AppendNano_prefix [OF this, of "EscapeMeasurement m" rest "we_multiplier env" now precision] trim assms(5)
  obtain r' where r': "nanoLine = EscapeMeasurement m @ sep # r'" by (auto simp: nanoLine_def)
  then have key: "ScanKey nanoLine = Some (Inr m)" using ScanKey_EscapeMeasurement [OF assms(3,6)] by simp
  obtain valid where "RapidCheck (drop (length m) nanoLine) = Some valid"
    using row_checks(2) [of env now line precision m] key by (auto simp: nanoLine_def)
  moreover have "GetMeasurementFromInfluxQL (''select * from '' @ quoted_source rp' m) = Some (Inr m)"
    using ScanTokens_source [of "''select''" "[''*'', ''from'']" rp' m] assms(3,4) plain_words statement_heads
      measurement_tokens(2)
    by (simp add: GetMeasurementFromInfluxQL_def)
  ultimately show ?thesis
    using WriteRow_spec [of env ip now line precision, OF assms(2) key [unfolded nanoLine_def]]
    unfolding nanoLine_def by blast
qed

theorem write_meets_query_witness:
  "\<exists>m'. GetMeasurementFromInfluxQL (''select * from '' @ quoted_source ''autogen'' ''my cpu'') = Some (Inr m')"
proof -
  have p: "proxy_inv (we_lookup sample_we) sample_px" using sample_px_inv by (simp add: sample_we_def)
  have l: "EscapeMeasurement ''my cpu'' @ CHR '','' # ''h=a v=1'' = [CHR ''m'', CHR ''y'', CHR 0x5C] @ '' cpu,h=a v=1''"
    by (simp add: EscapeMeasurement_esc)
  have "hd (EscapeMeasurement ''my cpu'' @ CHR '','' # ''h=a v=1'') \<notin> set space_heads"
    "last (EscapeMeasurement ''my cpu'' @ CHR '','' # ''h=a v=1'') \<notin> set space_lasts"
    unfolding l by (simp_all add: space_heads_def space_lasts_def unicode_spaces_def)
  from write_meets_query [OF p _ _ refl _ this, where rp' = "''autogen''" and db = "''db''" and rp = "''''" and now = 7 and precision = "''ns''"] show ?thesis
    by auto
qed

end
