(* ===== verification/Executor.thy ===== *)
theory Executor
  imports Proxy "HOL-Library.Multiset"
begin

text \<open>
  Queries, \<^verbatim>\<open>backend/executor.go\<close> and the dispatcher \<^verbatim>\<open>Proxy.Query\<close> of \<^verbatim>\<open>backend/proxy.go\<close>. A
  query on one measurement is asked of one backend after the other until one answers; the
  show statements are asked of all backends at once and their answers merged; the statements
  that change data go to all backends of the key, or to all, and only when all are active.

  The request and the response writer are pointers that the backends change in place: they
  go through the model from one backend to the next. The random order of the circles, the
  order in which parallel answers arrive and the order of an iteration over a Go map are
  parameters. In \<open>exec_env\<close> are the HTTP environment, the consistent hash, the global
  \<^verbatim>\<open>HashKeyMeasureOnly\<close>, whether a URL asks for indented JSON, and the JSON encoder. A panic
  is \<open>None\<close>.
\<close>

section \<open>Definitions\<close>

text \<open>The texts of the errors of \<^verbatim>\<open>executor.go\<close>.\<close>

definition executor_Error :: "error \<Rightarrow> string option" where
  "executor_Error e =
     (case e of
        ErrEmptyQuery \<Rightarrow> Some ''empty query''
      | ErrDatabaseNotFound \<Rightarrow> Some ''database not found''
      | ErrBackendsUnavailable \<Rightarrow> Some ''backends unavailable''
      | ErrGetMeasurement \<Rightarrow> Some ''can't get measurement''
      | ErrGetBackends \<Rightarrow> Some ''can't get backends''
      | _ \<Rightarrow> None)"

record exec_env =
  xe_http :: http_env
  xe_lookup :: router
  xe_measureOnly :: bool
  xe_pretty :: "string \<Rightarrow> bool"
  xe_json :: "Response \<Rightarrow> bool \<Rightarrow> bytes"

subsection \<open>One backend after the other\<close>

type_synonym asker = "HttpBackend \<Rightarrow> Request \<Rightarrow> Writer \<Rightarrow> Request \<times> Writer \<times> bytes \<times> error option"

text \<open>The state of \<^verbatim>\<open>query\<close>: the request, the writer, \<^verbatim>\<open>body\<close> and \<^verbatim>\<open>err\<close>, and whether it has
  returned.\<close>

type_synonym asked = "Request \<times> Writer \<times> bytes \<times> error option \<times> bool"

definition ask :: "asker \<Rightarrow> HttpBackend \<Rightarrow> asked \<Rightarrow> asked" where
  "ask fn hb a =
     (case a of (req, w, body, err, done) \<Rightarrow>
        (case fn hb req w of (req', w', body', err') \<Rightarrow> (req', w', body', err', err' = None)))"

definition readable :: "HttpBackend \<Rightarrow> bool" where
  "readable hb \<longleftrightarrow> \<not> (\<not> IsActive hb \<or> IsRewriting hb \<or> IsWriteOnly hb)"

definition fallback :: "HttpBackend \<Rightarrow> bool" where
  "fallback hb \<longleftrightarrow> \<not> (\<not> IsActive hb \<or> \<not> (IsRewriting hb \<or> IsWriteOnly hb))"

definition returned :: "asked \<Rightarrow> bool" where
  "returned a = snd (snd (snd (snd a)))"

fun query_perms :: "router \<Rightarrow> asker \<Rightarrow> string \<Rightarrow> nat list \<Rightarrow> Proxy \<Rightarrow> asked \<Rightarrow> (Proxy \<times> asked) option" where
  "query_perms lookup fn key [] ip a = Some (ip, a)"
| "query_perms lookup fn key (p # ps) ip a =
     (let (ic, be) = GetBackend lookup (ip_Circles ip ! p) key;
          ip' = ip\<lparr>ip_Circles := (ip_Circles ip)[p := ic]\<rparr>
      in case be of
           None \<Rightarrow> None
         | Some i \<Rightarrow>
             let hb = ib_hb (get_be ip' (p, i)) in
             if \<not> readable hb then query_perms lookup fn key ps ip' a
             else let a' = ask fn hb a in
               if returned a' then Some (ip', a') else query_perms lookup fn key ps ip' a')"

fun query_rest :: "asker \<Rightarrow> Proxy \<Rightarrow> be_ptr option list \<Rightarrow> asked \<Rightarrow> asked option" where
  "query_rest fn ip [] a = Some a"
| "query_rest fn ip (be # bes) a =
     (case be of
        None \<Rightarrow> None
      | Some p \<Rightarrow>
          let hb = ib_hb (get_be ip p) in
          if \<not> fallback hb then query_rest fn ip bes a
          else let a' = ask fn hb a in if returned a' then Some a' else query_rest fn ip bes a')"

definition query ::
    "router \<Rightarrow> nat list \<Rightarrow> asker \<Rightarrow> Proxy \<Rightarrow> string \<Rightarrow> Request \<Rightarrow> Writer \<Rightarrow>
     (Proxy \<times> Request \<times> Writer \<times> bytes \<times> error option) option" where
  "query lookup perms fn ip key req0 w0 =
     do { (ip, a) \<leftarrow> query_perms lookup fn key perms ip (req0, w0, [], None, False);
          if returned a then (case a of (req, w, body, err, done) \<Rightarrow> Some (ip, req, w, body, err))
          else do {
            let (ip, backends) = GetBackends lookup ip key;
            (req, w, body, err, done) \<leftarrow> query_rest fn ip backends a;
            if done \<or> err \<noteq> None then Some (ip, req, w, body, err)
            else Some (ip, req, w, [], Some ErrBackendsUnavailable) } }"

definition prom_asker :: "http_env \<Rightarrow> asker" where
  "prom_asker env hb req w = (case hb_ReadProm env hb req w of (req', w', err) \<Rightarrow> (req', w', [], err))"

definition flux_asker :: "http_env \<Rightarrow> asker" where
  "flux_asker env hb req w = (case hb_QueryFlux env hb req w of (req', w', err) \<Rightarrow> (req', w', [], err))"

definition iql_asker :: "http_env \<Rightarrow> asker" where
  "iql_asker env hb req w =
     (case hb_Query env hb req (Some w) False of (req', w', qr) \<Rightarrow> (req', the w', qr_Body qr, qr_Err qr))"

definition ReadProm ::
    "exec_env \<Rightarrow> nat list \<Rightarrow> Proxy \<Rightarrow> string \<Rightarrow> string \<Rightarrow> Request \<Rightarrow> Writer \<Rightarrow>
     (Proxy \<times> Request \<times> Writer \<times> bytes \<times> error option) option" where
  "ReadProm env perms ip db meas req w =
     query (xe_lookup env) perms (prom_asker (xe_http env)) ip (GetKey (xe_measureOnly env) db meas) req w"

definition QueryFlux ::
    "exec_env \<Rightarrow> nat list \<Rightarrow> Proxy \<Rightarrow> string \<Rightarrow> string \<Rightarrow> Request \<Rightarrow> Writer \<Rightarrow>
     (Proxy \<times> Request \<times> Writer \<times> bytes \<times> error option) option" where
  "QueryFlux env perms ip bucket meas req w =
     query (xe_lookup env) perms (flux_asker (xe_http env)) ip (GetKey (xe_measureOnly env) bucket meas) req w"

definition QueryFromQL ::
    "exec_env \<Rightarrow> nat list \<Rightarrow> Proxy \<Rightarrow> string list \<Rightarrow> string \<Rightarrow> Request \<Rightarrow> Writer \<Rightarrow>
     (Proxy \<times> Request \<times> Writer \<times> bytes \<times> error option) option" where
  "QueryFromQL env perms ip tokens db req w =
     do { meas \<leftarrow> GetMeasurementFromTokens tokens;
          case meas of
            Inl e \<Rightarrow> Some (ip, req, w, [], Some ErrGetMeasurement)
          | Inr meas \<Rightarrow>
              query (xe_lookup env) perms (iql_asker (xe_http env)) ip (GetKey (xe_measureOnly env) db meas) req w }"

subsection \<open>All backends at once\<close>

text \<open>The answers in the order of their arrival: \<open>arrive\<close> rearranges the active backends.
  The loop takes the answers up to the first error; the header is that of the last answer.\<close>

fun collect :: "QueryResult list \<Rightarrow> bytes list \<Rightarrow> go_values \<Rightarrow> bytes list \<times> go_values \<times> error option" where
  "collect [] bodies header = (bodies, header, None)"
| "collect (qr # qrs) bodies header =
     (if qr_Err qr \<noteq> None then (bodies, header, qr_Err qr)
      else collect qrs (bodies @ [qr_Body qr]) (qr_Header qr))"

definition parallel_request :: "Request \<Rightarrow> Request" where
  "parallel_request req = req\<lparr>rq_Header := map_set HeaderQueryOrigin [QueryParallel] (rq_Header req)\<rparr>"

definition QueryInParallel ::
    "http_env \<Rightarrow> (HttpBackend list \<Rightarrow> HttpBackend list) \<Rightarrow> HttpBackend list \<Rightarrow> Request \<Rightarrow> Writer \<Rightarrow> bool \<Rightarrow>
     Request \<times> Writer \<times> bytes list \<times> nat \<times> error option" where
  "QueryInParallel env arrive backends req0 w decompress =
     (let req = parallel_request req0;
          inactive = length (filter (\<lambda>be. \<not> IsActive be) backends);
          results = map (\<lambda>be. snd (snd (hb_Query env be (CloneQueryRequest req) None decompress)))
                        (arrive (filter IsActive backends));
          (bodies, header, err) = collect results [] []
      in if err \<noteq> None then (req, w, bodies, inactive, err)
         else (req, w\<lparr>rw_Header := CopyHeader (rw_Header w) header\<rparr>, bodies, inactive, None))"

definition QueryBackends ::
    "exec_env \<Rightarrow> (HttpBackend list \<Rightarrow> HttpBackend list) \<Rightarrow> HttpBackend list \<Rightarrow> Request \<Rightarrow> Writer \<Rightarrow>
     (Request \<times> Writer \<times> bytes \<times> error option) option" where
  "QueryBackends env arrive backends req w =
     (if backends = [] then Some (req, w, [], Some ErrGetBackends)
      else case find (\<lambda>be. \<not> IsActive be) backends of
        Some be \<Rightarrow> Some (req, w, [], Some (ErrText (''backend '' @ hb_Name be @ ''('' @ hb_Url be @ '') unavailable'')))
      | None \<Rightarrow>
          (case QueryInParallel (xe_http env) arrive backends req w False of
             (req', w', bodies, inactive, Some e) \<Rightarrow> Some (req', w', [], Some e)
           | (req', w', bodies, inactive, None) \<Rightarrow>
               map_option (\<lambda>b. (req', w', b, None)) (byte_at bodies 0)))"
subsection \<open>Merging answers\<close>

text \<open>Values and series are kept in Go maps; \<open>iter\<close> is the order in which such a map is read
  out.\<close>

fun value_rows :: "json list list \<Rightarrow> (string, json list) gomap \<Rightarrow> (string, json list) gomap option" where
  "value_rows [] m = Some m"
| "value_rows (v # vs) m = do { key \<leftarrow> string_at v 0; value_rows vs (map_set key v m) }"

fun reduce_values ::
    "unmarshaller \<Rightarrow> bytes list \<Rightarrow> Row list \<Rightarrow> (string, json list) gomap \<Rightarrow>
     (error + Row list \<times> (string, json list) gomap) option" where
  "reduce_values u [] series m = Some (Inr (series, m))"
| "reduce_values u (b # bs) series m =
     (case SeriesFromResponseBytes u b of
        (rows, Some e) \<Rightarrow> Some (Inl e)
      | ([row], None) \<Rightarrow> do { m' \<leftarrow> value_rows (row_Values row) m; reduce_values u bs [row] m' }
      | (rows, None) \<Rightarrow> reduce_values u bs series m)"

definition reduceByValues ::
    "unmarshaller \<Rightarrow> ((string, json list) gomap \<Rightarrow> (string, json list) gomap) \<Rightarrow> bytes list \<Rightarrow> (error + Response) option" where
  "reduceByValues u iter bodies =
     map_option (map_sum id (\<lambda>(series, m).
       let values = map snd (iter m) in
       ResponseFromSeries
         (case series of
            [s] \<Rightarrow> if values \<noteq> [] then [s\<lparr>row_Values := values\<rparr>] else []
          | _ \<Rightarrow> series)))
       (reduce_values u bodies [] [])"

fun reduce_series :: "unmarshaller \<Rightarrow> bytes list \<Rightarrow> (string, Row) gomap \<Rightarrow> error + (string, Row) gomap" where
  "reduce_series u [] m = Inr m"
| "reduce_series u (b # bs) m =
     (case SeriesFromResponseBytes u b of
        (rows, Some e) \<Rightarrow> Inl e
      | (rows, None) \<Rightarrow> reduce_series u bs (fold (\<lambda>r. map_set (row_Name r) r) rows m))"

definition reduceBySeries ::
    "unmarshaller \<Rightarrow> ((string, Row) gomap \<Rightarrow> (string, Row) gomap) \<Rightarrow> bytes list \<Rightarrow> error + Response" where
  "reduceBySeries u iter bodies =
     map_sum id (\<lambda>m. ResponseFromSeries (map snd (iter m))) (reduce_series u bodies [])"

text \<open>\<^verbatim>\<open>attachByValues\<close>: the first answer gives the row; of the later ones the values with new
  keys are attached.\<close>

fun attach_keys :: "json list list \<Rightarrow> (string, bool) gomap \<Rightarrow> (string, bool) gomap option" where
  "attach_keys [] m = Some m"
| "attach_keys (v # vs) m = do { key \<leftarrow> string_at v 0; attach_keys vs (map_set key True m) }"

fun attach_rows ::
    "json list list \<Rightarrow> json list list \<Rightarrow> (string, bool) gomap \<Rightarrow> (json list list \<times> (string, bool) gomap) option" where
  "attach_rows [] vals m = Some (vals, m)"
| "attach_rows (v # vs) vals m =
     do { key \<leftarrow> string_at v 0;
          if map_get m key = None then attach_rows vs (vals @ [v]) (map_set key True m)
          else attach_rows vs vals m }"

fun attach_bodies ::
    "unmarshaller \<Rightarrow> bytes list \<Rightarrow> Row option \<Rightarrow> (string, bool) gomap \<Rightarrow> (error + Row option) option" where
  "attach_bodies u [] series m = Some (Inr series)"
| "attach_bodies u (b # bs) series m =
     (case SeriesFromResponseBytes u b of
        (rows, Some e) \<Rightarrow> Some (Inl e)
      | ([row], None) \<Rightarrow>
          (case series of
             None \<Rightarrow> do { m' \<leftarrow> attach_keys (row_Values row) m; attach_bodies u bs (Some row) m' }
           | Some s \<Rightarrow>
               do { (vals, m') \<leftarrow> attach_rows (row_Values row) (row_Values s) m;
                    attach_bodies u bs (Some (s\<lparr>row_Values := vals\<rparr>)) m' })
      | (rows, None) \<Rightarrow> attach_bodies u bs series m)"

definition attachByValues :: "unmarshaller \<Rightarrow> bytes list \<Rightarrow> (error + Response) option" where
  "attachByValues u bodies =
     map_option (map_sum id (\<lambda>s. ResponseFromSeries (case s of None \<Rightarrow> [] | Some r \<Rightarrow> [r])))
       (attach_bodies u bodies None [])"

fun concat_results :: "unmarshaller \<Rightarrow> bytes list \<Rightarrow> Result list \<Rightarrow> error + Result list" where
  "concat_results u [] acc = Inr acc"
| "concat_results u (b # bs) acc =
     (case ResultsFromResponseBytes u b of
        (rs, Some e) \<Rightarrow> Inl e
      | ([r], None) \<Rightarrow> concat_results u bs (acc @ [r])
      | (rs, None) \<Rightarrow> concat_results u bs acc)"

definition concatByResults :: "unmarshaller \<Rightarrow> bytes list \<Rightarrow> error + Response" where
  "concatByResults u bodies = map_sum id ResponseFromResults (concat_results u bodies [])"

subsection \<open>Show statements\<close>

record show_order =
  so_arrive :: "HttpBackend list \<Rightarrow> HttpBackend list"
  so_values :: "(string, json list) gomap \<Rightarrow> (string, json list) gomap"
  so_series :: "(string, Row) gomap \<Rightarrow> (string, Row) gomap"

text \<open>The choice of the merger; no merger is a nil response, which becomes an empty one.\<close>

definition merge :: "unmarshaller \<Rightarrow> show_order \<Rightarrow> string list \<Rightarrow> bytes list \<Rightarrow> (error + Response) option" where
  "merge u ord tokens bodies =
     (let stmt2 = GetHeadStmtFromTokens tokens 2; stmt3 = GetHeadStmtFromTokens tokens 3 in
      if stmt2 = ''show measurements'' \<or> stmt2 = ''show series'' \<or> stmt2 = ''show databases''
      then reduceByValues u (so_values ord) bodies
      else if stmt3 = ''show field keys'' \<or> stmt3 = ''show tag keys'' \<or> stmt3 = ''show tag values''
      then Some (reduceBySeries u (so_series ord) bodies)
      else if stmt3 = ''show retention policies'' then attachByValues u bodies
      else if stmt2 = ''show stats'' then Some (concatByResults u bodies)
      else Some (Inr (ResponseFromSeries [])))"

text \<open>The answer is encoded, and compressed when the last backend sent its own compressed; the
  length that a backend announced does not fit the merged answer.\<close>

definition encode_response :: "exec_env \<Rightarrow> Request \<Rightarrow> Writer \<Rightarrow> Response \<Rightarrow> Writer \<times> bytes \<times> error option" where
  "encode_response env req w rsp =
     (let body = MarshalJSON (xe_json env) rsp (xe_pretty env (rq_URL req));
          w' = w\<lparr>rw_Header := map_del ''Content-Length'' (rw_Header w)\<rparr>
      in if values_get (rw_Header w) ''Content-Encoding'' = ''gzip''
         then (case Compress (xe_http env) body of
                 (buf, Some e) \<Rightarrow> (w, body, Some e)
               | (buf, None) \<Rightarrow> (w', buf, None))
         else (w', body, None))"

definition QueryShowQL ::
    "exec_env \<Rightarrow> show_order \<Rightarrow> HttpBackend list \<Rightarrow> Request \<Rightarrow> Writer \<Rightarrow> string list \<Rightarrow>
     (Request \<times> Writer \<times> bytes \<times> error option) option" where
  "QueryShowQL env ord backends req0 w0 tokens =
     (let req = req0\<lparr>rq_Form := map_del ''chunked'' (rq_Form req0)\<rparr> in
      case QueryInParallel (xe_http env) (so_arrive ord) backends req w0 True of
        (req, w, bodies, inactive, Some e) \<Rightarrow> Some (req, w, [], Some e)
      | (req, w, bodies, inactive, None) \<Rightarrow>
          if 0 < inactive \<and> bodies = [] then Some (req, w, [], Some ErrBackendsUnavailable)
          else do {
            rsp \<leftarrow> merge (he_unmarshal (xe_http env)) ord tokens bodies;
            case rsp of
              Inl e \<Rightarrow> Some (req, w, [], Some e)
            | Inr rsp \<Rightarrow> Some (req, encode_response env req w rsp) })"

subsection \<open>Statements that change data\<close>

text \<open>A nil backend panics when it is asked whether it is active, unless an inactive one was
  met before.\<close>

definition backends_at :: "Proxy \<Rightarrow> be_ptr list \<Rightarrow> HttpBackend list" where
  "backends_at ip ps = map (\<lambda>p. ib_hb (get_be ip p)) ps"

definition QueryDeleteOrDropQL ::
    "exec_env \<Rightarrow> (HttpBackend list \<Rightarrow> HttpBackend list) \<Rightarrow> Proxy \<Rightarrow> string list \<Rightarrow> string \<Rightarrow> Request \<Rightarrow> Writer \<Rightarrow>
     (Proxy \<times> Request \<times> Writer \<times> bytes \<times> error option) option" where
  "QueryDeleteOrDropQL env arrive ip tokens db req w =
     do { meas \<leftarrow> GetMeasurementFromTokens tokens;
          case meas of
            Inl e \<Rightarrow> Some (ip, req, w, [], Some e)
          | Inr meas \<Rightarrow>
              let (ip, backends) = GetBackends (xe_lookup env) ip (GetKey (xe_measureOnly env) db meas) in
              if find (\<lambda>b. b = None \<or> \<not> IsActive (ib_hb (get_be ip (the b)))) backends = Some None then None
              else map_option (Pair ip) (QueryBackends env arrive (backends_at ip (map the backends)) req w) }"

definition QueryAlterQL ::
    "exec_env \<Rightarrow> (HttpBackend list \<Rightarrow> HttpBackend list) \<Rightarrow> Proxy \<Rightarrow> Request \<Rightarrow> Writer \<Rightarrow>
     (Request \<times> Writer \<times> bytes \<times> error option) option" where
  "QueryAlterQL env arrive ip req w = QueryBackends env arrive (backends_at ip (GetAllBackends ip)) req w"

subsection \<open>The dispatcher\<close>

definition query_db :: "Request \<Rightarrow> string list \<Rightarrow> bool \<Rightarrow> string \<Rightarrow> string option" where
  "query_db req tokens checkDb db =
     (if checkDb then Some db
      else map_option (\<lambda>r. let db = (case r of Inl e \<Rightarrow> '''' | Inr db \<Rightarrow> db)
                           in if db = '''' then FormValue req ''db'' else db)
             (GetDatabaseFromTokens tokens))"

definition Query ::
    "exec_env \<Rightarrow> show_order \<Rightarrow> nat list \<Rightarrow> Proxy \<Rightarrow> Request \<Rightarrow> Writer \<Rightarrow>
     (Proxy \<times> Request \<times> Writer \<times> bytes \<times> error option) option" where
  "Query env ord perms ip req w =
     (let q = TrimSpace (FormValue req ''q'') in
      if q = '''' then Some (ip, req, w, [], Some ErrEmptyQuery)
      else do {
        (tokens, check, from) \<leftarrow> CheckQuery q;
        if \<not> check then Some (ip, req, w, [], Some ErrIllegalQL)
        else do {
          (checkDb, showDb, alterDb, db0) \<leftarrow> CheckDatabaseFromTokens tokens;
          db \<leftarrow> query_db req tokens checkDb db0;
          if \<not> showDb \<and> db = '''' then Some (ip, req, w, [], Some ErrDatabaseNotFound)
          else if \<not> showDb \<and> IsForbiddenDB ip db
          then Some (ip, req, w, [], Some (ErrText (''database forbidden: '' @ db)))
          else do {
            selectOrShow \<leftarrow> CheckSelectOrShowFromTokens tokens;
            if selectOrShow \<and> from then QueryFromQL env perms ip tokens db req w
            else if selectOrShow \<and> \<not> from
            then map_option (Pair ip) (QueryShowQL env ord (backends_at ip (GetAllBackends ip)) req w tokens)
            else if CheckDeleteOrDropMeasurementFromTokens tokens
            then QueryDeleteOrDropQL env (so_arrive ord) ip tokens db req w
            else if alterDb \<or> CheckRetentionPolicyFromTokens tokens
            then map_option (Pair ip) (QueryAlterQL env (so_arrive ord) ip req w)
            else Some (ip, req, w, [], Some ErrIllegalQL) } } })"

section \<open>Asking in order\<close>

text \<open>The reference: ask the candidates one after the other until one answers without error.\<close>

fun ask_until :: "asker \<Rightarrow> HttpBackend list \<Rightarrow> asked \<Rightarrow> asked" where
  "ask_until fn [] a = a"
| "ask_until fn (hb # hbs) a = (let a' = ask fn hb a in if returned a' then a' else ask_until fn hbs a')"

lemma ask_until_append:
  "ask_until fn (xs @ ys) a =
     (if xs \<noteq> [] \<and> returned (ask_until fn xs a) then ask_until fn xs a else ask_until fn ys (ask_until fn xs a))"
  by (induction xs arbitrary: a) (auto simp: Let_def)

definition target_hb :: "router \<Rightarrow> Proxy \<Rightarrow> string \<Rightarrow> nat \<Rightarrow> HttpBackend" where
  "target_hb lookup ip key p = ib_hb (get_be ip (p, the (route lookup (ip_Circles ip ! p) key)))"

lemma target_hb_same:
  assumes "list_all2 (same_routing lookup) (ip_Circles ip) ics" "p < length (ip_Circles ip)"
  shows "target_hb lookup (ip\<lparr>ip_Circles := ics\<rparr>) key p = target_hb lookup ip key p"
  using assms by (simp add: target_hb_def get_be_def list_all2_conv_all_nth same_routing_def)

lemma all_same_routing_trans:
  "list_all2 (same_routing lookup) a b \<Longrightarrow> list_all2 (same_routing lookup) b c \<Longrightarrow> list_all2 (same_routing lookup) a c"
  by (rule list_all2_trans [OF same_routing_trans])

lemma all_same_routing_update:
  assumes "proxy_inv lookup ip" "p < length (ip_Circles ip)" "same_routing lookup (ip_Circles ip ! p) ic"
  shows "list_all2 (same_routing lookup) (ip_Circles ip) ((ip_Circles ip)[p := ic])"
  using assms
  by (auto simp: list_all2_conv_all_nth nth_list_update proxy_inv_def list_all_length circle_routes_def same_routing_refl)

lemma circle_lookup:
  assumes "proxy_inv lookup ip" "p < length (ip_Circles ip)"
  shows "\<exists>ic. GetBackend lookup (ip_Circles ip ! p) key = (ic, route lookup (ip_Circles ip ! p) key) \<and>
    same_routing lookup (ip_Circles ip ! p) ic \<and> route lookup (ip_Circles ip ! p) key \<noteq> None"
proof -
  from assms have ok: "cache_ok lookup (ip_Circles ip ! p)" and r: "route lookup (ip_Circles ip ! p) key \<noteq> None"
    by (auto simp: proxy_inv_def list_all_length circle_routes_def)
  from circle_cache.lookup_val [OF ok, of key] circle_cache.lookup_coherent [OF ok, of key] r show ?thesis
    by (intro exI [of _ "fst (GetBackend lookup (ip_Circles ip ! p) key)"])
      (simp add: same_routing_def prod_eq_iff)
qed

lemma query_perms_spec:
  assumes "proxy_inv lookup ip" "\<forall>p \<in> set ps. p < length (ip_Circles ip)" "\<not> returned a"
  shows "\<exists>ics. query_perms lookup fn key ps ip a =
      Some (ip\<lparr>ip_Circles := ics\<rparr>, ask_until fn (filter readable (map (target_hb lookup ip key) ps)) a) \<and>
    list_all2 (same_routing lookup) (ip_Circles ip) ics"
  using assms
proof (induction ps arbitrary: ip a)
  case Nil
  then show ?case
    by (intro exI [of _ "ip_Circles ip"])
      (auto simp: list_all2_same proxy_inv_def list_all_iff circle_routes_def same_routing_refl)
next
  case (Cons p ps)
  from circle_lookup [OF Cons.prems(1), of p key] Cons.prems(2) obtain ic i where
    g: "GetBackend lookup (ip_Circles ip ! p) key = (ic, Some i)"
    "same_routing lookup (ip_Circles ip ! p) ic" "route lookup (ip_Circles ip ! p) key = Some i" by auto
  define ip1 where "ip1 = ip\<lparr>ip_Circles := (ip_Circles ip)[p := ic]\<rparr>"
  have s1: "list_all2 (same_routing lookup) (ip_Circles ip) (ip_Circles ip1)"
    using all_same_routing_update [OF Cons.prems(1) _ g(2)] Cons.prems(2) by (simp add: ip1_def)
  have inv1: "proxy_inv lookup ip1"
    using same_routing_proxy_inv [OF s1 Cons.prems(1)] by (simp add: ip1_def)
  have t1: "target_hb lookup ip1 key q = target_hb lookup ip key q" if "q < length (ip_Circles ip)" for q
    using target_hb_same [OF s1 that] by (simp add: ip1_def)
  have len: "length (ip_Circles ip1) = length (ip_Circles ip)" by (simp add: ip1_def)
  have here: "ib_hb (get_be ip1 (p, i)) = target_hb lookup ip key p"
    using t1 [of p] Cons.prems(2) g s1 by (simp add: target_hb_def ip1_def same_routing_def)
  have rec: "\<exists>ics. query_perms lookup fn key ps ip1 a =
      Some (ip\<lparr>ip_Circles := ics\<rparr>, ask_until fn (filter readable (map (target_hb lookup ip key) ps)) a) \<and>
    list_all2 (same_routing lookup) (ip_Circles ip) ics" if "\<not> returned a" for a
  proof -
    have "\<forall>q \<in> set ps. q < length (ip_Circles ip1)" using Cons.prems(2) len by simp
    from Cons.IH [OF inv1 this that] obtain ics where
      q: "query_perms lookup fn key ps ip1 a =
        Some (ip1\<lparr>ip_Circles := ics\<rparr>, ask_until fn (filter readable (map (target_hb lookup ip1 key) ps)) a)"
      and s: "list_all2 (same_routing lookup) (ip_Circles ip1) ics" by blast
    have m: "map (target_hb lookup ip1 key) ps = map (target_hb lookup ip key) ps"
      using t1 Cons.prems(2) by simp
    have "ip1\<lparr>ip_Circles := ics\<rparr> = ip\<lparr>ip_Circles := ics\<rparr>" by (simp add: ip1_def)
    with q m all_same_routing_trans [OF s1 s] show ?thesis by (intro exI [of _ ics]) (simp only: conj_absorb)
  qed
  show ?case
  proof (cases "readable (target_hb lookup ip key p)")
    case False
    with rec [OF Cons.prems(3)] g(1) here show ?thesis by (simp add: ip1_def)
  next
    case True
    show ?thesis
    proof (cases "returned (ask fn (target_hb lookup ip key p) a)")
      case r: True
      with True g(1) here s1 show ?thesis
        by (intro exI [of _ "ip_Circles ip1"]) (simp add: ip1_def Let_def)
    next
      case False
      with rec [OF this] True g(1) here show ?thesis by (simp add: ip1_def Let_def)
    qed
  qed
qed

lemma query_rest_spec:
  "query_rest fn ip (map Some ps) a = Some (ask_until fn (filter fallback (map (\<lambda>p. ib_hb (get_be ip p)) ps)) a)"
  by (induction ps arbitrary: a) (auto simp: Let_def)

lemma targets_hb:
  "map (\<lambda>p. ib_hb (get_be ip p)) (targets lookup key 0 (ip_Circles ip)) =
   map (target_hb lookup ip key) [0..<length (ip_Circles ip)]"
  by (rule nth_equalityI) (simp_all add: targets_nth target_hb_def)

text \<open>The backends that may be asked, in the order in which they are: the homes of the key in the
  circles, taken in the random order, that are active and neither rewriting nor write-only
  (a backend that a transfer writes to counts as write-only); then those, in the order of the
  circles, that are active and rewriting or write-only.\<close>

definition candidates :: "router \<Rightarrow> Proxy \<Rightarrow> string \<Rightarrow> nat list \<Rightarrow> HttpBackend list" where
  "candidates lookup ip key perms =
     filter (\<lambda>hb. hb_active hb \<and> \<not> hb_rewriting hb \<and> \<not> hb_writeOnly hb \<and> \<not> hb_transferIn hb)
       (map (target_hb lookup ip key) perms) @
     filter (\<lambda>hb. hb_active hb \<and> (hb_rewriting hb \<or> hb_writeOnly hb \<or> hb_transferIn hb))
       (map (target_hb lookup ip key) [0..<length (ip_Circles ip)])"

lemma readable_flags:
  "readable = (\<lambda>hb. hb_active hb \<and> \<not> hb_rewriting hb \<and> \<not> hb_writeOnly hb \<and> \<not> hb_transferIn hb)"
  "fallback = (\<lambda>hb. hb_active hb \<and> (hb_rewriting hb \<or> hb_writeOnly hb \<or> hb_transferIn hb))"
  by (auto simp: fun_eq_iff readable_def fallback_def IsActive_def IsRewriting_def IsWriteOnly_def)

lemma candidates_filters:
  "candidates lookup ip key perms =
     filter readable (map (target_hb lookup ip key) perms) @
     filter fallback (map (target_hb lookup ip key) [0..<length (ip_Circles ip)])"
  unfolding candidates_def readable_flags by (rule refl)

text \<open>Trying one after the other, by what the backends answer alone: the first answer without an
  error is the result; when all have failed it is the last failure, and when there was nobody to
  ask, that no backend is available. The request and the writer pass through all that are asked.\<close>

fun try_in_order ::
    "asker \<Rightarrow> HttpBackend list \<Rightarrow> Request \<Rightarrow> Writer \<Rightarrow> (bytes \<times> error) option \<Rightarrow> Request \<times> Writer \<times> bytes \<times> error option" where
  "try_in_order fn [] req w None = (req, w, [], Some ErrBackendsUnavailable)"
| "try_in_order fn [] req w (Some (body, e)) = (req, w, body, Some e)"
| "try_in_order fn (hb # hbs) req w failed =
     (case fn hb req w of
        (req', w', body, None) \<Rightarrow> (req', w', body, None)
      | (req', w', body, Some e) \<Rightarrow> try_in_order fn hbs req' w' (Some (body, e)))"

definition answer_of :: "asked \<Rightarrow> Request \<times> Writer \<times> bytes \<times> error option" where
  "answer_of a = (case a of (req, w, body, err, done) \<Rightarrow>
     if done \<or> err \<noteq> None then (req, w, body, err) else (req, w, [], Some ErrBackendsUnavailable))"

lemma query_spec:
  assumes "proxy_inv lookup ip" "\<forall>p \<in> set perms. p < length (ip_Circles ip)"
  shows "\<exists>ics. query lookup perms fn ip key req w =
      Some (ip\<lparr>ip_Circles := ics\<rparr>, answer_of (ask_until fn (candidates lookup ip key perms) (req, w, [], None, False))) \<and>
    list_all2 (same_routing lookup) (ip_Circles ip) ics"
proof -
  let ?a = "(req, w, [], None, False) :: asked" and ?R = "filter readable (map (target_hb lookup ip key) perms)"
  let ?F = "filter fallback (map (target_hb lookup ip key) [0..<length (ip_Circles ip)])"
  have "\<not> returned ?a" by (simp add: returned_def)
  from query_perms_spec [OF assms this, of fn key] obtain ics where
    q: "query_perms lookup fn key perms ip ?a = Some (ip\<lparr>ip_Circles := ics\<rparr>, ask_until fn ?R ?a)"
    and s: "list_all2 (same_routing lookup) (ip_Circles ip) ics" by blast
  let ?ip1 = "ip\<lparr>ip_Circles := ics\<rparr>"
  have inv1: "proxy_inv lookup ?ip1" by (rule same_routing_proxy_inv [OF s assms(1)])
  from GetBackends_spec [OF inv1, of key] obtain ics' where
    g: "GetBackends lookup ?ip1 key = (?ip1\<lparr>ip_Circles := ics'\<rparr>, map Some (targets lookup key 0 ics))"
    and s': "list_all2 (same_routing lookup) ics ics'" by auto
  let ?ip2 = "ip\<lparr>ip_Circles := ics'\<rparr>"
  have same: "list_all2 (same_routing lookup) (ip_Circles ip) ics'" by (rule all_same_routing_trans [OF s s'])
  have t: "targets lookup key 0 ics = targets lookup key 0 (ip_Circles ?ip2)"
    using s' by (intro nth_equalityI) (auto simp: targets_nth list_all2_conv_all_nth same_routing_def)
  have "map (\<lambda>p. ib_hb (get_be ?ip2 p)) (targets lookup key 0 ics) = map (target_hb lookup ip key) [0..<length (ip_Circles ip)]"
    unfolding t targets_hb using same target_hb_same [OF same] by (simp add: list_all2_lengthD)
  with query_rest_spec [of fn ?ip2 "targets lookup key 0 ics"]
  have rest: "query_rest fn ?ip2 (map Some (targets lookup key 0 ics)) a = Some (ask_until fn ?F a)" for a by simp
  show ?thesis
  proof (cases "returned (ask_until fn ?R ?a)")
    case True
    then have "?R \<noteq> []" by (auto simp: returned_def)
    with True have "ask_until fn (candidates lookup ip key perms) ?a = ask_until fn ?R ?a"
      by (simp add: candidates_filters ask_until_append)
    with True q s show ?thesis
      by (intro exI [of _ ics]) (auto simp: query_def answer_of_def returned_def split: prod.splits)
  next
    case False
    then have c: "ask_until fn (candidates lookup ip key perms) ?a = ask_until fn ?F (ask_until fn ?R ?a)"
      by (simp add: candidates_filters ask_until_append)
    from False q g rest same show ?thesis
      by (intro exI [of _ ics']) (auto simp: query_def c answer_of_def split: prod.splits)
  qed
qed

lemma ask_until_tries:
  "answer_of (ask_until fn hbs (req, w, body, err, False)) = try_in_order fn hbs req w (map_option (Pair body) err)"
proof (induction hbs arbitrary: req w body err)
  case Nil
  show ?case by (cases err) (simp_all add: answer_of_def)
next
  case (Cons hb hbs)
  obtain req' w' body' err' where f: "fn hb req w = (req', w', body', err')" by (cases "fn hb req w") auto
  show ?case
  proof (cases err')
    case None
    with f show ?thesis by (simp add: ask_def returned_def answer_of_def)
  next
    case (Some e)
    with f Cons.IH [of req' w' body' "Some e"] show ?thesis by (simp add: ask_def returned_def)
  qed
qed

lemma query_tries:
  assumes "proxy_inv lookup ip" "\<forall>p \<in> set perms. p < length (ip_Circles ip)"
  shows "\<exists>ics. query lookup perms fn ip key req w =
      Some (ip\<lparr>ip_Circles := ics\<rparr>, try_in_order fn (candidates lookup ip key perms) req w None) \<and>
    list_all2 (same_routing lookup) (ip_Circles ip) ics"
  using query_spec [OF assms, of fn key req w] unfolding ask_until_tries by simp

text \<open>C12: a query on one measurement asks its backends in the documented order. For every
  order of the circles, \<^verbatim>\<open>query\<close> tries its candidates one after the other: first the homes of the
  key, in the random order, that are active and neither rewriting nor write-only, then, in the
  order of the circles, the other active ones. The first that answers without error is the last
  one asked and its answer the result; otherwise the result is the last error, or, when there was
  no candidate, that no backend is available. Routing is left as it was.\<close>

theorem query_asks_in_order:
  assumes "proxy_inv lookup ip" "\<forall>p \<in> set perms. p < length (ip_Circles ip)"
  shows "\<exists>ics. query lookup perms fn ip key req w =
      Some (ip\<lparr>ip_Circles := ics\<rparr>, try_in_order fn (candidates lookup ip key perms) req w None) \<and>
    list_all2 (same_routing lookup) (ip_Circles ip) ics"
  using assms by (rule query_tries)

definition show_request :: Request where
  "show_request = NewQueryRequest ''GET'' ''db'' ''show measurements'' ''''"

text \<open>Two circles; the backend of the second is being rewritten.\<close>

definition second_hb :: HttpBackend where
  "second_hb = (ib_hb (hd (ic_Backends sample_circle)))\<lparr>hb_Name := ''second'', hb_rewriting := True\<rparr>"

definition two_circles :: Proxy where
  "two_circles = sample_px\<lparr>ip_Circles := [sample_circle,
     sample_circle\<lparr>ic_Backends := [(hd (ic_Backends sample_circle))\<lparr>ib_hb := second_hb\<rparr>]\<rparr>]\<rparr>"

definition second_only :: asker where
  "second_only hb req w = (if hb_Name hb = ''second'' then (req, w, ''ok'', None) else (req, w, [], Some ErrInternal))"

lemma sample_one: "length (ic_Backends sample_circle) = 1"
  by (simp add: sample_circle_def NewCircle_def sample_config_def NewBackend_def addRouter_def Let_def)

lemma two_circles_inv: "proxy_inv first_member two_circles"
proof -
  have r: "circle_routes first_member sample_circle"
    using sample_px_inv by (simp add: proxy_inv_def sample_px_def)
  with sample_one show ?thesis
    by (auto simp: two_circles_def proxy_inv_def circle_routes_def cache_ok_def route_def)
qed

theorem query_asks_in_order_witness:
  "candidates first_member two_circles ''db,cpu'' [1, 0] = [ib_hb (hd (ic_Backends sample_circle)), second_hb] \<and>
   (\<exists>ics. query first_member [1, 0] second_only two_circles ''db,cpu'' show_request new_writer =
     Some (two_circles\<lparr>ip_Circles := ics\<rparr>, show_request, new_writer, ''ok'', None)) \<and>
   (\<exists>ics. query first_member [1, 0] (\<lambda>hb req w. (req, w, hb_Name hb, Some ErrInternal)) two_circles ''db,cpu'' show_request new_writer =
     Some (two_circles\<lparr>ip_Circles := ics\<rparr>, show_request, new_writer, ''second'', Some ErrInternal))"
proof -
  let ?hb = "ib_hb (hd (ic_Backends sample_circle))"
  have "circle_routes first_member sample_circle"
    using sample_px_inv by (simp add: proxy_inv_def sample_px_def)
  with sample_one have r: "route first_member sample_circle key = Some 0" for key
    unfolding circle_routes_def by (metis less_one)
  have r': "route first_member (sample_circle\<lparr>ic_Backends := bs\<rparr>) key = Some 0" for key bs
    using r [of key] by (simp add: route_def)
  have b: "ic_Backends sample_circle ! 0 = hd (ic_Backends sample_circle)" using sample_one by (cases "ic_Backends sample_circle") auto
  have t: "target_hb first_member two_circles key 0 = ?hb" "target_hb first_member two_circles key 1 = second_hb" for key
    using r [of key] r' [of _ key] b by (simp_all add: target_hb_def get_be_def two_circles_def)
  have f: "hb_active ?hb" "\<not> hb_rewriting ?hb" "\<not> hb_writeOnly ?hb" "\<not> hb_transferIn ?hb" "hb_Name ?hb \<noteq> ''second''"
    by (simp_all add: sample_circle_def NewCircle_def sample_config_def NewBackend_def NewHttpBackend_def
        NewSimpleHttpBackend_def addRouter_def Let_def)
  have s: "hb_active second_hb" "hb_rewriting second_hb" "hb_Name second_hb = ''second''"
    using f(1) by (simp_all add: second_hb_def)
  have n: "length (ip_Circles two_circles) = 2" by (simp add: two_circles_def)
  have c: "candidates first_member two_circles ''db,cpu'' [1, 0] = [?hb, second_hb]"
    using t f s by (simp add: candidates_def n upt_rec)
  have p: "\<forall>p \<in> set [1, 0]. p < length (ip_Circles two_circles)" by (simp add: n)
  from query_asks_in_order [OF two_circles_inv p, of second_only "''db,cpu''" show_request new_writer]
    query_asks_in_order [OF two_circles_inv p, of "\<lambda>hb req w. (req, w, hb_Name hb, Some ErrInternal)" "''db,cpu''" show_request new_writer]
  show ?thesis unfolding c by (auto simp: second_only_def s f)
qed

definition asked_err :: "asked \<Rightarrow> error option" where
  "asked_err a = fst (snd (snd (snd a)))"

lemma returned_ask: "returned (ask fn hb a) \<longleftrightarrow> asked_err (ask fn hb a) = None"
  by (auto simp: ask_def returned_def asked_err_def split: prod.splits)

lemma ask_until_returned:
  "\<not> returned a \<Longrightarrow> returned (ask_until fn hbs a) \<Longrightarrow> asked_err (ask_until fn hbs a) = None"
proof (induction hbs arbitrary: a)
  case (Cons hb hbs)
  from Cons.IH [of "ask fn hb a"] Cons.prems(2) show ?case
    by (auto simp: Let_def returned_ask)
qed simp

definition answers :: "asker \<Rightarrow> HttpBackend \<Rightarrow> bool" where
  "answers fn hb \<longleftrightarrow> (\<forall>req w. snd (snd (snd (fn hb req w))) = None)"

lemma ask_answers:
  assumes "answers fn hb"
  shows "returned (ask fn hb a)"
proof -
  obtain req w b e d where a: "a = (req, w, b, e, d)" by (cases a) auto
  obtain req' w' b' e' where f: "fn hb req w = (req', w', b', e')" by (cases "fn hb req w") auto
  have "e' = None" using assms f unfolding answers_def by (metis snd_conv)
  with a f show ?thesis by (simp add: ask_def returned_def)
qed

lemma ask_until_answers: "hb \<in> set hbs \<Longrightarrow> answers fn hb \<Longrightarrow> returned (ask_until fn hbs a)"
proof (induction hbs arbitrary: a)
  case (Cons h hbs)
  from Cons.IH [of "ask fn h a"] Cons.prems ask_answers [of fn h a] show ?case by (auto simp: Let_def)
qed simp

lemma candidates_active:
  assumes "p \<in> set perms" "p < length (ip_Circles ip)" "IsActive (target_hb lookup ip key p)"
  shows "target_hb lookup ip key p \<in> set (candidates lookup ip key perms)"
  using assms by (cases "readable (target_hb lookup ip key p)") (auto simp: candidates_filters readable_def fallback_def)

text \<open>C11: one living replica is enough. If, in any one circle, the backend that the key is
  routed to is active and answers, then the query succeeds, whatever the other backends do and
  in whatever order the circles are tried, even when that backend is write-only or being
  rewritten.\<close>

theorem query_available:
  assumes "proxy_inv lookup ip" "set perms = {..<length (ip_Circles ip)}" "p < length (ip_Circles ip)"
    and "IsActive (target_hb lookup ip key p)" "answers fn (target_hb lookup ip key p)"
  shows "\<exists>ip' req' w' body. query lookup perms fn ip key req w = Some (ip', req', w', body, None)"
proof -
  let ?a = "ask_until fn (candidates lookup ip key perms) (req, w, [], None, False)"
  have c: "target_hb lookup ip key p \<in> set (candidates lookup ip key perms)"
    by (rule candidates_active) (use assms in auto)
  have r: "returned ?a" by (rule ask_until_answers [OF c assms(5)])
  then have "asked_err ?a = None" by (rule ask_until_returned [rotated]) (simp add: returned_def)
  with r have "\<exists>req' w' body. answer_of ?a = (req', w', body, None)"
    by (auto simp: answer_of_def returned_def asked_err_def split: prod.splits)
  with query_spec [OF assms(1), of perms fn key req w] assms(2) show ?thesis by fastforce
qed

definition always :: asker where
  "always hb req w = (req, w, ''ok'', None)"

lemma sample_target: "target_hb first_member sample_px ''db,cpu'' 0 = ib_hb (hd (ic_Backends sample_circle))"
  "IsActive (ib_hb (hd (ic_Backends sample_circle)))"
  by (simp_all add: target_hb_def get_be_def sample_px_def sample_circle_def NewCircle_def sample_config_def NewBackend_def
      addRouter_def Let_def route_def first_member_def NewHttpBackend_def NewSimpleHttpBackend_def IsActive_def)

theorem query_available_witness:
  "\<exists>ip' req' w' body. query first_member [0] always sample_px ''db,cpu'' show_request new_writer = Some (ip', req', w', body, None)"
  by (rule query_available [OF sample_px_inv, of _ 0])
    (simp_all add: sample_target answers_def always_def, auto simp: sample_px_def)

section \<open>Credentials of another backend\<close>

text \<open>The request is shared, and so are the credentials in it. When a backend with
  credentials fails and the next candidate has none of its own, the request that \<^verbatim>\<open>query\<close>
  forwards to the second still carries the authorization of the first: the proxy hands the user
  name and password of one server to another.\<close>

theorem query_leaks_credentials:
  assumes "has_credentials hb1" "\<not> has_credentials hb2"
    and "iql_asker env hb1 req w = (req1, w1, body1, Some e)"
  shows "map_get (rq_Header (query_request env hb2 ''/query?'' req1)) ''Authorization'' =
         map_get (rq_Header (hb_SetBasicAuth env hb1 req)) ''Authorization''"
proof -
  from assms(3) have "req1 = query_request env hb1 ''/query?'' req"
    by (auto simp: iql_asker_def hb_Query_def Let_def split: prod.splits option.splits sum.splits)
  with assms(1,2) show ?thesis
    by (simp add: query_request_def Let_def hb_SetBasicAuth_def SetBasicAuth_def map_get_set)
qed

definition without_password :: HttpBackend where
  "without_password = sample_backend\<lparr>hb_username := '''', hb_password := ''''\<rparr>"

theorem query_leaks_credentials_witness:
  "\<exists>req1 w1 e. iql_asker (answer 500) sample_backend (NewQueryRequest ''GET'' ''db'' ''q'' '''') w = (req1, w1, [], Some e) \<and>
     map_get (rq_Header (query_request (answer 500) without_password ''/query?'' req1)) ''Authorization'' =
     map_get (rq_Header (hb_SetBasicAuth (answer 500) sample_backend (NewQueryRequest ''GET'' ''db'' ''q'' ''''))) ''Authorization''"
proof -
  have c: "has_credentials sample_backend" "\<not> has_credentials without_password"
    by (simp_all add: has_credentials_def sample_backend_def without_password_def)
  have "\<exists>req1 w1 e. iql_asker (answer 500) sample_backend (NewQueryRequest ''GET'' ''db'' ''q'' '''') w = (req1, w1, [], Some e)"
    by (simp add: iql_asker_def hb_Query_def answer_def sample_env_def Let_def query_result_def response_body_def)
  then obtain req1 w1 e where
    i: "iql_asker (answer 500) sample_backend (NewQueryRequest ''GET'' ''db'' ''q'' '''') w = (req1, w1, [], Some e)" by blast
  from query_leaks_credentials [OF c i] i show ?thesis by blast
qed

section \<open>All or nothing\<close>

lemma collect_all:
  "list_all (\<lambda>qr. qr_Err qr = None) qrs \<Longrightarrow>
   \<exists>h. collect qrs bodies header = (bodies @ map qr_Body qrs, h, None)"
proof (induction qrs arbitrary: bodies header)
  case (Cons qr qrs)
  from Cons.IH [of "bodies @ [qr_Body qr]" "qr_Header qr"] Cons.prems show ?case by simp
qed simp

lemma collect_error:
  "\<not> list_all (\<lambda>qr. qr_Err qr = None) qrs \<Longrightarrow>
   \<exists>bs h. collect qrs bodies header = (bs, h, map_option id (qr_Err (hd (dropWhile (\<lambda>qr. qr_Err qr = None) qrs))))
     \<and> qr_Err (hd (dropWhile (\<lambda>qr. qr_Err qr = None) qrs)) \<noteq> None"
  by (induction qrs arbitrary: bodies header) (auto simp: option.map_id)

definition parallel_result :: "http_env \<Rightarrow> Request \<Rightarrow> bool \<Rightarrow> HttpBackend \<Rightarrow> QueryResult" where
  "parallel_result env req decompress be =
     snd (snd (hb_Query env be (CloneQueryRequest (parallel_request req)) None decompress))"

lemma QueryInParallel_ok:
  assumes "list_all (\<lambda>be. qr_Err (parallel_result env req d be) = None) (arrive (filter IsActive backends))"
  shows "\<exists>w'. QueryInParallel env arrive backends req w d =
    (parallel_request req, w', map (\<lambda>be. qr_Body (parallel_result env req d be)) (arrive (filter IsActive backends)),
     length (filter (\<lambda>be. \<not> IsActive be) backends), None)"
proof -
  let ?qrs = "map (parallel_result env req d) (arrive (filter IsActive backends))"
  have "list_all (\<lambda>qr. qr_Err qr = None) ?qrs" using assms by (simp add: list_all_iff)
  from collect_all [OF this, of "[]" "[]"] show ?thesis
    by (auto simp: QueryInParallel_def parallel_result_def [abs_def] Let_def o_def)
qed

lemma QueryInParallel_failed:
  assumes "\<not> list_all (\<lambda>be. qr_Err (parallel_result env req d be) = None) (arrive (filter IsActive backends))"
  shows "\<exists>bodies e. QueryInParallel env arrive backends req w d =
    (parallel_request req, w, bodies, length (filter (\<lambda>be. \<not> IsActive be) backends), Some e)"
proof -
  let ?qrs = "map (parallel_result env req d) (arrive (filter IsActive backends))"
  have "\<not> list_all (\<lambda>qr. qr_Err qr = None) ?qrs" using assms by (simp add: list_all_iff)
  from collect_error [OF this, of "[]" "[]"] show ?thesis
    by (auto simp: QueryInParallel_def parallel_result_def [abs_def] Let_def o_def option.map_id)
qed

definition rearranges :: "('a list \<Rightarrow> 'a list) \<Rightarrow> bool" where
  "rearranges f \<longleftrightarrow> (\<forall>xs. mset (f xs) = mset xs)"

lemma rearranges_set [simp]: "rearranges f \<Longrightarrow> set (f xs) = set xs"
  by (metis rearranges_def set_mset_mset)

lemma rearranges_length [simp]: "rearranges f \<Longrightarrow> length (f xs) = length xs"
  by (metis rearranges_def size_mset)

lemma rearranges_Nil [simp]: "rearranges f \<Longrightarrow> f xs = [] \<longleftrightarrow> xs = []"
  by (metis length_0_conv rearranges_length)

text \<open>C23: a statement that changes data is for all backends or for none. \<^verbatim>\<open>QueryBackends\<close> never
  panics, whatever the order of the answers; if one backend is inactive no request is sent at
  all (the result is the same in every network) and the statement fails; otherwise it succeeds
  exactly when every backend has answered without error.\<close>

theorem QueryBackends_all_or_nothing:
  assumes "rearranges arrive" "backends \<noteq> []"
  shows "\<exists>req' w' body err. QueryBackends env arrive backends req w = Some (req', w', body, err) \<and>
    (if list_ex (\<lambda>be. \<not> IsActive be) backends
     then err \<noteq> None \<and> req' = req \<and> w' = w \<and>
       (\<forall>http. QueryBackends (env\<lparr>xe_http := http\<rparr>) arrive backends req w = Some (req', w', body, err))
     else err = None \<longleftrightarrow> (\<forall>be \<in> set backends. qr_Err (parallel_result (xe_http env) req False be) = None))"
proof (cases "list_ex (\<lambda>be. \<not> IsActive be) backends")
  case True
  then have "find (\<lambda>be. \<not> IsActive be) backends \<noteq> None" by (auto simp: find_None_iff list_ex_iff)
  with True assms(2) show ?thesis by (auto simp: QueryBackends_def)
next
  case False
  then have f: "find (\<lambda>be. \<not> IsActive be) backends = None" "filter IsActive backends = backends"
    by (auto simp: find_None_iff list_ex_iff filter_id_conv)
  let ?ok = "\<lambda>be. qr_Err (parallel_result (xe_http env) req False be) = None"
  have all: "list_all ?ok (arrive (filter IsActive backends)) \<longleftrightarrow> (\<forall>be \<in> set backends. ?ok be)"
    using assms(1) f(2) by (simp add: list_all_iff)
  show ?thesis
  proof (cases "list_all ?ok (arrive (filter IsActive backends))")
    case True
    from QueryInParallel_ok [where arrive = arrive, OF True, of w] True all False f assms show ?thesis
      by (auto simp: QueryBackends_def byte_at_def)
  next
    case no: False
    from QueryInParallel_failed [where arrive = arrive, OF no, of w] obtain bodies e where
      "QueryInParallel (xe_http env) arrive backends req w False =
        (parallel_request req, w, bodies, length (filter (\<lambda>be. \<not> IsActive be) backends), Some e)" by blast
    moreover have "\<not> (\<forall>be \<in> set backends. ?ok be)" using no all by simp
    ultimately show ?thesis using False f assms(2) by (simp add: QueryBackends_def)
  qed
qed

definition sample_xe :: exec_env where
  "sample_xe = \<lparr>xe_http = answer 200, xe_lookup = first_member, xe_measureOnly = False,
     xe_pretty = (\<lambda>_. False), xe_json = (\<lambda>_ _. ''{}'')\<rparr>"

theorem QueryBackends_all_or_nothing_witness:
  "\<exists>e. QueryBackends sample_xe rev [sample_backend, sample_backend\<lparr>hb_active := False\<rparr>] show_request new_writer = Some (show_request, new_writer, [], Some e)"
proof -
  have "rearranges rev" by (simp add: rearranges_def)
  from QueryBackends_all_or_nothing [OF this, of "[sample_backend, sample_backend\<lparr>hb_active := False\<rparr>]" sample_xe show_request new_writer]
  show ?thesis by (auto simp: QueryBackends_def IsActive_def sample_backend_def)
qed

section \<open>Merging the answers of all backends\<close>

definition single_row :: "unmarshaller \<Rightarrow> bytes \<Rightarrow> Row option" where
  "single_row u b = (case SeriesFromResponseBytes u b of ([row], None) \<Rightarrow> Some row | _ \<Rightarrow> None)"

definition first_values :: "Row option \<Rightarrow> string option list" where
  "first_values r = (case r of None \<Rightarrow> [] | Some row \<Rightarrow> map (\<lambda>v. string_at v 0) (row_Values row))"

text \<open>An answer with one row whose values start with a string each. What does not decode, as the
  empty body of a cancelled request, has no row.\<close>

definition names_listed :: "unmarshaller \<Rightarrow> bytes \<Rightarrow> bool" where
  "names_listed u b \<longleftrightarrow> None \<notin> set (first_values (single_row u b))"

text \<open>The answers decode, and their values start with a string.\<close>

definition well_formed :: "unmarshaller \<Rightarrow> bytes \<Rightarrow> bool" where
  "well_formed u b \<longleftrightarrow> snd (SeriesFromResponseBytes u b) = None \<and> None \<notin> set (first_values (single_row u b))"

definition keyed :: "(string, json list) gomap \<Rightarrow> bool" where
  "keyed m \<longleftrightarrow> map_ok m \<and> (\<forall>(k, v) \<in> set m. string_at v 0 = Some k)"

lemma map_set_pairs: "p \<in> set (map_set k v m) \<Longrightarrow> p = (k, v) \<or> p \<in> set m"
  by (induction m) (auto split: if_splits)

lemma keyed_set: "keyed m \<Longrightarrow> string_at v 0 = Some k \<Longrightarrow> keyed (map_set k v m)"
  using map_set_pairs by (fastforce simp: keyed_def)

lemma value_rows_spec:
  assumes "keyed m" "None \<notin> (\<lambda>v. string_at v 0) ` set vs"
  shows "\<exists>m'. value_rows vs m = Some m' \<and> keyed m' \<and> Some ` fst ` set m' = Some ` fst ` set m \<union> (\<lambda>v. string_at v 0) ` set vs"
  using assms
proof (induction vs arbitrary: m)
  case (Cons v vs)
  then obtain k where k: "string_at v 0 = Some k" by fastforce
  from Cons.IH [OF keyed_set [OF Cons.prems(1) k]] Cons.prems(2) obtain m' where
    "value_rows vs (map_set k v m) = Some m'" "keyed m'"
    "Some ` fst ` set m' = Some ` fst ` set (map_set k v m) \<union> (\<lambda>v. string_at v 0) ` set vs" by auto
  moreover have "set (map fst (map_set k v m)) = insert k (set (map fst m))"
    by (simp add: update_keys insert_absorb)
  ultimately show ?case using k by auto
qed simp

lemma single_row_cases:
  assumes "SeriesFromResponseBytes u b = (rows, None)"
  obtains row where "rows = [row]" "single_row u b = Some row"
  | "length rows \<noteq> 1" "single_row u b = None"
  using assms by (cases rows; cases "tl rows") (auto simp: single_row_def)

lemma reduce_values_spec:
  assumes "keyed m" "list_all (well_formed u) bodies" "series = [] \<longrightarrow> m = []" "length series \<le> 1"
  shows "\<exists>series' m'. reduce_values u bodies series m = Some (Inr (series', m')) \<and> keyed m' \<and>
    (series' = [] \<longrightarrow> m' = []) \<and> length series' \<le> 1 \<and>
    Some ` fst ` set m' = Some ` fst ` set m \<union> (\<Union>b \<in> set bodies. set (first_values (single_row u b)))"
  using assms
proof (induction bodies arbitrary: m series)
  case (Cons b bs)
  from Cons.prems(2) obtain rows where s: "SeriesFromResponseBytes u b = (rows, None)" and
    names: "None \<notin> set (first_values (single_row u b))"
    by (cases "SeriesFromResponseBytes u b") (auto simp: well_formed_def)
  from s show ?case
  proof (cases rule: single_row_cases)
    case (1 row)
    with names value_rows_spec [OF Cons.prems(1), of "row_Values row"] obtain m1 where
      m1: "value_rows (row_Values row) m = Some m1" "keyed m1"
        "Some ` fst ` set m1 = Some ` fst ` set m \<union> set (first_values (single_row u b))"
      by (auto simp: first_values_def)
    from Cons.IH [OF m1(2), of "[row]"] Cons.prems(2) obtain series' m' where
      "reduce_values u bs [row] m1 = Some (Inr (series', m'))" "keyed m'" "series' = [] \<longrightarrow> m' = []"
      "length series' \<le> 1"
      "Some ` fst ` set m' = Some ` fst ` set m1 \<union> (\<Union>b \<in> set bs. set (first_values (single_row u b)))" by auto
    with s 1 m1 show ?thesis by (intro exI [of _ series'] exI [of _ m']) auto
  next
    case 2
    then have "reduce_values u (b # bs) series m = reduce_values u bs series m"
      using s by (cases rows; cases "tl rows") auto
    moreover have "first_values (single_row u b) = []" using 2 by (simp add: first_values_def)
    ultimately show ?thesis using Cons.IH [OF Cons.prems(1)] Cons.prems by auto
  qed
qed simp

lemma keyed_firsts: "keyed m \<Longrightarrow> map (\<lambda>v. string_at v 0) (map snd m) = map (Some \<circ> fst) m"
  by (auto simp: keyed_def)

text \<open>C30: show statements see every backend once. When the answers decode and their values
  start with strings, the merged answer of \<^verbatim>\<open>show measurements\<close>, \<^verbatim>\<open>show series\<close> and
  \<^verbatim>\<open>show databases\<close> lists exactly the names that some backend has listed, each of them once,
  in whatever order the answers came and the map is read.\<close>

theorem reduceByValues_union:
  assumes "rearranges iter" "list_all (well_formed u) bodies"
  shows "\<exists>rows. reduceByValues u iter bodies = Some (Inr (ResponseFromSeries rows)) \<and>
    distinct (concat (map (first_values \<circ> Some) rows)) \<and>
    set (concat (map (first_values \<circ> Some) rows)) = (\<Union>b \<in> set bodies. set (first_values (single_row u b)))"
proof -
  have "keyed []" by (simp add: keyed_def)
  from reduce_values_spec [OF this assms(2), of "[]"] obtain series m where
    r: "reduce_values u bodies [] [] = Some (Inr (series, m))" "keyed m" "series = [] \<longrightarrow> m = []" "length series \<le> 1"
      "Some ` fst ` set m = (\<Union>b \<in> set bodies. set (first_values (single_row u b)))" by auto
  have it: "mset (iter m) = mset m" using assms(1) by (simp add: rearranges_def)
  have keyed: "keyed (iter m)"
    using r(2) it unfolding keyed_def map_ok_def
    by (metis mset_map mset_eq_imp_distinct_iff set_mset_mset)
  have d: "distinct (map (Some \<circ> fst) (iter m))"
    using keyed by (simp add: keyed_def map_ok_def distinct_map inj_on_def comp_inj_on)
  have firsts: "map (\<lambda>v. string_at v 0) (map snd (iter m)) = map (Some \<circ> fst) (iter m)" by (rule keyed_firsts [OF keyed])
  have set: "set (iter m) = set m" using it by (metis set_mset_mset)
  show ?thesis
  proof (cases series)
    case Nil
    with r it have "m = []" by simp
    with r Nil show ?thesis by (intro exI [of _ "[]"]) (simp add: reduceByValues_def)
  next
    case (Cons s t)
    with r(4) have s: "series = [s]" by simp
    show ?thesis
    proof (cases "iter m = []")
      case True
      with set r(5) s r(1) show ?thesis by (intro exI [of _ "[]"]) (simp add: reduceByValues_def)
    next
      case False
      with s r(1) have "reduceByValues u iter bodies =
          Some (Inr (ResponseFromSeries [s\<lparr>row_Values := map snd (iter m)\<rparr>]))"
        by (simp add: reduceByValues_def)
      with d firsts set r(5) show ?thesis
        by (intro exI [of _ "[s\<lparr>row_Values := map snd (iter m)\<rparr>]"])
          (simp add: first_values_def image_image o_def del: map_map)
    qed
  qed
qed

theorem reduceByValues_union_witness:
  "\<exists>rows. reduceByValues (\<lambda>_. (ResponseFromSeries [\<lparr>row_Name = ''measurements'', row_Tags = [], row_Columns = [''name''],
      row_Values = [[JString ''cpu''], [JString ''mem'']], row_Partial = False\<rparr>], None)) rev [''1'', ''2''] =
     Some (Inr (ResponseFromSeries rows)) \<and> distinct (concat (map (first_values \<circ> Some) rows)) \<and>
     set (concat (map (first_values \<circ> Some) rows)) = {Some ''cpu'', Some ''mem''}"
proof -
  let ?u = "\<lambda>_. (ResponseFromSeries [\<lparr>row_Name = ''measurements'', row_Tags = [], row_Columns = [''name''],
      row_Values = [[JString ''cpu''], [JString ''mem'']], row_Partial = False\<rparr>], None)"
  have s: "SeriesFromResponseBytes ?u b = ([\<lparr>row_Name = ''measurements'', row_Tags = [], row_Columns = [''name''],
      row_Values = [[JString ''cpu''], [JString ''mem'']], row_Partial = False\<rparr>], None)" for b
    by (simp add: SeriesFromResponseBytes_def ResponseFromSeries_def)
  have f: "first_values (single_row ?u b) = [Some ''cpu'', Some ''mem'']" for b
    by (simp add: single_row_def s first_values_def)
  have "list_all (well_formed ?u) [''1'', ''2'']" by (simp add: well_formed_def s f)
  moreover have "rearranges rev" by (simp add: rearranges_def)
  ultimately show ?thesis using reduceByValues_union [of rev ?u "[''1'', ''2'']"] by (simp add: f)
qed

lemma dom_map_set: "dom (map_of (map_set k v m)) = insert k (dom (map_of m))"
  by (auto simp: dom_def map_get_set)

lemma attach_keys_total: "None \<notin> (\<lambda>v. string_at v 0) ` set vs \<Longrightarrow>
  \<exists>m'. attach_keys vs m = Some m' \<and> Some ` dom (map_of m') = Some ` dom (map_of m) \<union> (\<lambda>v. string_at v 0) ` set vs"
proof (induction vs arbitrary: m)
  case (Cons v vs)
  then obtain k where k: "string_at v 0 = Some k" by fastforce
  from Cons.IH [of "map_set k True m"] Cons.prems k show ?case by (auto simp: dom_map_set)
qed simp

lemma attach_rows_total: "None \<notin> (\<lambda>v. string_at v 0) ` set vs \<Longrightarrow>
  \<exists>new m'. attach_rows vs vals m = Some (vals @ new, m') \<and>
    Some ` dom (map_of m') = Some ` dom (map_of m) \<union> (\<lambda>v. string_at v 0) ` set vs \<and>
    Some ` dom (map_of m') = Some ` dom (map_of m) \<union> (\<lambda>v. string_at v 0) ` set new \<and>
    distinct (map (\<lambda>v. string_at v 0) new) \<and> (\<lambda>v. string_at v 0) ` set new \<inter> Some ` dom (map_of m) = {}"
proof (induction vs arbitrary: vals m)
  case (Cons v vs)
  then obtain k where k: "string_at v 0 = Some k" by fastforce
  show ?case
  proof (cases "map_get m k")
    case None
    from Cons.IH [of "vals @ [v]" "map_set k True m"] Cons.prems obtain new m' where n:
      "attach_rows vs (vals @ [v]) (map_set k True m) = Some ((vals @ [v]) @ new, m')"
      "Some ` dom (map_of m') = Some ` dom (map_of (map_set k True m)) \<union> (\<lambda>v. string_at v 0) ` set vs"
      "Some ` dom (map_of m') = Some ` dom (map_of (map_set k True m)) \<union> (\<lambda>v. string_at v 0) ` set new"
      "distinct (map (\<lambda>v. string_at v 0) new)" "(\<lambda>v. string_at v 0) ` set new \<inter> Some ` dom (map_of (map_set k True m)) = {}"
      by auto
    have d: "Some ` dom (map_of (map_set k True m)) = insert (Some k) (Some ` dom (map_of m))" by (simp add: dom_map_set)
    have "k \<notin> dom (map_of m)" using None by (simp add: domIff)
    with n k None d show ?thesis
      by (intro exI [of _ "v # new"] exI [of _ m']) auto
  next
    case (Some b)
    with k have "Some k \<in> Some ` dom (map_of m)" by (auto simp: domIff)
    with Some k Cons.IH [of vals m] Cons.prems show ?thesis by (simp add: insert_absorb)
  qed
qed simp

lemma attach_bodies_spec:
  assumes "list_all (well_formed u) bodies" "series = None \<longrightarrow> m = []"
    "Some ` dom (map_of m) = set (first_values series)"
  shows "\<exists>series' new. attach_bodies u bodies series m = Some (Inr series') \<and>
    set (first_values series') = set (first_values series) \<union> (\<Union>b \<in> set bodies. set (first_values (single_row u b))) \<and>
    (series \<noteq> None \<longrightarrow> series' \<noteq> None \<and> first_values series' = first_values series @ new \<and> distinct new \<and>
       set new \<inter> set (first_values series) = {})"
  using assms
proof (induction bodies arbitrary: m series)
  case (Cons b bs)
  from Cons.prems(1) obtain rows where s: "SeriesFromResponseBytes u b = (rows, None)" and
    names: "None \<notin> set (first_values (single_row u b))"
    by (cases "SeriesFromResponseBytes u b") (auto simp: well_formed_def)
  from s show ?case
  proof (cases rule: single_row_cases)
    case (1 row)
    with names have n: "None \<notin> (\<lambda>v. string_at v 0) ` set (row_Values row)" by (auto simp: first_values_def)
    show ?thesis
    proof (cases series)
      case None
      from attach_keys_total [OF n, of m] obtain m1 where m1: "attach_keys (row_Values row) m = Some m1"
        "Some ` dom (map_of m1) = Some ` dom (map_of m) \<union> set (first_values (Some row))"
        by (auto simp: first_values_def)
      have "Some ` dom (map_of m1) = set (first_values (Some row))" using m1(2) None Cons.prems(2) by simp
      from Cons.IH [of "Some row" m1, OF _ _ this] Cons.prems(1) s 1 m1(1) None show ?thesis
        by (auto simp: first_values_def)
    next
      case (Some r)
      from attach_rows_total [OF n, of "row_Values r" m] obtain new m1 where r:
        "attach_rows (row_Values row) (row_Values r) m = Some (row_Values r @ new, m1)"
        "Some ` dom (map_of m1) = Some ` dom (map_of m) \<union> set (first_values (Some row))"
        "Some ` dom (map_of m1) = Some ` dom (map_of m) \<union> (\<lambda>v. string_at v 0) ` set new"
        "distinct (map (\<lambda>v. string_at v 0) new)" "(\<lambda>v. string_at v 0) ` set new \<inter> Some ` dom (map_of m) = {}"
        by (auto simp: first_values_def)
      let ?r = "r\<lparr>row_Values := row_Values r @ new\<rparr>"
      have fr: "first_values (Some ?r) = first_values series @ map (\<lambda>v. string_at v 0) new"
        using Some by (simp add: first_values_def)
      have "Some ` dom (map_of m1) = set (first_values (Some ?r))" using r(3) fr Cons.prems(3) by simp
      from Cons.IH [of "Some ?r" m1, OF _ _ this] Cons.prems(1) obtain series' new' where ih:
        "attach_bodies u bs (Some ?r) m1 = Some (Inr series')"
        "set (first_values series') = set (first_values (Some ?r)) \<union> (\<Union>b \<in> set bs. set (first_values (single_row u b)))"
        "first_values series' = first_values (Some ?r) @ new'" "series' \<noteq> None" "distinct new'" "set new' \<inter> set (first_values (Some ?r)) = {}"
        by auto
      have "set (first_values (Some ?r)) = set (first_values series) \<union> set (first_values (single_row u b))"
        using r(2,3) fr Cons.prems(3) 1(2) by auto
      with ih fr r(4,5) Cons.prems(3) s 1 Some r(1) show ?thesis
        by (intro exI [of _ series'] exI [of _ "map (\<lambda>v. string_at v 0) new @ new'"]) auto
    qed
  next
    case 2
    then have "attach_bodies u (b # bs) series m = attach_bodies u bs series m"
      using s by (cases rows; cases "tl rows") auto
    moreover have "first_values (single_row u b) = []" using 2 by (simp add: first_values_def)
    ultimately show ?thesis using Cons.IH [of series m] Cons.prems by auto
  qed
qed auto

section \<open>No query panics\<close>

lemma CheckQuery_tokens:
  assumes "ScanTokens q 0 = Some tokens" "tokens \<noteq> []"
  shows "\<exists>check frm. CheckQuery q = Some (tokens, check, frm)"
  using assms by (cases tokens) (auto simp: CheckQuery_def Let_def byte_at_def split: option.split)

lemma CheckDatabaseFromTokens_no_panic:
  assumes "list_all proper_token tokens"
  shows "CheckDatabaseFromTokens tokens \<noteq> None"
proof -
  have "list_all proper_token (drop 2 tokens)" using assms by (auto simp: list_all_iff dest: in_set_dropD)
  from getDatabase_proper [OF this, of "''database''"] show ?thesis
    by (auto simp: CheckDatabaseFromTokens_def Let_def)
qed

lemma value_rows_total: "None \<notin> (\<lambda>v. string_at v 0) ` set vs \<Longrightarrow> value_rows vs m \<noteq> None"
proof (induction vs arbitrary: m)
  case (Cons v vs)
  then obtain k where "string_at v 0 = Some k" by fastforce
  with Cons show ?case by simp
qed simp

lemma reduce_values_total: "list_all (names_listed u) bodies \<Longrightarrow> reduce_values u bodies series m \<noteq> None"
proof (induction bodies arbitrary: series m)
  case (Cons b bs)
  obtain rows e where s: "SeriesFromResponseBytes u b = (rows, e)" by fastforce
  show ?case
  proof (cases e)
    case None
    from s [unfolded None] show ?thesis
    proof (cases rule: single_row_cases)
      case (1 row)
      with Cons.prems have "None \<notin> (\<lambda>v. string_at v 0) ` set (row_Values row)"
        by (auto simp: names_listed_def first_values_def)
      from value_rows_total [OF this, of m] obtain m' where "value_rows (row_Values row) m = Some m'" by blast
      with s None 1 Cons show ?thesis by simp
    next
      case 2
      with s None have "reduce_values u (b # bs) series m = reduce_values u bs series m"
        by (cases rows; cases "tl rows") auto
      with Cons show ?thesis by simp
    qed
  qed (simp add: s split: list.split)
qed simp

lemma attach_bodies_total: "list_all (names_listed u) bodies \<Longrightarrow> attach_bodies u bodies series m \<noteq> None"
proof (induction bodies arbitrary: series m)
  case (Cons b bs)
  obtain rows e where s: "SeriesFromResponseBytes u b = (rows, e)" by fastforce
  show ?case
  proof (cases e)
    case None
    from s [unfolded None] show ?thesis
    proof (cases rule: single_row_cases)
      case (1 row)
      with Cons.prems have n: "None \<notin> (\<lambda>v. string_at v 0) ` set (row_Values row)"
        by (auto simp: names_listed_def first_values_def)
      obtain m1 where k: "attach_keys (row_Values row) m = Some m1"
        using attach_keys_total [OF n, of m] by (elim exE conjE) (rule that)
      have r: "\<exists>vals' m2. attach_rows (row_Values row) vals m = Some (vals', m2)" for vals
        using attach_rows_total [OF n, of vals m] by (elim exE conjE) (intro exI)
      show ?thesis
      proof (cases series)
        case (Some t)
        from r [of "row_Values t"] obtain vals' m2 where "attach_rows (row_Values row) (row_Values t) m = Some (vals', m2)" by blast
        with s None 1 Some Cons show ?thesis by simp
      qed (use s None 1 k Cons in simp)
    next
      case 2
      with s None have "attach_bodies u (b # bs) series m = attach_bodies u bs series m"
        by (cases rows; cases "tl rows") auto
      with Cons show ?thesis by simp
    qed
  qed (simp add: s split: list.split)
qed simp

text \<open>The statements whose answers are merged by the names their values start with.\<close>

definition merged_by_names :: "string list \<Rightarrow> bool" where
  "merged_by_names tokens \<longleftrightarrow>
     GetHeadStmtFromTokens tokens 2 \<in> {''show measurements'', ''show series'', ''show databases''} \<or>
     GetHeadStmtFromTokens tokens 3 = ''show retention policies''"

lemma merge_no_panic:
  assumes "merged_by_names tokens \<longrightarrow> list_all (names_listed u) bodies"
  shows "merge u ord tokens bodies \<noteq> None"
  using assms reduce_values_total [of u bodies "[]" "[]"] attach_bodies_total [of u bodies None "[]"]
  by (auto simp: merge_def merged_by_names_def reduceByValues_def attachByValues_def Let_def)

text \<open>What the active backends answer to a show statement: the bodies of the answers without error.\<close>

definition show_answers :: "http_env \<Rightarrow> HttpBackend list \<Rightarrow> Request \<Rightarrow> bytes list" where
  "show_answers env backends req =
     (let results = map (parallel_result env (req\<lparr>rq_Form := map_del ''chunked'' (rq_Form req)\<rparr>) True) (filter IsActive backends)
      in map qr_Body (filter (\<lambda>qr. qr_Err qr = None) results))"

lemma QueryShowQL_no_panic:
  assumes "rearranges (so_arrive ord)"
    and "merged_by_names tokens \<longrightarrow> list_all (names_listed (he_unmarshal (xe_http env))) (show_answers (xe_http env) backends req)"
  shows "QueryShowQL env ord backends req w tokens \<noteq> None"
proof -
  let ?req = "req\<lparr>rq_Form := map_del ''chunked'' (rq_Form req)\<rparr>" and ?arrived = "so_arrive ord (filter IsActive backends)"
  have enc: "\<exists>a b c. encode_response env req' w' x = (a, b, c)" for req' w' x by (metis prod_cases3)
  show ?thesis
  proof (cases "list_all (\<lambda>be. qr_Err (parallel_result (xe_http env) ?req True be) = None) ?arrived")
    case True
    let ?bodies = "map (\<lambda>be. qr_Body (parallel_result (xe_http env) ?req True be)) ?arrived"
    have "set ?bodies \<subseteq> set (show_answers (xe_http env) backends req)"
      using True rearranges_set [OF assms(1), of "filter IsActive backends"]
      by (auto simp: show_answers_def Let_def list_all_iff)
    with assms(2) have "merged_by_names tokens \<longrightarrow> list_all (names_listed (he_unmarshal (xe_http env))) ?bodies"
      unfolding list_all_iff by blast
    from merge_no_panic [OF this, of ord] QueryInParallel_ok [where arrive = "so_arrive ord", OF True, of w] enc
    show ?thesis by (auto simp: QueryShowQL_def split: option.split sum.split)
  next
    case False
    from QueryInParallel_failed [where arrive = "so_arrive ord", OF False, of w] show ?thesis
      by (auto simp: QueryShowQL_def)
  qed
qed

lemma QueryBackends_no_panic:
  assumes "rearranges arrive"
  shows "QueryBackends env arrive backends req w \<noteq> None"
proof (cases "backends = [] \<or> find (\<lambda>be. \<not> IsActive be) backends \<noteq> None")
  case True
  then show ?thesis by (auto simp: QueryBackends_def)
next
  case False
  then have f: "filter IsActive backends = backends" by (auto simp: find_None_iff filter_id_conv)
  show ?thesis
  proof (cases "list_all (\<lambda>be. qr_Err (parallel_result (xe_http env) req False be) = None) (arrive (filter IsActive backends))")
    case ok: True
    from QueryInParallel_ok [where arrive = arrive, OF ok, of w] False f assms show ?thesis
      by (auto simp: QueryBackends_def byte_at_def)
  next
    case no: False
    from QueryInParallel_failed [where arrive = arrive, OF no, of w] False show ?thesis
      by (auto simp: QueryBackends_def)
  qed
qed

text \<open>A proxy answers every query. On a proxy whose circles route every key, a query that has a
  token and whose measurement can be looked up is answered, with a body or an error, and never
  brings the proxy down, in whatever order the servers answer and the maps are read. What the
  servers answer matters only for statements that are merged by names: where such an answer
  decodes to one row, its values must start with strings. (Queries without a token and a
  measurement pattern that ends with a backslash do panic, see \<^verbatim>\<open>CheckQuery\<close>.)\<close>

theorem Query_no_panic:
  assumes "proxy_inv (xe_lookup env) ip" "\<forall>p \<in> set perms. p < length (ip_Circles ip)"
    and "rearranges (so_arrive ord)"
    and "ScanTokens (TrimSpace (FormValue req ''q'')) 0 = Some tokens" "tokens \<noteq> []"
    and "GetMeasurementFromTokens tokens \<noteq> None"
    and "merged_by_names tokens \<longrightarrow>
      list_all (names_listed (he_unmarshal (xe_http env))) (show_answers (xe_http env) (backends_at ip (GetAllBackends ip)) req)"
  shows "Query env ord perms ip req w \<noteq> None"

proof -
  obtain check frm where cq: "CheckQuery (TrimSpace (FormValue req ''q'')) = Some (tokens, check, frm)"
    using CheckQuery_tokens [OF assms(4,5)] by blast
  have proper: "list_all proper_token tokens" using ScanTokens_proper [OF assms(4)] by simp
  obtain r where dbt: "GetDatabaseFromTokens tokens = Some r"
    using GetDatabaseFromTokens_no_panic [OF proper] by blast
  obtain m where meas: "GetMeasurementFromTokens tokens = Some m" using assms(6) by blast
  obtain cdb sdb adb db0 where cd: "CheckDatabaseFromTokens tokens = Some (cdb, sdb, adb, db0)"
    using CheckDatabaseFromTokens_no_panic [OF proper] by (metis not_None_eq prod_cases4)
  have sel: "\<exists>b. CheckSelectOrShowFromTokens tokens = Some b"
    using assms(5) by (cases tokens) (simp_all add: CheckSelectOrShowFromTokens_def byte_at_def Let_def)
  have db: "\<exists>db. query_db req tokens cdb db0 = Some db" by (simp add: query_db_def dbt)
  have fromQL: "QueryFromQL env perms ip tokens db req w \<noteq> None" for db
  proof (cases m)
    case (Inr mm)
    with query_spec [OF assms(1,2), of "iql_asker (xe_http env)" "GetKey (xe_measureOnly env) db mm" req w] meas
    show ?thesis by (auto simp: QueryFromQL_def simp del: not_None_eq)
  qed (simp add: QueryFromQL_def meas)
  have showQL: "QueryShowQL env ord (backends_at ip (GetAllBackends ip)) req w tokens \<noteq> None"
    by (rule QueryShowQL_no_panic [OF assms(3,7)])
  have backends: "QueryBackends env (so_arrive ord) bs req w \<noteq> None" for bs
    by (rule QueryBackends_no_panic [OF assms(3)])
  have dropQL: "QueryDeleteOrDropQL env (so_arrive ord) ip tokens db req w \<noteq> None" for db
  proof (cases m)
    case (Inr mm)
    from GetBackends_spec [OF assms(1), of "GetKey (xe_measureOnly env) db mm"] obtain ics ts where
      "GetBackends (xe_lookup env) ip (GetKey (xe_measureOnly env) db mm) = (ip\<lparr>ip_Circles := ics\<rparr>, map Some ts)" by blast
    moreover have "find P (map Some ts) \<noteq> Some None" for P by (auto simp: find_Some_iff)
    ultimately show ?thesis using Inr meas backends by (simp add: QueryDeleteOrDropQL_def)
  qed (simp add: QueryDeleteOrDropQL_def meas)
  show ?thesis
    using cq cd sel db fromQL showQL dropQL backends
    by (auto simp: Query_def QueryAlterQL_def Let_def)
qed

definition in_order :: show_order where
  "in_order = \<lparr>so_arrive = id, so_values = id, so_series = id\<rparr>"

lemma show_request_tokens: "ScanTokens (TrimSpace (FormValue show_request ''q'')) 0 = Some [''show'', ''measurements'']"
  by code_simp

text \<open>Servers that list two measurements, in an encoding of their own; all else does not decode.\<close>

definition listing_row :: Row where
  "listing_row = \<lparr>row_Name = ''measurements'', row_Tags = [], row_Columns = [''name''],
     row_Values = [[JString ''cpu''], [JString ''mem'']], row_Partial = False\<rparr>"

definition listing_env :: http_env where
  "listing_env = sample_env (\<lambda>_. Inr \<lparr>rs_StatusCode = 200, rs_Header = [], rs_Body = Inr ''cpu,mem''\<rparr>)
     (\<lambda>b. if b = ''cpu,mem'' then (ResponseFromSeries [listing_row], None) else (ResponseFromError [], Some ErrIO))"

definition listing_xe :: exec_env where
  "listing_xe = sample_xe\<lparr>xe_http := listing_env\<rparr>"

lemma listing_answers:
  "list_all (names_listed (he_unmarshal listing_env)) (show_answers listing_env backends req)"
  "first_values (single_row (he_unmarshal listing_env) ''cpu,mem'') = [Some ''cpu'', Some ''mem'']"
  "show_answers listing_env [sample_backend] req = [''cpu,mem'']"
proof -
  have r: "parallel_result listing_env req True be = \<lparr>qr_Header = [], qr_Status = 200, qr_Body = ''cpu,mem'', qr_Err = None\<rparr>" for req be
    by (simp add: parallel_result_def hb_Query_def query_result_def response_body_def listing_env_def sample_env_def
        values_get_def Let_def)
  show f: "first_values (single_row (he_unmarshal listing_env) ''cpu,mem'') = [Some ''cpu'', Some ''mem'']"
    by (simp add: single_row_def SeriesFromResponseBytes_def listing_env_def sample_env_def ResponseFromSeries_def
        first_values_def listing_row_def)
  show "list_all (names_listed (he_unmarshal listing_env)) (show_answers listing_env backends req)"
    by (auto simp: show_answers_def r list_all_iff names_listed_def f Let_def)
  show "show_answers listing_env [sample_backend] req = [''cpu,mem'']"
    by (simp add: show_answers_def r IsActive_def sample_backend_def Let_def)
qed

theorem Query_no_panic_witness: "Query listing_xe in_order [0] sample_px show_request new_writer \<noteq> None"
proof -
  have "GetMeasurementFromTokens [''show'', ''measurements''] \<noteq> None" by code_simp
  moreover have "list_all (names_listed (he_unmarshal (xe_http listing_xe)))
      (show_answers (xe_http listing_xe) (backends_at sample_px (GetAllBackends sample_px)) show_request)"
    using listing_answers(1) by (simp add: listing_xe_def)
  moreover have "proxy_inv (xe_lookup listing_xe) sample_px" using sample_px_inv by (simp add: sample_xe_def listing_xe_def)
  moreover have "rearranges (so_arrive in_order)" by (simp add: in_order_def rearranges_def)
  ultimately show ?thesis
    using Query_no_panic [OF _ _ _ show_request_tokens] by (simp add: sample_px_def)
qed

text \<open>An answer whose values do not start with a string brings the proxy down: the type assertion
  in \<^verbatim>\<open>reduceByValues\<close> is not checked.\<close>

theorem reduceByValues_panics:
  assumes "single_row u b = Some row" "v \<in> set (row_Values row)" "string_at v 0 = None"
  shows "reduceByValues u iter [b] = None"
proof -
  have "value_rows vs m = None" if "v \<in> set vs" for vs m
    using that assms(3) by (induction vs arbitrary: m) (auto split: option.split)
  moreover have "SeriesFromResponseBytes u b = ([row], None)"
    using assms(1) by (auto simp: single_row_def split: prod.splits list.splits option.splits)
  ultimately show ?thesis using assms(2) by (simp add: reduceByValues_def)
qed

section \<open>Retention policies, and databases the check does not see\<close>

text \<open>\<^verbatim>\<open>show retention policies\<close> keeps the first answer. When the answers decode and their
  values start with strings, the merged answer begins with all the values of the first answer
  that has a row, in their order, and goes on with the names that only later answers have, each
  once: in the end exactly the names of all backends.\<close>

theorem attachByValues_extends:
  assumes "list_all (well_formed u) (b # bodies)" "single_row u b = Some row"
  shows "\<exists>r new. attachByValues u (b # bodies) = Some (Inr (ResponseFromSeries [r])) \<and>
    first_values (Some r) = first_values (Some row) @ new \<and> distinct new \<and>
    set new = (\<Union>b \<in> set bodies. set (first_values (single_row u b))) - set (first_values (Some row))"
proof -
  from assms(1) obtain rows where s: "SeriesFromResponseBytes u b = (rows, None)"
    and names: "None \<notin> set (first_values (single_row u b))"
    by (cases "SeriesFromResponseBytes u b") (auto simp: well_formed_def)
  from s assms(2) have rows: "rows = [row]" by (auto elim: single_row_cases)
  from names assms(2) have n: "None \<notin> (\<lambda>v. string_at v 0) ` set (row_Values row)" by (auto simp: first_values_def)
  from attach_keys_total [OF n, of "[]"] obtain m1 where m1: "attach_keys (row_Values row) [] = Some m1"
    "Some ` dom (map_of m1) = set (first_values (Some row))"
    by (auto simp: first_values_def)
  from attach_bodies_spec [OF _ _ m1(2), of u bodies] assms(1) obtain series' new where a:
    "attach_bodies u bodies (Some row) m1 = Some (Inr series')"
    "set (first_values series') = set (first_values (Some row)) \<union> (\<Union>b \<in> set bodies. set (first_values (single_row u b)))"
    "first_values series' = first_values (Some row) @ new" "distinct new" "set new \<inter> set (first_values (Some row)) = {}"
    "series' \<noteq> None"
    by auto
  have "attachByValues u (b # bodies) = Some (Inr (ResponseFromSeries (case series' of None \<Rightarrow> [] | Some r \<Rightarrow> [r])))"
    using s rows m1(1) a(1) by (simp add: attachByValues_def)
  moreover have "set new = (\<Union>b \<in> set bodies. set (first_values (single_row u b))) - set (first_values (Some row))"
    using a(2,3,5) by auto
  ultimately show ?thesis using a(3,4,6) by auto
qed

theorem attachByValues_extends_witness:
  "\<exists>r. attachByValues (\<lambda>_. (ResponseFromSeries [\<lparr>row_Name = [], row_Tags = [], row_Columns = [''name''],
      row_Values = [[JString ''autogen'']], row_Partial = False\<rparr>], None)) [''1'', ''2''] =
     Some (Inr (ResponseFromSeries [r])) \<and> first_values (Some r) = [Some ''autogen'']"
proof -
  let ?r = "\<lparr>row_Name = [], row_Tags = [], row_Columns = [''name''], row_Values = [[JString ''autogen'']], row_Partial = False\<rparr>"
  let ?u = "\<lambda>_. (ResponseFromSeries [?r], None)"
  have s: "SeriesFromResponseBytes ?u b = ([?r], None)" for b
    by (simp add: SeriesFromResponseBytes_def ResponseFromSeries_def)
  have f: "single_row ?u b = Some ?r" for b by (simp add: single_row_def s)
  have "list_all (well_formed ?u) [''1'', ''2'']" by (simp add: well_formed_def s f first_values_def)
  from attachByValues_extends [OF this f] show ?thesis by (auto simp: first_values_def f)
qed

text \<open>The check of forbidden databases looks at one source only. A statement that selects from
  two measurements is checked, and routed, by the database of the first: with only \<^verbatim>\<open>ok\<close> in the
  list of databases, a query on \<^verbatim>\<open>ok.rp.m\<close> and \<^verbatim>\<open>secret.rp.m\<close> is forwarded as it is.\<close>

theorem Query_second_source_unchecked:
  assumes "FormValue req ''q'' = ''select * from ok.rp.m , secret.rp.m''" "\<not> IsForbiddenDB ip ''ok''"
    and "IsForbiddenDB ip ''secret''"
  shows "\<exists>tokens. Query env ord perms ip req w = QueryFromQL env perms ip tokens ''ok'' req w \<and>
    GetMeasurementFromTokens tokens = Some (Inr ''m'') \<and> ''secret'' \<in> set tokens"
proof -
  let ?ts = "[''select'', ''*'', ''from'', ''ok'', ''.'', ''rp'', ''.'', ''m'', '','', ''secret'', ''.'', ''rp'', ''.'', ''m'']"
  have t: "TrimSpace ''select * from ok.rp.m , secret.rp.m'' = ''select * from ok.rp.m , secret.rp.m''" by code_simp
  have cq: "CheckQuery ''select * from ok.rp.m , secret.rp.m'' = Some (?ts, True, True)" by code_simp
  have cd: "CheckDatabaseFromTokens ?ts = Some (False, False, False, [])" by code_simp
  have db: "GetDatabaseFromTokens ?ts = Some (Inr ''ok'')" by code_simp
  have m: "GetMeasurementFromTokens ?ts = Some (Inr ''m'')" by code_simp
  have sel: "CheckSelectOrShowFromTokens ?ts = Some True" by code_simp
  have "Query env ord perms ip req w = QueryFromQL env perms ip ?ts ''ok'' req w"
    unfolding Query_def assms(1) t Let_def cq by (simp add: cd sel query_db_def db assms(2))
  with m show ?thesis by (intro exI [of _ ?ts]) simp
qed

theorem Query_second_source_unchecked_witness:
  "\<exists>tokens. Query sample_xe in_order [0] (sample_px\<lparr>ip_dbSet := [(''ok'', True)]\<rparr>)
     (NewQueryRequest ''GET'' '''' ''select * from ok.rp.m , secret.rp.m'' '''') w =
   QueryFromQL sample_xe [0] (sample_px\<lparr>ip_dbSet := [(''ok'', True)]\<rparr>) tokens ''ok''
     (NewQueryRequest ''GET'' '''' ''select * from ok.rp.m , secret.rp.m'' '''') w"
proof -
  have "FormValue (NewQueryRequest ''GET'' '''' ''select * from ok.rp.m , secret.rp.m'' '''') ''q'' =
      ''select * from ok.rp.m , secret.rp.m''"
    by (simp add: FormValue_def values_get_def NewQueryRequest_def)
  moreover have "\<not> IsForbiddenDB (sample_px\<lparr>ip_dbSet := [(''ok'', True)]\<rparr>) ''ok''"
    "IsForbiddenDB (sample_px\<lparr>ip_dbSet := [(''ok'', True)]\<rparr>) ''secret''"
    by (simp_all add: IsForbiddenDB_def Has_def)
  ultimately show ?thesis using Query_second_source_unchecked by blast
qed

end
