(* ===== verification/Transfers.thy ===== *)
theory Transfers
  imports Executor
begin

text \<open>
  Moving measurements between backends, \<^verbatim>\<open>transfer/transfer.go\<close> and
  \<^verbatim>\<open>transfer/circlestate.go\<close>: rebalancing a circle, recovering one circle from another,
  resynchronising all circles and cleaning up a circle; the copying of a measurement in pages
  and batches; the state flags, their broadcast to the other proxies, and the statistics.

  A \<^verbatim>\<open>CircleState\<close> points to a circle of the proxy; here the circles go through the operations
  beside the transfer, and the state of circle \<open>i\<close> is the \<open>i\<close>-th one. The tasks for the pool
  are values, the \<open>job\<close>s, in the order submitted; running one is \<open>transfer_copy\<close> or
  \<^verbatim>\<open>DropMeasurement\<close>. The goroutines that look at the backends one by one only add to
  separate statistics: they are run one after the other. In \<open>tx_env\<close> are the network (as a
  whole, and for the retries at each page or batch and attempt), the order of parallel answers,
  the outcome of making a pool, the consistent hash, the global \<^verbatim>\<open>HashKeyMeasureOnly\<close>, and
  \<^verbatim>\<open>fmt.Sprint\<close> of values that are neither numbers, strings, booleans nor null and the
  client library's escaping of strings. The log file is left out. A panic is \<open>None\<close>.
\<close>

section \<open>Definitions\<close>

definition FieldTypes :: "string list" where
  "FieldTypes = [''float'', ''integer'', ''string'', ''boolean'']"

definition RetryCount :: nat where "RetryCount = 10"
definition DefaultWorker :: int where "DefaultWorker = 1"
definition DefaultBatch :: int where "DefaultBatch = 25000"
definition DefaultLimit :: int where "DefaultLimit = 1000000"

text \<open>The counters are \<^verbatim>\<open>int32\<close>, signed: a word here, read in two's complement with \<^term>\<open>sint\<close>. At
  2147483648 a counter turns negative.\<close>

record Stats =
  st_DatabaseTotal :: "32 word"
  st_DatabaseDone :: "32 word"
  st_MeasurementTotal :: "32 word"
  st_MeasurementDone :: "32 word"
  st_TransferCount :: "32 word"
  st_InPlaceCount :: "32 word"

definition zero_stats :: Stats where
  "zero_stats = \<lparr>st_DatabaseTotal = 0, st_DatabaseDone = 0, st_MeasurementTotal = 0,
     st_MeasurementDone = 0, st_TransferCount = 0, st_InPlaceCount = 0\<rparr>"

record CircleState =
  cs_Stats :: "(string, Stats) gomap"
  cs_Transferring :: bool

definition NewCircleState :: "CircleConfig \<Rightarrow> CircleState" where
  "NewCircleState cfg =
     \<lparr>cs_Stats = fold (\<lambda>b. map_set (bc_Url b) zero_stats) (cc_Backends cfg) [], cs_Transferring = False\<rparr>"

definition ResetStates :: "CircleState \<Rightarrow> CircleState" where
  "ResetStates cs = cs\<lparr>cs_Stats := map (\<lambda>(u, s). (u, zero_stats)) (cs_Stats cs)\<rparr>"

record Transfer =
  tx_username :: string
  tx_password :: string
  tx_authEncrypt :: bool
  tx_httpsEnabled :: bool
  tx_tlogDir :: string
  tx_CircleStates :: "CircleState list"
  tx_Worker :: int
  tx_Batch :: int
  tx_Limit :: int
  tx_Resyncing :: bool
  tx_HaAddrs :: "string list"

definition NewTransfer :: "ProxyConfig \<Rightarrow> Transfer" where
  "NewTransfer cfg =
     \<lparr>tx_username = '''', tx_password = '''', tx_authEncrypt = False, tx_httpsEnabled = False,
      tx_tlogDir = pc_TLogDir cfg, tx_CircleStates = map NewCircleState (pc_Circles cfg),
      tx_Worker = DefaultWorker, tx_Batch = DefaultBatch, tx_Limit = DefaultLimit,
      tx_Resyncing = False, tx_HaAddrs = []\<rparr>"

definition resetCircleStates :: "Transfer \<Rightarrow> Transfer" where
  "resetCircleStates tx = tx\<lparr>tx_CircleStates := map ResetStates (tx_CircleStates tx)\<rparr>"

definition resetBasicParam :: "Transfer \<Rightarrow> Transfer" where
  "resetBasicParam tx = tx\<lparr>tx_Worker := DefaultWorker, tx_Batch := DefaultBatch, tx_Limit := DefaultLimit\<rparr>"

record tx_env =
  te_http :: http_env
  te_net :: "nat \<Rightarrow> nat \<Rightarrow> http_env"
  te_arrive :: "HttpBackend list \<Rightarrow> HttpBackend list"
  te_NewPool :: "int \<Rightarrow> error option"
  te_lookup :: router
  te_measureOnly :: bool
  te_Sprint :: "json \<Rightarrow> string"
  te_EscapeStringField :: "string \<Rightarrow> string"

subsection \<open>Databases and retention policies\<close>

definition all_backends :: "Circle list \<Rightarrow> HttpBackend list" where
  "all_backends circles = concat (map (\<lambda>ic. map ib_hb (ic_Backends ic)) circles)"

text \<open>The names that the active backends list, each once, in the order met.\<close>

definition add_names :: "string list \<Rightarrow> string list \<Rightarrow> string list" where
  "add_names new acc = foldl (\<lambda>a n. if n \<in> set a then a else a @ [n]) acc new"

fun gather :: "(HttpBackend \<Rightarrow> string list option) \<Rightarrow> HttpBackend list \<Rightarrow> string list \<Rightarrow> string list option" where
  "gather names [] acc = Some acc"
| "gather names (be # bes) acc =
     (if IsActive be then do { ns \<leftarrow> names be; gather names bes (add_names ns acc) }
      else gather names bes acc)"

definition getRetentionPolicies :: "http_env \<Rightarrow> Circle list \<Rightarrow> string \<Rightarrow> string list option" where
  "getRetentionPolicies env circles db = gather (\<lambda>be. GetRetentionPolicies env be db) (all_backends circles) []"

definition getDatabases :: "http_env \<Rightarrow> Circle list \<Rightarrow> string list option" where
  "getDatabases env circles = gather (GetDatabases env) (all_backends circles) []"

text \<open>A parallel query whose answers go nowhere: of the nil writer only the copied header would
  be seen.\<close>

definition parallel_err :: "tx_env \<Rightarrow> HttpBackend list \<Rightarrow> string \<Rightarrow> error option" where
  "parallel_err env backends q =
     (case QueryInParallel (te_http env) (te_arrive env) backends (NewQueryRequest ''POST'' '''' q '''')
             new_writer False of
        (req, w, bodies, inactive, err) \<Rightarrow> err)"

definition create_database :: "string \<Rightarrow> string" where
  "create_database db = ''create database \"'' @ EscapeIdentifier db @ ''\"''"

definition create_rp :: "string \<Rightarrow> string \<Rightarrow> string" where
  "create_rp rp db =
     ''create retention policy \"'' @ EscapeIdentifier rp @ ''\" on \"'' @ EscapeIdentifier db @
     ''\" duration 0s replication 1''"

text \<open>The loop over the databases: the statements sent to all active backends, and the error
  that ended it. Failing to create a retention policy is logged only.\<close>

fun create_each :: "tx_env \<Rightarrow> Circle list \<Rightarrow> string list \<Rightarrow> (string list \<times> error option) option" where
  "create_each env circles [] = Some ([], None)"
| "create_each env circles (db # dbs) =
     (let q = create_database db in
      case parallel_err env (all_backends circles) q of
        Some e \<Rightarrow> Some ([q], Some e)
      | None \<Rightarrow>
          do { rps \<leftarrow> getRetentionPolicies (te_http env) circles db;
               (qs, err) \<leftarrow> create_each env circles dbs;
               Some (q # map (\<lambda>rp. create_rp rp db) rps @ qs, err) })"

definition createDatabases :: "tx_env \<Rightarrow> Circle list \<Rightarrow> string list \<Rightarrow> (string list \<times> string list \<times> error option) option" where
  "createDatabases env circles dbs0 =
     do { dbs \<leftarrow> (if dbs0 = [] then getDatabases (te_http env) circles else Some dbs0);
          (qs, err) \<leftarrow> create_each env circles dbs;
          Some (dbs, qs, err) }"

subsection \<open>Copying a measurement\<close>

definition reform_types :: "string list \<Rightarrow> string option" where
  "reform_types types =
     (if length types = 1 then Some (types ! 0)
      else find (\<lambda>dt. Has (NewSetFromSlice types) dt) FieldTypes)"

definition reformFieldKeys :: "go_values \<Rightarrow> (string, string) gomap" where
  "reformFieldKeys fieldKeys =
     concat (map (\<lambda>(field, types). case reform_types types of None \<Rightarrow> [] | Some t \<Rightarrow> [(field, t)]) fieldKeys)"

text \<open>\<^verbatim>\<open>%v\<close> of a decoded value, and \<^verbatim>\<open>util.CastString\<close>, which gives the same text.\<close>

definition Sprint_value :: "(json \<Rightarrow> string) \<Rightarrow> json \<Rightarrow> string" where
  "Sprint_value sprint v =
     (case v of
        JNull \<Rightarrow> ''<nil>''
      | JBool b \<Rightarrow> if b then ''true'' else ''false''
      | JNumber s \<Rightarrow> s
      | JString s \<Rightarrow> s
      | _ \<Rightarrow> sprint v)"

definition CastString :: "(json \<Rightarrow> string) \<Rightarrow> json \<Rightarrow> string" where
  "CastString sprint v =
     (case v of JNumber s \<Rightarrow> s | JString s \<Rightarrow> s | _ \<Rightarrow> Sprint_value sprint v)"

definition field_text :: "tx_env \<Rightarrow> string \<Rightarrow> string \<Rightarrow> json \<Rightarrow> string list" where
  "field_text env vtype k v =
     (if vtype = ''float'' \<or> vtype = ''boolean'' then [EscapeTag k @ ''='' @ Sprint_value (te_Sprint env) v]
      else if vtype = ''integer'' then [EscapeTag k @ ''='' @ Sprint_value (te_Sprint env) v @ ''i'']
      else if vtype = ''string''
      then [EscapeTag k @ ''=\"'' @ te_EscapeStringField env (CastString (te_Sprint env) v) @ ''\"'']
      else [])"

text \<open>The loop over the columns of a row of values, from the second on: the tags and the fields
  of the line.\<close>

fun line_parts ::
    "tx_env \<Rightarrow> Set \<Rightarrow> (string, string) gomap \<Rightarrow> string list \<Rightarrow> json list \<Rightarrow> (string list \<times> string list) option" where
  "line_parts env tagMap fieldMap cols [] = Some ([], [])"
| "line_parts env tagMap fieldMap [] (v # vs) = None"
| "line_parts env tagMap fieldMap (k # cols) (v # vs) =
     do { (tags, fields) \<leftarrow> line_parts env tagMap fieldMap cols vs;
          Some (if Has tagMap k
                then (if v \<noteq> JNull then (EscapeTag k @ ''='' @ EscapeTag (CastString (te_Sprint env) v)) # tags else tags,
                      fields)
                else case map_get fieldMap k of
                       None \<Rightarrow> (tags, fields)
                     | Some vtype \<Rightarrow> (tags, if v \<noteq> JNull then field_text env vtype k v @ fields else fields)) }"

definition copy_line ::
    "tx_env \<Rightarrow> string \<Rightarrow> Set \<Rightarrow> (string, string) gomap \<Rightarrow> string list \<Rightarrow> json list \<Rightarrow> bytes option" where
  "copy_line env meas tagMap fieldMap columns value =
     do { (tags, fields) \<leftarrow> line_parts env tagMap fieldMap (tl columns) (tl value);
          v0 \<leftarrow> byte_at value 0;
          Some (Join (EscapeMeasurement meas # tags) '','' @ '' '' @ Join fields '','' @ '' '' @
                Sprint_value (te_Sprint env) v0 @ [CHR 0x0A]) }"

text \<open>The loop over the rows of a page: a batch is sent when its number of rows is reached and at
  the end of the page. Dividing by a batch of zero panics.\<close>

fun batches :: "int \<Rightarrow> nat \<Rightarrow> nat \<Rightarrow> bytes \<Rightarrow> bytes list \<Rightarrow> bytes list option" where
  "batches batch valen idx buf [] = Some []"
| "batches batch valen idx buf (line # lines) =
     (if batch = 0 then None
      else if (int idx + 1) mod batch = 0 \<or> idx + 1 = valen
      then map_option ((#) (buf @ line)) (batches batch valen (idx + 1) [] lines)
      else batches batch valen (idx + 1) (buf @ line) lines)"

definition page_batches ::
    "tx_env \<Rightarrow> int \<Rightarrow> string \<Rightarrow> Set \<Rightarrow> (string, string) gomap \<Rightarrow> Row \<Rightarrow> bytes list option" where
  "page_batches env batch meas tagMap fieldMap serie =
     do { lines \<leftarrow> those (map (copy_line env meas tagMap fieldMap (row_Columns serie)) (row_Values serie));
          batches batch (length (row_Values serie)) 0 [] lines }"

text \<open>What \<^verbatim>\<open>write\<close> sends to every destination, up to the first error of the source.\<close>

fun tx_write ::
    "tx_env \<Rightarrow> int \<Rightarrow> string \<Rightarrow> Set \<Rightarrow> (string, string) gomap \<Rightarrow> (error + Row list) list \<Rightarrow>
     (bytes list \<times> error option) option" where
  "tx_write env batch meas tagMap fieldMap [] = Some ([], None)"
| "tx_write env batch meas tagMap fieldMap (qr # qrs) =
     (case qr of
        Inl e \<Rightarrow> Some ([], Some e)
      | Inr series \<Rightarrow>
          do { serie \<leftarrow> byte_at series 0;
               bs \<leftarrow> page_batches env batch meas tagMap fieldMap serie;
               (bss, err) \<leftarrow> tx_write env batch meas tagMap fieldMap qrs;
               Some (bs @ bss, err) })"

text \<open>Sending one batch to one destination: up to \<^verbatim>\<open>RetryCount\<close> retries, from attempt \<open>i\<close>
  on; \<open>net\<close> is the network at each attempt. The last error is only logged.\<close>

fun attempts :: "nat \<Rightarrow> nat \<Rightarrow> (nat \<Rightarrow> 'a \<Rightarrow> ('a \<times> 'b \<times> error option) option) \<Rightarrow> 'a \<Rightarrow> ('a \<times> 'b \<times> error option) option" where
  "attempts 0 i act s = act i s"
| "attempts (Suc n) i act s =
     do { (s', r, err) \<leftarrow> act i s;
          if err = None then Some (s', r, None) else attempts n (Suc i) act s' }"

definition send_batch ::
    "(nat \<Rightarrow> http_env) \<Rightarrow> HttpBackend \<Rightarrow> string \<Rightarrow> string \<Rightarrow> bytes \<Rightarrow> (HttpBackend \<times> error option) option" where
  "send_batch net dst db rp p =
     map_option (\<lambda>(hb, u, err). (hb, err))
       (attempts RetryCount 0 (\<lambda>i hb. map_option (\<lambda>(hb', e). (hb', (), e)) (hb_Write (net i) hb db rp p)) dst)"

definition page_query :: "string \<Rightarrow> string \<Rightarrow> int \<Rightarrow> int \<Rightarrow> int \<Rightarrow> string" where
  "page_query rp meas tick limit offset =
     ''select * from '' @ quoted_source rp meas @ '' '' @
     (if 0 < tick then ''where time >= '' @ Itoa tick @ ''s'' else '''') @
     '' order by time desc limit '' @ Itoa limit @ '' offset '' @ Itoa offset"

text \<open>One page: the rows of the answer, none when there are no more.\<close>

definition fetch_page ::
    "(nat \<Rightarrow> http_env) \<Rightarrow> HttpBackend \<Rightarrow> string \<Rightarrow> string \<Rightarrow> error + Row list" where
  "fetch_page net src db q =
     (case attempts RetryCount 0 (\<lambda>i s. let (rsp, err) = QueryIQL (net i) src ''GET'' db q ''ns''
                                        in Some ((), (i, rsp), err)) () of
        Some (u, (i, rsp), None) \<Rightarrow>
          (case SeriesFromResponseBytes (he_unmarshal (net i)) rsp of
             (series, Some e) \<Rightarrow> Inl e
           | (series, None) \<Rightarrow>
               if series = [] \<or> row_Values (hd series) = [] then Inr [] else Inr series)
      | Some (u, r, Some e) \<Rightarrow> Inl e
      | None \<Rightarrow> Inr [])"

text \<open>\<^verbatim>\<open>query\<close>: the results it puts on the channel, page after page, until an error or an empty
  page. A server that never runs out of rows keeps it busy for ever: the result is \<open>None\<close>.\<close>

partial_function (option) tx_pages ::
    "(nat \<Rightarrow> error + Row list) \<Rightarrow> nat \<Rightarrow> (error + Row list) list option" where
  "tx_pages page k =
     (case page k of
        Inl e \<Rightarrow> Some [Inl e]
      | Inr series \<Rightarrow> if series = [] then Some [] else do { rest \<leftarrow> tx_pages page (k + 1); Some (Inr series # rest) })"

definition tx_query ::
    "tx_env \<Rightarrow> int \<Rightarrow> HttpBackend \<Rightarrow> string \<Rightarrow> string \<Rightarrow> string \<Rightarrow> int \<Rightarrow> (error + Row list) list option" where
  "tx_query env limit src db rp meas tick =
     tx_pages (\<lambda>k. fetch_page (te_net env k) src db (page_query rp meas tick limit (int k * limit))) 0"

text \<open>\<^verbatim>\<open>tx.transfer\<close> up to the sending: the batches, in the order in which they are handed
  out, and the error that ended the copy. The pool of senders is made before anything is read.\<close>

definition copy_batches ::
    "tx_env \<Rightarrow> Transfer \<Rightarrow> HttpBackend \<Rightarrow> nat \<Rightarrow> string \<Rightarrow> string \<Rightarrow> string \<Rightarrow> int \<Rightarrow>
     (bytes list \<times> error option) option" where
  "copy_batches env tx src ndsts db rp meas tick =
     do { tagKeys \<leftarrow> GetTagKeys (te_http env) src db rp meas;
          fieldKeys \<leftarrow> GetFieldKeys (te_http env) src db rp meas;
          case te_NewPool env (int ndsts * 20) of
            Some e \<Rightarrow> Some ([], Some e)
          | None \<Rightarrow>
              do { ch \<leftarrow> tx_query env (tx_Limit tx) src db rp meas tick;
                   tx_write env (tx_Batch tx) meas (NewSetFromSlice tagKeys) (reformFieldKeys fieldKeys) ch } }"

subsection \<open>The tasks of a transfer\<close>

text \<open>A backend of a circle is a pointer \<open>be_ptr\<close>; a source may also be a backend that is no
  longer in a circle, and only its address and credentials are used, so it is a value.\<close>

datatype job =
    CopyJob HttpBackend "be_ptr option list" string string string int
  | DropJob HttpBackend string string

definition hb_at :: "Circle list \<Rightarrow> be_ptr \<Rightarrow> HttpBackend" where
  "hb_at ics p = ib_hb (ic_Backends (ics ! fst p) ! snd p)"

definition set_hb :: "Circle list \<Rightarrow> be_ptr \<Rightarrow> HttpBackend \<Rightarrow> Circle list" where
  "set_hb ics p hb =
     (let ic = ics ! fst p in
      ics[fst p := ic\<lparr>ic_Backends := (ic_Backends ic)[snd p := (ic_Backends ic ! snd p)\<lparr>ib_hb := hb\<rparr>]\<rparr>])"

text \<open>Sending the batches, from the \<open>k\<close>-th on, each to every destination; a nil destination
  panics.\<close>

fun send_dsts ::
    "(nat \<Rightarrow> http_env) \<Rightarrow> be_ptr option list \<Rightarrow> string \<Rightarrow> string \<Rightarrow> bytes \<Rightarrow> Circle list \<Rightarrow> Circle list option" where
  "send_dsts net [] db rp p ics = Some ics"
| "send_dsts net (None # dsts) db rp p ics = None"
| "send_dsts net (Some d # dsts) db rp p ics =
     do { (hb, err) \<leftarrow> send_batch net (hb_at ics d) db rp p; send_dsts net dsts db rp p (set_hb ics d hb) }"

fun send_batches ::
    "tx_env \<Rightarrow> nat \<Rightarrow> be_ptr option list \<Rightarrow> string \<Rightarrow> string \<Rightarrow> bytes list \<Rightarrow> Circle list \<Rightarrow> Circle list option" where
  "send_batches env k dsts db rp [] ics = Some ics"
| "send_batches env k dsts db rp (p # ps) ics =
     do { ics' \<leftarrow> send_dsts (te_net env k) dsts db rp p ics; send_batches env (Suc k) dsts db rp ps ics' }"

text \<open>What the pool runs: the circles after it and the error that it logs.\<close>

definition run_job :: "tx_env \<Rightarrow> Transfer \<Rightarrow> job \<Rightarrow> Circle list \<Rightarrow> (Circle list \<times> error option) option" where
  "run_job env tx j ics =
     (case j of
        CopyJob src dsts db rp meas tick \<Rightarrow>
          do { (ps, err) \<leftarrow> copy_batches env tx src (length dsts) db rp meas tick;
               ics' \<leftarrow> send_batches env 0 dsts db rp ps ics;
               Some (ics', err) }
      | DropJob be db meas \<Rightarrow> Some (ics, snd (DropMeasurement (te_http env) be db meas)))"

definition submitTransfer ::
    "tx_env \<Rightarrow> HttpBackend \<Rightarrow> be_ptr option list \<Rightarrow> string \<Rightarrow> string \<Rightarrow> int \<Rightarrow> job list option" where
  "submitTransfer env src dsts db meas tick =
     do { rps \<leftarrow> GetRetentionPolicies (te_http env) src db;
          Some (map (\<lambda>rp. CopyJob src dsts db rp meas tick) rps) }"

definition submitCleanup :: "HttpBackend \<Rightarrow> string \<Rightarrow> string \<Rightarrow> job list" where
  "submitCleanup be db meas = [DropJob be db meas]"

text \<open>\<^verbatim>\<open>cs.GetBackend(key)\<close> for the circle \<open>cid\<close>.\<close>

definition cs_GetBackend :: "tx_env \<Rightarrow> nat \<Rightarrow> string \<Rightarrow> Circle list \<Rightarrow> (Circle list \<times> be_ptr option) option" where
  "cs_GetBackend env cid key ics =
     do { ic \<leftarrow> byte_at ics cid;
          (case GetBackend (te_lookup env) ic key of
             (ic', be) \<Rightarrow> Some (ics[cid := ic'], map_option (Pair cid) be)) }"

text \<open>The four functions that a transfer calls for each measurement: whether it is required, and
  the tasks then submitted.\<close>

type_synonym tx_step = "HttpBackend \<Rightarrow> string \<Rightarrow> string \<Rightarrow> Circle list \<Rightarrow> (Circle list \<times> job list \<times> bool) option"

definition runRebalance :: "tx_env \<Rightarrow> nat \<Rightarrow> tx_step" where
  "runRebalance env cid be db meas ics =
     do { (ics, d) \<leftarrow> cs_GetBackend env cid (GetKey (te_measureOnly env) db meas) ics;
          dst \<leftarrow> d;
          let require = hb_Url (hb_at ics dst) \<noteq> hb_Url be;
          jobs \<leftarrow> (if require then submitTransfer env be [Some dst] db meas 0 else Some []);
          Some (ics, jobs, require) }"

definition runRecovery :: "tx_env \<Rightarrow> nat \<Rightarrow> Set \<Rightarrow> tx_step" where
  "runRecovery env tcid backendUrlSet be db meas ics =
     do { (ics, d) \<leftarrow> cs_GetBackend env tcid (GetKey (te_measureOnly env) db meas) ics;
          dst \<leftarrow> d;
          let require = Has backendUrlSet (hb_Url (hb_at ics dst));
          jobs \<leftarrow> (if require then submitTransfer env be [Some dst] db meas 0 else Some []);
          Some (ics, jobs, require) }"

text \<open>The loop over the other circles; here a nil backend is only noticed when the task runs.\<close>

fun other_dsts :: "tx_env \<Rightarrow> nat \<Rightarrow> string \<Rightarrow> nat list \<Rightarrow> Circle list \<Rightarrow> (Circle list \<times> be_ptr option list) option" where
  "other_dsts env cid key [] ics = Some (ics, [])"
| "other_dsts env cid key (t # ts) ics =
     (if ic_CircleId (ics ! t) \<noteq> ic_CircleId (ics ! cid)
      then do { (ics, d) \<leftarrow> cs_GetBackend env t key ics;
                (ics, ds) \<leftarrow> other_dsts env cid key ts ics;
                Some (ics, d # ds) }
      else other_dsts env cid key ts ics)"

definition runResync :: "tx_env \<Rightarrow> nat \<Rightarrow> int \<Rightarrow> tx_step" where
  "runResync env cid tick be db meas ics =
     do { (ics, dsts) \<leftarrow> other_dsts env cid (GetKey (te_measureOnly env) db meas) [0..<length ics] ics;
          let require = dsts \<noteq> [];
          jobs \<leftarrow> (if require then submitTransfer env be dsts db meas tick else Some []);
          Some (ics, jobs, require) }"

definition runCleanup :: "tx_env \<Rightarrow> nat \<Rightarrow> tx_step" where
  "runCleanup env cid be db meas ics =
     do { (ics, d) \<leftarrow> cs_GetBackend env cid (GetKey (te_measureOnly env) db meas) ics;
          dst \<leftarrow> d;
          let require = hb_Url (hb_at ics dst) \<noteq> hb_Url be;
          Some (ics, if require then submitCleanup be db meas else [], require) }"

subsection \<open>Going through the measurements of a backend\<close>

definition count_measurement :: "bool \<Rightarrow> Stats \<Rightarrow> Stats" where
  "count_measurement require st =
     (if require then st\<lparr>st_TransferCount := st_TransferCount st + 1\<rparr>
      else st\<lparr>st_InPlaceCount := st_InPlaceCount st + 1\<rparr>)
     \<lparr>st_MeasurementDone := st_MeasurementDone st + 1\<rparr>"

type_synonym tx_work = "Circle list \<times> job list \<times> Stats"

fun run_measures ::
    "(string \<Rightarrow> Circle list \<Rightarrow> (Circle list \<times> job list \<times> bool) option) \<Rightarrow> string list \<Rightarrow> tx_work \<Rightarrow> tx_work option" where
  "run_measures step [] s = Some s"
| "run_measures step (meas # ms) (ics, jobs, st) =
     do { (ics', js, require) \<leftarrow> step meas ics;
          run_measures step ms (ics', jobs @ js, count_measurement require st) }"

fun run_dbs ::
    "(string \<Rightarrow> string \<Rightarrow> Circle list \<Rightarrow> (Circle list \<times> job list \<times> bool) option) \<Rightarrow> (string \<times> string list) list \<Rightarrow>
     tx_work \<Rightarrow> tx_work option" where
  "run_dbs step [] s = Some s"
| "run_dbs step ((db, ms) # dbs) s =
     do { (ics, jobs, st) \<leftarrow> run_measures (step db) ms s;
          run_dbs step dbs (ics, jobs, st\<lparr>st_DatabaseDone := st_DatabaseDone st + 1\<rparr>) }"

definition runTransfer ::
    "tx_env \<Rightarrow> CircleState \<Rightarrow> HttpBackend \<Rightarrow> string list \<Rightarrow> tx_step \<Rightarrow> Circle list \<Rightarrow>
     (CircleState \<times> Circle list \<times> job list) option" where
  "runTransfer env cs be dbs fn ics =
     (if \<not> IsActive be then Some (cs, ics, [])
      else
        do { stats \<leftarrow> map_get (cs_Stats cs) (hb_Url be);
             measures \<leftarrow> those (map (GetMeasurements (te_http env) be) dbs);
             let stats = stats
               \<lparr>st_DatabaseTotal := of_nat (length dbs),
                st_MeasurementTotal := st_MeasurementTotal stats + sum_list (map (\<lambda>ms. of_nat (length ms)) measures)\<rparr>;
             (ics, jobs, stats) \<leftarrow> run_dbs (fn be) (zip dbs measures) (ics, [], stats);
             Some (cs\<lparr>cs_Stats := map_set (hb_Url be) stats (cs_Stats cs)\<rparr>, ics, jobs) })"

text \<open>Each backend of a list in its own goroutine, here one after the other.\<close>

fun run_backends ::
    "tx_env \<Rightarrow> tx_step \<Rightarrow> string list \<Rightarrow> HttpBackend list \<Rightarrow> CircleState \<times> Circle list \<times> job list \<Rightarrow>
     (CircleState \<times> Circle list \<times> job list) option" where
  "run_backends env fn dbs [] s = Some s"
| "run_backends env fn dbs (be # bes) (cs, ics, jobs) =
     do { (cs, ics, js) \<leftarrow> runTransfer env cs be dbs fn ics;
          run_backends env fn dbs bes (cs, ics, jobs @ js) }"

subsection \<open>Announcing a transfer\<close>

text \<open>What a transfer does to the outside, in order: the statements that create databases, the
  posts to the other proxies, and the tasks handed to the pool.\<close>

datatype effect = Statement string | Posted Request | Submitted job

definition replace_first :: "string \<Rightarrow> string \<Rightarrow> string \<Rightarrow> string" where
  "replace_first s old new =
     (case Index s old of None \<Rightarrow> s | Some i \<Rightarrow> take i s @ new @ drop (i + length old) s)"

definition postBroadcast :: "tx_env \<Rightarrow> Transfer \<Rightarrow> string \<Rightarrow> Request option" where
  "postBroadcast env tx url0 =
     (let url = (if tx_httpsEnabled tx then replace_first url0 ''http'' ''https'' else url0);
          req = plain_request ''POST'' url []
      in if he_parse (te_http env) url \<noteq> None then None
         else Some (if tx_username tx \<noteq> '''' \<or> tx_password tx \<noteq> ''''
                    then SetBasicAuth (te_http env) req (tx_username tx) (tx_password tx) (tx_authEncrypt tx)
                    else req))"

definition bool_text :: "bool \<Rightarrow> string" where
  "bool_text b = (if b then ''true'' else ''false'')"

definition resyncing_url :: "string \<Rightarrow> bool \<Rightarrow> string" where
  "resyncing_url addr b = ''http://'' @ addr @ ''/transfer/state?resyncing='' @ bool_text b"

definition transferring_url :: "string \<Rightarrow> nat \<Rightarrow> bool \<Rightarrow> string" where
  "transferring_url addr cid b =
     ''http://'' @ addr @ ''/transfer/state?circle_id='' @ Itoa (int cid) @ ''&transferring='' @ bool_text b"

definition broadcastResyncing ::
    "tx_env \<Rightarrow> bool \<Rightarrow> Transfer \<Rightarrow> (Transfer \<times> effect list) option" where
  "broadcastResyncing env b tx =
     do { posts \<leftarrow> those (map (\<lambda>addr. postBroadcast env tx (resyncing_url addr b)) (tx_HaAddrs tx));
          Some (tx\<lparr>tx_Resyncing := b\<rparr>, map Posted posts) }"

text \<open>The state that an operation of the transfer changes, and the effects it has had.\<close>

type_synonym tx_run = "Transfer \<times> Circle list \<times> effect list"

definition broadcastTransferring :: "tx_env \<Rightarrow> nat \<Rightarrow> bool \<Rightarrow> tx_run \<Rightarrow> tx_run option" where
  "broadcastTransferring env cid b s =
     (case s of (tx, ics, es) \<Rightarrow>
        do { cs \<leftarrow> byte_at (tx_CircleStates tx) cid;
             ic \<leftarrow> byte_at ics cid;
             posts \<leftarrow> those (map (\<lambda>addr. postBroadcast env tx (transferring_url addr (ic_CircleId ic) b)) (tx_HaAddrs tx));
             Some (tx\<lparr>tx_CircleStates := (tx_CircleStates tx)[cid := cs\<lparr>cs_Transferring := b\<rparr>]\<rparr>,
                   ics[cid := ic_SetTransferIn ic b], es @ map Posted posts) })"

subsection \<open>The four operations\<close>

text \<open>What Rebalance, Recovery and Resync start with: the databases are created, and a pool made;
  whether to go on.\<close>

definition prepare :: "tx_env \<Rightarrow> string list \<Rightarrow> Transfer \<times> Circle list \<Rightarrow> (string list \<times> effect list \<times> bool) option" where
  "prepare env dbs0 s =
     (case s of (tx, ics) \<Rightarrow>
        do { (dbs, qs, err) \<leftarrow> createDatabases env ics dbs0;
             Some (dbs, map Statement qs, err = None \<and> dbs \<noteq> [] \<and> te_NewPool env (tx_Worker tx) = None) })"

text \<open>The backends are gone through with the state of circle \<open>cid\<close>; then the parameters are
  reset.\<close>

definition run_circle :: "tx_env \<Rightarrow> tx_step \<Rightarrow> nat \<Rightarrow> HttpBackend list \<Rightarrow> string list \<Rightarrow> tx_run \<Rightarrow> tx_run option" where
  "run_circle env fn cid bes dbs s =
     (case s of (tx, ics, es) \<Rightarrow>
        do { cs \<leftarrow> byte_at (tx_CircleStates tx) cid;
             (cs, ics, jobs) \<leftarrow> run_backends env fn dbs bes (cs, ics, []);
             Some (tx\<lparr>tx_CircleStates := (tx_CircleStates tx)[cid := cs]\<rparr>, ics, es @ map Submitted jobs) })"

definition circle_hbs :: "Circle \<Rightarrow> HttpBackend list" where
  "circle_hbs ic = map ib_hb (ic_Backends ic)"

definition Rebalance ::
    "tx_env \<Rightarrow> nat \<Rightarrow> HttpBackend list \<Rightarrow> string list \<Rightarrow> Transfer \<times> Circle list \<Rightarrow> tx_run option" where
  "Rebalance env circleId backends dbs0 s =
     do { (dbs, es, go) \<leftarrow> prepare env dbs0 s;
          if \<not> go then Some (fst s, snd s, es)
          else do { r \<leftarrow> broadcastTransferring env circleId True (resetCircleStates (fst s), snd s, es);
                    (tx, ics, es) \<leftarrow> run_circle env (runRebalance env circleId) circleId backends dbs r;
                    broadcastTransferring env circleId False (resetBasicParam tx, ics, es) } }"

text \<open>The addresses of the backends to be recovered: those given, or all of the circle.\<close>

definition to_recover :: "Circle \<Rightarrow> string list \<Rightarrow> Set" where
  "to_recover tic backendUrls = NewSetFromSlice (if backendUrls \<noteq> [] then backendUrls else map (hb_Url \<circ> ib_hb) (ic_Backends tic))"

definition Recovery ::
    "tx_env \<Rightarrow> nat \<Rightarrow> nat \<Rightarrow> string list \<Rightarrow> string list \<Rightarrow> Transfer \<times> Circle list \<Rightarrow> tx_run option" where
  "Recovery env fromCircleId toCircleId backendUrls dbs0 s =
     do { (dbs, es, go) \<leftarrow> prepare env dbs0 s;
          if \<not> go then Some (fst s, snd s, es)
          else do { (tx, ics, es) \<leftarrow> broadcastTransferring env toCircleId True (resetCircleStates (fst s), snd s, es);
                    fic \<leftarrow> byte_at ics fromCircleId;
                    tic \<leftarrow> byte_at ics toCircleId;
                    let urls = to_recover tic backendUrls;
                    (tx, ics, es) \<leftarrow> run_circle env (runRecovery env toCircleId urls) fromCircleId (circle_hbs fic) dbs (tx, ics, es);
                    broadcastTransferring env toCircleId False (resetBasicParam tx, ics, es) } }"

fun resync_circles :: "tx_env \<Rightarrow> int \<Rightarrow> string list \<Rightarrow> nat list \<Rightarrow> tx_run \<Rightarrow> tx_run option" where
  "resync_circles env tick dbs [] s = Some s"
| "resync_circles env tick dbs (cid # cids) s =
     do { ic \<leftarrow> byte_at (fst (snd s)) cid;
          s \<leftarrow> run_circle env (runResync env cid tick) cid (circle_hbs ic) dbs s;
          resync_circles env tick dbs cids s }"

definition Resync :: "tx_env \<Rightarrow> string list \<Rightarrow> int \<Rightarrow> Transfer \<times> Circle list \<Rightarrow> tx_run option" where
  "Resync env dbs0 tick s =
     do { (dbs, es, go) \<leftarrow> prepare env dbs0 s;
          if \<not> go then Some (fst s, snd s, es)
          else do { (tx, p) \<leftarrow> broadcastResyncing env True (resetCircleStates (fst s));
                    (tx, ics, es) \<leftarrow> resync_circles env tick dbs [0..<length (tx_CircleStates tx)] (tx, snd s, es @ p);
                    (tx, p) \<leftarrow> broadcastResyncing env False (resetBasicParam tx);
                    Some (tx, ics, es @ p) } }"

text \<open>\<^verbatim>\<open>Cleanup\<close> asks each backend for its own databases.\<close>

fun cleanup_backends ::
    "tx_env \<Rightarrow> nat \<Rightarrow> HttpBackend list \<Rightarrow> CircleState \<times> Circle list \<times> job list \<Rightarrow>
     (CircleState \<times> Circle list \<times> job list) option" where
  "cleanup_backends env cid [] s = Some s"
| "cleanup_backends env cid (be # bes) (cs, ics, jobs) =
     do { dbs \<leftarrow> GetDatabases (te_http env) be;
          (cs, ics, js) \<leftarrow> (if dbs \<noteq> [] then runTransfer env cs be dbs (runCleanup env cid) ics else Some (cs, ics, []));
          cleanup_backends env cid bes (cs, ics, jobs @ js) }"

definition Cleanup :: "tx_env \<Rightarrow> nat \<Rightarrow> Transfer \<times> Circle list \<Rightarrow> tx_run option" where
  "Cleanup env circleId s =
     (if te_NewPool env (tx_Worker (fst s)) \<noteq> None then Some (fst s, snd s, [])
      else do { (tx, ics, es) \<leftarrow> broadcastTransferring env circleId True (resetCircleStates (fst s), snd s, []);
                ic \<leftarrow> byte_at ics circleId;
                cs \<leftarrow> byte_at (tx_CircleStates tx) circleId;
                (cs, ics, jobs) \<leftarrow> cleanup_backends env circleId (circle_hbs ic) (cs, ics, []);
                broadcastTransferring env circleId False
                  (resetBasicParam (tx\<lparr>tx_CircleStates := (tx_CircleStates tx)[circleId := cs]\<rparr>), ics,
                   es @ map Submitted jobs) })"

section \<open>Routing during a transfer\<close>

text \<open>Neither the lookups of a transfer nor its flags change where a measurement belongs.\<close>

definition same_place :: "router \<Rightarrow> Circle \<Rightarrow> Circle \<Rightarrow> bool" where
  "same_place lookup ic ic' \<longleftrightarrow>
     cache_ok lookup ic' \<and> route lookup ic' = route lookup ic \<and> ic_CircleId ic' = ic_CircleId ic \<and>
     map (hb_Url \<circ> ib_hb) (ic_Backends ic') = map (hb_Url \<circ> ib_hb) (ic_Backends ic)"

abbreviation same_places :: "router \<Rightarrow> Circle list \<Rightarrow> Circle list \<Rightarrow> bool" where
  "same_places lookup \<equiv> list_all2 (same_place lookup)"

abbreviation routable :: "tx_env \<Rightarrow> Circle list \<Rightarrow> bool" where
  "routable env \<equiv> list_all (circle_routes (te_lookup env))"

lemma same_places_refl: "list_all (circle_routes lookup) ics \<Longrightarrow> same_places lookup ics ics"
  by (auto simp: list_all2_conv_all_nth list_all_length same_place_def circle_routes_def)

lemma same_places_trans: "same_places lookup a b \<Longrightarrow> same_places lookup b c \<Longrightarrow> same_places lookup a c"
  by (rule list_all2_trans) (auto simp: same_place_def)

lemma same_places_update:
  assumes "same_places lookup a b" "cid < length b" "same_place lookup (b ! cid) ic"
  shows "same_places lookup a (b[cid := ic])"
  using assms by (auto simp: list_all2_conv_all_nth nth_list_update same_place_def)

lemma same_place_GetBackend:
  assumes "cache_ok lookup ic"
  shows "same_place lookup ic (fst (GetBackend lookup ic key))"
  using circle_cache.lookup_coherent [OF assms, of key] GetBackend_frame [of lookup ic key]
  by (auto simp: same_place_def)

lemma route_SetTransferIn [simp]: "route lookup (ic_SetTransferIn ic b) = route lookup ic"
  by (intro ext) (simp add: route_def ic_SetTransferIn_def)

lemma same_place_SetTransferIn:
  "cache_ok lookup ic \<Longrightarrow> same_place lookup ic (ic_SetTransferIn ic b)"
  unfolding same_place_def
  by (auto simp: cache_ok_def) (auto simp: ic_SetTransferIn_def SetTransferIn_def)

text \<open>The backend of a measurement in circle \<open>cid\<close>.\<close>

definition home :: "tx_env \<Rightarrow> Circle list \<Rightarrow> nat \<Rightarrow> string \<Rightarrow> string \<Rightarrow> be_ptr" where
  "home env ics cid db meas = (cid, the (route (te_lookup env) (ics ! cid) (GetKey (te_measureOnly env) db meas)))"

lemma in_place_home:
  assumes "circle_routes (te_lookup env) (ics ! cid)"
  shows "in_place (te_lookup env) (te_measureOnly env) (ics ! cid) url db meas \<longleftrightarrow>
         hb_Url (hb_at ics (home env ics cid db meas)) = url"
proof -
  from assms obtain i where "route (te_lookup env) (ics ! cid) (GetKey (te_measureOnly env) db meas) = Some i"
    unfolding circle_routes_def by blast
  then show ?thesis by (simp add: in_place_def home_def hb_at_def)
qed

lemma home_url:
  assumes "same_places lookup ics0 ics" "p < length ics0" "j < length (ic_Backends (ics0 ! p))"
  shows "hb_Url (hb_at ics (p, j)) = hb_Url (hb_at ics0 (p, j))"
proof -
  from assms have e: "map (hb_Url \<circ> ib_hb) (ic_Backends (ics ! p)) = map (hb_Url \<circ> ib_hb) (ic_Backends (ics0 ! p))"
    by (auto simp: list_all2_conv_all_nth same_place_def)
  then have "length (ic_Backends (ics ! p)) = length (ic_Backends (ics0 ! p))" by (metis length_map)
  with assms(3) arg_cong [OF e, of "\<lambda>l. l ! j"] show ?thesis by (simp add: hb_at_def)
qed

lemma cs_GetBackend_spec:
  assumes "routable env ics0" "same_places (te_lookup env) ics0 ics" "cid < length ics0"
  shows "\<exists>ics'. cs_GetBackend env cid (GetKey (te_measureOnly env) db meas) ics = Some (ics', Some (home env ics0 cid db meas)) \<and>
    same_places (te_lookup env) ics0 ics' \<and>
    hb_Url (hb_at ics' (home env ics0 cid db meas)) = hb_Url (hb_at ics0 (home env ics0 cid db meas))"
proof -
  let ?l = "te_lookup env" and ?key = "GetKey (te_measureOnly env) db meas"
  from assms have len: "cid < length ics" and s: "same_place ?l (ics0 ! cid) (ics ! cid)"
    by (auto simp: list_all2_conv_all_nth)
  from assms(1,3) obtain i where i: "i < length (ic_Backends (ics0 ! cid))" "route ?l (ics0 ! cid) ?key = Some i"
    by (auto simp: list_all_length circle_routes_def)
  from s have ok: "cache_ok ?l (ics ! cid)" and r: "route ?l (ics ! cid) ?key = Some i"
    using i by (auto simp: same_place_def)
  let ?ic = "fst (GetBackend ?l (ics ! cid) ?key)"
  have g: "GetBackend ?l (ics ! cid) ?key = (?ic, Some i)"
    using circle_cache.lookup_val [OF ok, of ?key] r by (simp add: prod_eq_iff)
  have sp: "same_places ?l ics0 (ics[cid := ?ic])"
    by (rule same_places_update [OF assms(2) len same_place_GetBackend [OF ok]])
  have "cs_GetBackend env cid ?key ics = Some (ics[cid := ?ic], Some (home env ics0 cid db meas))"
    using len i(2) unfolding cs_GetBackend_def
    by (simp add: byte_at_def home_def split_beta g [THEN arg_cong [of _ _ snd]])
  moreover have "hb_Url (hb_at (ics[cid := ?ic]) (home env ics0 cid db meas)) = hb_Url (hb_at ics0 (home env ics0 cid db meas))"
    using home_url [OF sp assms(3) i(1)] i(2) by (simp add: home_def)
  ultimately show ?thesis using sp by blast
qed

section \<open>The contract of a step\<close>

text \<open>What \<^verbatim>\<open>runTransfer\<close> needs of the function it calls for each measurement: from a good state
  it goes on to a good state, and what it submits and answers depends on
  the backend and the measurement alone.\<close>

definition tally :: "Stats \<Rightarrow> nat \<Rightarrow> nat \<Rightarrow> nat \<Rightarrow> Stats" where
  "tally st dbs moved kept = st
     \<lparr>st_DatabaseDone := st_DatabaseDone st + of_nat dbs,
      st_MeasurementDone := st_MeasurementDone st + of_nat (moved + kept),
      st_TransferCount := st_TransferCount st + of_nat moved,
      st_InPlaceCount := st_InPlaceCount st + of_nat kept\<rparr>"

lemma tally_0: "tally st 0 0 0 = st"
  by (simp add: tally_def)

lemma tally_tally: "tally (tally st a b c) a' b' c' = tally st (a + a') (b + b') (c + c')"
  by (simp add: tally_def algebra_simps)

lemma count_measurement_tally: "count_measurement r st = tally st 0 (of_bool r) (of_bool (\<not> r))"
  by (simp add: count_measurement_def tally_def)

lemma database_done_tally: "st\<lparr>st_DatabaseDone := st_DatabaseDone st + 1\<rparr> = tally st 1 0 0"
  by (simp add: tally_def)

definition listed :: "tx_env \<Rightarrow> HttpBackend \<Rightarrow> string \<Rightarrow> string list" where
  "listed env be db = the (GetMeasurements (te_http env) be db)"

definition worklist :: "tx_env \<Rightarrow> HttpBackend \<Rightarrow> string list \<Rightarrow> (string \<times> string list) list" where
  "worklist env be dbs = map (\<lambda>db. (db, listed env be db)) dbs"

definition planned :: "(string \<Rightarrow> string \<Rightarrow> job list) \<Rightarrow> (string \<times> string list) list \<Rightarrow> job list" where
  "planned plan work = concat (map (\<lambda>(db, ms). concat (map (plan db) ms)) work)"

definition counted :: "(string \<Rightarrow> string \<Rightarrow> bool) \<Rightarrow> (string \<times> string list) list \<Rightarrow> nat" where
  "counted P work = sum_list (map (\<lambda>(db, ms). length (filter (P db) ms)) work)"

definition lists_ok :: "tx_env \<Rightarrow> HttpBackend \<Rightarrow> string list \<Rightarrow> bool" where
  "lists_ok env be dbs \<longleftrightarrow> list_all (\<lambda>db. GetMeasurements (te_http env) be db \<noteq> None) dbs"

lemma those_listed: "lists_ok env be dbs \<Longrightarrow> those (map (GetMeasurements (te_http env) be) dbs) = Some (map (listed env be) dbs)"
  by (induction dbs) (auto simp: lists_ok_def listed_def)

definition progress :: "Stats \<Rightarrow> (string \<Rightarrow> string \<Rightarrow> bool) \<Rightarrow> (string \<times> string list) list \<Rightarrow> Stats" where
  "progress st moves work =
     tally (st\<lparr>st_DatabaseTotal := of_nat (length work),
               st_MeasurementTotal := st_MeasurementTotal st + sum_list (map (of_nat \<circ> length \<circ> snd) work)\<rparr>)
       (length work) (counted moves work) (counted (\<lambda>db m. \<not> moves db m) work)"

locale transfer_step =
  fixes fn :: tx_step
    and good :: "Circle list \<Rightarrow> bool"
    and answers :: "HttpBackend \<Rightarrow> bool"
    and plan :: "HttpBackend \<Rightarrow> string \<Rightarrow> string \<Rightarrow> job list"
    and moves :: "HttpBackend \<Rightarrow> string \<Rightarrow> string \<Rightarrow> bool"
  assumes step_plan: "good s \<Longrightarrow> answers be \<Longrightarrow>
    \<exists>s'. fn be db meas s = Some (s', plan be db meas, moves be db meas) \<and> good s'"
begin

lemma run_measures_plan:
  assumes "good s" "answers be"
  shows "\<exists>s'. good s' \<and> run_measures (fn be db) ms (s, jobs, st) =
    Some (s', jobs @ concat (map (plan be db) ms),
          tally st 0 (length (filter (moves be db) ms)) (length (filter (\<lambda>m. \<not> moves be db m) ms)))"
  using assms(1)
proof (induction ms arbitrary: s jobs st)
  case Nil
  then show ?case by (simp add: tally_0)
next
  case (Cons m ms)
  from step_plan [OF Cons.prems assms(2), of db m] obtain s1 where
    s1: "fn be db m s = Some (s1, plan be db m, moves be db m)" "good s1" by blast
  from Cons.IH [OF s1(2), of "jobs @ plan be db m" "count_measurement (moves be db m) st"] s1(1) show ?case
    by (cases "moves be db m") (simp_all add: count_measurement_tally tally_tally)
qed

lemma run_dbs_plan:
  assumes "good s" "answers be"
  shows "\<exists>s'. good s' \<and> run_dbs (fn be) work (s, jobs, st) =
    Some (s', jobs @ planned (plan be) work,
          tally st (length work) (counted (moves be) work) (counted (\<lambda>db m. \<not> moves be db m) work))"
  using assms(1)
proof (induction work arbitrary: s jobs st)
  case Nil
  then show ?case by (simp add: tally_0 planned_def counted_def)
next
  case (Cons w work)
  obtain db ms where w: "w = (db, ms)" by (cases w)
  let ?st = "tally st 0 (length (filter (moves be db) ms)) (length (filter (\<lambda>m. \<not> moves be db m) ms))"
  from run_measures_plan [OF Cons.prems assms(2), of db ms jobs st] obtain s1 where
    s1: "good s1" "run_measures (fn be db) ms (s, jobs, st) = Some (s1, jobs @ concat (map (plan be db) ms), ?st)" by blast
  from Cons.IH [OF s1(1), of "jobs @ concat (map (plan be db) ms)" "tally ?st 1 0 0"] s1(2) show ?case
    by (simp add: w database_done_tally tally_tally planned_def counted_def)
qed

lemma runTransfer_plan:
  assumes "good s" "answers be" "IsActive be" "map_get (cs_Stats cs) (hb_Url be) = Some st" "lists_ok env be dbs"
  shows "\<exists>s'. good s' \<and> runTransfer env cs be dbs fn s =
    Some (cs\<lparr>cs_Stats := map_set (hb_Url be) (progress st (moves be) (worklist env be dbs)) (cs_Stats cs)\<rparr>, s',
          planned (plan be) (worklist env be dbs))"
proof -
  let ?work = "worklist env be dbs"
  have zip: "zip dbs (map (listed env be) dbs) = ?work"
    by (simp add: worklist_def zip_map2 zip_same_conv_map)
  have total: "sum_list (map (of_nat \<circ> length \<circ> snd) ?work) =
      (sum_list (map (\<lambda>db. of_nat (length (listed env be db))) dbs) :: 32 word)"
    by (simp add: worklist_def comp_def)
  from run_dbs_plan [OF assms(1,2), of ?work "[]"
      "st\<lparr>st_DatabaseTotal := of_nat (length dbs),
          st_MeasurementTotal := st_MeasurementTotal st + sum_list (map (of_nat \<circ> length \<circ> snd) ?work)\<rparr>"]
  show ?thesis
    using assms(3,4) those_listed [OF assms(5)] zip
    by (auto simp: runTransfer_def progress_def total comp_def worklist_def)
qed

text \<open>Over a list of backends; the inactive ones are left out.\<close>

definition backends_plan :: "tx_env \<Rightarrow> string list \<Rightarrow> HttpBackend list \<Rightarrow> job list" where
  "backends_plan env dbs bes = concat (map (\<lambda>be. planned (plan be) (worklist env be dbs)) (filter IsActive bes))"

lemma run_backends_plan:
  assumes "good s" "\<forall>be \<in> set bes. IsActive be \<longrightarrow> answers be \<and> lists_ok env be dbs \<and> hb_Url be \<in> dom (map_get (cs_Stats cs))"
  shows "\<exists>cs' s'. good s' \<and> cs_Transferring cs' = cs_Transferring cs \<and>
    run_backends env fn dbs bes (cs, s, jobs) = Some (cs', s', jobs @ backends_plan env dbs bes)"
  using assms
proof (induction bes arbitrary: cs s jobs)
  case Nil
  then show ?case by (auto simp: backends_plan_def)
next
  case (Cons be bes)
  show ?case
  proof (cases "IsActive be")
    case False
    with Cons.IH [OF Cons.prems(1), of cs jobs] Cons.prems(2) show ?thesis
      by (auto simp: runTransfer_def backends_plan_def)
  next
    case True
    with Cons.prems(2) obtain st where st: "map_get (cs_Stats cs) (hb_Url be) = Some st" by auto
    from runTransfer_plan [OF Cons.prems(1) _ True st, of env dbs] Cons.prems(2) True obtain s1 where
      s1: "good s1" "runTransfer env cs be dbs fn s =
        Some (cs\<lparr>cs_Stats := map_set (hb_Url be) (progress st (moves be) (worklist env be dbs)) (cs_Stats cs)\<rparr>, s1,
          planned (plan be) (worklist env be dbs))" (is "_ = Some (?cs, _, _)") by auto
    have "\<forall>b \<in> set bes. IsActive b \<longrightarrow> answers b \<and> lists_ok env b dbs \<and> hb_Url b \<in> dom (map_get (cs_Stats ?cs))"
      using Cons.prems(2) by (auto simp: map_get_set dom_def)
    from Cons.IH [OF s1(1) this, of "jobs @ planned (plan be) (worklist env be dbs)"]
    obtain cs' s' where "good s'" "cs_Transferring cs' = cs_Transferring ?cs"
      "run_backends env fn dbs bes (?cs, s1, jobs @ planned (plan be) (worklist env be dbs)) =
         Some (cs', s', (jobs @ planned (plan be) (worklist env be dbs)) @ backends_plan env dbs bes)"
      by blast
    with s1(2) True show ?thesis by (auto simp: backends_plan_def)
  qed
qed

end

section \<open>The four steps meet the contract\<close>

definition good :: "tx_env \<Rightarrow> nat \<Rightarrow> Circle list \<Rightarrow> Circle list \<Rightarrow> bool" where
  "good env cid ics0 ics \<longleftrightarrow> routable env ics0 \<and> cid < length ics0 \<and> same_places (te_lookup env) ics0 ics"

definition decodes :: "tx_env \<Rightarrow> HttpBackend \<Rightarrow> bool" where
  "decodes env be \<longleftrightarrow> (\<forall>db. GetRetentionPolicies (te_http env) be db \<noteq> None)"

definition copies :: "tx_env \<Rightarrow> HttpBackend \<Rightarrow> be_ptr option list \<Rightarrow> string \<Rightarrow> string \<Rightarrow> int \<Rightarrow> job list" where
  "copies env be dsts db meas tick =
     map (\<lambda>rp. CopyJob be dsts db rp meas tick) (the (GetRetentionPolicies (te_http env) be db))"

lemma submitTransfer_copies:
  "decodes env be \<Longrightarrow> submitTransfer env be dsts db meas tick = Some (copies env be dsts db meas tick)"
  by (auto simp: submitTransfer_def decodes_def copies_def split: option.splits) (metis not_Some_eq option.sel bind.bind_lunit)

definition misplaced :: "tx_env \<Rightarrow> nat \<Rightarrow> Circle list \<Rightarrow> HttpBackend \<Rightarrow> string \<Rightarrow> string \<Rightarrow> bool" where
  "misplaced env cid ics be db meas \<longleftrightarrow>
     \<not> in_place (te_lookup env) (te_measureOnly env) (ics ! cid) (hb_Url be) db meas"

lemma misplaced_home:
  "good env cid ics0 ics \<Longrightarrow>
     misplaced env cid ics0 be db meas \<longleftrightarrow> hb_Url (hb_at ics0 (home env ics0 cid db meas)) \<noteq> hb_Url be"
  by (simp add: misplaced_def good_def in_place_home list_all_length)

lemma good_GetBackend:
  assumes "good env cid ics0 ics"
  shows "\<exists>ics'. cs_GetBackend env cid (GetKey (te_measureOnly env) db meas) ics = Some (ics', Some (home env ics0 cid db meas)) \<and>
    good env cid ics0 ics' \<and>
    hb_Url (hb_at ics' (home env ics0 cid db meas)) = hb_Url (hb_at ics0 (home env ics0 cid db meas))"
  using cs_GetBackend_spec [of env ics0 ics cid db meas] assms unfolding good_def by blast

definition rebalance_plan :: "tx_env \<Rightarrow> nat \<Rightarrow> Circle list \<Rightarrow> HttpBackend \<Rightarrow> string \<Rightarrow> string \<Rightarrow> job list" where
  "rebalance_plan env cid ics be db meas =
     (if misplaced env cid ics be db meas then copies env be [Some (home env ics cid db meas)] db meas 0 else [])"

interpretation rebalance: transfer_step "runRebalance env cid" "good env cid ics0" "decodes env"
  "rebalance_plan env cid ics0" "misplaced env cid ics0" for env cid ics0
proof unfold_locales
  fix s be db meas
  assume g: "good env cid ics0 s" and d: "decodes env be"
  from good_GetBackend [OF g, of db meas] misplaced_home [OF g, of be db meas]
  show "\<exists>s'. runRebalance env cid be db meas s = Some (s', rebalance_plan env cid ics0 be db meas, misplaced env cid ics0 be db meas) \<and>
      good env cid ics0 s'"
    by (auto simp: runRebalance_def submitTransfer_copies [OF d] rebalance_plan_def Let_def)
qed

definition cleanup_plan :: "tx_env \<Rightarrow> nat \<Rightarrow> Circle list \<Rightarrow> HttpBackend \<Rightarrow> string \<Rightarrow> string \<Rightarrow> job list" where
  "cleanup_plan env cid ics be db meas = (if misplaced env cid ics be db meas then [DropJob be db meas] else [])"

interpretation cleanup: transfer_step "runCleanup env cid" "good env cid ics0" "\<lambda>be. True"
  "cleanup_plan env cid ics0" "misplaced env cid ics0" for env cid ics0
proof unfold_locales
  fix s be db meas
  assume g: "good env cid ics0 s"
  from good_GetBackend [OF g, of db meas] misplaced_home [OF g, of be db meas]
  show "\<exists>s'. runCleanup env cid be db meas s = Some (s', cleanup_plan env cid ics0 be db meas, misplaced env cid ics0 be db meas) \<and>
      good env cid ics0 s'"
    by (auto simp: runCleanup_def cleanup_plan_def submitCleanup_def Let_def)
qed

definition wanted :: "tx_env \<Rightarrow> nat \<Rightarrow> Circle list \<Rightarrow> Set \<Rightarrow> string \<Rightarrow> string \<Rightarrow> bool" where
  "wanted env tcid ics urls db meas \<longleftrightarrow> Has urls (hb_Url (hb_at ics (home env ics tcid db meas)))"

definition recovery_plan :: "tx_env \<Rightarrow> nat \<Rightarrow> Circle list \<Rightarrow> Set \<Rightarrow> HttpBackend \<Rightarrow> string \<Rightarrow> string \<Rightarrow> job list" where
  "recovery_plan env tcid ics urls be db meas =
     (if wanted env tcid ics urls db meas then copies env be [Some (home env ics tcid db meas)] db meas 0 else [])"

interpretation recovery: transfer_step "runRecovery env tcid urls" "good env tcid ics0" "decodes env"
  "recovery_plan env tcid ics0 urls" "\<lambda>be. wanted env tcid ics0 urls" for env tcid ics0 urls
proof unfold_locales
  fix s be db meas
  assume g: "good env tcid ics0 s" and d: "decodes env be"
  from good_GetBackend [OF g, of db meas]
  show "\<exists>s'. runRecovery env tcid urls be db meas s =
        Some (s', recovery_plan env tcid ics0 urls be db meas, wanted env tcid ics0 urls db meas) \<and> good env tcid ics0 s'"
    by (auto simp: runRecovery_def submitTransfer_copies [OF d] recovery_plan_def wanted_def Let_def)
qed

definition others :: "Circle list \<Rightarrow> nat \<Rightarrow> nat list" where
  "others ics cid = filter (\<lambda>t. ic_CircleId (ics ! t) \<noteq> ic_CircleId (ics ! cid)) [0..<length ics]"

text \<open>A resynchronisation changes nothing of the backends.\<close>

definition untouched :: "tx_env \<Rightarrow> nat \<Rightarrow> Circle list \<Rightarrow> Circle list \<Rightarrow> bool" where
  "untouched env cid ics0 ics \<longleftrightarrow> good env cid ics0 ics \<and> map ic_Backends ics = map ic_Backends ics0"

lemma cs_GetBackend_backends:
  "cs_GetBackend env cid key ics = Some (ics', d) \<Longrightarrow> map ic_Backends ics' = map ic_Backends ics"
  by (cases "GetBackend (te_lookup env) (ics ! cid) key")
    (use GetBackend_fields(1) [of "te_lookup env" "ics ! cid" key] in
      \<open>auto simp: cs_GetBackend_def byte_at_def map_update list_update_same_conv split: if_splits\<close>)

lemma other_dsts_spec:
  assumes "untouched env cid ics0 ics" "\<forall>t \<in> set ts. t < length ics0"
  shows "\<exists>ics'. untouched env cid ics0 ics' \<and>
    other_dsts env cid (GetKey (te_measureOnly env) db meas) ts ics =
      Some (ics', map (\<lambda>t. Some (home env ics0 t db meas))
              (filter (\<lambda>t. ic_CircleId (ics0 ! t) \<noteq> ic_CircleId (ics0 ! cid)) ts))"
  using assms
proof (induction ts arbitrary: ics)
  case (Cons t ts)
  from Cons.prems have ids: "ic_CircleId (ics ! t) = ic_CircleId (ics0 ! t)" "ic_CircleId (ics ! cid) = ic_CircleId (ics0 ! cid)"
    by (auto simp: untouched_def good_def list_all2_conv_all_nth same_place_def)
  show ?case
  proof (cases "ic_CircleId (ics0 ! t) = ic_CircleId (ics0 ! cid)")
    case True
    with Cons.IH [OF Cons.prems(1)] Cons.prems(2) ids show ?thesis by auto
  next
    case False
    from Cons.prems have "good env t ics0 ics" by (simp add: untouched_def good_def)
    from good_GetBackend [OF this, of db meas] obtain ics1 where
      i1: "cs_GetBackend env t (GetKey (te_measureOnly env) db meas) ics = Some (ics1, Some (home env ics0 t db meas))"
      "good env t ics0 ics1" by blast
    with Cons.prems(1) cs_GetBackend_backends [OF i1(1)] have "untouched env cid ics0 ics1"
      by (simp add: untouched_def good_def)
    from Cons.IH [OF this] Cons.prems(2) i1(1) False ids show ?thesis by auto
  qed
qed simp

definition resync_plan :: "tx_env \<Rightarrow> nat \<Rightarrow> int \<Rightarrow> Circle list \<Rightarrow> HttpBackend \<Rightarrow> string \<Rightarrow> string \<Rightarrow> job list" where
  "resync_plan env cid tick ics be db meas =
     (if others ics cid \<noteq> []
      then copies env be (map (\<lambda>t. Some (home env ics t db meas)) (others ics cid)) db meas tick else [])"

interpretation resync: transfer_step "runResync env cid tick" "untouched env cid ics0" "decodes env"
  "resync_plan env cid tick ics0" "\<lambda>be db meas. others ics0 cid \<noteq> []" for env cid tick ics0
proof unfold_locales
  fix s be db meas
  assume g: "untouched env cid ics0 s" and d: "decodes env be"
  from g have len: "length s = length ics0" by (auto simp: untouched_def good_def list_all2_conv_all_nth)
  with other_dsts_spec [OF g, of "[0..<length ics0]" db meas] obtain s' where
    "untouched env cid ics0 s'" "other_dsts env cid (GetKey (te_measureOnly env) db meas) [0..<length s] s =
       Some (s', map (\<lambda>t. Some (home env ics0 t db meas)) (others ics0 cid))"
    by (auto simp: others_def)
  then show "\<exists>s'. runResync env cid tick be db meas s =
        Some (s', resync_plan env cid tick ics0 be db meas, others ics0 cid \<noteq> []) \<and> untouched env cid ics0 s'"
    by (auto simp: runResync_def submitTransfer_copies [OF d] resync_plan_def Let_def)
qed

section \<open>Announcing\<close>

text \<open>The address that \<^verbatim>\<open>postBroadcast\<close> posts to.\<close>

definition peer_url :: "Transfer \<Rightarrow> string \<Rightarrow> string" where
  "peer_url tx url = (if tx_httpsEnabled tx then replace_first url ''http'' ''https'' else url)"

text \<open>The addresses of the announcements parse as URLs.\<close>

definition posts_ok :: "tx_env \<Rightarrow> Transfer \<Rightarrow> bool" where
  "posts_ok env tx \<longleftrightarrow>
     (\<forall>a \<in> set (tx_HaAddrs tx). \<forall>b. he_parse (te_http env) (peer_url tx (resyncing_url a b)) = None \<and>
        (\<forall>cid. he_parse (te_http env) (peer_url tx (transferring_url a cid b)) = None))"

lemma postBroadcast_ok:
  "he_parse (te_http env) (peer_url tx url) = None \<Longrightarrow>
     \<exists>req. postBroadcast env tx url = Some req \<and> rq_Method req = ''POST'' \<and> rq_URL req = peer_url tx url"
  by (simp add: postBroadcast_def Let_def peer_url_def plain_request_def SetBasicAuth_def)

lemma posts_all:
  "\<forall>a \<in> set as. he_parse (te_http env) (peer_url tx (u a)) = None \<Longrightarrow>
     \<exists>posts. those (map (\<lambda>a. postBroadcast env tx (u a)) as) = Some posts \<and> map rq_URL posts = map (\<lambda>a. peer_url tx (u a)) as"
proof (induction as)
  case (Cons a as)
  from postBroadcast_ok [of env tx "u a"] Cons.prems obtain r where
    r: "postBroadcast env tx (u a) = Some r" "rq_URL r = peer_url tx (u a)" by auto
  from Cons obtain ps where "those (map (\<lambda>a. postBroadcast env tx (u a)) as) = Some ps"
    "map rq_URL ps = map (\<lambda>a. peer_url tx (u a)) as" by auto
  with r show ?case by (intro exI [of _ "r # ps"]) simp
qed simp

definition announced :: "Transfer \<Rightarrow> nat \<Rightarrow> bool \<Rightarrow> Request list \<Rightarrow> bool" where
  "announced tx cid b posts \<longleftrightarrow>
     map rq_URL posts = map (\<lambda>a. peer_url tx (transferring_url a cid b)) (tx_HaAddrs tx)"

definition mark :: "nat \<Rightarrow> bool \<Rightarrow> Transfer \<Rightarrow> Transfer" where
  "mark cid b tx = tx\<lparr>tx_CircleStates := (tx_CircleStates tx)[cid := (tx_CircleStates tx ! cid)\<lparr>cs_Transferring := b\<rparr>]\<rparr>"

lemma broadcastTransferring_ok:
  assumes "posts_ok env tx" "cid < length (tx_CircleStates tx)" "cid < length ics"
  shows "\<exists>posts. broadcastTransferring env cid b (tx, ics, es) =
      Some (mark cid b tx, ics[cid := ic_SetTransferIn (ics ! cid) b], es @ map Posted posts) \<and>
    announced tx (ic_CircleId (ics ! cid)) b posts"
proof -
  have "\<forall>a \<in> set (tx_HaAddrs tx). he_parse (te_http env) (peer_url tx (transferring_url a (ic_CircleId (ics ! cid)) b)) = None"
    using assms(1) by (simp add: posts_ok_def)
  from posts_all [OF this] obtain posts where
    p: "those (map (\<lambda>a. postBroadcast env tx (transferring_url a (ic_CircleId (ics ! cid)) b)) (tx_HaAddrs tx)) = Some posts"
    "map rq_URL posts = map (\<lambda>a. peer_url tx (transferring_url a (ic_CircleId (ics ! cid)) b)) (tx_HaAddrs tx)"
    by blast
  with assms(2,3) show ?thesis
    by (intro exI [of _ posts]) (simp add: broadcastTransferring_def byte_at_def mark_def announced_def)
qed

lemma good_marked:
  assumes "routable env ics" "cid < length ics"
  shows "good env cid ics (ics[cid := ic_SetTransferIn (ics ! cid) b])"
  unfolding good_def
proof (intro conjI)
  have "cache_ok (te_lookup env) (ics ! cid)" using assms by (auto simp: list_all_length circle_routes_def)
  then show "same_places (te_lookup env) ics (ics[cid := ic_SetTransferIn (ics ! cid) b])"
    by (intro same_places_update [OF same_places_refl [OF assms(1)] assms(2)] same_place_SetTransferIn)
qed (use assms in auto)

lemma good_remarked:
  assumes "good env cid ics0 ics"
  shows "good env cid ics0 (ics[cid := ic_SetTransferIn (ics ! cid) b])"
proof -
  from assms have len: "cid < length ics" and "cache_ok (te_lookup env) (ics ! cid)"
    by (auto simp: good_def list_all2_conv_all_nth same_place_def)
  then have "same_place (te_lookup env) (ics ! cid) (ic_SetTransferIn (ics ! cid) b)"
    by (intro same_place_SetTransferIn)
  with assms same_places_update [OF _ len] show ?thesis unfolding good_def by blast
qed

section \<open>A transfer from the first to the last announcement\<close>

definition settled_down :: "nat \<Rightarrow> Transfer \<Rightarrow> Circle list \<Rightarrow> bool" where
  "settled_down cid tx ics \<longleftrightarrow>
     \<not> cs_Transferring (tx_CircleStates tx ! cid) \<and>
     list_all (\<lambda>be. \<not> hb_transferIn (ib_hb be)) (ic_Backends (ics ! cid)) \<and>
     tx_Worker tx = DefaultWorker \<and> tx_Batch tx = DefaultBatch \<and> tx_Limit tx = DefaultLimit"

lemma ResetStates_dom [simp]:
  "dom (map_get (cs_Stats (ResetStates cs))) = dom (map_get (cs_Stats cs))"
proof -
  have "map_of (map (\<lambda>(u, s). (u, z)) m) k = map_option (\<lambda>_. z) (map_of m k)" for m :: "(string, Stats) gomap" and k :: string and z :: Stats
    by (induction m) auto
  then show ?thesis by (auto simp: ResetStates_def dom_def)
qed

lemma settled_after:
  assumes "posts_ok env tx" "good env cid ics0 ics" "cid < length (tx_CircleStates tx)"
  shows "\<exists>tx' ics' posts. broadcastTransferring env cid False (resetBasicParam tx, ics, es) =
      Some (tx', ics', es @ map Posted posts) \<and> settled_down cid tx' ics' \<and> good env cid ics0 ics' \<and>
      announced tx (ic_CircleId (ics0 ! cid)) False posts"
proof -
  from assms(2) have len: "cid < length ics" and id: "ic_CircleId (ics ! cid) = ic_CircleId (ics0 ! cid)"
    by (auto simp: good_def list_all2_conv_all_nth same_place_def)
  have "posts_ok env (resetBasicParam tx)" using assms(1) by (simp add: posts_ok_def peer_url_def resetBasicParam_def)
  from broadcastTransferring_ok [OF this, of cid ics False es] assms(3) len
  obtain posts where p: "broadcastTransferring env cid False (resetBasicParam tx, ics, es) =
      Some (mark cid False (resetBasicParam tx), ics[cid := ic_SetTransferIn (ics ! cid) False], es @ map Posted posts)"
    "announced (resetBasicParam tx) (ic_CircleId (ics ! cid)) False posts"
    by (auto simp: resetBasicParam_def)
  moreover have "settled_down cid (mark cid False (resetBasicParam tx)) (ics[cid := ic_SetTransferIn (ics ! cid) False])"
    using assms(3) len
    by (simp add: settled_down_def mark_def resetBasicParam_def ic_SetTransferIn_def SetTransferIn_def list_all_iff)
  ultimately show ?thesis
    using good_remarked [OF assms(2), of False] id by (auto simp: announced_def resetBasicParam_def peer_url_def)
qed

lemma in_planned:
  "j \<in> set (planned plan (worklist env be dbs)) \<longleftrightarrow>
     (\<exists>db \<in> set dbs. \<exists>meas \<in> set (listed env be db). j \<in> set (plan db meas))"
  by (auto simp: planned_def worklist_def)

lemma prepare_statements: "prepare env dbs0 s = Some (dbs, es, go) \<Longrightarrow> Submitted j \<notin> set es"
  by (auto simp: prepare_def split: prod.splits bind_splits)

context transfer_step begin

lemma run_circle_plan:
  assumes "good s" "cid < length (tx_CircleStates tx)"
    and "\<forall>be \<in> set bes. IsActive be \<longrightarrow> answers be \<and> lists_ok env be dbs \<and>
           hb_Url be \<in> dom (map_get (cs_Stats (tx_CircleStates tx ! cid)))"
  shows "\<exists>cs' s'. good s' \<and> run_circle env fn cid bes dbs (tx, s, es) =
    Some (tx\<lparr>tx_CircleStates := (tx_CircleStates tx)[cid := cs']\<rparr>, s', es @ map Submitted (backends_plan env dbs bes))"
proof -
  from run_backends_plan [OF assms(1,3), of "[]"] obtain cs' s' where
    "good s'" "run_backends env fn dbs bes (tx_CircleStates tx ! cid, s, []) = Some (cs', s', backends_plan env dbs bes)"
    by auto
  with assms(2) show ?thesis by (auto simp: run_circle_def byte_at_def)
qed

lemma in_backends_plan:
  "j \<in> set (backends_plan env dbs bes) \<longleftrightarrow>
     (\<exists>be \<in> set bes. IsActive be \<and> (\<exists>db \<in> set dbs. \<exists>meas \<in> set (listed env be db). j \<in> set (plan be db meas)))"
  by (auto simp: backends_plan_def in_planned)

end

text \<open>What Rebalance and Recovery need of a backend that they go through.\<close>

definition source_ok :: "tx_env \<Rightarrow> CircleState \<Rightarrow> string list \<Rightarrow> HttpBackend \<Rightarrow> bool" where
  "source_ok env cs dbs be \<longleftrightarrow>
     decodes env be \<and> lists_ok env be dbs \<and> hb_Url be \<in> dom (map_get (cs_Stats cs))"

lemma mark_reset:
  assumes "cid < length (tx_CircleStates tx)"
  shows "length (tx_CircleStates (mark cid b (resetCircleStates tx))) = length (tx_CircleStates tx)"
    "i < length (tx_CircleStates tx) \<Longrightarrow>
       dom (map_get (cs_Stats (tx_CircleStates (mark cid b (resetCircleStates tx)) ! i))) = dom (map_get (cs_Stats (tx_CircleStates tx ! i)))"
  using assms by (auto simp: mark_def resetCircleStates_def nth_list_update)

lemma posts_ok_marked:
  "posts_ok env (resetCircleStates tx) \<longleftrightarrow> posts_ok env tx"
  "posts_ok env ((mark cid b (resetCircleStates tx))\<lparr>tx_CircleStates := css\<rparr>) \<longleftrightarrow> posts_ok env tx"
  by (simp_all add: posts_ok_def peer_url_def resetCircleStates_def mark_def)

lemma Rebalance_run:
  assumes "routable env ics" "cid < length ics" "cid < length (tx_CircleStates tx)" "posts_ok env tx"
    and "prepare env dbs0 (tx, ics) = Some (dbs, es, True)"
    and "\<forall>be \<in> set bes. IsActive be \<longrightarrow> source_ok env (tx_CircleStates tx ! cid) dbs be"
  shows "\<exists>tx' ics' p q. Rebalance env cid bes dbs0 (tx, ics) =
      Some (tx', ics', es @ map Posted p @ map Submitted (rebalance.backends_plan env cid ics env dbs bes) @ map Posted q) \<and>
    announced tx (ic_CircleId (ics ! cid)) True p \<and> announced tx (ic_CircleId (ics ! cid)) False q \<and>
    settled_down cid tx' ics' \<and> good env cid ics ics'"
proof -
  let ?tx = "mark cid True (resetCircleStates tx)" and ?ics = "ics[cid := ic_SetTransferIn (ics ! cid) True]"
  have "cid < length (tx_CircleStates (resetCircleStates tx))" using assms(3) by (simp add: resetCircleStates_def)
  from broadcastTransferring_ok [OF posts_ok_marked(1) [THEN iffD2, OF assms(4)] this assms(2), of True es] obtain p where
    p: "broadcastTransferring env cid True (resetCircleStates tx, ics, es) = Some (?tx, ?ics, es @ map Posted p)"
    "announced tx (ic_CircleId (ics ! cid)) True p"
    by (auto simp: announced_def resetCircleStates_def peer_url_def)
  have len: "cid < length (tx_CircleStates ?tx)" using mark_reset [OF assms(3)] assms(3) by simp
  have src: "\<forall>be \<in> set bes. IsActive be \<longrightarrow> decodes env be \<and> lists_ok env be dbs \<and>
      hb_Url be \<in> dom (map_get (cs_Stats (tx_CircleStates ?tx ! cid)))"
    using assms(6) mark_reset(2) [OF assms(3), of cid] assms(3) by (simp add: source_ok_def)
  from rebalance.run_circle_plan [OF good_marked [OF assms(1,2)] len src, where es = "es @ map Posted p"] obtain cs' s' where
    r: "good env cid ics s'" "run_circle env (runRebalance env cid) cid bes dbs (?tx, ?ics, es @ map Posted p) =
      Some (?tx\<lparr>tx_CircleStates := (tx_CircleStates ?tx)[cid := cs']\<rparr>, s',
        (es @ map Posted p) @ map Submitted (rebalance.backends_plan env cid ics env dbs bes))" (is "_ = Some (?tx2, _, ?es)")
    by blast
  have len2: "cid < length (tx_CircleStates ?tx2)" using len by simp
  have "posts_ok env ?tx2" using assms(4) by (simp add: posts_ok_marked)
  from settled_after [OF this r(1) len2, of ?es] obtain tx' ics' q where
    q: "broadcastTransferring env cid False (resetBasicParam ?tx2, s', ?es) = Some (tx', ics', ?es @ map Posted q)"
    "settled_down cid tx' ics'" "good env cid ics ics'" "announced ?tx2 (ic_CircleId (ics ! cid)) False q" by blast
  have "announced tx (ic_CircleId (ics ! cid)) False q"
    using q(4) by (simp add: announced_def peer_url_def mark_def resetCircleStates_def)
  moreover have "Rebalance env cid bes dbs0 (tx, ics) = Some (tx', ics', ?es @ map Posted q)"
    using assms(5) p(1) r(2) q(1) by (simp add: Rebalance_def)
  ultimately show ?thesis using p(2) q(2,3) by (intro exI [of _ tx'] exI [of _ ics'] exI [of _ p] exI [of _ q]) simp
qed

lemma rebalance_jobs:
  "j \<in> set (rebalance.backends_plan env cid ics env dbs bes) \<longleftrightarrow>
     (\<exists>be db meas rp. be \<in> set bes \<and> IsActive be \<and> db \<in> set dbs \<and> meas \<in> set (listed env be db) \<and>
        misplaced env cid ics be db meas \<and> rp \<in> set (the (GetRetentionPolicies (te_http env) be db)) \<and>
        j = CopyJob be [Some (home env ics cid db meas)] db rp meas 0)"
  unfolding rebalance.in_backends_plan by (auto simp: rebalance_plan_def copies_def split: if_splits)

text \<open>C15: rebalancing moves exactly what is out of place. Once the databases exist, whatever the
  hash and the number of backends: Rebalance does not panic; the copies it submits are, for every
  active backend given to it and every measurement listed there that the circle routes to another
  backend, one per retention policy, from that backend to the one of the routing; and nothing else
  is submitted.\<close>

theorem Rebalance_moves_misplaced:
  assumes "routable env ics" "cid < length ics" "cid < length (tx_CircleStates tx)" "posts_ok env tx"
    and "prepare env dbs0 (tx, ics) = Some (dbs, es, True)"
    and "\<forall>be \<in> set bes. IsActive be \<longrightarrow> source_ok env (tx_CircleStates tx ! cid) dbs be"
  shows "\<exists>tx' ics' effs. Rebalance env cid bes dbs0 (tx, ics) = Some (tx', ics', effs) \<and>
    (\<forall>j. Submitted j \<in> set effs \<longleftrightarrow>
       (\<exists>be db meas rp. be \<in> set bes \<and> IsActive be \<and> db \<in> set dbs \<and> meas \<in> set (listed env be db) \<and>
          \<not> in_place (te_lookup env) (te_measureOnly env) (ics ! cid) (hb_Url be) db meas \<and>
          rp \<in> set (the (GetRetentionPolicies (te_http env) be db)) \<and>
          j = CopyJob be [Some (home env ics cid db meas)] db rp meas 0))"
proof -
  from Rebalance_run [OF assms] obtain tx' ics' p q where
    r: "Rebalance env cid bes dbs0 (tx, ics) =
      Some (tx', ics', es @ map Posted p @ map Submitted (rebalance.backends_plan env cid ics env dbs bes) @ map Posted q)"
    by blast
  have "Submitted j \<in> set (es @ map Posted p @ map Submitted (rebalance.backends_plan env cid ics env dbs bes) @ map Posted q) \<longleftrightarrow>
      j \<in> set (rebalance.backends_plan env cid ics env dbs bes)" for j
    using prepare_statements [OF assms(5), of j] by auto
  then show ?thesis
    unfolding r rebalance_jobs misplaced_def by blast
qed

text \<open>A rebalancing is announced and taken back. The first announcement to every peer says
  that the circle is transferring and the last that it is not, with everything submitted in
  between; afterwards the circle is not transferring, none of its backends is write-only for the
  transfer, the parameters have their defaults, and every key still has its backend.\<close>

theorem Rebalance_announces:
  assumes "routable env ics" "cid < length ics" "cid < length (tx_CircleStates tx)" "posts_ok env tx"
    and "prepare env dbs0 (tx, ics) = Some (dbs, es, True)"
    and "\<forall>be \<in> set bes. IsActive be \<longrightarrow> source_ok env (tx_CircleStates tx ! cid) dbs be"
  shows "\<exists>tx' ics' p q jobs. Rebalance env cid bes dbs0 (tx, ics) =
      Some (tx', ics', es @ map Posted p @ map Submitted jobs @ map Posted q) \<and>
    announced tx (ic_CircleId (ics ! cid)) True p \<and> announced tx (ic_CircleId (ics ! cid)) False q \<and>
    settled_down cid tx' ics' \<and> same_places (te_lookup env) ics ics'"
  using Rebalance_run [OF assms] unfolding good_def by blast

lemma cleanup_backends_plan:
  assumes "good env cid ics0 s"
    and "\<forall>be \<in> set bes. GetDatabases (te_http env) be \<noteq> None \<and>
           (IsActive be \<longrightarrow> lists_ok env be (the (GetDatabases (te_http env) be)) \<and> hb_Url be \<in> dom (map_get (cs_Stats cs)))"
  shows "\<exists>cs' s'. good env cid ics0 s' \<and> cleanup_backends env cid bes (cs, s, jobs) =
    Some (cs', s', jobs @ concat (map (\<lambda>be. planned (cleanup_plan env cid ics0 be)
       (worklist env be (the (GetDatabases (te_http env) be)))) (filter IsActive bes)))"
  using assms
proof (induction bes arbitrary: cs s jobs)
  case (Cons be bes)
  let ?plan = "\<lambda>be. planned (cleanup_plan env cid ics0 be) (worklist env be (the (GetDatabases (te_http env) be)))"
  from Cons.prems(2) obtain dbs where dbs: "GetDatabases (te_http env) be = Some dbs" by auto
  show ?case
  proof (cases "IsActive be \<and> dbs \<noteq> []")
    case False
    then have "\<not> IsActive be \<or> ?plan be = []" using dbs by (auto simp: planned_def worklist_def)
    with Cons.IH [OF Cons.prems(1), of cs jobs] Cons.prems(2) False dbs show ?thesis
      by (auto simp: runTransfer_def)
  next
    case True
    with Cons.prems(2) obtain st where st: "map_get (cs_Stats cs) (hb_Url be) = Some st" by auto
    from cleanup.runTransfer_plan [OF Cons.prems(1) _ _ st, of env dbs] Cons.prems(2) True dbs obtain s1 cs1 where
      s1: "good env cid ics0 s1" "runTransfer env cs be dbs (runCleanup env cid) s = Some (cs1, s1, ?plan be)"
      "dom (map_get (cs_Stats cs)) \<subseteq> dom (map_get (cs_Stats cs1))"
      by atomize_elim (auto simp: dom_map_set)
    have "\<forall>be \<in> set bes. GetDatabases (te_http env) be \<noteq> None \<and>
           (IsActive be \<longrightarrow> lists_ok env be (the (GetDatabases (te_http env) be)) \<and> hb_Url be \<in> dom (map_get (cs_Stats cs1)))"
      using Cons.prems(2) s1(3) by (metis list.set_intros(2) subsetD)
    from Cons.IH [OF s1(1) this, of "jobs @ ?plan be"] s1(2) True dbs show ?thesis by auto
  qed
qed simp

lemma query_request_flag [simp]: "query_request env (SetTransferIn hb b) path req = query_request env hb path req"
  by (cases "has_credentials hb")
    (simp_all add: query_request_def hb_SetBasicAuth_def SetTransferIn_def has_credentials_def Let_def)

lemma iql_result_flag [simp]: "iql_result env (SetTransferIn hb b) = iql_result env hb"
  by (intro ext) (simp add: iql_result_def hb_Query_def)

lemma names_flag [simp]:
  "GetDatabases env (SetTransferIn hb b) = GetDatabases env hb"
  "GetMeasurements env (SetTransferIn hb b) = GetMeasurements env hb"
  by (auto simp: GetDatabases_def GetMeasurements_def GetSeriesValues_def)

lemma SetTransferIn_fields [simp]: "hb_Url (SetTransferIn hb b) = hb_Url hb" "IsActive (SetTransferIn hb b) = IsActive hb"
  by (simp_all add: SetTransferIn_def IsActive_def)

lemma Cleanup_posts:
  assumes "routable env ics" "cid < length ics" "cid < length (tx_CircleStates tx)" "posts_ok env tx"
    and "te_NewPool env (tx_Worker tx) = None"
    and "\<forall>be \<in> set (circle_hbs (ics ! cid)). GetDatabases (te_http env) be \<noteq> None \<and>
           (IsActive be \<longrightarrow> lists_ok env be (the (GetDatabases (te_http env) be)) \<and>
              hb_Url be \<in> dom (map_get (cs_Stats (tx_CircleStates tx ! cid))))"
  shows "\<exists>tx' ics' p q jobs. Cleanup env cid (tx, ics) =
      Some (tx', ics', map Posted p @ map Submitted jobs @ map Posted q) \<and>
    announced tx (ic_CircleId (ics ! cid)) True p \<and> announced tx (ic_CircleId (ics ! cid)) False q \<and>
    settled_down cid tx' ics' \<and> good env cid ics ics' \<and>
    (\<forall>j. j \<in> set jobs \<longleftrightarrow>
       (\<exists>be db meas. be \<in> set (circle_hbs (ics ! cid)) \<and> IsActive be \<and>
          db \<in> set (the (GetDatabases (te_http env) be)) \<and> meas \<in> set (listed env be db) \<and>
          misplaced env cid ics be db meas \<and>
          j = DropJob (SetTransferIn be True) db meas))"
proof -
  let ?tx = "mark cid True (resetCircleStates tx)" and ?ics = "ics[cid := ic_SetTransferIn (ics ! cid) True]"
  let ?bes = "map (\<lambda>be. SetTransferIn be True) (circle_hbs (ics ! cid))"
  let ?jobs = "concat (map (\<lambda>be. planned (cleanup_plan env cid ics be)
       (worklist env be (the (GetDatabases (te_http env) be)))) (filter IsActive ?bes))"
  have "cid < length (tx_CircleStates (resetCircleStates tx))" using assms(3) by (simp add: resetCircleStates_def)
  from broadcastTransferring_ok [OF posts_ok_marked(1) [THEN iffD2, OF assms(4)] this assms(2), where b = True and es = "[]"] obtain p where
    p: "broadcastTransferring env cid True (resetCircleStates tx, ics, []) = Some (?tx, ?ics, map Posted p)"
      "announced tx (ic_CircleId (ics ! cid)) True p"
    by (auto simp: announced_def resetCircleStates_def peer_url_def)
  have len: "cid < length (tx_CircleStates ?tx)" using mark_reset [OF assms(3)] assms(3) by simp
  have bes: "byte_at ?ics cid = Some (ic_SetTransferIn (ics ! cid) True)" "circle_hbs (ic_SetTransferIn (ics ! cid) True) = ?bes"
    using assms(2) by (simp_all add: byte_at_def circle_hbs_def ic_SetTransferIn_def)
  have src: "\<forall>be \<in> set ?bes. GetDatabases (te_http env) be \<noteq> None \<and>
      (IsActive be \<longrightarrow> lists_ok env be (the (GetDatabases (te_http env) be)) \<and>
         hb_Url be \<in> dom (map_get (cs_Stats (tx_CircleStates ?tx ! cid))))"
    using assms(6) mark_reset(2) [OF assms(3), of cid] assms(3) by (auto simp: lists_ok_def)
  from cleanup_backends_plan [OF good_marked [OF assms(1,2), of True] src, where jobs = "[]"] obtain cs' s' where
    r: "good env cid ics s'" "cleanup_backends env cid ?bes (tx_CircleStates ?tx ! cid, ?ics, []) = Some (cs', s', ?jobs)"
    unfolding append_Nil by blast
  let ?tx2 = "?tx\<lparr>tx_CircleStates := (tx_CircleStates ?tx)[cid := cs']\<rparr>"
  have len2: "cid < length (tx_CircleStates ?tx2)" using len by simp
  have "posts_ok env ?tx2" using assms(4) by (simp add: posts_ok_marked)
  from settled_after [OF this r(1) len2, of "map Posted p @ map Submitted ?jobs"] obtain tx' ics' q where
    q: "broadcastTransferring env cid False (resetBasicParam ?tx2, s', map Posted p @ map Submitted ?jobs) =
      Some (tx', ics', (map Posted p @ map Submitted ?jobs) @ map Posted q)" "settled_down cid tx' ics'" "good env cid ics ics'"
    "announced ?tx2 (ic_CircleId (ics ! cid)) False q" by blast
  have f: "announced tx (ic_CircleId (ics ! cid)) False q"
    using q(4) by (simp add: announced_def peer_url_def mark_def resetCircleStates_def)
  have c: "Cleanup env cid (tx, ics) = Some (tx', ics', map Posted p @ map Submitted ?jobs @ map Posted q)"
    using assms(5) p(1) len bes r(2) q(1) by (simp add: Cleanup_def byte_at_def del: map_map)
  have "j \<in> set ?jobs \<longleftrightarrow>
      (\<exists>be \<in> set (circle_hbs (ics ! cid)). IsActive be \<and>
         (\<exists>db \<in> set (the (GetDatabases (te_http env) be)). \<exists>meas \<in> set (listed env be db).
            misplaced env cid ics be db meas \<and> j = DropJob (SetTransferIn be True) db meas))" for j
    by (auto simp: in_planned cleanup_plan_def listed_def misplaced_def)
  then have "\<And>j. j \<in> set ?jobs \<longleftrightarrow> (\<exists>be db meas. be \<in> set (circle_hbs (ics ! cid)) \<and> IsActive be \<and>
          db \<in> set (the (GetDatabases (te_http env) be)) \<and> meas \<in> set (listed env be db) \<and>
          misplaced env cid ics be db meas \<and> j = DropJob (SetTransferIn be True) db meas)" by blast
  with c p(2) q(2,3) f show ?thesis
    by (intro exI [of _ tx'] exI [of _ ics'] exI [of _ p] exI [of _ q] exI [of _ ?jobs]) (intro conjI allI)
qed

lemma Cleanup_run:
  assumes "routable env ics" "cid < length ics" "cid < length (tx_CircleStates tx)" "posts_ok env tx"
    and "te_NewPool env (tx_Worker tx) = None"
    and "\<forall>be \<in> set (circle_hbs (ics ! cid)). GetDatabases (te_http env) be \<noteq> None \<and>
           (IsActive be \<longrightarrow> lists_ok env be (the (GetDatabases (te_http env) be)) \<and>
              hb_Url be \<in> dom (map_get (cs_Stats (tx_CircleStates tx ! cid))))"
  shows "\<exists>tx' ics' effs. Cleanup env cid (tx, ics) = Some (tx', ics', effs) \<and> settled_down cid tx' ics' \<and> good env cid ics ics' \<and>
    (\<forall>j. Submitted j \<in> set effs \<longleftrightarrow>
       (\<exists>be db meas. be \<in> set (circle_hbs (ics ! cid)) \<and> IsActive be \<and>
          db \<in> set (the (GetDatabases (te_http env) be)) \<and> meas \<in> set (listed env be db) \<and>
          misplaced env cid ics be db meas \<and>
          j = DropJob (SetTransferIn be True) db meas))"
proof -
  from Cleanup_posts [OF assms] obtain tx' ics' p q jobs where
    c: "Cleanup env cid (tx, ics) = Some (tx', ics', map Posted p @ map Submitted jobs @ map Posted q)"
    "settled_down cid tx' ics'" "good env cid ics ics'"
    "\<And>j. j \<in> set jobs \<longleftrightarrow> (\<exists>be db meas. be \<in> set (circle_hbs (ics ! cid)) \<and> IsActive be \<and>
          db \<in> set (the (GetDatabases (te_http env) be)) \<and> meas \<in> set (listed env be db) \<and>
          misplaced env cid ics be db meas \<and> j = DropJob (SetTransferIn be True) db meas)" by blast
  have "Submitted j \<in> set (map Posted p @ map Submitted jobs @ map Posted q) \<longleftrightarrow> j \<in> set jobs" for j by auto
  with c show ?thesis by blast
qed

text \<open>Cleaning up drops exactly what is out of place. When the servers' lists decode, Cleanup
  does not panic; the drops it submits are, for every active backend of the circle and every
  measurement of one of its own databases, those that the circle routes to another backend. A
  measurement in its place is never dropped.\<close>

theorem Cleanup_drops_misplaced:
  assumes "routable env ics" "cid < length ics" "cid < length (tx_CircleStates tx)" "posts_ok env tx"
    and "te_NewPool env (tx_Worker tx) = None"
    and "\<forall>be \<in> set (circle_hbs (ics ! cid)). GetDatabases (te_http env) be \<noteq> None \<and>
           (IsActive be \<longrightarrow> lists_ok env be (the (GetDatabases (te_http env) be)) \<and>
              hb_Url be \<in> dom (map_get (cs_Stats (tx_CircleStates tx ! cid))))"
  shows "\<exists>tx' ics' effs. Cleanup env cid (tx, ics) = Some (tx', ics', effs) \<and> settled_down cid tx' ics' \<and>
    (\<forall>j. Submitted j \<in> set effs \<longleftrightarrow>
       (\<exists>be db meas. be \<in> set (circle_hbs (ics ! cid)) \<and> IsActive be \<and>
          db \<in> set (the (GetDatabases (te_http env) be)) \<and> meas \<in> set (listed env be db) \<and>
          \<not> in_place (te_lookup env) (te_measureOnly env) (ics ! cid) (hb_Url be) db meas \<and>
          j = DropJob (SetTransferIn be True) db meas))"
  using Cleanup_run [OF assms] unfolding misplaced_def by blast

section \<open>Statistics\<close>

definition finished :: "Stats \<Rightarrow> bool" where
  "finished st \<longleftrightarrow>
     st_DatabaseDone st = st_DatabaseTotal st \<and> st_MeasurementDone st = st_MeasurementTotal st \<and>
     st_TransferCount st + st_InPlaceCount st = st_MeasurementDone st"

lemma counted_total: "counted P work + counted (\<lambda>db m. \<not> P db m) work = sum_list (map (length \<circ> snd) work)"
proof (induction work)
  case (Cons w work)
  obtain db ms where w: "w = (db, ms)" by (cases w)
  with Cons sum_length_filter_compl [of "P db" ms] show ?case by (simp add: counted_def)
qed (simp add: counted_def)

lemma sum_of_nat: "sum_list (map (of_nat \<circ> length \<circ> snd) work) = (of_nat (sum_list (map (length \<circ> snd) work)) :: 32 word)"
  by (induction work) auto

lemma progress_counters:
  "st_MeasurementDone (progress zero_stats moves work) = of_nat (sum_list (map (length \<circ> snd) work))"
  "st_TransferCount (progress zero_stats moves work) = of_nat (counted moves work)"
  using counted_total [of moves work, symmetric]
  by (simp_all add: progress_def tally_def zero_stats_def)

lemma sint_of_nat_32: "sint (of_nat n :: 32 word) = (int n + 2 ^ 31) mod 2 ^ 32 - 2 ^ 31"
  by (simp add: signed_of_nat signed_take_bit_eq_take_bit_shift take_bit_eq_mod)

lemma progress_finished: "finished (progress zero_stats moves work)"
  using counted_total [of moves work, THEN arg_cong [of _ _ "of_nat :: nat \<Rightarrow> 32 word"]]
  by (simp add: finished_def progress_def tally_def zero_stats_def sum_of_nat)

text \<open>The four functions that go through the measurements, and which of the measurements each of
  them moves: those whose home in the circle is another server, those whose home is to be
  recovered, all if there is a circle with another number, and again those out of place.\<close>

datatype transfer_kind = Rebalances nat | Recovers nat Set | Resyncs nat int | Cleans nat

fun kind_fn :: "tx_env \<Rightarrow> transfer_kind \<Rightarrow> tx_step" where
  "kind_fn env (Rebalances cid) = runRebalance env cid"
| "kind_fn env (Recovers tcid urls) = runRecovery env tcid urls"
| "kind_fn env (Resyncs cid tick) = runResync env cid tick"
| "kind_fn env (Cleans cid) = runCleanup env cid"

fun kind_circle :: "transfer_kind \<Rightarrow> nat" where
  "kind_circle (Rebalances cid) = cid"
| "kind_circle (Recovers tcid urls) = tcid"
| "kind_circle (Resyncs cid tick) = cid"
| "kind_circle (Cleans cid) = cid"

fun kind_moves :: "tx_env \<Rightarrow> Circle list \<Rightarrow> HttpBackend \<Rightarrow> transfer_kind \<Rightarrow> string \<Rightarrow> string \<Rightarrow> bool" where
  "kind_moves env ics be (Rebalances cid) db meas \<longleftrightarrow> hb_Url (hb_at ics (home env ics cid db meas)) \<noteq> hb_Url be"
| "kind_moves env ics be (Recovers tcid urls) db meas \<longleftrightarrow> Has urls (hb_Url (hb_at ics (home env ics tcid db meas)))"
| "kind_moves env ics be (Resyncs cid tick) db meas \<longleftrightarrow> (\<exists>ic \<in> set ics. ic_CircleId ic \<noteq> ic_CircleId (ics ! cid))"
| "kind_moves env ics be (Cleans cid) db meas \<longleftrightarrow> hb_Url (hb_at ics (home env ics cid db meas)) \<noteq> hb_Url be"

lemma runTransfer_progress:
  assumes "routable env ics" "kind_circle k < length ics" "decodes env be" "IsActive be"
    and "map_get (cs_Stats cs) (hb_Url be) = Some st" "lists_ok env be dbs"
  shows "\<exists>ics' jobs. runTransfer env cs be dbs (kind_fn env k) ics =
    Some (cs\<lparr>cs_Stats := map_set (hb_Url be) (progress st (kind_moves env ics be k) (worklist env be dbs)) (cs_Stats cs)\<rparr>, ics', jobs)"
proof (cases k)
  case (Rebalances cid)
  have g: "good env cid ics ics" using assms(1,2) same_places_refl by (simp add: good_def Rebalances)
  have "misplaced env cid ics be = kind_moves env ics be k" by (intro ext) (simp add: misplaced_home [OF g] Rebalances)
  with rebalance.runTransfer_plan [OF g assms(3-6)] show ?thesis by (auto simp: Rebalances)
next
  case (Recovers tcid urls)
  have g: "good env tcid ics ics" using assms(1,2) same_places_refl by (simp add: good_def Recovers)
  have "wanted env tcid ics urls = kind_moves env ics be k" by (intro ext) (simp add: wanted_def Recovers)
  with recovery.runTransfer_plan [OF g assms(3-6), of urls] show ?thesis by (auto simp: Recovers)
next
  case (Resyncs cid tick)
  have g: "untouched env cid ics ics" using assms(1,2) same_places_refl by (simp add: untouched_def good_def Resyncs)
  have "(\<lambda>db meas. others ics cid \<noteq> []) = kind_moves env ics be k"
    by (intro ext) (auto simp: others_def filter_empty_conv set_conv_nth Resyncs)
  with resync.runTransfer_plan [OF g assms(3-6), of tick] show ?thesis by (auto simp: Resyncs)
next
  case (Cleans cid)
  have g: "good env cid ics ics" using assms(1,2) same_places_refl by (simp add: good_def Cleans)
  have "misplaced env cid ics be = kind_moves env ics be k" by (intro ext) (simp add: misplaced_home [OF g] Cleans)
  with cleanup.runTransfer_plan [OF g _ assms(4-6)] show ?thesis by (auto simp: Cleans)
qed

text \<open>C34: the counters of a backend, for each of the four transfers. When a backend has been gone
  through from zeroed counters, all its databases and measurements are counted as done, and the
  moved and the kept ones together are all of them, even where the counters wrap around. They are
  signed 32 bit numbers: what \<open>n\<close> measurements are counted as is \<open>n\<close> taken into the range from
  \<open>- 2 ^ 31\<close> to \<open>2 ^ 31 - 1\<close>, that is \<open>n\<close> itself as long as \<open>n\<close> is below \<open>2 ^ 31\<close>, and a negative
  number from there on.\<close>

theorem runTransfer_counts:
  assumes "routable env ics" "kind_circle k < length ics" "decodes env be" "IsActive be"
    and "map_get (cs_Stats cs) (hb_Url be) = Some zero_stats" "lists_ok env be dbs"
  defines "work \<equiv> concat (map (\<lambda>db. map (Pair db) (listed env be db)) dbs)"
  defines "n \<equiv> length work" and "moved \<equiv> length (filter (\<lambda>(db, m). kind_moves env ics be k db m) work)"
  shows "\<exists>cs' ics' jobs st. runTransfer env cs be dbs (kind_fn env k) ics = Some (cs', ics', jobs) \<and>
    map_get (cs_Stats cs') (hb_Url be) = Some st \<and> finished st \<and>
    sint (st_DatabaseDone st) = (int (length dbs) + 2 ^ 31) mod 2 ^ 32 - 2 ^ 31 \<and>
    sint (st_MeasurementDone st) = (int n + 2 ^ 31) mod 2 ^ 32 - 2 ^ 31 \<and>
    sint (st_TransferCount st) = (int moved + 2 ^ 31) mod 2 ^ 32 - 2 ^ 31 \<and>
    (n < 2 ^ 31 \<longrightarrow> sint (st_MeasurementDone st) = int n \<and> sint (st_TransferCount st) = int moved \<and>
       sint (st_InPlaceCount st) = int (n - moved))"
proof -
  let ?work = "worklist env be dbs" and ?moves = "kind_moves env ics be k"
  let ?st = "progress zero_stats ?moves ?work"
  have all: "sum_list (map (length \<circ> snd) ?work) = n"
    by (simp add: n_def work_def worklist_def length_concat comp_def)
  have cnt: "counted P ?work = length (filter (\<lambda>(db, m). P db m) work)" for P
    unfolding work_def by (induction dbs) (simp_all add: worklist_def counted_def filter_map comp_def)
  have le: "moved \<le> n" by (simp add: moved_def n_def)
  have kept: "counted (\<lambda>db m. \<not> ?moves db m) ?work = n - moved"
    using counted_total [of ?moves ?work] all by (simp add: cnt moved_def)
  have c: "st_DatabaseDone ?st = of_nat (length dbs)" "st_MeasurementDone ?st = of_nat n" "st_TransferCount ?st = of_nat moved"
    "st_InPlaceCount ?st = of_nat (n - moved)"
    using all cnt [of ?moves] kept
    by (simp_all add: progress_counters moved_def) (simp_all add: progress_def tally_def zero_stats_def worklist_def)
  have small: "sint (of_nat m :: 32 word) = int m" if "m < 2 ^ 31" for m
    using that by (simp add: sint_of_nat_32)
  have "n < 2 ^ 31 \<longrightarrow> sint (st_MeasurementDone ?st) = int n \<and> sint (st_TransferCount ?st) = int moved \<and>
      sint (st_InPlaceCount ?st) = int (n - moved)"
    using small [of n] small [of moved] small [of "n - moved"] le unfolding c by simp
  with runTransfer_progress [OF assms(1-6)] progress_finished [of ?moves ?work] show ?thesis
    by (auto simp: map_get_set c sint_of_nat_32)
qed

section \<open>Copying in pages and batches\<close>

function chunks :: "nat \<Rightarrow> 'a list \<Rightarrow> 'a list list" where
  "chunks n xs = (if n = 0 \<or> xs = [] then [] else take n xs # chunks n (drop n xs))"
  by auto
termination by (relation "measure (length \<circ> snd)") auto

declare chunks.simps [simp del]

lemma chunks_Nil [simp]: "chunks n [] = []"
  by (simp add: chunks.simps)

lemma chunks_step: "0 < n \<Longrightarrow> xs \<noteq> [] \<Longrightarrow> chunks n xs = take n xs # chunks n (drop n xs)"
  by (subst chunks.simps) simp

lemma chunks_first: "xs \<noteq> [] \<Longrightarrow> length xs = n \<Longrightarrow> chunks n (xs @ ys) = xs # chunks n ys"
  using chunks_step [of n "xs @ ys"] by (simp add: length_greater_0_conv [symmetric] del: length_greater_0_conv)

lemma chunks_last: "0 < n \<Longrightarrow> xs \<noteq> [] \<Longrightarrow> length xs \<le> n \<Longrightarrow> chunks n xs = [xs]"
  by (simp add: chunks_step)

lemma concat_chunks: "0 < n \<Longrightarrow> concat (chunks n xs) = xs"
  by (induction n xs rule: chunks.induct) (subst chunks.simps, simp)

lemma chunks_bounds: "c \<in> set (chunks n xs) \<Longrightarrow> c \<noteq> [] \<and> length c \<le> n \<and> set c \<subseteq> set xs"
proof (induction n xs rule: chunks.induct)
  case (1 n xs)
  show ?case
  proof (cases "n = 0 \<or> xs = []")
    case True
    with "1.prems" show ?thesis by (simp add: chunks.simps)
  next
    case False
    then have "chunks n xs = take n xs # chunks n (drop n xs)" by (simp add: chunks_step)
    with "1.prems" consider "c = take n xs" | "c \<in> set (chunks n (drop n xs))" by auto
    then show ?thesis using "1.IH" [OF False] False by cases (auto dest: in_set_takeD in_set_dropD)
  qed
qed

lemma batches_spec:
  assumes "0 < b" "idx mod b = length pl" "buf = concat pl" "idx + length lines = valen" "lines \<noteq> []"
  shows "batches (int b) valen idx buf lines = Some (map concat (chunks b (pl @ lines)))"
  using assms(2-)
proof (induction lines arbitrary: idx pl buf)
  case (Cons line lines)
  have r: "length pl < b" using Cons.prems(1) assms(1) by (metis mod_less_divisor)
  have full: "(int idx + 1) mod int b = 0 \<longleftrightarrow> length (pl @ [line]) = b"
  proof -
    have "(int idx + 1) mod int b = int (Suc idx mod b)" by (simp add: zmod_int add.commute)
    moreover have "Suc idx mod b = (if Suc (length pl) = b then 0 else Suc (length pl))"
      using Cons.prems(1) by (simp add: mod_Suc)
    ultimately show ?thesis by simp
  qed
  consider (page) "length (pl @ [line]) = b" "lines \<noteq> []" | (last) "lines = []" | (more) "length (pl @ [line]) \<noteq> b" "lines \<noteq> []"
    by blast
  then show ?case
  proof cases
    case page
    with Cons.prems(1) have "Suc idx mod b = 0" by (simp add: mod_Suc)
    with Cons.IH [of "Suc idx" "[]" "[]"] Cons.prems page have "batches (int b) valen (Suc idx) [] lines = Some (map concat (chunks b lines))"
      by simp
    moreover have "chunks b (pl @ line # lines) = (pl @ [line]) # chunks b lines"
      using chunks_first [of "pl @ [line]" b lines] page by simp
    ultimately show ?thesis using full page Cons.prems assms(1) by simp
  next
    case last
    with Cons.prems assms(1) r show ?thesis by (simp add: chunks_last)
  next
    case more
    from more Cons.prems(1) have "Suc idx mod b = length (pl @ [line])" by (simp add: mod_Suc)
    moreover have "Suc idx \<noteq> valen" using more(2) Cons.prems(3) by (cases lines) auto
    ultimately show ?thesis
      using Cons.IH [of "Suc idx" "pl @ [line]" "buf @ line"] Cons.prems more full assms(1) by simp
  qed
qed simp

lemma page_batches_spec:
  assumes "0 < b" "list_all (\<lambda>v. copy_line env meas tm fm (row_Columns row) v \<noteq> None) (row_Values row)"
  shows "page_batches env (int b) meas tm fm row =
    Some (map concat (chunks b (map (\<lambda>v. the (copy_line env meas tm fm (row_Columns row) v)) (row_Values row))))"
proof -
  have those: "those (map (copy_line env meas tm fm cols) vs) = Some (map (\<lambda>v. the (copy_line env meas tm fm cols v)) vs)"
    if "list_all (\<lambda>v. copy_line env meas tm fm cols v \<noteq> None) vs" for cols vs
    using that by (induction vs) auto
  show ?thesis
  proof (cases "row_Values row = []")
    case False
    with batches_spec [OF assms(1), of 0 "[]" "[]"
        "map (\<lambda>v. the (copy_line env meas tm fm (row_Columns row) v)) (row_Values row)"] those [OF assms(2)]
    show ?thesis by (simp add: page_batches_def)
  qed (simp add: page_batches_def)
qed

definition page_of :: "Row \<Rightarrow> nat \<Rightarrow> nat \<Rightarrow> Row list" where
  "page_of row limit k =
     (let vs = take limit (drop (k * limit) (row_Values row)) in
      if vs = [] then [] else [row\<lparr>row_Values := vs\<rparr>])"

text \<open>What a server that holds the rows of \<open>row\<close> answers: for every page, one of the attempts is
  answered, with the rows that \<^verbatim>\<open>limit\<close> and \<^verbatim>\<open>offset\<close> name and no series when there are none.\<close>

definition holds :: "tx_env \<Rightarrow> HttpBackend \<Rightarrow> string \<Rightarrow> string \<Rightarrow> string \<Rightarrow> int \<Rightarrow> nat \<Rightarrow> Row \<Rightarrow> bool" where
  "holds env src db rp meas tick limit row \<longleftrightarrow>
     (\<forall>k. \<exists>i rsp. i \<le> RetryCount \<and>
        (\<forall>j < i. snd (QueryIQL (te_net env k j) src ''GET'' db (page_query rp meas tick (int limit) (int k * int limit)) ''ns'') \<noteq> None) \<and>
        QueryIQL (te_net env k i) src ''GET'' db (page_query rp meas tick (int limit) (int k * int limit)) ''ns'' = (rsp, None) \<and>
        SeriesFromResponseBytes (he_unmarshal (te_net env k i)) rsp = (page_of row limit k, None))"

lemma attempts_success:
  assumes "i \<le> n" "\<forall>j < i. \<exists>r e. act (k + j) s = Some (s, r, Some e)" "act (k + i) s = Some (s', r, None)"
  shows "attempts n k act s = Some (s', r, None)"
  using assms
proof (induction n arbitrary: i k)
  case (Suc n)
  show ?case
  proof (cases i)
    case 0
    with Suc.prems show ?thesis by simp
  next
    case (Suc i')
    with Suc.prems(2) obtain r1 e1 where "act k s = Some (s, r1, Some e1)" by fastforce
    moreover have "attempts n (Suc k) act s = Some (s', r, None)"
      using Suc.IH [of i' "Suc k"] Suc.prems Suc by fastforce
    ultimately show ?thesis by simp
  qed
qed simp

lemma fetch_page_holds:
  assumes "holds env src db rp meas tick limit row"
  shows "fetch_page (te_net env k) src db (page_query rp meas tick (int limit) (int k * int limit)) = Inr (page_of row limit k)"
proof -
  let ?q = "page_query rp meas tick (int limit) (int k * int limit)"
  let ?act = "\<lambda>i (s :: unit). let (rsp, err) = QueryIQL (te_net env k i) src ''GET'' db ?q ''ns'' in Some ((), (i, rsp), err)"
  from assms obtain i rsp where i: "i \<le> RetryCount"
    "\<forall>j < i. snd (QueryIQL (te_net env k j) src ''GET'' db ?q ''ns'') \<noteq> None"
    "QueryIQL (te_net env k i) src ''GET'' db ?q ''ns'' = (rsp, None)"
    "SeriesFromResponseBytes (he_unmarshal (te_net env k i)) rsp = (page_of row limit k, None)"
    unfolding holds_def by blast
  have "\<forall>j < i. \<exists>r e. ?act (0 + j) () = Some ((), r, Some e)"
  proof (intro allI impI)
    fix j
    assume "j < i"
    with i(2) obtain p e where "QueryIQL (te_net env k j) src ''GET'' db ?q ''ns'' = (p, Some e)"
      by (metis not_Some_eq prod.collapse)
    then show "\<exists>r e. ?act (0 + j) () = Some ((), r, Some e)" by simp
  qed
  moreover have "?act (0 + i) () = Some ((), (i, rsp), None)" using i(3) by simp
  ultimately have "attempts RetryCount 0 ?act () = Some ((), (i, rsp), None)"
    using attempts_success [OF i(1), of ?act 0 "()"] by blast
  then show ?thesis using i(4) by (simp add: fetch_page_def page_of_def Let_def)
qed

lemma tx_pages_all:
  assumes "\<And>k. page k = Inr (page_of row limit k)" "0 < limit"
  shows "tx_pages page k = Some (map (\<lambda>vs. Inr [row\<lparr>row_Values := vs\<rparr>]) (chunks limit (drop (k * limit) (row_Values row))))"
proof (induction "length (row_Values row) - k * limit" arbitrary: k rule: less_induct)
  case less
  let ?vs = "drop (k * limit) (row_Values row)"
  show ?case
  proof (cases "?vs = []")
    case True
    then show ?thesis by (subst tx_pages.simps) (simp add: assms(1) page_of_def)
  next
    case False
    then have "length (row_Values row) - Suc k * limit < length (row_Values row) - k * limit"
      using assms(2) by (simp add: not_le)
    from less [OF this] have "tx_pages page (Suc k) =
        Some (map (\<lambda>vs. Inr [row\<lparr>row_Values := vs\<rparr>]) (chunks limit (drop limit ?vs)))"
      by (simp add: add.commute)
    moreover have "chunks limit ?vs = take limit ?vs # chunks limit (drop limit ?vs)"
      by (rule chunks_step) (use assms(2) False in auto)
    ultimately show ?thesis using False assms(2)
      by (subst tx_pages.simps) (simp add: assms(1) page_of_def Let_def)
  qed
qed

lemma tx_write_pages:
  assumes "0 < b" "\<forall>vs \<in> set vss. list_all (\<lambda>v. copy_line env meas tm fm (row_Columns row) v \<noteq> None) vs"
  shows "tx_write env (int b) meas tm fm (map (\<lambda>vs. Inr [row\<lparr>row_Values := vs\<rparr>]) vss) =
    Some (concat (map (\<lambda>vs. map concat (chunks b (map (\<lambda>v. the (copy_line env meas tm fm (row_Columns row) v)) vs))) vss), None)"
  using assms(2)
proof (induction vss)
  case (Cons vs vss)
  from Cons.prems have "list_all (\<lambda>v. copy_line env meas tm fm (row_Columns (row\<lparr>row_Values := vs\<rparr>)) v \<noteq> None)
      (row_Values (row\<lparr>row_Values := vs\<rparr>))" by simp
  from page_batches_spec [OF assms(1) this] Cons show ?case by (simp add: byte_at_def)
qed simp

lemma concat_map_concat: "concat (map concat xss) = concat (concat xss)"
  by (induction xss) auto

lemma chunks_map: "chunks n (map f xs) = map (map f) (chunks n xs)"
proof (induction n xs rule: chunks.induct)
  case (1 n xs)
  then show ?case by (cases "n = 0 \<or> xs = []") (simp_all add: chunks_step take_map drop_map chunks.simps)
qed

lemma line_parts_total: "length vs \<le> length cols \<Longrightarrow> line_parts env tm fm cols vs \<noteq> None"
proof (induction vs arbitrary: cols)
  case (Cons v vs)
  then obtain k cols' where cols: "cols = k # cols'" by (cases cols) auto
  with Cons.IH [of cols'] Cons.prems obtain t f where "line_parts env tm fm cols' vs = Some (t, f)" by auto
  with cols show ?case by simp
qed simp

lemma copy_line_total:
  assumes "v \<noteq> []" "length v \<le> length cols"
  shows "copy_line env meas tm fm cols v \<noteq> None"
proof -
  have "length (tl v) \<le> length (tl cols)" using assms(2) by simp
  from line_parts_total [OF this, of env tm fm] obtain t f where
    "line_parts env tm fm (tl cols) (tl v) = Some (t, f)" by auto
  then show ?thesis using assms(1) by (simp add: copy_line_def byte_at_def)
qed

text \<open>C16: a copy is complete. When the source holds the rows of a measurement and answers every
  page after at most ten failed attempts, the copy ends, without error; the batches it sends are,
  put together, the lines of all rows in the order of the source, none twice and none missing;
  each batch is made of whole lines, at least one and at most as many as a batch may have.\<close>

theorem transfer_copies_all:
  assumes "holds env src db rp meas tick (nat (tx_Limit tx)) row" "0 < tx_Limit tx" "0 < tx_Batch tx"
    and "te_NewPool env (int ndsts * 20) = None"
    and "GetTagKeys (te_http env) src db rp meas = Some tags" "GetFieldKeys (te_http env) src db rp meas = Some fkeys"
    and "\<forall>v \<in> set (row_Values row). v \<noteq> [] \<and> length v \<le> length (row_Columns row)"
  shows "\<exists>bs. copy_batches env tx src ndsts db rp meas tick = Some (bs, None) \<and>
    concat bs = concat (map (\<lambda>v. the (copy_line env meas (NewSetFromSlice tags) (reformFieldKeys fkeys) (row_Columns row) v))
      (row_Values row)) \<and>
    (\<forall>b \<in> set bs. \<exists>vs. b = concat (map (\<lambda>v. the (copy_line env meas (NewSetFromSlice tags) (reformFieldKeys fkeys) (row_Columns row) v)) vs) \<and>
       set vs \<subseteq> set (row_Values row) \<and> 0 < length vs \<and> int (length vs) \<le> tx_Batch tx)"
proof -
  let ?n = "nat (tx_Limit tx)" and ?b = "nat (tx_Batch tx)"
  let ?line = "\<lambda>v. the (copy_line env meas (NewSetFromSlice tags) (reformFieldKeys fkeys) (row_Columns row) v)"
  let ?vss = "chunks ?n (row_Values row)"
  let ?bs = "concat (map (\<lambda>vs. map concat (chunks ?b (map ?line vs))) ?vss)"
  have pos: "0 < ?n" "0 < ?b" and ints: "int ?n = tx_Limit tx" "int ?b = tx_Batch tx" using assms(2,3) by auto
  have pages: "tx_query env (tx_Limit tx) src db rp meas tick = Some (map (\<lambda>vs. Inr [row\<lparr>row_Values := vs\<rparr>]) ?vss)"
    using tx_pages_all [of _ row ?n 0, OF fetch_page_holds [OF assms(1)] pos(1)] ints(1) by (simp add: tx_query_def)
  have "\<forall>vs \<in> set ?vss. list_all (\<lambda>v. copy_line env meas (NewSetFromSlice tags) (reformFieldKeys fkeys) (row_Columns row) v \<noteq> None) vs"
  proof (intro ballI)
    fix vs
    assume "vs \<in> set ?vss"
    then have sub: "set vs \<subseteq> set (row_Values row)" using chunks_bounds by blast
    have "copy_line env meas (NewSetFromSlice tags) (reformFieldKeys fkeys) (row_Columns row) v \<noteq> None" if "v \<in> set vs" for v
      using that sub assms(7) by (intro copy_line_total) auto
    then show "list_all (\<lambda>v. copy_line env meas (NewSetFromSlice tags) (reformFieldKeys fkeys) (row_Columns row) v \<noteq> None) vs"
      by (simp add: list_all_iff)
  qed
  from tx_write_pages [OF pos(2) this] ints(2) pages
  have run: "copy_batches env tx src ndsts db rp meas tick = Some (?bs, None)"
    by (simp add: copy_batches_def assms(4-6))
  have "concat (map concat (chunks ?b (map ?line vs))) = concat (map ?line vs)" for vs
    using concat_chunks [OF pos(2), of "map ?line vs"] concat_map_concat by metis
  then have "concat (concat (map (\<lambda>vs. map concat (chunks ?b (map ?line vs))) vss)) = concat (map ?line (concat vss))" for vss
    by (induction vss) simp_all
  then have all: "concat ?bs = concat (map ?line (row_Values row))" by (simp add: concat_chunks [OF pos(1)])
  have "\<exists>vs. p = concat (map ?line vs) \<and> set vs \<subseteq> set (row_Values row) \<and> 0 < length vs \<and> int (length vs) \<le> tx_Batch tx"
    if "p \<in> set ?bs" for p
  proof -
    from that obtain us vs where us: "us \<in> set ?vss" "vs \<in> set (chunks ?b us)" "p = concat (map ?line vs)"
      by (auto simp: chunks_map)
    have "int (length vs) \<le> tx_Batch tx" using chunks_bounds [OF us(2)] assms(3) by linarith
    then show ?thesis using chunks_bounds [OF us(1)] chunks_bounds [OF us(2)] us(3)
      by (intro exI [of _ vs]) auto
  qed
  with run all show ?thesis by blast
qed

section \<open>Examples\<close>

text \<open>A server that sends the query back, and a decoder that knows the answers.\<close>

definition name_rows :: "string \<Rightarrow> string list \<Rightarrow> Row list" where
  "name_rows name ns = [\<lparr>row_Name = name, row_Tags = [], row_Columns = [''name''],
     row_Values = map (\<lambda>n. [JString n]) ns, row_Partial = False\<rparr>]"

definition sample_rows :: "bytes \<Rightarrow> Row list" where
  "sample_rows q =
     (if q = ''show databases'' then name_rows ''databases'' [''db'']
      else if q = ''show measurements'' then name_rows ''measurements'' [''cpu'']
      else if q = ''show retention policies'' then name_rows '''' [''autogen'']
      else [])"

definition echo :: "Request \<Rightarrow> error + HttpResponse" where
  "echo req = Inr \<lparr>rs_StatusCode = 200, rs_Header = [], rs_Body = Inr (values_get (rq_Form req) ''q'')\<rparr>"

definition sample_tx_env :: tx_env where
  "sample_tx_env =
     \<lparr>te_http = sample_env echo (\<lambda>b. (ResponseFromSeries (sample_rows b), None)),
      te_net = (\<lambda>k i. sample_env (if i = 0 then \<lambda>_. Inl ErrHttp else echo)
                 (\<lambda>b. (ResponseFromSeries (page_of (hd (name_rows ''cpu'' [''3'', ''2'', ''1''])) 2 k), None))),
      te_arrive = id, te_NewPool = (\<lambda>n. None), te_lookup = first_member, te_measureOnly = False,
      te_Sprint = (\<lambda>_. ''''), te_EscapeStringField = id\<rparr>"

definition old_backend :: HttpBackend where
  "old_backend = sample_backend\<lparr>hb_Url := ''http://127.0.0.1:9999''\<rparr>"

definition sample_tx :: Transfer where
  "sample_tx = (NewTransfer sample_config)\<lparr>tx_CircleStates :=
     [\<lparr>cs_Stats = [(''http://127.0.0.1:8086'', zero_stats), (''http://127.0.0.1:9999'', zero_stats)], cs_Transferring = False\<rparr>]\<rparr>"

lemma sample_ask:
  "iql_result (te_http sample_tx_env) be ''GET'' db q '''' =
     \<lparr>qr_Header = [], qr_Status = 200, qr_Body = q, qr_Err = None\<rparr>"
  by (cases "has_credentials be")
    (simp_all add: iql_result_def hb_Query_def query_request_def hb_SetBasicAuth_def SetBasicAuth_def NewQueryRequest_def
      sample_tx_env_def sample_env_def echo_def query_result_def response_body_def values_get_def map_get_set map_get_del Let_def)

lemma sample_answer: "SeriesFromResponseBytes (he_unmarshal (te_http sample_tx_env)) b = (sample_rows b, None)"
  by (simp add: sample_tx_env_def sample_env_def SeriesFromResponseBytes_def ResponseFromSeries_def)

lemma sample_names:
  "GetDatabases (te_http sample_tx_env) be = Some [''db'']"
  "GetMeasurements (te_http sample_tx_env) be db = Some [''cpu'']"
  "GetRetentionPolicies (te_http sample_tx_env) be db = Some [''autogen'']"
  by (simp_all add: GetDatabases_def GetMeasurements_def GetRetentionPolicies_def GetSeriesValues_def sample_ask
      sample_answer sample_rows_def name_rows_def)

lemma sample_source: "source_ok sample_tx_env (tx_CircleStates sample_tx ! 0) dbs be" if "be \<in> {old_backend, sample_backend}"
  using that by (auto simp: source_ok_def decodes_def lists_ok_def sample_names list_all_iff sample_tx_def
      old_backend_def sample_backend_def)

lemma sample_posts: "posts_ok sample_tx_env tx"
  by (simp add: posts_ok_def sample_tx_env_def sample_env_def)

lemma sample_routable: "routable sample_tx_env (ip_Circles sample_px)" "length (ip_Circles sample_px) = 1"
  using sample_px_inv by (auto simp: proxy_inv_def sample_tx_env_def) (simp add: sample_px_def)

lemma sample_prepare: "\<exists>es. prepare sample_tx_env [''db''] (tx, ics) = Some ([''db''], es, True)"
proof -
  have "parallel_err sample_tx_env bes q = None" for bes q
  proof -
    have "list_all (\<lambda>be. qr_Err (parallel_result (te_http sample_tx_env) (NewQueryRequest ''POST'' '''' q '''') False be) = None)
        (te_arrive sample_tx_env (filter IsActive bes))"
      by (simp add: list_all_iff parallel_result_def hb_Query_def query_request_def sample_tx_env_def sample_env_def echo_def
          query_result_def response_body_def Let_def)
    from QueryInParallel_ok [where w = new_writer and arrive = "te_arrive sample_tx_env", OF this] show ?thesis by (auto simp: parallel_err_def)
  qed
  moreover have "getRetentionPolicies (te_http sample_tx_env) ics db \<noteq> None" for ics db
  proof -
    have "gather (\<lambda>be. GetRetentionPolicies (te_http sample_tx_env) be db) bes acc \<noteq> None" for bes acc
      by (induction bes arbitrary: acc) (simp_all add: sample_names)
    then show ?thesis unfolding getRetentionPolicies_def by blast
  qed
  then obtain rps where "getRetentionPolicies (te_http sample_tx_env) ics ''db'' = Some rps" by auto
  ultimately show ?thesis
    by (simp add: prepare_def createDatabases_def Let_def) (simp add: sample_tx_env_def)
qed

lemma sample_misplaced:
  "\<not> in_place (te_lookup sample_tx_env) (te_measureOnly sample_tx_env) (ip_Circles sample_px ! 0) (hb_Url old_backend) ''db'' ''cpu''"
  "home sample_tx_env (ip_Circles sample_px) 0 ''db'' ''cpu'' = (0, 0)"
  by (simp_all add: in_place_def home_def sample_px_def sample_circle_def NewCircle_def sample_config_def NewBackend_def
      addRouter_def Let_def route_def first_member_def NewHttpBackend_def NewSimpleHttpBackend_def sample_tx_env_def old_backend_def)

lemma sample_tx_simps: "length (tx_CircleStates sample_tx) = 1" "IsActive old_backend"
  by (simp_all add: sample_tx_def old_backend_def sample_backend_def IsActive_def)

theorem Rebalance_moves_misplaced_witness:
  "\<exists>tx' ics' effs. Rebalance sample_tx_env 0 [old_backend] [''db''] (sample_tx, ip_Circles sample_px) = Some (tx', ics', effs) \<and>
     Submitted (CopyJob old_backend [Some (0, 0)] ''db'' ''autogen'' ''cpu'' 0) \<in> set effs"
proof -
  from sample_prepare obtain es where p: "prepare sample_tx_env [''db''] (sample_tx, ip_Circles sample_px) = Some ([''db''], es, True)" ..
  from Rebalance_moves_misplaced [OF sample_routable(1) _ _ sample_posts p, of 0 "[old_backend]"] sample_source
  obtain tx' ics' effs where r: "Rebalance sample_tx_env 0 [old_backend] [''db''] (sample_tx, ip_Circles sample_px) = Some (tx', ics', effs)"
    "\<forall>j. Submitted j \<in> set effs \<longleftrightarrow>
       (\<exists>be db meas rp. be \<in> set [old_backend] \<and> IsActive be \<and> db \<in> set [''db''] \<and> meas \<in> set (listed sample_tx_env be db) \<and>
          \<not> in_place (te_lookup sample_tx_env) (te_measureOnly sample_tx_env) (ip_Circles sample_px ! 0) (hb_Url be) db meas \<and>
          rp \<in> set (the (GetRetentionPolicies (te_http sample_tx_env) be db)) \<and>
          j = CopyJob be [Some (home sample_tx_env (ip_Circles sample_px) 0 db meas)] db rp meas 0)"
    by (auto simp: sample_routable(2) sample_tx_simps)
  have "Submitted (CopyJob old_backend [Some (0, 0)] ''db'' ''autogen'' ''cpu'' 0) \<in> set effs"
    unfolding r(2) [rule_format]
    by (rule exI [of _ old_backend], rule exI [of _ "''db''"], rule exI [of _ "''cpu''"], rule exI [of _ "''autogen''"])
      (intro conjI, simp_all add: listed_def sample_names sample_misplaced sample_tx_simps(2))
  with r(1) show ?thesis by blast
qed

theorem Rebalance_announces_witness:
  "\<exists>tx' ics' effs. Rebalance sample_tx_env 0 [old_backend] [''db''] (sample_tx, ip_Circles sample_px) = Some (tx', ics', effs) \<and>
     settled_down 0 tx' ics'"
proof -
  from sample_prepare obtain es where p: "prepare sample_tx_env [''db''] (sample_tx, ip_Circles sample_px) = Some ([''db''], es, True)" ..
  from Rebalance_announces [OF sample_routable(1) _ _ sample_posts p, of 0 "[old_backend]"] sample_source
  show ?thesis by (auto simp: sample_routable(2) sample_tx_simps)
qed

lemma sample_hbs: "\<forall>be \<in> set (circle_hbs (ip_Circles sample_px ! 0)). hb_Url be = ''http://127.0.0.1:8086''"
  by (simp add: circle_hbs_def sample_px_def sample_circle_def NewCircle_def sample_config_def NewBackend_def
      addRouter_def Let_def NewHttpBackend_def NewSimpleHttpBackend_def)

theorem Cleanup_drops_misplaced_witness:
  "\<exists>tx' ics' effs. Cleanup sample_tx_env 0 (sample_tx, ip_Circles sample_px) = Some (tx', ics', effs) \<and> settled_down 0 tx' ics'"
proof -
  have "te_NewPool sample_tx_env (tx_Worker sample_tx) = None" by (simp add: sample_tx_env_def)
  from Cleanup_drops_misplaced [OF sample_routable(1) _ _ sample_posts this, of 0] sample_hbs
  show ?thesis
    by (simp add: sample_routable(2) sample_tx_simps sample_names lists_ok_def) (auto simp: sample_tx_def)
qed

theorem runTransfer_counts_witness:
  "\<exists>cs' ics' jobs st. runTransfer sample_tx_env (tx_CircleStates sample_tx ! 0) old_backend [''db''] (runRebalance sample_tx_env 0)
       (ip_Circles sample_px) = Some (cs', ics', jobs) \<and>
     map_get (cs_Stats cs') (hb_Url old_backend) = Some st \<and> finished st \<and> sint (st_TransferCount st) = 1 \<and> sint (st_InPlaceCount st) = 0"
proof -
  have st: "map_get (cs_Stats (tx_CircleStates sample_tx ! 0)) (hb_Url old_backend) = Some zero_stats"
    by (simp add: sample_tx_def old_backend_def)
  from sample_source [of old_backend "[''db'']"] have s: "decodes sample_tx_env old_backend" "lists_ok sample_tx_env old_backend [''db'']"
    by (simp_all add: source_ok_def)
  have "good sample_tx_env 0 (ip_Circles sample_px) (ip_Circles sample_px)"
    using sample_routable same_places_refl by (simp add: good_def)
  from misplaced_home [OF this] sample_misplaced
  have m: "kind_moves sample_tx_env (ip_Circles sample_px) old_backend (Rebalances 0) ''db'' ''cpu''" by (simp add: misplaced_def)
  have "kind_circle (Rebalances 0) < length (ip_Circles sample_px)" by (simp add: sample_routable(2))
  from runTransfer_counts [OF sample_routable(1) this s(1) sample_tx_simps(2) st s(2)] show ?thesis
    using m by (auto simp: listed_def sample_names simp del: kind_moves.simps)
qed

definition sample_page :: Row where
  "sample_page = hd (name_rows ''cpu'' [''3'', ''2'', ''1''])"

lemma sample_holds: "holds sample_tx_env sample_backend ''db'' ''autogen'' ''cpu'' 0 2 sample_page"
proof -
  have "snd (QueryIQL (te_net sample_tx_env k 0) sample_backend ''GET'' ''db'' q ''ns'') \<noteq> None" for k q
    by (simp add: QueryIQL_def iql_result_def hb_Query_def sample_tx_env_def sample_env_def Let_def transport_error_def
        query_request_def has_credentials_def sample_backend_def hb_SetBasicAuth_def SetBasicAuth_def NewQueryRequest_def
        HeaderQueryOrigin_def QueryParallel_def values_get_def map_get_set)
  moreover have "QueryIQL (te_net sample_tx_env k 1) sample_backend ''GET'' ''db'' q ''ns'' = (q, None)" for k q
    by (simp add: QueryIQL_def iql_result_def hb_Query_def query_request_def hb_SetBasicAuth_def SetBasicAuth_def NewQueryRequest_def
        sample_tx_env_def sample_env_def echo_def query_result_def response_body_def values_get_def map_get_set map_get_del Let_def
        has_credentials_def sample_backend_def)
  moreover have "SeriesFromResponseBytes (he_unmarshal (te_net sample_tx_env k 1)) b = (page_of sample_page 2 k, None)" for k b
    by (simp add: SeriesFromResponseBytes_def sample_tx_env_def sample_env_def ResponseFromSeries_def sample_page_def)
  ultimately show ?thesis unfolding holds_def
    by (intro allI exI [of _ "1 :: nat"]) (auto simp: RetryCount_def less_Suc_eq_0_disj)
qed

theorem transfer_copies_all_witness:
  "\<exists>bs. copy_batches sample_tx_env (sample_tx\<lparr>tx_Limit := 2\<rparr>) sample_backend 1 ''db'' ''autogen'' ''cpu'' 0 = Some (bs, None) \<and>
     concat bs = ''cpu  3'' @ [CHR 0x0A] @ ''cpu  2'' @ [CHR 0x0A] @ ''cpu  1'' @ [CHR 0x0A]"
proof -
  have tags: "GetTagKeys (te_http sample_tx_env) sample_backend ''db'' ''autogen'' ''cpu'' = Some []"
    by (simp add: GetTagKeys_def GetSeriesValues_def sample_ask sample_answer sample_rows_def)
  have keys: "GetFieldKeys (te_http sample_tx_env) sample_backend ''db'' ''autogen'' ''cpu'' = Some []"
    by (simp add: GetFieldKeys_def sample_ask sample_answer sample_rows_def)
  have pool: "te_NewPool sample_tx_env n = None" for n by (simp add: sample_tx_env_def)
  have h: "holds sample_tx_env sample_backend ''db'' ''autogen'' ''cpu'' 0 (nat (tx_Limit (sample_tx\<lparr>tx_Limit := 2\<rparr>))) sample_page"
    using sample_holds by simp
  have w: "\<forall>v \<in> set (row_Values sample_page). v \<noteq> [] \<and> length v \<le> length (row_Columns sample_page)"
    by (simp add: sample_page_def name_rows_def)
  have "0 < tx_Batch (sample_tx\<lparr>tx_Limit := 2\<rparr>)" by (simp add: sample_tx_def NewTransfer_def DefaultBatch_def)
  moreover have esc: "EscapeMeasurement ''cpu'' = ''cpu''" by code_simp
  ultimately show ?thesis using transfer_copies_all [OF h _ _ pool tags keys w, of 1]
    by (auto simp: sample_page_def name_rows_def copy_line_def byte_at_def esc Sprint_value_def)
qed

section \<open>Writes that failed\<close>

lemma attempts_total:
  assumes "\<And>i s. P s \<Longrightarrow> \<exists>s' r e. act i s = Some (s', r, e) \<and> P s'" "P s"
  shows "\<exists>s' r e. attempts n k act s = Some (s', r, e) \<and> P s'"
  using assms(2)
proof (induction n arbitrary: k s)
  case (Suc n)
  from assms(1) [OF Suc.prems, of k] obtain s1 r1 e1 where a: "act k s = Some (s1, r1, e1)" "P s1" by blast
  with Suc.IH [OF a(2), of "Suc k"] show ?case by (cases e1) auto
qed (use assms(1) in auto)

lemma hb_Write_total:
  assumes "he_parse env = (\<lambda>_. None)" "hb_client hb \<noteq> None"
  shows "\<exists>hb' err. hb_Write env hb db rp p = Some (hb', err) \<and> hb_client hb' \<noteq> None"
  using assms by (auto simp: hb_Write_def WriteStream_def Let_def split: prod.splits option.splits sum.splits)

lemma send_batch_total:
  assumes "\<forall>i. he_parse (net i) = (\<lambda>_. None)" "hb_client dst \<noteq> None"
  shows "\<exists>hb' err. send_batch net dst db rp p = Some (hb', err) \<and> hb_client hb' \<noteq> None"
proof -
  let ?act = "\<lambda>i hb. map_option (\<lambda>(hb', e). (hb', (), e)) (hb_Write (net i) hb db rp p)"
  have "\<exists>s' r e. ?act i s = Some (s', r, e) \<and> hb_client s' \<noteq> None" if "hb_client s \<noteq> None" for i s
    using hb_Write_total [OF assms(1) [rule_format] that, of i db rp p] by auto
  from attempts_total [of "\<lambda>hb. hb_client hb \<noteq> None" ?act, OF this assms(2), of RetryCount 0] show ?thesis
    by (auto simp: send_batch_def)
qed

lemma hb_at_set_hb: "hb_at (set_hb ics d hb) p = hb_at ics p \<or> hb_at (set_hb ics d hb) p = hb"
  by (cases "fst d < length ics"; cases "snd d < length (ic_Backends (ics ! fst d))")
    (auto simp: hb_at_def set_hb_def Let_def nth_list_update list_update_beyond)

definition reachable :: "be_ptr option list \<Rightarrow> Circle list \<Rightarrow> bool" where
  "reachable dsts ics \<longleftrightarrow> (\<forall>d \<in> set dsts. \<exists>p. d = Some p \<and> hb_client (hb_at ics p) \<noteq> None)"

lemma reachable_set_hb: "reachable dsts ics \<Longrightarrow> hb_client hb \<noteq> None \<Longrightarrow> reachable dsts (set_hb ics d hb)"
  unfolding reachable_def by (metis hb_at_set_hb)

lemma send_dsts_total:
  assumes "\<forall>i. he_parse (net i) = (\<lambda>_. None)" "reachable dsts ics" "reachable all ics"
  shows "\<exists>ics'. send_dsts net dsts db rp p ics = Some ics' \<and> reachable all ics'"
  using assms(2,3)
proof (induction dsts arbitrary: ics)
  case (Cons d dsts)
  from Cons.prems(1) obtain q where q: "d = Some q" "hb_client (hb_at ics q) \<noteq> None" by (auto simp: reachable_def)
  from send_batch_total [OF assms(1) q(2), of db rp p] obtain hb err where
    s: "send_batch net (hb_at ics q) db rp p = Some (hb, err)" "hb_client hb \<noteq> None" by blast
  have "reachable dsts ics" using Cons.prems(1) by (simp add: reachable_def)
  then have "reachable dsts (set_hb ics q hb)" by (rule reachable_set_hb [OF _ s(2)])
  from Cons.IH [OF this reachable_set_hb [OF Cons.prems(2) s(2)]] s(1) q(1) show ?case by simp
qed simp

lemma send_batches_total:
  assumes "\<forall>k i. he_parse (te_net env k i) = (\<lambda>_. None)" "reachable dsts ics"
  shows "\<exists>ics'. send_batches env k dsts db rp ps ics = Some ics'"
  using assms(2)
proof (induction ps arbitrary: k ics)
  case (Cons p ps)
  from assms(1) have "\<forall>i. he_parse (te_net env k i) = (\<lambda>_. None)" by blast
  from send_dsts_total [OF this Cons.prems Cons.prems, of db rp p] Cons.IH show ?case
    by fastforce
qed simp

text \<open>Failed writes go unnoticed. Whatever the destinations answer, and even when every write
  of every batch failed eleven times, the copy of a measurement that was read without error ends
  without error and is logged as done: the errors of the writes are logged only.\<close>

theorem transfer_hides_failed_writes:
  assumes "copy_batches env tx src (length dsts) db rp meas tick = Some (ps, None)"
    and "\<forall>k i. he_parse (te_net env k i) = (\<lambda>_. None)" "reachable dsts ics"
  shows "\<exists>ics'. run_job env tx (CopyJob src dsts db rp meas tick) ics = Some (ics', None)"
  using send_batches_total [OF assms(2,3), of 0 db rp ps] assms(1) by (auto simp: run_job_def)

end
