(* ===== verification/Transfer_Steps.thy ===== *)
theory Transfer_Steps
  imports Transfers
begin

text \<open>
  The transfers in small steps. The goroutines of a transfer share the state with each other and
  with the requests, so what matters to the rest of the program are the single changes they
  make: a flag is set, a counter stored, one measurement placed, the parameters reset. Every
  transfer of \<open>Transfers\<close> is a sequence of such steps.
\<close>

section \<open>The single changes\<close>

text \<open>The functions that the operations call for each measurement.\<close>

definition measure_fns :: "tx_env \<Rightarrow> tx_step set" where
  "measure_fns env =
     range (runRebalance env) \<union> {runRecovery env cid urls | cid urls. True} \<union>
     {runResync env cid tick | cid tick. True} \<union> range (runCleanup env)"

inductive transfer_part :: "tx_env \<Rightarrow> Transfer \<times> Circle list \<Rightarrow> Transfer \<times> Circle list \<Rightarrow> bool" for env where
  clear: "transfer_part env (tx, ics) (resetCircleStates tx, ics)"
| params: "transfer_part env (tx, ics) (resetBasicParam tx, ics)"
| resyncing: "transfer_part env (tx, ics) (tx\<lparr>tx_Resyncing := b\<rparr>, ics)"
| transferring: "byte_at (tx_CircleStates tx) cid = Some cs \<Longrightarrow>
    transfer_part env (tx, ics)
      (tx\<lparr>tx_CircleStates := (tx_CircleStates tx)[cid := cs\<lparr>cs_Transferring := b\<rparr>]\<rparr>, ics)"
| transfer_in: "byte_at ics cid = Some ic \<Longrightarrow> transfer_part env (tx, ics) (tx, ics[cid := ic_SetTransferIn ic b])"
| counters: "byte_at (tx_CircleStates tx) cid = Some cs \<Longrightarrow>
    transfer_part env (tx, ics)
      (tx\<lparr>tx_CircleStates := (tx_CircleStates tx)[cid := cs\<lparr>cs_Stats := map_set url st (cs_Stats cs)\<rparr>]\<rparr>, ics)"
| measurement: "fn \<in> measure_fns env \<Longrightarrow> fn be db meas ics = Some (ics', jobs, require) \<Longrightarrow>
    transfer_part env (tx, ics) (tx, ics')"

inductive_cases transfer_partE: "transfer_part env (tx, ics) (tx', ics')"

abbreviation parts :: "tx_env \<Rightarrow> Transfer \<times> Circle list \<Rightarrow> Transfer \<times> Circle list \<Rightarrow> bool" where
  "parts env \<equiv> (transfer_part env)\<^sup>*\<^sup>*"

lemma parts_step: "parts env a b \<Longrightarrow> transfer_part env b c \<Longrightarrow> parts env a c"
  by (rule rtranclp.rtrancl_into_rtrancl)

lemma parts_trans: "parts env a b \<Longrightarrow> parts env b c \<Longrightarrow> parts env a c"
  by (rule rtranclp_trans)

section \<open>Going through the measurements\<close>

abbreviation with_state :: "Transfer \<Rightarrow> nat \<Rightarrow> CircleState \<Rightarrow> Transfer" where
  "with_state tx cid cs \<equiv> tx\<lparr>tx_CircleStates := (tx_CircleStates tx)[cid := cs]\<rparr>"

text \<open>The contract of the functions for a measurement: that they are among those.\<close>

locale measure_fn =
  fixes env :: tx_env and fn :: tx_step
  assumes fn_known: "fn \<in> measure_fns env"
begin

lemma run_measures_parts:
  "run_measures (fn be db) ms (ics, jobs, st) = Some (ics', jobs', st') \<Longrightarrow> parts env (tx, ics) (tx, ics')"
proof (induction ms arbitrary: ics jobs st)
  case (Cons m ms)
  then obtain ics1 js r where f: "fn be db m ics = Some (ics1, js, r)"
    "run_measures (fn be db) ms (ics1, jobs @ js, count_measurement r st) = Some (ics', jobs', st')"
    by (auto simp: bind_eq_Some_conv)
  from converse_rtranclp_into_rtranclp [OF transfer_part.measurement [OF fn_known f(1)] Cons.IH [OF f(2)]] show ?case .
qed simp

lemma run_dbs_parts:
  "run_dbs (fn be) dbs (ics, jobs, st) = Some (ics', jobs', st') \<Longrightarrow> parts env (tx, ics) (tx, ics')"
proof (induction dbs arbitrary: ics jobs st)
  case (Cons d dbs)
  obtain db ms where d: "d = (db, ms)" by (cases d)
  with Cons.prems obtain ics1 jobs1 st1 where r: "run_measures (fn be db) ms (ics, jobs, st) = Some (ics1, jobs1, st1)"
    "run_dbs (fn be) dbs (ics1, jobs1, st1\<lparr>st_DatabaseDone := st_DatabaseDone st1 + 1\<rparr>) = Some (ics', jobs', st')"
    by (auto simp: bind_eq_Some_conv)
  from parts_trans [OF run_measures_parts [OF r(1)] Cons.IH [OF r(2)]] show ?case .
qed simp

lemma runTransfer_parts:
  assumes "runTransfer env cs be dbs fn ics = Some (cs', ics', jobs)" "cid < length (tx_CircleStates tx)"
  shows "parts env (with_state tx cid cs, ics) (with_state tx cid cs', ics')"
proof (cases "IsActive be")
  case True
  with assms(1) obtain dbs1 jobs0 st0 jobs1 st where r: "run_dbs (fn be) dbs1 (ics, jobs0, st0) = Some (ics', jobs1, st)"
    and cs': "cs' = cs\<lparr>cs_Stats := map_set (hb_Url be) st (cs_Stats cs)\<rparr>"
    by (auto simp: runTransfer_def Let_def bind_eq_Some_conv)
  have "byte_at (tx_CircleStates (with_state tx cid cs)) cid = Some cs" using assms(2) by (simp add: byte_at_def)
  from transfer_part.counters [OF this, of env ics' "hb_Url be" st] run_dbs_parts [OF r, of "with_state tx cid cs"]
  show ?thesis by (simp add: cs' rtranclp.rtrancl_into_rtrancl)
qed (use assms in \<open>simp add: runTransfer_def\<close>)

lemma run_backends_parts:
  assumes "run_backends env fn dbs bes (cs, ics, jobs) = Some (cs', ics', jobs')" "cid < length (tx_CircleStates tx)"
  shows "parts env (with_state tx cid cs, ics) (with_state tx cid cs', ics')"
  using assms
proof (induction bes arbitrary: cs ics jobs)
  case (Cons be bes)
  then obtain cs1 ics1 js where r: "runTransfer env cs be dbs fn ics = Some (cs1, ics1, js)"
    "run_backends env fn dbs bes (cs1, ics1, jobs @ js) = Some (cs', ics', jobs')"
    by (auto simp: bind_eq_Some_conv)
  from parts_trans [OF runTransfer_parts [OF r(1) Cons.prems(2)] Cons.IH [OF r(2) Cons.prems(2)]] show ?case .
qed simp

lemma run_circle_parts:
  assumes "run_circle env fn cid bes dbs (tx, ics, es) = Some (tx', ics', es')"
  shows "parts env (tx, ics) (tx', ics')"
proof -
  from assms obtain cs cs' jobs where r: "byte_at (tx_CircleStates tx) cid = Some cs"
    "run_backends env fn dbs bes (cs, ics, []) = Some (cs', ics', jobs)" "tx' = with_state tx cid cs'"
    by (auto simp: run_circle_def bind_eq_Some_conv)
  from r(1) have "cid < length (tx_CircleStates tx)" "with_state tx cid cs = tx" by (auto simp: byte_at_Some_iff)
  with run_backends_parts [OF r(2), of cid tx] r(3) show ?thesis by simp
qed

end

interpretation rebalance_fn: measure_fn env "runRebalance env cid" for env cid
  by unfold_locales (auto simp: measure_fns_def)

interpretation recovery_fn: measure_fn env "runRecovery env tcid urls" for env tcid urls
  by unfold_locales (auto simp: measure_fns_def)

interpretation resync_fn: measure_fn env "runResync env cid tick" for env cid tick
  by unfold_locales (auto simp: measure_fns_def)

interpretation cleanup_fn: measure_fn env "runCleanup env cid" for env cid
  by unfold_locales (auto simp: measure_fns_def)

section \<open>The operations as sequences of steps\<close>

lemma broadcastTransferring_parts:
  assumes "broadcastTransferring env cid b (tx, ics, es) = Some (tx', ics', es')"
  shows "parts env (tx, ics) (tx', ics')"
proof -
  from assms obtain cs ic where c: "byte_at (tx_CircleStates tx) cid = Some cs" "byte_at ics cid = Some ic"
    "tx' = with_state tx cid (cs\<lparr>cs_Transferring := b\<rparr>)" "ics' = ics[cid := ic_SetTransferIn ic b]"
    by (auto simp: broadcastTransferring_def bind_eq_Some_conv)
  from transfer_part.transferring [OF c(1)] transfer_part.transfer_in [OF c(2)] show ?thesis
    unfolding c(3,4) by (meson converse_rtranclp_into_rtranclp r_into_rtranclp)
qed

lemma broadcastResyncing_part: "broadcastResyncing env b tx = Some (tx', es) \<Longrightarrow> transfer_part env (tx, ics) (tx', ics)"
  by (auto simp: broadcastResyncing_def bind_eq_Some_conv intro: transfer_part.resyncing)

text \<open>After \<open>s\<close> the operation has come to \<open>r\<close>.\<close>

definition reached :: "tx_env \<Rightarrow> Transfer \<times> Circle list \<Rightarrow> tx_run \<Rightarrow> bool" where
  "reached env s r \<longleftrightarrow> parts env s (fst r, fst (snd r))"

lemma reached_start: "reached env (tx, ics) (tx, ics, es)" "reached env (tx, ics) (resetCircleStates tx, ics, es)"
  by (auto simp: reached_def intro: transfer_part.clear)

lemma reached_params: "reached env s (tx, ics, es) \<Longrightarrow> reached env s (resetBasicParam tx, ics, es')"
  by (auto simp: reached_def intro: parts_step transfer_part.params)

lemma reached_resyncing:
  "broadcastResyncing env b tx = Some (tx', p) \<Longrightarrow> reached env s (tx, ics, es) \<Longrightarrow> reached env s (tx', ics, es')"
  by (auto simp: reached_def intro: parts_step broadcastResyncing_part)

lemma reached_transferring:
  "broadcastTransferring env cid b (tx, ics, es) = Some r \<Longrightarrow> reached env s (tx, ics, es) \<Longrightarrow> reached env s r"
  by (cases r) (auto simp: reached_def intro: parts_trans broadcastTransferring_parts)

lemma reached_circle:
  "run_circle env fn cid bes dbs (tx, ics, es) = Some r \<Longrightarrow> measure_fn env fn \<Longrightarrow> reached env s (tx, ics, es) \<Longrightarrow> reached env s r"
  by (cases r) (auto simp: reached_def intro: parts_trans measure_fn.run_circle_parts)

lemma reached_resync_circles:
  "resync_circles env tick dbs cids r = Some r' \<Longrightarrow> reached env s r \<Longrightarrow> reached env s r'"
proof (induction cids arbitrary: r)
  case (Cons cid cids)
  obtain tx ics es where r: "r = (tx, ics, es)" by (cases r)
  with Cons.prems obtain ic r1 where
    "run_circle env (runResync env cid tick) cid (circle_hbs ic) dbs (tx, ics, es) = Some r1"
    "resync_circles env tick dbs cids r1 = Some r'"
    by (auto simp: bind_eq_Some_conv)
  with reached_circle [OF _ resync_fn.measure_fn_axioms] Cons r show ?case by blast
qed simp

lemmas reached_steps = reached_start reached_params reached_resyncing reached_transferring reached_resync_circles
  reached_circle [OF _ rebalance_fn.measure_fn_axioms] reached_circle [OF _ recovery_fn.measure_fn_axioms]

lemma cleanup_backends_parts:
  "cleanup_backends env cid bes (cs, ics, jobs) = Some (cs', ics', jobs') \<Longrightarrow> cid < length (tx_CircleStates tx) \<Longrightarrow>
     parts env (with_state tx cid cs, ics) (with_state tx cid cs', ics')"
proof (induction bes arbitrary: cs ics jobs)
  case (Cons be bes)
  then obtain dbs cs1 ics1 js where r:
    "(if dbs \<noteq> [] then runTransfer env cs be dbs (runCleanup env cid) ics else Some (cs, ics, [])) = Some (cs1, ics1, js)"
    "cleanup_backends env cid bes (cs1, ics1, jobs @ js) = Some (cs', ics', jobs')"
    by (auto simp: bind_eq_Some_conv)
  from r(1) cleanup_fn.runTransfer_parts [OF _ Cons.prems(2)]
  have "parts env (with_state tx cid cs, ics) (with_state tx cid cs1, ics1)" by (auto split: if_split_asm)
  from parts_trans [OF this Cons.IH [OF r(2) Cons.prems(2)]] show ?case .
qed simp

lemma Rebalance_reached: "Rebalance env cid bes dbs (tx, ics) = Some r \<Longrightarrow> reached env (tx, ics) r"
  by (auto simp: Rebalance_def bind_eq_Some_conv split: if_split_asm intro: reached_start) (meson reached_steps)+

lemma Recovery_reached: "Recovery env fromId toId urls dbs (tx, ics) = Some r \<Longrightarrow> reached env (tx, ics) r"
  by (auto simp: Recovery_def Let_def bind_eq_Some_conv split: if_split_asm intro: reached_start) (meson reached_steps)+

lemma Resync_reached: "Resync env dbs tick (tx, ics) = Some r \<Longrightarrow> reached env (tx, ics) r"
  by (auto simp: Resync_def bind_eq_Some_conv split: if_split_asm intro: reached_start) (meson reached_steps)+

lemma Cleanup_reached: "Cleanup env cid (tx, ics) = Some r \<Longrightarrow> reached env (tx, ics) r"
proof (cases "te_NewPool env (tx_Worker tx)")
  case None
  assume "Cleanup env cid (tx, ics) = Some r"
  with None obtain tx1 ics1 es1 cs cs' ics' jobs bes where c:
    "broadcastTransferring env cid True (resetCircleStates tx, ics, []) = Some (tx1, ics1, es1)"
    "byte_at (tx_CircleStates tx1) cid = Some cs"
    "cleanup_backends env cid bes (cs, ics1, []) = Some (cs', ics', jobs)"
    "broadcastTransferring env cid False (resetBasicParam (with_state tx1 cid cs'), ics', es1 @ map Submitted jobs) = Some r"
    by (auto simp: Cleanup_def bind_eq_Some_conv)
  from c(2) have "cid < length (tx_CircleStates tx1)" "with_state tx1 cid cs = tx1" by (auto simp: byte_at_Some_iff)
  with cleanup_backends_parts [OF c(3), of tx1] reached_transferring [OF c(1) reached_start(2)]
  have "reached env (tx, ics) (with_state tx1 cid cs', ics', [])" by (auto simp: reached_def intro: parts_trans)
  from reached_transferring [OF c(4) reached_params [OF this]] show ?thesis .
qed (auto simp: Cleanup_def reached_start)

end
