(* ===== verification/Flux.thy ===== *)
theory Flux
  imports Executor Identifiers
begin

text \<open>
  Flux queries, \<^verbatim>\<open>backend/flux.go\<close> and \<^verbatim>\<open>Proxy.QueryFlux\<close> of \<^verbatim>\<open>backend/proxy.go\<close>: the bucket and
  the measurement are read off the text of a query, or off its JSON specification. Decoding
  JSON is a parameter (\<open>flux_env\<close>): of an object of strings, and of a filter body. A pointer
  that may be nil is an option, and a panic is \<open>None\<close>.
\<close>

section \<open>Definitions\<close>

text \<open>The texts of the errors of \<^verbatim>\<open>flux.go\<close>.\<close>

definition flux_Error :: "error \<Rightarrow> string option" where
  "flux_Error e =
     (case e of
        ErrGetBucket \<Rightarrow> Some ''can't get bucket''
      | ErrEqualMeasurement \<Rightarrow> Some ''measurement must use ==''
      | ErrMultiMeasurements \<Rightarrow> Some ''illegal multi measurements''
      | ErrIllegalFluxQuery \<Rightarrow> Some ''illegal flux query''
      | _ \<Rightarrow> None)"

record Operation =
  op_Kind :: string
  op_Spec :: bytes

record Spec =
  sp_Operations :: "Operation option list"

record FluxRequest =
  fr_Spec :: "Spec option"
  fr_Query :: string
  fr_Type :: string

record Literal =
  li_Type :: string
  li_Value :: string
  li_Property :: string

record FilterBody =
  fb_Type :: string
  fb_Operator :: string
  fb_Left :: "Literal option"
  fb_Right :: "Literal option"

record flux_env =
  fx_map :: "bytes \<Rightarrow> error + (string, string) gomap"
  fx_filter :: "bytes \<Rightarrow> error + FilterBody"

subsection \<open>The text of a query\<close>

fun bucket_item :: "string list \<Rightarrow> error + string" where
  "bucket_item [] = Inl ErrGetBucket"
| "bucket_item (item # items) =
     (let entries = Split (TrimSpace item) '':'' in
      if length entries = 2 \<and> entries ! 0 = ''bucket'' then Inr (Trim (entries ! 1) ('' \"'' @ [CHR 0x27]))
      else bucket_item items)"

definition ParseQueryBucket :: "string \<Rightarrow> error + string" where
  "ParseQueryBucket q =
     (case Index q ''from'' of
        None \<Rightarrow> Inl ErrGetBucket
      | Some i \<Rightarrow>
          if int (length q) - 4 \<le> int i then Inl ErrGetBucket
          else let str = drop (i + 4) q in
            (case Index str '')'' of
               None \<Rightarrow> Inl ErrIllegalFluxQuery
             | Some j \<Rightarrow> bucket_item (Split (Trim (take (j + 1) str) '' ()'') '','')))"

definition measurement_items :: "string \<Rightarrow> string list" where
  "measurement_items q =
     (let items = Split q ''._measurement'' in
      if length items < 2 then Split q ''[\"_measurement\"]'' else items)"

definition ParseQueryMeasurement :: "string \<Rightarrow> (error + string) option" where
  "ParseQueryMeasurement q =
     (let items = measurement_items q in
      if length items < 2 then Some (Inl ErrGetMeasurement)
      else if 2 < length items then Some (Inl ErrMultiMeasurements)
      else let str = TrimSpace (items ! 1) in
        if \<not> HasPrefix str ''=='' then Some (Inl ErrEqualMeasurement)
        else let str = TrimLeft str ''= '' in
          do { c \<leftarrow> byte_at str 0;
               if c = CHR ''\"'' then
                 do { (advance, unq, err) \<leftarrow> FindEndWithQuote str 0 (CHR ''\"'');
                      (case err of
                         Some e \<Rightarrow> Some (Inl e)
                       | None \<Rightarrow> do { s \<leftarrow> Prelude.slice str 1 (advance - 1); Some (Inr (UnescapeIdentifier s)) }) }
               else Some (Inl ErrGetMeasurement) })"

definition ScanQuery :: "string \<Rightarrow> (error + string \<times> string) option" where
  "ScanQuery q =
     (case ParseQueryBucket q of
        Inl e \<Rightarrow> Some (Inl e)
      | Inr bucket \<Rightarrow> map_option (map_sum id (Pair bucket)) (ParseQueryMeasurement q))"

subsection \<open>The specification of a query\<close>

definition ParseSpecBucket :: "flux_env \<Rightarrow> bytes \<Rightarrow> error + string" where
  "ParseSpecBucket env spec =
     (case fx_map env spec of
        Inl e \<Rightarrow> Inl e
      | Inr m \<Rightarrow> (case map_get m ''bucket'' of Some bucket \<Rightarrow> Inr bucket | None \<Rightarrow> Inl ErrGetBucket))"

text \<open>The loop over the braces: the length of the text up to the brace that closes the first
  one.\<close>

fun matching_brace :: "bytes \<Rightarrow> int \<Rightarrow> nat option" where
  "matching_brace [] bracket = None"
| "matching_brace (c # s) bracket =
     (let bracket = (if c = CHR ''{'' then bracket + 1 else if c = CHR ''}'' then bracket - 1 else bracket) in
      if bracket \<le> 0 then Some 1 else map_option Suc (matching_brace s bracket))"

definition filter_measurement :: "FilterBody \<Rightarrow> error + string" where
  "filter_measurement fb =
     (case (fb_Left fb, fb_Right fb) of
        (Some l, Some r) \<Rightarrow>
          if fb_Operator fb = '''' then Inl ErrGetMeasurement
          else if fb_Operator fb \<noteq> ''=='' then Inl ErrEqualMeasurement
          else if li_Property l = ''_measurement'' \<and> li_Value r \<noteq> '''' then Inr (li_Value r)
          else Inl ErrGetMeasurement
      | _ \<Rightarrow> Inl ErrGetMeasurement)"

definition ParseSpecMeasurement :: "flux_env \<Rightarrow> bytes \<Rightarrow> error + string" where
  "ParseSpecMeasurement env spec =
     (case Index spec ''\"body\"'' of
        None \<Rightarrow> Inl ErrGetMeasurement
      | Some i \<Rightarrow>
          if length spec \<le> i + 7 then Inl ErrGetMeasurement
          else (case IndexByte (drop i spec) (CHR ''{'') of
            None \<Rightarrow> Inl ErrGetMeasurement
          | Some d \<Rightarrow>
              (case matching_brace (drop (i + d) spec) 0 of
                 None \<Rightarrow> Inl ErrGetMeasurement
               | Some n \<Rightarrow>
                   (case fx_filter env (take n (drop (i + d) spec)) of
                      Inl e \<Rightarrow> Inl e
                    | Inr fb \<Rightarrow> filter_measurement fb))))"

text \<open>The loop over the operations, with the bucket and the measurement found so far; a nil
  operation panics.\<close>

fun scan_operations ::
    "flux_env \<Rightarrow> Operation option list \<Rightarrow> string \<times> string \<Rightarrow> (error + string \<times> string) option" where
  "scan_operations env [] bm = Some (Inr bm)"
| "scan_operations env (None # ops) bm = None"
| "scan_operations env (Some op # ops) bm =
     (if op_Kind op = ''influxDBFrom'' then
        (case ParseSpecBucket env (op_Spec op) of
           Inl e \<Rightarrow> Some (Inl e)
         | Inr bucket \<Rightarrow> scan_operations env ops (bucket, snd bm))
      else if op_Kind op = ''filter'' then
        (case ParseSpecMeasurement env (op_Spec op) of
           Inl e \<Rightarrow> Some (Inl e)
         | Inr meas \<Rightarrow> scan_operations env ops (fst bm, meas))
      else scan_operations env ops bm)"

definition ScanSpec :: "flux_env \<Rightarrow> Spec \<Rightarrow> (error + string \<times> string) option" where
  "ScanSpec env spec = scan_operations env (sp_Operations spec) ('''', '''')"

subsection \<open>The proxy\<close>

definition scan_request :: "flux_env \<Rightarrow> FluxRequest \<Rightarrow> (error + string \<times> string) option" where
  "scan_request fx qr =
     (if fr_Query qr \<noteq> '''' then ScanQuery (fr_Query qr)
      else case fr_Spec qr of Some spec \<Rightarrow> ScanSpec fx spec | None \<Rightarrow> Some (Inr ('''', '''')))"

definition ip_QueryFlux ::
    "exec_env \<Rightarrow> flux_env \<Rightarrow> nat list \<Rightarrow> Proxy \<Rightarrow> FluxRequest \<Rightarrow> Request \<Rightarrow> Writer \<Rightarrow>
     (Proxy \<times> Request \<times> Writer \<times> error option) option" where
  "ip_QueryFlux env fx perms ip qr req w =
     do { r \<leftarrow> scan_request fx qr;
          (case r of
             Inl e \<Rightarrow> Some (ip, req, w, Some e)
           | Inr (bucket, meas) \<Rightarrow>
               if bucket = '''' then Some (ip, req, w, Some ErrGetBucket)
               else if IsForbiddenDB ip bucket
               then Some (ip, req, w, Some (ErrText (''database forbidden: '' @ bucket)))
               else if meas = '''' then Some (ip, req, w, Some ErrGetMeasurement)
               else map_option (\<lambda>(ip, req, w, body, err). (ip, req, w, err)) (QueryFlux env perms ip bucket meas req w)) }"

section \<open>Splitting at a separator\<close>

lemma Split_none: "sep \<noteq> [] \<Longrightarrow> Index s sep = None \<Longrightarrow> Split_aux sep 0 acc s = [acc @ s]"
  by (induction s arbitrary: acc) (auto split: if_splits)

lemma Split_skip: "Split_aux sep (length u) acc (u @ s) = Split_aux sep 0 acc s"
  by (induction u) auto

lemma Index_append_here: "sep \<noteq> [] \<Longrightarrow> Index (sep @ s) sep = Some 0"
  by (cases sep) auto

lemma Split_first:
  assumes "sep \<noteq> []" "Index (a @ sep @ z) sep = Some (length a)"
  shows "Split_aux sep 0 acc (a @ sep @ z) = (acc @ a) # Split_aux sep 0 [] z"
  using assms(2)
proof (induction a arbitrary: acc)
  case Nil
  obtain c u where sep: "sep = c # u" using assms(1) by (cases sep) auto
  have "Split_aux sep 0 acc (c # u @ z) = acc # Split_aux sep (length u) [] (u @ z)"
    by (simp add: sep)
  then show ?case by (simp add: sep Split_skip)
next
  case (Cons c a)
  from Cons.prems have "\<not> prefix sep (c # a @ sep @ z)" "Index (a @ sep @ z) sep = Some (length a)"
    by (auto split: if_splits)
  with Cons.IH [of "acc @ [c]"] show ?case by simp
qed

lemma Split_two:
  "sep \<noteq> [] \<Longrightarrow> Index (a @ sep @ z) sep = Some (length a) \<Longrightarrow> Index z sep = None \<Longrightarrow> Split (a @ sep @ z) sep = [a, z]"
  by (simp add: Split_def Split_first Split_none)

lemma strip_front_space: "strip_front unicode_spaces (CHR '' '' # s) = strip_front unicode_spaces s"
  by (subst strip_front.simps) (simp add: unicode_spaces_def)

lemma strip_front_stripped: "\<exists>p. s = p @ strip_front vs s \<and> set p \<subseteq> \<Union> (set ` set vs)"
proof (induction vs s rule: strip_front.induct)
  case (1 vs s)
  show ?case
  proof (cases "find (\<lambda>w. w \<noteq> [] \<and> prefix w s) vs")
    case None
    then show ?thesis by (subst strip_front.simps) simp
  next
    case (Some w)
    with "1" obtain p where p: "drop (length w) s = p @ strip_front vs (drop (length w) s)" "set p \<subseteq> \<Union> (set ` set vs)"
      by blast
    from Some have w: "w \<in> set vs" "prefix w s" by (auto simp: find_Some_iff)
    from w(2) have "s = w @ drop (length w) s" by (auto simp: prefix_def)
    with p(1) have "s = (w @ p) @ strip_front vs (drop (length w) s)" by (metis append.assoc)
    moreover have "strip_front vs s = strip_front vs (drop (length w) s)"
      using Some by (subst strip_front.simps) simp
    moreover have "set (w @ p) \<subseteq> \<Union> (set ` set vs)" using w(1) p(2) by auto
    ultimately show ?thesis by metis
  qed
qed

lemma strip_front_stops:
  assumes "c \<notin> \<Union> (set ` set vs)"
  shows "\<exists>t'. strip_front vs (t @ c # w) = t' @ c # w"
proof -
  from strip_front_stripped obtain p where p: "t @ c # w = p @ strip_front vs (t @ c # w)" "set p \<subseteq> \<Union> (set ` set vs)"
    by blast
  with assms have "c \<notin> set p" by blast
  with p(1) show ?thesis by (auto simp: append_eq_append_conv2 Cons_eq_append_conv)
qed

definition space_bytes :: "byte list" where
  "space_bytes = concat unicode_spaces"

text \<open>Trimming the blanks around a text whose first and last byte occur in no blank: it stays,
  and of what follows it a part.\<close>

lemma TrimSpace_keeps:
  assumes "c \<notin> set space_bytes" "d \<notin> set space_bytes"
  shows "\<exists>z. TrimSpace (CHR '' '' # c # u @ d # s) = c # u @ d # z"
proof -
  have "strip_front unicode_spaces (c # u @ d # s) = c # u @ d # s"
  proof (rule strip_front_id)
    fix w assume "w \<in> set unicode_spaces" "w \<noteq> []"
    with assms(1) show "\<not> prefix w (c # u @ d # s)" by (cases w) (auto simp: space_bytes_def)
  qed
  moreover have "d \<notin> \<Union> (set ` set (map rev unicode_spaces))" using assms(2) by (auto simp: space_bytes_def)
  from strip_front_stops [OF this, of "rev s" "rev u @ [c]"] obtain t where
    "strip_front (map rev unicode_spaces) (rev (c # u @ d # s)) = t @ d # rev u @ [c]" by auto
  ultimately show ?thesis by (intro exI [of _ "rev t"]) (simp add: TrimSpace_def strip_front_space)
qed

section \<open>Finding the bucket and the measurement\<close>

lemma IndexByte_as_Index: "Index s [c] = IndexByte s c"
  by (induction s) auto

definition plain_bucket :: "string \<Rightarrow> bool" where
  "plain_bucket b \<longleftrightarrow> b \<noteq> [] \<and> set b \<inter> set '':,)\"'' = {} \<and>
     hd b \<notin> {CHR '' '', CHR 0x27} \<and> last b \<notin> {CHR '' '', CHR 0x27}"

lemma Split_char_none: "c \<notin> set s \<Longrightarrow> Split s [c] = [s]"
  using Split_none [of "[c]" s "[]"] IndexByte_None [of s c] by (simp add: Split_def IndexByte_as_Index)

lemma take_prefix: "length u = n \<Longrightarrow> take n (u @ z) = u"
  by simp

lemma ParseQueryBucket_at:
  assumes "Index str '')'' = Some j"
  shows "ParseQueryBucket (''from'' @ str) = bucket_item (Split (Trim (take (j + 1) str) '' ()'') '','')"
proof -
  from assms have "str \<noteq> []" by auto
  with assms Index_append_here [of "''from''" str] show ?thesis by (simp add: ParseQueryBucket_def)
qed

lemma ParseQueryBucket_finds:
  assumes "plain_bucket b"
  shows "ParseQueryBucket (''from(bucket: \"'' @ b @ ''\")'' @ z) = Inr b"
proof -
  let ?str = "''(bucket: \"'' @ b @ ''\")'' @ z"
  have chars: "CHR '')'' \<notin> set b" "CHR '','' \<notin> set b" "CHR '':'' \<notin> set b" "CHR ''\"'' \<notin> set b" and ne: "b \<noteq> []"
    and ends: "hd b \<notin> set ('' \"'' @ [CHR 0x27])" "last b \<notin> set ('' \"'' @ [CHR 0x27])"
    using assms by (auto simp: plain_bucket_def) (metis hd_in_set, metis last_in_set)
  have "Index ?str '')'' = Some (length (''(bucket: \"'' @ b @ ''\"''))"
    using chars(1) IndexByte_append [of "CHR '')''" "''(bucket: \"'' @ b @ ''\"''" z] by (simp add: IndexByte_as_Index)
  then have j: "Index ?str '')'' = Some (length b + 11)" by simp
  have str: "?str = (''(bucket: \"'' @ b @ ''\")'') @ z" by simp
  have take: "take (length b + 11 + 1) ?str = ''(bucket: \"'' @ b @ ''\")''"
    unfolding str by (rule take_prefix) simp
  have item: "Trim (''(bucket: \"'' @ b @ ''\")'') '' ()'' = ''bucket: \"'' @ b @ ''\"''"
    by (simp add: Trim_def TrimLeft_def TrimRight_def)
  have comma: "Split (''bucket: \"'' @ b @ ''\"'') '','' = [''bucket: \"'' @ b @ ''\"'']"
    by (rule Split_char_none) (use chars in auto)
  have space: "TrimSpace (''bucket: \"'' @ b @ ''\"'') = ''bucket: \"'' @ b @ ''\"''"
    by (rule TrimSpace_id) (simp add: space_heads_def space_lasts_def unicode_spaces_def)
  have colon: "Split (''bucket: \"'' @ b @ ''\"'') '':'' = [''bucket'', '' \"'' @ b @ ''\"'']"
    using Split_two [of "'':''" "''bucket''" "'' \"'' @ b @ ''\"''"] chars(3) IndexByte_None [of "'' \"'' @ b @ ''\"''" "CHR '':''"]
    by (simp add: IndexByte_as_Index)
  have "Trim ('' \"'' @ b @ ''\"'') ('' \"'' @ [CHR 0x27]) = b"
  proof -
    let ?cs = "'' \"'' @ [CHR 0x27]"
    have "TrimLeft ('' \"'' @ b @ ''\"'') ?cs = TrimLeft (b @ ''\"'') ?cs" by (simp add: TrimLeft_def)
    also have "\<dots> = b @ ''\"''" using ne ends(1) by (intro TrimLeft_id) auto
    finally have "Trim ('' \"'' @ b @ ''\"'') ?cs = TrimRight b ?cs" by (simp add: Trim_def TrimRight_def)
    then show ?thesis using TrimRight_id [of b ?cs] ends(2) by simp
  qed
  then have "bucket_item (Split (Trim (take (length b + 11 + 1) ?str) '' ()'') '','') = Inr b"
    unfolding take item comma by (simp add: Let_def space [simplified] colon [simplified])
  with ParseQueryBucket_at [OF j] have "ParseQueryBucket (''from'' @ ?str) = Inr b" by (simp only:)
  then show ?thesis by simp
qed
lemma measurement_items_two:
  assumes "Index (a @ ''._measurement'' @ z) ''._measurement'' = Some (length a)" "Index z ''._measurement'' = None"
  shows "measurement_items (a @ ''._measurement'' @ z) = [a, z]"
  using Split_two [OF _ assms] by (simp add: measurement_items_def Let_def)

lemma ParseQueryMeasurement_finds:
  assumes "CHR 0x5C \<notin> set m"
    and "Index (a @ ''._measurement'' @ '' == '' @ quoted m @ z) ''._measurement'' = Some (length a)"
    and "Index ('' == '' @ quoted m @ z) ''._measurement'' = None"
  shows "ParseQueryMeasurement (a @ ''._measurement'' @ '' == '' @ quoted m @ z) = Some (Inr m)"
proof -
  have bytes: "CHR ''='' \<notin> set space_bytes" "CHR ''\"'' \<notin> set space_bytes"
    by (simp_all add: space_bytes_def unicode_spaces_def)
  from TrimSpace_keeps [OF bytes, of "''= \"'' @ EscapeIdentifier m" z] obtain y where
    trim: "TrimSpace ('' == '' @ quoted m @ z) = ''== '' @ quoted m @ y"
    by (auto simp: quoted_def)
  have left: "TrimLeft (''== '' @ quoted m @ y) ''= '' = quoted m @ y" by (simp add: TrimLeft_def quoted_def)
  have find: "FindEndWithQuote (quoted m @ y) 0 (CHR ''\"'') = Some (length (EscapeIdentifier m) + 2, CHR ''\"'' # m @ [CHR ''\"''], None)"
    using find_quoted [OF assms(1), of "[]" y] by (simp add: quoted_def)
  have cut: "Prelude.slice (quoted m @ y) 1 (length (EscapeIdentifier m) + 2 - 1) = Some (EscapeIdentifier m)"
    by (simp add: Prelude.slice_def quoted_def)
  have "byte_at (quoted m @ y) 0 = Some (CHR ''\"'')" by (simp add: byte_at_def quoted_def)
  then show ?thesis
    using measurement_items_two [OF assms(2,3)] trim left find cut
    by (simp add: ParseQueryMeasurement_def HasPrefix_def ident_esc.unescape_escape)
qed

text \<open>C35: a flux query goes where the data was written. In a query that starts with
  \<^verbatim>\<open>from(bucket: "b")\<close> and compares \<^verbatim>\<open>_measurement\<close> once, with a quoted, escaped name, the proxy finds
  that bucket and that measurement, so the query is asked of the backends of the same key that a
  write of the measurement into the database \<open>b\<close> uses; a bucket that is not allowed is refused.\<close>

theorem QueryFlux_finds_its_target:
  assumes "fr_Query qr = ''from(bucket: \"'' @ b @ ''\")'' @ z @ ''._measurement'' @ '' == '' @ quoted m @ y"
    and "plain_bucket b" "m \<noteq> []" "CHR 0x5C \<notin> set m"
    and "Index (fr_Query qr) ''._measurement'' = Some (length (''from(bucket: \"'' @ b @ ''\")'' @ z))"
    and "Index ('' == '' @ quoted m @ y) ''._measurement'' = None"
  shows "ip_QueryFlux env fx perms ip qr req w =
    (if IsForbiddenDB ip b then Some (ip, req, w, Some (ErrText (''database forbidden: '' @ b)))
     else map_option (\<lambda>(ip, req, w, body, err). (ip, req, w, err))
            (query (xe_lookup env) perms (flux_asker (xe_http env)) ip (GetKey (xe_measureOnly env) b m) req w))"
proof -
  let ?a = "''from(bucket: \"'' @ b @ ''\")'' @ z"
  have q: "fr_Query qr = ?a @ ''._measurement'' @ '' == '' @ quoted m @ y" using assms(1) by simp
  have bucket: "ParseQueryBucket (fr_Query qr) = Inr b"
    using ParseQueryBucket_finds [OF assms(2), of "z @ ''._measurement'' @ '' == '' @ quoted m @ y"] assms(1) by simp
  have "Index (?a @ ''._measurement'' @ '' == '' @ quoted m @ y) ''._measurement'' = Some (length ?a)"
    using assms(5) unfolding q .
  from ParseQueryMeasurement_finds [OF assms(4) this assms(6)] q
  have "ParseQueryMeasurement (fr_Query qr) = Some (Inr m)" by simp
  with bucket have "ScanQuery (fr_Query qr) = Some (Inr (b, m))" by (simp add: ScanQuery_def)
  moreover have "fr_Query qr \<noteq> []" "b \<noteq> []" using q assms(2) by (auto simp: plain_bucket_def)
  ultimately show ?thesis
    using assms(3) by (simp add: ip_QueryFlux_def scan_request_def QueryFlux_def)
qed

definition sample_fx :: flux_env where
  "sample_fx = \<lparr>fx_map = (\<lambda>_. Inl ErrIO), fx_filter = (\<lambda>_. Inl ErrIO)\<rparr>"

definition sample_flux :: FluxRequest where
  "sample_flux = \<lparr>fr_Spec = None, fr_Query =
     ''from(bucket: \"mydb\") |> range(start: 0) |> filter(fn: (r) => r._measurement == '' @ quoted ''cpu load'' @
     '' and r._field == \"v\")'', fr_Type = ''flux''\<rparr>"

theorem QueryFlux_finds_its_target_witness:
  "ip_QueryFlux sample_xe sample_fx [0] (sample_px\<lparr>ip_dbSet := [(''other'', True)]\<rparr>) sample_flux show_request new_writer =
   Some (sample_px\<lparr>ip_dbSet := [(''other'', True)]\<rparr>, show_request, new_writer, Some (ErrText ''database forbidden: mydb''))"
proof -
  have "Index (fr_Query sample_flux) ''._measurement'' =
      Some (length (''from(bucket: \"'' @ ''mydb'' @ ''\")'' @ '' |> range(start: 0) |> filter(fn: (r) => r''))" by code_simp
  moreover have "Index ('' == '' @ quoted ''cpu load'' @ '' and r._field == \"v\")'') ''._measurement'' = None" by code_simp
  moreover have "plain_bucket ''mydb''" "CHR 0x5C \<notin> set ''cpu load''" by (simp_all add: plain_bucket_def)
  moreover have "fr_Query sample_flux = ''from(bucket: \"'' @ ''mydb'' @ ''\")'' @ '' |> range(start: 0) |> filter(fn: (r) => r'' @
      ''._measurement'' @ '' == '' @ quoted ''cpu load'' @ '' and r._field == \"v\")''" by (simp add: sample_flux_def)
  moreover have "IsForbiddenDB (sample_px\<lparr>ip_dbSet := [(''other'', True)]\<rparr>) ''mydb''" by (simp add: IsForbiddenDB_def Has_def)
  ultimately show ?thesis
    using QueryFlux_finds_its_target [of sample_flux "''mydb''" "'' |> range(start: 0) |> filter(fn: (r) => r''" "''cpu load''"
      "'' and r._field == \"v\")''" sample_xe sample_fx "[0]" "sample_px\<lparr>ip_dbSet := [(''other'', True)]\<rparr>" show_request new_writer]
    by (simp only: if_True) simp
qed

section \<open>A panic\<close>

lemma last_dropWhile: "dropWhile P s \<noteq> [] \<Longrightarrow> last (dropWhile P s) = last s"
  by (induction s) auto

text \<open>The measurement scan of a flux query panics when it compares \<^verbatim>\<open>_measurement\<close> once and
  nothing but equal signs and blanks follows: the first byte behind them is read without a test.
  Otherwise it panics only on a text that ends in a backslash.\<close>

theorem ParseQueryMeasurement_panics:
  assumes "length (measurement_items q) = 2" "HasPrefix (TrimSpace (measurement_items q ! 1)) ''==''"
  shows "set (TrimSpace (measurement_items q ! 1)) \<subseteq> {CHR ''='', CHR '' ''} \<Longrightarrow> ParseQueryMeasurement q = None"
    and "ParseQueryMeasurement q = None \<Longrightarrow> set (TrimSpace (measurement_items q ! 1)) \<subseteq> {CHR ''='', CHR '' ''} \<or>
      last (TrimSpace (measurement_items q ! 1)) = CHR 0x5C"
proof -
  let ?str = "TrimSpace (measurement_items q ! 1)"
  let ?rest = "TrimLeft ?str ''= ''"
  have empty: "?rest = [] \<longleftrightarrow> set ?str \<subseteq> {CHR ''='', CHR '' ''}"
    by (auto simp: TrimLeft_def dropWhile_eq_Nil_conv)
  show "ParseQueryMeasurement q = None" if "set ?str \<subseteq> {CHR ''='', CHR '' ''}"
  proof -
    from that empty have "?rest = []" by simp
    with assms show ?thesis by (simp add: ParseQueryMeasurement_def byte_at_def)
  qed
  show "set ?str \<subseteq> {CHR ''='', CHR '' ''} \<or> last ?str = CHR 0x5C" if "ParseQueryMeasurement q = None"
  proof (cases "?rest = []")
    case False
    then have last: "last ?rest = last ?str" by (simp add: TrimLeft_def last_dropWhile)
    from False have "byte_at ?rest 0 = Some (hd ?rest)" by (simp add: byte_at_def hd_conv_nth)
    note parse = this
    have "FindEndWithQuote ?rest 0 (CHR ''\"'') = None"
    proof (rule ccontr)
      assume "FindEndWithQuote ?rest 0 (CHR ''\"'') \<noteq> None"
      then obtain j u err where r: "FindEndWithQuote ?rest 0 (CHR ''\"'') = Some (j, u, err)" by (metis not_None_eq prod.collapse)
      from FindEndWithQuote_bounds [OF r] have "err = None \<Longrightarrow> Prelude.slice ?rest 1 (j - 1) \<noteq> None"
        by (auto simp: Prelude.slice_def)
      with r parse assms have "ParseQueryMeasurement q \<noteq> None"
        by (cases err) (auto simp: ParseQueryMeasurement_def Let_def)
      with that show False by simp
    qed
    with False find_end_None [of ?rest] last show ?thesis by (auto simp: FindEndWithQuote_def byte_at_def)
  qed (use empty in simp)
qed

theorem ParseQueryMeasurement_panics_witness:
  "ParseQueryMeasurement ''filter(fn: (r) => r._measurement == '' = None"
  by (rule ParseQueryMeasurement_panics(1)) (code_simp, code_simp, code_simp)

end
