(* ===== verification/Prometheus.thy ===== *)
theory Prometheus
  imports Proxy "HOL-Library.Word"
begin

text \<open>
  Prometheus remote writes, \<^verbatim>\<open>service/prometheus/converters.go\<close>: the samples of the time series
  become points. A sample value is the 64 bits of its \<^verbatim>\<open>float64\<close>, a time stamp an \<^verbatim>\<open>int64\<close>; making
  a point is the client library's, a parameter \<open>new_point\<close> of the measurement, the tags, the
  value of the one field and the nanoseconds. Decoding the protocol buffers is generated code.
\<close>

section \<open>Definitions\<close>

unbundle bit_operations_syntax

record Label =
  lb_Name :: string
  lb_Value :: string

record Sample =
  sm_Value :: "64 word"
  sm_TimestampMs :: "64 word"

record TimeSeries =
  ts_Labels :: "Label list"
  ts_Samples :: "Sample list"

type_synonym point = "string \<times> bytes"

type_synonym point_maker = "string \<Rightarrow> (string, string) gomap \<Rightarrow> 64 word \<Rightarrow> 64 word \<Rightarrow> error + point"

definition measurementName :: string where "measurementName = ''prom_metric_not_specified''"
definition prometheusNameTag :: string where "prometheusNameTag = ''__name__''"

definition exponent_bits :: "64 word" where "exponent_bits = 0x7FF0000000000000"
definition fraction_bits :: "64 word" where "fraction_bits = 0x000FFFFFFFFFFFFF"

definition IsNaN :: "64 word \<Rightarrow> bool" where
  "IsNaN v \<longleftrightarrow> v AND exponent_bits = exponent_bits \<and> v AND fraction_bits \<noteq> 0"

definition IsInf :: "64 word \<Rightarrow> int \<Rightarrow> bool" where
  "IsInf v sign \<longleftrightarrow> (0 \<le> sign \<and> v = 0x7FF0000000000000) \<or> (sign \<le> 0 \<and> v = 0xFFF0000000000000)"

record Dropped =
  dv_nan :: "64 word"
  dv_ninf :: "64 word"
  dv_inf :: "64 word"

text \<open>\<^verbatim>\<open>DroppedValuesError.Error\<close>.\<close>

definition dropped_Error :: "Dropped \<Rightarrow> string" where
  "dropped_Error e =
     ''dropped unsupported Prometheus values: [NaN = '' @ Itoa (uint (dv_nan e)) @ '', +Inf = '' @ Itoa (uint (dv_inf e)) @
     '', -Inf = '' @ Itoa (uint (dv_ninf e)) @ '']''"

text \<open>The loop over the labels: the tags and the measurement.\<close>

fun scan_labels :: "Label list \<Rightarrow> (string, string) gomap \<Rightarrow> string \<Rightarrow> (string, string) gomap \<times> string" where
  "scan_labels [] tags meas = (tags, meas)"
| "scan_labels (l # ls) tags meas =
     scan_labels ls (map_set (lb_Name l) (lb_Value l) tags)
       (if lb_Name l = prometheusNameTag then lb_Value l else meas)"

definition nanoseconds :: "64 word \<Rightarrow> 64 word" where
  "nanoseconds ms = ms * 1000000"

fun convert_samples ::
    "point_maker \<Rightarrow> (string, string) gomap \<Rightarrow> string \<Rightarrow> Sample list \<Rightarrow> point list \<times> Dropped \<Rightarrow> error + point list \<times> Dropped" where
  "convert_samples new_point tags meas [] st = Inr st"
| "convert_samples new_point tags meas (s # ss) (points, d) =
     (if IsNaN (sm_Value s) then convert_samples new_point tags meas ss (points, d\<lparr>dv_nan := dv_nan d + 1\<rparr>)
      else if IsInf (sm_Value s) (-1) then convert_samples new_point tags meas ss (points, d\<lparr>dv_ninf := dv_ninf d + 1\<rparr>)
      else if IsInf (sm_Value s) 1 then convert_samples new_point tags meas ss (points, d\<lparr>dv_inf := dv_inf d + 1\<rparr>)
      else (case new_point meas tags (sm_Value s) (nanoseconds (sm_TimestampMs s)) of
              Inl e \<Rightarrow> Inl e
            | Inr p \<Rightarrow> convert_samples new_point tags meas ss (points @ [p], d)))"

fun convert_series :: "point_maker \<Rightarrow> TimeSeries list \<Rightarrow> point list \<times> Dropped \<Rightarrow> error + point list \<times> Dropped" where
  "convert_series new_point [] st = Inr st"
| "convert_series new_point (ts # tss) st =
     (case scan_labels (ts_Labels ts) [] measurementName of
        (tags, meas) \<Rightarrow>
          (case convert_samples new_point tags meas (ts_Samples ts) st of
             Inl e \<Rightarrow> Inl e
           | Inr st' \<Rightarrow> convert_series new_point tss st'))"

definition no_drops :: Dropped where
  "no_drops = \<lparr>dv_nan = 0, dv_ninf = 0, dv_inf = 0\<rparr>"

text \<open>The result: an error of the library, or the points with the \<^verbatim>\<open>DroppedValuesError\<close>, if any.\<close>

definition WriteRequestToPoints :: "point_maker \<Rightarrow> TimeSeries list \<Rightarrow> error + point list \<times> Dropped option" where
  "WriteRequestToPoints new_point tss =
     map_sum id (\<lambda>(points, d). (points, if 0 < dv_nan d + dv_inf d + dv_ninf d then Some d else None))
       (convert_series new_point tss ([], no_drops))"

section \<open>What becomes of the samples\<close>

text \<open>The kinds of a \<^verbatim>\<open>float64\<close>, read off its bits as IEEE 754 lays them out: bit 63 is the
  sign, 52 to 62 are the exponent, the others the fraction.\<close>

datatype float_kind = Finite | NaN | PosInf | NegInf

definition kind_of :: "64 word \<Rightarrow> float_kind" where
  "kind_of v =
     (if \<forall>i \<in> {52..62}. bit v i
      then (if \<exists>i \<in> {0..51}. bit v i then NaN else if bit v 63 then NegInf else PosInf)
      else Finite)"

lemma bit_masks:
  "bit exponent_bits i \<longleftrightarrow> 52 \<le> i \<and> i \<le> 62" "bit fraction_bits i \<longleftrightarrow> i \<le> 51"
  "bit (0xFFF0000000000000 :: 64 word) i \<longleftrightarrow> 52 \<le> i \<and> i \<le> 63"
proof -
  have e: "exponent_bits = push_bit 52 (mask 11)" and f: "fraction_bits = mask 52"
    and n: "(0xFFF0000000000000 :: 64 word) = push_bit 52 (mask 12)"
    by (simp_all add: exponent_bits_def fraction_bits_def mask_eq_exp_minus_1 push_bit_eq_mult)
  show "bit exponent_bits i \<longleftrightarrow> 52 \<le> i \<and> i \<le> 62" unfolding e by (auto simp: bit_simps)
  show "bit fraction_bits i \<longleftrightarrow> i \<le> 51" unfolding f by (auto simp: bit_simps)
  show "bit (0xFFF0000000000000 :: 64 word) i \<longleftrightarrow> 52 \<le> i \<and> i \<le> 63" unfolding n by (auto simp: bit_simps)
qed

lemma word_parts:
  fixes v w :: "64 word"
  shows "v = w \<longleftrightarrow> (\<forall>i \<in> {0..51}. bit v i = bit w i) \<and> (\<forall>i \<in> {52..62}. bit v i = bit w i) \<and> bit v 63 = bit w 63"
proof (intro iffI)
  assume eq: "(\<forall>i \<in> {0..51}. bit v i = bit w i) \<and> (\<forall>i \<in> {52..62}. bit v i = bit w i) \<and> bit v 63 = bit w 63"
  show "v = w"
  proof (rule bit_word_eqI)
    fix i
    assume "i < LENGTH(64)"
    then have "i \<in> {0..51} \<or> i \<in> {52..62} \<or> i = 63" by auto
    with eq show "bit v i = bit w i" by blast
  qed
qed simp

lemma kind_of_cases:
  "IsNaN v \<longleftrightarrow> kind_of v = NaN" "IsInf v 1 \<longleftrightarrow> kind_of v = PosInf" "IsInf v (-1) \<longleftrightarrow> kind_of v = NegInf"
  "v AND exponent_bits \<noteq> exponent_bits \<longleftrightarrow> kind_of v = Finite"
proof -
  have e: "v AND exponent_bits = exponent_bits \<longleftrightarrow> (\<forall>i \<in> {52..62}. bit v i)"
    unfolding word_parts [of "v AND exponent_bits"] by (auto simp: bit_and_iff bit_masks)
  have "v AND fraction_bits = 0 \<longleftrightarrow> (\<forall>i \<in> {0..51}. \<not> bit v i)"
    unfolding word_parts [of "v AND fraction_bits"] by (auto simp: bit_and_iff bit_masks)
  with e show "IsNaN v \<longleftrightarrow> kind_of v = NaN" by (auto simp: IsNaN_def kind_of_def)
  have "v = exponent_bits \<longleftrightarrow> kind_of v = PosInf"
    unfolding word_parts [of v exponent_bits] by (auto simp: bit_masks kind_of_def)
  then show "IsInf v 1 \<longleftrightarrow> kind_of v = PosInf" by (simp add: IsInf_def exponent_bits_def)
  define w :: "64 word" where "w = 0xFFF0000000000000"
  have "v = w \<longleftrightarrow> kind_of v = NegInf"
    unfolding word_parts [of v w] by (auto simp: bit_masks(3) [folded w_def] kind_of_def)
  then show "IsInf v (-1) \<longleftrightarrow> kind_of v = NegInf" by (simp add: IsInf_def w_def)
  show "v AND exponent_bits \<noteq> exponent_bits \<longleftrightarrow> kind_of v = Finite" unfolding e by (auto simp: kind_of_def)
qed

definition metric_of :: "Label list \<Rightarrow> string" where
  "metric_of ls = (case find (\<lambda>l. lb_Name l = prometheusNameTag) (rev ls) of None \<Rightarrow> measurementName | Some l \<Rightarrow> lb_Value l)"

definition tags_of :: "Label list \<Rightarrow> (string, string) gomap" where
  "tags_of ls = fold (\<lambda>l. map_set (lb_Name l) (lb_Value l)) ls []"

lemma find_append: "find P (xs @ ys) = (case find P xs of None \<Rightarrow> find P ys | Some x \<Rightarrow> Some x)"
  by (induction xs) auto

lemma scan_labels_spec:
  "scan_labels ls tags meas =
     (fold (\<lambda>l. map_set (lb_Name l) (lb_Value l)) ls tags,
      case find (\<lambda>l. lb_Name l = prometheusNameTag) (rev ls) of None \<Rightarrow> meas | Some l \<Rightarrow> lb_Value l)"
  by (induction ls arbitrary: tags meas) (auto simp: find_append split: option.splits)

lemma scan_labels_of: "scan_labels ls [] measurementName = (tags_of ls, metric_of ls)"
  by (simp add: scan_labels_spec tags_of_def metric_of_def)

text \<open>The tries to make a point, one for every finite sample, in order.\<close>

definition tries :: "point_maker \<Rightarrow> (string, string) gomap \<Rightarrow> string \<Rightarrow> Sample list \<Rightarrow> (error + point) list" where
  "tries new_point tags meas ss =
     map (\<lambda>s. new_point meas tags (sm_Value s) (nanoseconds (sm_TimestampMs s)))
       (filter (\<lambda>s. kind_of (sm_Value s) = Finite) ss)"

definition all_tries :: "point_maker \<Rightarrow> TimeSeries list \<Rightarrow> (error + point) list" where
  "all_tries new_point tss =
     concat (map (\<lambda>ts. tries new_point (tags_of (ts_Labels ts)) (metric_of (ts_Labels ts)) (ts_Samples ts)) tss)"

definition samples_of_kind :: "float_kind \<Rightarrow> Sample list \<Rightarrow> nat" where
  "samples_of_kind k ss = length (filter (\<lambda>s. kind_of (sm_Value s) = k) ss)"

definition count_up :: "Sample list \<Rightarrow> Dropped \<Rightarrow> Dropped" where
  "count_up ss d = d\<lparr>dv_nan := dv_nan d + of_nat (samples_of_kind NaN ss),
     dv_ninf := dv_ninf d + of_nat (samples_of_kind NegInf ss),
     dv_inf := dv_inf d + of_nat (samples_of_kind PosInf ss)\<rparr>"

definition tried :: "point list \<Rightarrow> (error + point) list \<Rightarrow> Dropped \<Rightarrow> error + point list \<times> Dropped" where
  "tried points rs d = (case find isl rs of Some r \<Rightarrow> Inl (projl r) | None \<Rightarrow> Inr (points @ map projr rs, d))"

lemma count_up_append: "count_up (xs @ ys) d = count_up ys (count_up xs d)"
  by (simp add: count_up_def samples_of_kind_def ac_simps)

lemma tried_append:
  "tried points (rs @ rs') d = (case tried points rs d' of Inl e \<Rightarrow> Inl e | Inr (points', _) \<Rightarrow> tried points' rs' d)"
  by (auto simp: tried_def find_append split: option.split)

lemma convert_samples_spec:
  "convert_samples new_point tags meas ss (points, d) = tried points (tries new_point tags meas ss) (count_up ss d)"
proof (induction ss arbitrary: points d)
  case Nil
  show ?case by (simp add: tried_def tries_def count_up_def samples_of_kind_def)
next
  case (Cons s ss)
  have up: "count_up (s # ss) d = count_up ss (count_up [s] d)" using count_up_append [of "[s]" ss d] by simp
  show ?case
  proof (cases "kind_of (sm_Value s)")
    case Finite
    let ?r = "new_point meas tags (sm_Value s) (nanoseconds (sm_TimestampMs s))"
    have "count_up [s] d = d" "tries new_point tags meas (s # ss) = ?r # tries new_point tags meas ss"
      using Finite by (simp_all add: count_up_def samples_of_kind_def tries_def)
    with Finite Cons.IH up show ?thesis
      by (cases ?r) (simp_all add: kind_of_cases tried_def split: option.split)
  qed (use Cons.IH up in \<open>simp_all add: kind_of_cases tries_def count_up_def samples_of_kind_def add.assoc\<close>)
qed

lemma convert_series_spec:
  "convert_series new_point tss (points, d) = tried points (all_tries new_point tss) (count_up (concat (map ts_Samples tss)) d)"
proof (induction tss arbitrary: points d)
  case Nil
  show ?case by (simp add: tried_def all_tries_def count_up_def samples_of_kind_def)
next
  case (Cons ts tss)
  let ?rs = "tries new_point (tags_of (ts_Labels ts)) (metric_of (ts_Labels ts)) (ts_Samples ts)"
  let ?d = "count_up (ts_Samples ts) d"
  have s: "convert_samples new_point (tags_of (ts_Labels ts)) (metric_of (ts_Labels ts)) (ts_Samples ts) (points, d) = tried points ?rs ?d"
    by (rule convert_samples_spec)
  have "all_tries new_point (ts # tss) = ?rs @ all_tries new_point tss"
    "count_up (concat (map ts_Samples (ts # tss))) d = count_up (concat (map ts_Samples tss)) ?d"
    by (simp_all add: all_tries_def count_up_append)
  with s Cons.IH [of "points @ map projr ?rs" ?d] show ?case
    by (simp add: scan_labels_of tried_append [where d' = ?d]) (simp add: tried_def split: option.split)
qed

lemma samples_of_kind_le: "samples_of_kind k ss \<le> length ss"
  by (simp add: samples_of_kind_def)

lemma kinds_sum:
  "samples_of_kind Finite ss + samples_of_kind NaN ss + samples_of_kind PosInf ss + samples_of_kind NegInf ss = length ss"
proof (induction ss)
  case (Cons s ss)
  then show ?case by (cases "kind_of (sm_Value s)") (simp_all add: samples_of_kind_def)
qed (simp add: samples_of_kind_def)

text \<open>C36: what becomes of the samples of a remote write. For every sample whose value is neither
  a NaN nor an infinity a point is tried, series by series and in order, under the metric that the
  last name label gives, with all labels as tags and the milliseconds as nanoseconds. If the
  library refuses some of them the result is its error for the first one refused. Otherwise it is all the
  points, and the samples dropped are reported if there were any, with the numbers of NaNs, of
  positive and of negative infinities, each kind told by the bits of the value.\<close>

theorem WriteRequestToPoints_converts:
  fixes tss :: "TimeSeries list" and new_point :: point_maker
  defines "samples \<equiv> concat (map ts_Samples tss)" and "rs \<equiv> all_tries new_point tss"
  assumes "length samples < 2 ^ 64"
  shows "case find isl rs of
      Some r \<Rightarrow> WriteRequestToPoints new_point tss = Inl (projl r)
    | None \<Rightarrow> \<exists>d. WriteRequestToPoints new_point tss = Inr (map projr rs, d) \<and>
        (d = None \<longleftrightarrow> samples_of_kind Finite samples = length samples) \<and>
        (\<forall>e. d = Some e \<longrightarrow> unat (dv_nan e) = samples_of_kind NaN samples \<and>
           unat (dv_inf e) = samples_of_kind PosInf samples \<and> unat (dv_ninf e) = samples_of_kind NegInf samples)"
proof (cases "find isl rs")
  case None
  let ?d = "count_up samples no_drops"
  have n: "unat (of_nat (samples_of_kind k samples) :: 64 word) = samples_of_kind k samples" for k
    using samples_of_kind_le [of k samples] assms(3) by (simp add: unat_of_nat)
  have total: "dv_nan ?d + dv_inf ?d + dv_ninf ?d = of_nat (length samples - samples_of_kind Finite samples)"
    using kinds_sum [of samples, symmetric] by (simp add: count_up_def no_drops_def)
  have "length samples - samples_of_kind Finite samples < 2 ^ 64" using assms(3) by simp
  then have "(of_nat (length samples - samples_of_kind Finite samples) :: 64 word) = 0 \<longleftrightarrow>
      length samples - samples_of_kind Finite samples = 0"
    using unat_eq_zero [of "of_nat (length samples - samples_of_kind Finite samples) :: 64 word"] by (simp add: unat_of_nat)
  with total samples_of_kind_le [of Finite samples] have "0 < dv_nan ?d + dv_inf ?d + dv_ninf ?d \<longleftrightarrow> samples_of_kind Finite samples \<noteq> length samples"
    by (auto simp: word_gt_0)
  moreover have "unat (dv_nan ?d) = samples_of_kind NaN samples" "unat (dv_inf ?d) = samples_of_kind PosInf samples"
    "unat (dv_ninf ?d) = samples_of_kind NegInf samples"
    by (simp_all add: count_up_def no_drops_def n)
  ultimately show ?thesis
    using None by (simp add: WriteRequestToPoints_def convert_series_spec samples_def [symmetric] rs_def [symmetric] tried_def)
next
  case (Some r)
  then show ?thesis by (simp add: WriteRequestToPoints_def convert_series_spec rs_def [symmetric] tried_def)
qed

text \<open>A library that refuses points without a metric name; two series with a number, a NaN and
  infinities, without and with a name.\<close>

definition naming :: point_maker where
  "naming m t v n = (if m = measurementName then Inl ErrIO else Inr (m, ''v=1''))"

definition four_kinds :: "Label list \<Rightarrow> TimeSeries" where
  "four_kinds ls = \<lparr>ts_Labels = ls, ts_Samples =
     map (\<lambda>v. \<lparr>sm_Value = v, sm_TimestampMs = 5\<rparr>)
       [0x3FF0000000000000, 0x7FF8000000000001, 0x7FF0000000000000, 0xFFF0000000000000, 0xFFF0000000000000]\<rparr>"

theorem WriteRequestToPoints_converts_witness:
  "WriteRequestToPoints naming [four_kinds [\<lparr>lb_Name = ''__name__'', lb_Value = ''up''\<rparr>], four_kinds []] = Inl ErrIO \<and>
   (\<exists>d. WriteRequestToPoints naming [four_kinds [\<lparr>lb_Name = ''__name__'', lb_Value = ''up''\<rparr>]] = Inr ([(''up'', ''v=1'')], Some d) \<and>
      unat (dv_nan d) = 1 \<and> unat (dv_inf d) = 1 \<and> unat (dv_ninf d) = 2)"
proof -
  let ?one = "[four_kinds [\<lparr>lb_Name = ''__name__'', lb_Value = ''up''\<rparr>]]"
  have k: "kind_of 0x3FF0000000000000 = Finite" "kind_of 0x7FF8000000000001 = NaN"
    "kind_of 0x7FF0000000000000 = PosInf" "kind_of 0xFFF0000000000000 = NegInf"
    by (simp_all add: kind_of_cases [symmetric] IsNaN_def IsInf_def exponent_bits_def fraction_bits_def)
  have t: "all_tries naming ?one = [Inr (''up'', ''v=1'')]" "all_tries naming (?one @ [four_kinds []]) = [Inr (''up'', ''v=1''), Inl ErrIO]"
    by (simp_all add: all_tries_def tries_def four_kinds_def k metric_of_def prometheusNameTag_def naming_def measurementName_def)
  have n: "samples_of_kind Finite (concat (map ts_Samples ?one)) = 1" "samples_of_kind NaN (concat (map ts_Samples ?one)) = 1"
    "samples_of_kind PosInf (concat (map ts_Samples ?one)) = 1" "samples_of_kind NegInf (concat (map ts_Samples ?one)) = 2"
    "length (concat (map ts_Samples ?one)) = 5" "length (concat (map ts_Samples (?one @ [four_kinds []]))) = 10"
    by (simp_all add: samples_of_kind_def four_kinds_def k)
  from WriteRequestToPoints_converts [of ?one naming] WriteRequestToPoints_converts [of "?one @ [four_kinds []]" naming]
  show ?thesis unfolding t n by auto
qed

end
