(* ===== verification/Shape.thy ===== *)
theory Shape
  imports Transfer_Steps Flux Prometheus
begin

text \<open>
  What no request and no transfer changes: the circles with their ids, names, numbers of
  backends and consistent hashes, whether their caches are coherent with these, and the white
  list of databases. Each lemma is a frame rule: when the operation returns, the circles after
  it have the shape of those before it. They are collected in \<open>shape_frame\<close> for the invariant of
  the service. The \<open>lookup\<close> of a frame rule is that of the consistent hash the operation uses.
\<close>

named_theorems shape_frame

type_synonym circle_shape = "nat \<times> string \<times> nat \<times> string list \<times> (string \<times> nat) list \<times> bool"

definition circle_shape :: "router \<Rightarrow> Circle \<Rightarrow> circle_shape" where
  "circle_shape lookup ic =
     (ic_CircleId ic, ic_Name ic, length (ic_Backends ic), ic_router ic, ic_mapToBackend ic, cache_ok lookup ic)"

definition shape :: "router \<Rightarrow> Circle list \<Rightarrow> circle_shape list" where
  "shape lookup ics = map (circle_shape lookup) ics"

definition proxy_shape :: "router \<Rightarrow> Proxy \<Rightarrow> circle_shape list \<times> Set" where
  "proxy_shape lookup ip = (shape lookup (ip_Circles ip), ip_dbSet ip)"

lemma shape_length: "shape lookup ics = shape lookup ics' \<Longrightarrow> length ics = length ics'"
  by (metis length_map shape_def)

lemma shape_Cons [simp]: "shape lookup (ic # ics) = circle_shape lookup ic # shape lookup ics"
  by (simp add: shape_def)

lemma shape_Nil [simp]: "shape lookup [] = []"
  by (simp add: shape_def)

definition same_circle :: "router \<Rightarrow> Circle \<Rightarrow> Circle \<Rightarrow> bool" where
  "same_circle lookup ic ic' \<longleftrightarrow> circle_shape lookup ic' = circle_shape lookup ic"

lemma same_circle_refl [simp]: "same_circle lookup ic ic"
  by (simp add: same_circle_def)

lemma same_circle_trans [trans]: "same_circle lookup a b \<Longrightarrow> same_circle lookup b c \<Longrightarrow> same_circle lookup a c"
  by (simp add: same_circle_def)

lemma shape_update: "same_circle lookup (ics ! i) ic \<Longrightarrow> shape lookup (ics[i := ic]) = shape lookup ics"
proof (cases "i < length ics")
  case True
  assume "same_circle lookup (ics ! i) ic"
  with True show ?thesis by (simp add: shape_def same_circle_def map_update list_update_same_conv)
qed (simp add: list_update_beyond)

lemma proxy_shape_eq: "shape lookup ics = shape lookup (ip_Circles ip) \<Longrightarrow> proxy_shape lookup (ip\<lparr>ip_Circles := ics\<rparr>) = proxy_shape lookup ip"
  by (simp add: proxy_shape_def)

section \<open>Looking up, writing and querying\<close>

lemma cache_ok_GetBackend: "cache_ok lookup (fst (GetBackend lookup ic key)) = cache_ok lookup ic"
proof
  assume ok: "cache_ok lookup (fst (GetBackend lookup ic key))"
  show "cache_ok lookup ic"
  proof (cases "map_get (ic_routerCache ic) key")
    case None
    then have "map_get (ic_routerCache (fst (GetBackend lookup ic key))) k = Some be"
      if "map_get (ic_routerCache ic) k = Some be" for k be
      using that by (auto simp: GetBackend_cases map_get_set)
    with ok show ?thesis unfolding cache_ok_def route_GetBackend by blast
  qed (use ok in \<open>simp add: GetBackend_cases\<close>)
qed (rule circle_cache.lookup_coherent)

lemma same_circle_GetBackend: "GetBackend lookup ic key = (ic', be) \<Longrightarrow> same_circle lookup ic ic'"
  using GetBackend_frame [of lookup ic key] cache_ok_GetBackend [of lookup ic key]
  by (auto simp: same_circle_def circle_shape_def)

text \<open>The backends themselves are free, as long as their number is the same.\<close>

lemma cache_ok_backends [simp]: "cache_ok lookup (ic\<lparr>ic_Backends := bes\<rparr>) = cache_ok lookup ic"
  by (simp add: cache_ok_def route_def)

lemma same_circle_backends: "length bes = length (ic_Backends ic) \<Longrightarrow> same_circle lookup ic (ic\<lparr>ic_Backends := bes\<rparr>)"
  by (simp add: same_circle_def circle_shape_def)

lemma circle_backends_shape: "circle_backends lookup key i ics = (ics', bes) \<Longrightarrow> shape lookup ics' = shape lookup ics"
  by (induction ics arbitrary: i ics' bes)
    (auto simp: Let_def split: prod.splits dest!: same_circle_GetBackend simp: same_circle_def)

lemma GetBackends_shape [shape_frame]: "GetBackends lookup ip key = (ip', bes) \<Longrightarrow> proxy_shape lookup ip' = proxy_shape lookup ip"
  by (auto simp: GetBackends_def proxy_shape_def dest: circle_backends_shape split: prod.splits)

lemma set_be_shape: "proxy_shape lookup (set_be ip p be) = proxy_shape lookup ip"
  by (auto simp: set_be_def Let_def intro!: proxy_shape_eq shape_update same_circle_backends)

lemma write_all_shape [shape_frame]: "write_all bes point err ip = Some (ip', err') \<Longrightarrow> proxy_shape lookup ip' = proxy_shape lookup ip"
  by (induction bes point err ip rule: write_all.induct) (auto simp: Let_def set_be_shape split: option.splits prod.splits)

lemma WriteRow_shape: "WriteRow env now ip line db rp precision = Some ip' \<Longrightarrow> proxy_shape (we_lookup env) ip' = proxy_shape (we_lookup env) ip"
  by (auto simp: WriteRow_def Let_def bind_eq_Some_conv split: option.splits sum.splits if_splits prod.splits
      dest!: GetBackends_shape write_all_shape [where lookup = "we_lookup env"])

lemma write_loop_shape: "write_loop env clock p db rp precision pos n ip = Some ip' \<Longrightarrow> proxy_shape (we_lookup env) ip' = proxy_shape (we_lookup env) ip"
proof (induction env clock p db rp precision pos n ip rule: write_loop.induct)
  case (1 env clock p db rp precision pos n ip)
  show ?case
  proof (cases "pos < length p")
    case True
    then obtain pos' block where s: "ScanLine p pos = Some (pos', block)"
      using "1.prems" by (subst (asm) write_loop.simps) (auto split: option.splits)
    show ?thesis
    proof (cases "row_of_block block")
      case None
      with "1.prems" True s have "write_loop env clock p db rp precision (pos' + 1) n ip = Some ip'"
        by (subst (asm) write_loop.simps) simp
      from "1.IH" (1) [OF True s refl None this] show ?thesis .
    next
      case (Some line)
      with "1.prems" True s obtain ip1 where w: "WriteRow env (clock n) ip line db rp precision = Some ip1"
        "write_loop env clock p db rp precision (pos' + 1) (Suc n) ip1 = Some ip'"
        by (subst (asm) write_loop.simps) (auto split: option.splits)
      from "1.IH" (2) [OF True s refl Some w] WriteRow_shape [OF w(1)] show ?thesis by simp
    qed
  qed (use "1.prems" in \<open>subst (asm) write_loop.simps, simp\<close>)
qed

lemma ip_Write_shape [shape_frame]: "ip_Write env clock ip p db rp precision = Some ip' \<Longrightarrow> proxy_shape (we_lookup env) ip' = proxy_shape (we_lookup env) ip"
  by (simp add: ip_Write_def write_loop_shape)

lemma WritePoints_shape [shape_frame]:
  "WritePoints env pts db rp err ip = Some (ip', err') \<Longrightarrow> proxy_shape (we_lookup env) ip' = proxy_shape (we_lookup env) ip"
proof (induction env pts db rp err ip rule: WritePoints.induct)
  case (2 env meas line pts db rp err ip)
  note w = write_all_shape [where lookup = "we_lookup env"]
  from 2 show ?case by (auto simp: Let_def split: prod.splits if_splits option.splits dest!: GetBackends_shape w)
qed simp

lemma query_perms_shape: "query_perms lookup fn key ps ip a = Some (ip', a') \<Longrightarrow> proxy_shape lookup ip' = proxy_shape lookup ip"
proof (induction ps arbitrary: ip a)
  case (Cons p ps)
  obtain ic be where g: "GetBackend lookup (ip_Circles ip ! p) key = (ic, be)"
    by (cases "GetBackend lookup (ip_Circles ip ! p) key")
  have "proxy_shape lookup (ip\<lparr>ip_Circles := (ip_Circles ip)[p := ic]\<rparr>) = proxy_shape lookup ip"
    by (intro proxy_shape_eq shape_update same_circle_GetBackend [OF g])
  with Cons g show ?case by (auto simp: Let_def split: option.splits if_splits)
qed simp

lemma query_shape [shape_frame]:
  "query lookup perms fn ip key req w = Some (ip', req', w', body, err) \<Longrightarrow> proxy_shape lookup ip' = proxy_shape lookup ip"
  by (auto simp: query_def Let_def bind_eq_Some_conv split: prod.splits if_splits
      dest!: query_perms_shape GetBackends_shape)

lemma QueryFromQL_shape:
  "QueryFromQL env perms ip tokens db req w = Some (ip', req', w', body, err) \<Longrightarrow> proxy_shape (xe_lookup env) ip' = proxy_shape (xe_lookup env) ip"
  by (cases "GetMeasurementFromTokens tokens") (auto simp: QueryFromQL_def split: sum.split_asm dest: query_shape)

lemma QueryDeleteOrDropQL_shape:
  "QueryDeleteOrDropQL env arrive ip tokens db req w = Some (ip', req', w', body, err) \<Longrightarrow> proxy_shape (xe_lookup env) ip' = proxy_shape (xe_lookup env) ip"
  by (cases "GetMeasurementFromTokens tokens")
    (auto simp: QueryDeleteOrDropQL_def Let_def split: sum.split_asm prod.split_asm if_split_asm
      dest: GetBackends_shape)

lemma Query_shape [shape_frame]:
  assumes "Query env ord perms ip req w = Some (ip', req', w', body, err)"
  shows "proxy_shape (xe_lookup env) ip' = proxy_shape (xe_lookup env) ip"
proof (cases "\<exists>tokens db. QueryFromQL env perms ip tokens db req w = Some (ip', req', w', body, err) \<or>
    QueryDeleteOrDropQL env (so_arrive ord) ip tokens db req w = Some (ip', req', w', body, err)")
  case True
  then show ?thesis by (elim exE disjE) (erule QueryFromQL_shape, erule QueryDeleteOrDropQL_shape)
next
  case False
  then have n: "QueryFromQL env perms ip tokens db req w \<noteq> Some (ip', req', w', body, err)"
    "QueryDeleteOrDropQL env (so_arrive ord) ip tokens db req w \<noteq> Some (ip', req', w', body, err)" for tokens db
    by auto
  from assms have "ip' = ip"
    unfolding Query_def Let_def
    by (simp only: split_paired_all n prod.case option.inject prod.inject option.simps map_option_eq_Some
        split: Option.bind_split_asm if_split_asm prod.split_asm) auto
  then show ?thesis by simp
qed

lemma ReadProm_shape [shape_frame]:
  "ReadProm env perms ip db meas req w = Some (ip', req', w', body, err) \<Longrightarrow> proxy_shape (xe_lookup env) ip' = proxy_shape (xe_lookup env) ip"
  by (auto simp: ReadProm_def dest: query_shape)

lemma ip_QueryFlux_shape [shape_frame]:
  assumes "ip_QueryFlux env fx perms ip qr req w = Some (ip', req', w', err)"
  shows "proxy_shape (xe_lookup env) ip' = proxy_shape (xe_lookup env) ip"
proof (cases "\<exists>bucket meas body. QueryFlux env perms ip bucket meas req w = Some (ip', req', w', body, err)")
  case True
  then show ?thesis unfolding QueryFlux_def by (elim exE) (erule query_shape)
next
  case False
  with assms have "ip' = ip"
    unfolding ip_QueryFlux_def
    by (auto simp: map_option_eq_Some split: Option.bind_split_asm if_split_asm prod.split_asm sum.split_asm)
  then show ?thesis by simp
qed

subsection \<open>Health\<close>

lemma count_places_same: "count_places lookup mo url db ms ic n = Some (ic', n') \<Longrightarrow> same_circle lookup ic ic'"
  by (induction lookup mo url db ms ic n rule: count_places.induct)
    (auto split: prod.splits option.splits dest!: same_circle_GetBackend intro: same_circle_trans)

lemma health_stats_same: "health_stats env lookup mo hb dbs ic st = Some (ic', st') \<Longrightarrow> same_circle lookup ic ic'"
proof (induction dbs arbitrary: ic st)
  case (Cons db dbs)
  then obtain ms ic1 n where "count_places lookup mo (hb_Url hb) db ms ic (0, 0) = Some (ic1, n)"
    "\<exists>st1. health_stats env lookup mo hb dbs ic1 st1 = Some (ic', st')"
    by (clarsimp simp: bind_eq_Some_conv) blast
  with Cons.IH show ?case by (blast dest: count_places_same intro: same_circle_trans)
qed simp

lemma ib_GetHealth_same: "ib_GetHealth env lookup mo ib ic stats = Some (ic', h) \<Longrightarrow> same_circle lookup ic ic'"
  by (auto simp: ib_GetHealth_def Let_def bind_eq_Some_conv split: option.splits if_splits dest: health_stats_same)

lemma health_all_same: "health_all envs lookup mo stats bes ic = Some (ic', hs) \<Longrightarrow> same_circle lookup ic ic'"
proof (induction bes arbitrary: ic hs)
  case (Cons be bes)
  then obtain ic1 h hs1 where "ib_GetHealth (envs be) lookup mo be ic stats = Some (ic1, h)"
    "health_all envs lookup mo stats bes ic1 = Some (ic', hs1)"
    by (auto simp: bind_eq_Some_conv)
  with Cons.IH show ?case by (blast dest: ib_GetHealth_same intro: same_circle_trans)
qed simp

lemma ip_health_shape: "ip_health envs lookup mo stats ics = Some (ics', hs) \<Longrightarrow> shape lookup ics' = shape lookup ics"
  by (induction ics arbitrary: ics' hs)
    (auto simp: bind_eq_Some_conv ic_GetHealth_def same_circle_def dest!: health_all_same)

lemma ip_GetHealth_shape [shape_frame]: "ip_GetHealth envs lookup mo ip stats = Some (ip', hs) \<Longrightarrow> proxy_shape lookup ip' = proxy_shape lookup ip"
  by (auto simp: ip_GetHealth_def bind_eq_Some_conv dest: ip_health_shape intro!: proxy_shape_eq)

section \<open>Transferring\<close>

lemma same_circle_SetTransferIn: "same_circle lookup ic (ic_SetTransferIn ic b)"
  by (simp add: ic_SetTransferIn_def same_circle_backends)

lemma set_hb_shape: "shape lookup (set_hb ics p hb) = shape lookup ics"
  by (auto simp: set_hb_def Let_def intro!: shape_update same_circle_backends)

lemma cs_GetBackend_shape: "cs_GetBackend env cid key ics = Some (ics', d) \<Longrightarrow> shape (te_lookup env) ics' = shape (te_lookup env) ics"
  by (cases "GetBackend (te_lookup env) (ics ! cid) key")
    (auto simp: cs_GetBackend_def byte_at_def split: if_splits intro!: shape_update dest!: same_circle_GetBackend)

lemma other_dsts_shape: "other_dsts env cid key ts ics = Some (ics', ds) \<Longrightarrow> shape (te_lookup env) ics' = shape (te_lookup env) ics"
proof (induction ts arbitrary: ics ds)
  case (Cons t ts)
  show ?case
  proof (cases "ic_CircleId (ics ! t) = ic_CircleId (ics ! cid)")
    case False
    with Cons.prems obtain ics1 d ds1 where "cs_GetBackend env t key ics = Some (ics1, d)"
      "other_dsts env cid key ts ics1 = Some (ics', ds1)" by (auto simp: bind_eq_Some_conv)
    with Cons.IH cs_GetBackend_shape show ?thesis by metis
  qed (use Cons in auto)
qed simp

lemma measure_fn_shape:
  assumes "fn \<in> measure_fns env" "fn be db meas ics = Some (ics', jobs, require)"
  shows "shape (te_lookup env) ics' = shape (te_lookup env) ics"
  using assms
  by (auto simp: measure_fns_def runRebalance_def runRecovery_def runResync_def runCleanup_def Let_def bind_eq_Some_conv
      dest: cs_GetBackend_shape other_dsts_shape split: if_split_asm)

lemma send_dsts_shape: "send_dsts net dsts db rp p ics = Some ics' \<Longrightarrow> shape lookup ics' = shape lookup ics"
  by (induction net dsts db rp p ics rule: send_dsts.induct) (auto simp: bind_eq_Some_conv set_hb_shape)

lemma send_batches_shape: "send_batches env k dsts db rp ps ics = Some ics' \<Longrightarrow> shape lookup ics' = shape lookup ics"
  by (induction env k dsts db rp ps ics rule: send_batches.induct) (auto simp: bind_eq_Some_conv dest: send_dsts_shape)

lemma run_job_shape: "run_job env tx j ics = Some (ics', err) \<Longrightarrow> shape lookup ics' = shape lookup ics"
  by (auto simp: run_job_def bind_eq_Some_conv split: job.split_asm dest: send_batches_shape)

text \<open>The parameters of a transfer that no transfer breaks. What a transfer leaves alone:
  the addresses of the other proxies, the credentials and the number of circle states; the
  limits stay positive.\<close>

definition positive :: "Transfer \<Rightarrow> bool" where
  "positive tx \<longleftrightarrow> 0 < tx_Worker tx \<and> 0 < tx_Batch tx \<and> 0 < tx_Limit tx"

definition steady :: "Transfer \<Rightarrow> Transfer \<Rightarrow> bool" where
  "steady tx tx' \<longleftrightarrow>
     length (tx_CircleStates tx') = length (tx_CircleStates tx) \<and> tx_HaAddrs tx' = tx_HaAddrs tx \<and>
     tx_username tx' = tx_username tx \<and> tx_password tx' = tx_password tx \<and> (positive tx \<longrightarrow> positive tx')"

definition kept :: "router \<Rightarrow> Transfer \<times> Circle list \<Rightarrow> Transfer \<times> Circle list \<Rightarrow> bool" where
  "kept lookup s s' \<longleftrightarrow> steady (fst s) (fst s') \<and> shape lookup (snd s') = shape lookup (snd s)"

lemma steady_refl [simp]: "steady tx tx"
  by (simp add: steady_def)

lemma steady_trans: "steady a b \<Longrightarrow> steady b c \<Longrightarrow> steady a c"
  by (simp add: steady_def)

lemma steady_updates [simp]:
  "steady tx0 (tx\<lparr>tx_CircleStates := (tx_CircleStates tx)[i := cs]\<rparr>) = steady tx0 tx"
  "steady tx0 (tx\<lparr>tx_Resyncing := b\<rparr>) = steady tx0 tx"
  "steady tx0 (resetCircleStates tx) = steady tx0 tx"
  "steady tx0 tx \<Longrightarrow> steady tx0 (resetBasicParam tx)"
  by (auto simp: steady_def positive_def resetCircleStates_def resetBasicParam_def
      DefaultWorker_def DefaultBatch_def DefaultLimit_def)

lemma transfer_part_kept: "transfer_part env s s' \<Longrightarrow> kept (te_lookup env) s s'"
proof (induction rule: transfer_part.induct)
  case (transfer_in ics cid ic tx b)
  then show ?case by (auto simp: kept_def byte_at_Some_iff shape_update same_circle_SetTransferIn)
next
  case (measurement fn be db meas ics ics' jobs require tx)
  then show ?case by (auto simp: kept_def dest: measure_fn_shape)
qed (simp_all add: kept_def)

lemma parts_kept: "parts env s s' \<Longrightarrow> kept (te_lookup env) s s'"
proof (induction rule: rtranclp_induct)
  case (step s' s'')
  with transfer_part_kept [OF step.hyps(2)] show ?case by (auto simp: kept_def intro: steady_trans)
qed (simp add: kept_def)

end
