(* ===== verification/Service.thy ===== *)
theory Service
  imports Shape
begin

text \<open>
  The HTTP service, \<^verbatim>\<open>service/http.go\<close>: authentication, the handlers of the endpoints, their
  parameters, and the transfers that they start. A handler takes the service and the response
  writer and returns them with the transfer it starts in the background, if any; \<open>None\<close> is a
  panic. The transfer state shares its circles with the proxy. An incoming request comes with
  the parameters of its URL, the values that \<^verbatim>\<open>FormValue\<close> sees and the outcome of reading its
  body. In \<open>svc_env\<close> are the environments of the other components, the random order of a query,
  the clock, the texts of errors, the encoders and decoders (JSON, MIME types, gzip, snappy,
  protocol buffers, the quoting \<^verbatim>\<open>%q\<close>), the AES block function and the handlers of \<^verbatim>\<open>net/http\<close>
  itself.
\<close>

section \<open>Definitions\<close>

record http_request =
  in_req :: Request
  in_Query :: go_values
  in_Body :: "error + bytes"

datatype payload =
    ErrorPayload Response
  | HealthPayload "CircleHealth list"
  | ReplicaPayload "(string \<times> string \<times> nat \<times> string) list"
  | StatePayload bool "(nat \<times> string \<times> bool) list"
  | SetPayload "bool option" "(nat \<times> string \<times> bool) option"
  | StatsPayload "(string, Stats) gomap"

record svc_env =
  sv_xe :: exec_env
  sv_we :: write_env
  sv_fx :: flux_env
  sv_health :: "Backend \<Rightarrow> http_env"
  sv_order :: show_order
  sv_perms :: "nat list"
  sv_clock :: "nat \<Rightarrow> int"
  sv_Error :: "error \<Rightarrow> string"
  sv_quote :: "string \<Rightarrow> string"
  sv_json :: "payload \<Rightarrow> bool \<Rightarrow> bytes"
  sv_mime :: "string \<Rightarrow> error + string"
  sv_flux :: "bytes \<Rightarrow> error + FluxRequest"
  sv_backends :: "error + bytes \<Rightarrow> BackendConfig option list option"
  sv_gzip :: "error + bytes \<Rightarrow> (error + bytes) option"
  sv_snappy :: "bytes \<Rightarrow> error + bytes"
  sv_read :: "bytes \<Rightarrow> error + (string \<times> string) list list"
  sv_write :: "bytes \<Rightarrow> error + TimeSeries list"
  sv_NewPoint :: point_maker
  sv_encrypt :: "bytes \<Rightarrow> bytes"
  sv_decrypt :: "bytes \<Rightarrow> bytes"
  sv_Version :: string
  sv_nethttp :: "bool \<Rightarrow> string \<Rightarrow> http_request \<Rightarrow> Writer \<Rightarrow> Writer"

record HttpService =
  hs_ip :: Proxy
  hs_tx :: Transfer
  hs_username :: string
  hs_password :: string
  hs_authEncrypt :: bool
  hs_writeTracing :: bool
  hs_queryTracing :: bool
  hs_pprofEnabled :: bool

definition NewHttpService ::
    "stat \<times> error option \<Rightarrow> (BackendConfig \<Rightarrow> FileBackend \<times> error option) \<Rightarrow> ProxyConfig \<Rightarrow> bool \<Rightarrow> (HttpService \<times> bool) option" where
  "NewHttpService mkdir opened cfg measureOnly =
     do { (ip, mo) \<leftarrow> NewProxy mkdir opened cfg measureOnly;
          Some (\<lparr>hs_ip = ip, hs_tx = NewTransfer cfg, hs_username = pc_Username cfg, hs_password = pc_Password cfg,
                 hs_authEncrypt = pc_AuthEncrypt cfg, hs_writeTracing = pc_WriteTracing cfg,
                 hs_queryTracing = pc_QueryTracing cfg, hs_pprofEnabled = pc_PprofEnabled cfg\<rparr>, mo) }"

text \<open>The transfers that a handler starts in a goroutine.\<close>

datatype background =
    Rebalancing nat "HttpBackend list" "string list"
  | Recovering nat nat "string list" "string list"
  | Resyncing "string list" int
  | Cleaning nat

definition run_background :: "tx_env \<Rightarrow> background \<Rightarrow> Transfer \<times> Circle list \<Rightarrow> tx_run option" where
  "run_background env b s =
     (case b of
        Rebalancing cid bes dbs \<Rightarrow> Rebalance env cid bes dbs s
      | Recovering fromId toId urls dbs \<Rightarrow> Recovery env fromId toId urls dbs s
      | Resyncing dbs tick \<Rightarrow> Resync env dbs tick s
      | Cleaning cid \<Rightarrow> Cleanup env cid s)"

subsection \<open>Responses\<close>

definition set_header :: "string \<Rightarrow> string \<Rightarrow> Writer \<Rightarrow> Writer" where
  "set_header k v w = w\<lparr>rw_Header := map_set k [v] (rw_Header w)\<rparr>"

text \<open>\<^verbatim>\<open>err.Error()\<close>: the texts of the packages' own errors are theirs, those of errors of libraries
  and of the system are the environment's.\<close>

definition sentinel_text :: "error \<Rightarrow> string option" where
  "sentinel_text e =
     (case [t. Some t \<leftarrow> [http_Error e, influxql_Error e, executor_Error e, flux_Error e, config_Error e]] of
        [] \<Rightarrow> None | t # _ \<Rightarrow> Some t)"

definition Error_text :: "svc_env \<Rightarrow> error \<Rightarrow> string" where
  "Error_text env e =
     (case sentinel_text e of
        Some t \<Rightarrow> t
      | None \<Rightarrow> (case e of ErrText t \<Rightarrow> t | _ \<Rightarrow> sv_Error env e))"

definition add_header :: "string \<Rightarrow> string \<Rightarrow> Writer \<Rightarrow> Writer" where
  "add_header k v w =
     w\<lparr>rw_Header := map_set k ((case map_get (rw_Header w) k of None \<Rightarrow> [] | Some vs \<Rightarrow> vs) @ [v]) (rw_Header w)\<rparr>"

definition pretty :: "http_request \<Rightarrow> bool" where
  "pretty r \<longleftrightarrow> values_get (in_Query r) ''pretty'' = ''true''"

definition WriteError :: "svc_env \<Rightarrow> http_request \<Rightarrow> Writer \<Rightarrow> int \<Rightarrow> string \<Rightarrow> Writer" where
  "WriteError env r w status err =
     (let w = set_header ''X-Influxdb-Error'' err (set_header ''Content-Type'' ''application/json'' w);
          w = WriteHeader w status
      in fst (Http_Backend.WriteBody w (MarshalJSON (sv_json env) (ErrorPayload (ResponseFromError err)) (pretty r))))"

text \<open>\<^verbatim>\<open>hs.Write\<close>; it is only called with the status 200.\<close>

definition WriteData :: "svc_env \<Rightarrow> http_request \<Rightarrow> Writer \<Rightarrow> int \<Rightarrow> payload \<Rightarrow> Writer" where
  "WriteData env r w status data =
     (let w = WriteHeader (set_header ''Content-Type'' ''application/json'' w) status
      in fst (Http_Backend.WriteBody w (MarshalJSON (sv_json env) data (pretty r))))"

definition hs_WriteBody :: "Writer \<Rightarrow> bytes \<Rightarrow> Writer" where
  "hs_WriteBody w body = fst (Http_Backend.WriteBody (WriteHeader w 200) body)"

definition WriteText :: "Writer \<Rightarrow> int \<Rightarrow> string \<Rightarrow> Writer" where
  "WriteText w status text = fst (Http_Backend.WriteBody (WriteHeader w status) (text @ [CHR 0x0A]))"

subsection \<open>Authentication\<close>

definition checkMethod :: "svc_env \<Rightarrow> http_request \<Rightarrow> string list \<Rightarrow> Writer \<Rightarrow> bool \<times> Writer" where
  "checkMethod env r methods w =
     (if rq_Method (in_req r) \<in> set methods then (True, w) else (False, WriteError env r w 405 ''method not allow''))"

definition transAuth :: "svc_env \<Rightarrow> HttpService \<Rightarrow> string \<Rightarrow> string" where
  "transAuth env hs text = (if hs_authEncrypt hs then AesEncrypt (sv_encrypt env) text else text)"

definition compareAuth :: "svc_env \<Rightarrow> HttpService \<Rightarrow> string \<Rightarrow> string \<Rightarrow> bool" where
  "compareAuth env hs u p \<longleftrightarrow> transAuth env hs u = hs_username hs \<and> transAuth env hs p = hs_password hs"

text \<open>The base64 decoding and \<^verbatim>\<open>req.BasicAuth\<close> of the standard library: the prefix in any case,
  the credentials up to and after the first colon.\<close>

definition std_decode :: "string \<Rightarrow> bytes option" where
  "std_decode s =
     (let t = filter (\<lambda>c. \<not> is_newline c) s;
          u = (if HasPrefix (rev t) ''=='' then take (length t - 2) t
               else if HasPrefix (rev t) ''='' then butlast t else t)
      in if length t mod 4 \<noteq> 0 then None
         else (case b64_decode encodeStd u of Inl i \<Rightarrow> None | Inr b \<Rightarrow> Some b))"

definition split_colon :: "string \<Rightarrow> (string \<times> string) option" where
  "split_colon s = map_option (\<lambda>i. (take i s, drop (i + 1) s)) (IndexByte s (CHR '':''))"

definition BasicAuth :: "Request \<Rightarrow> (string \<times> string) option" where
  "BasicAuth req =
     (let auth = values_get (rq_Header req) ''Authorization'' in
      if map lower_byte (take 6 auth) \<noteq> ''basic '' then None
      else do { c \<leftarrow> std_decode (drop 6 auth); split_colon c })"

definition parseAuth :: "Request \<Rightarrow> (string \<times> string) option" where
  "parseAuth req =
     (let auth = values_get (rq_Header req) ''Authorization''; items = Split auth '' '' in
      if auth \<noteq> '''' \<and> length items = 2 \<and> items ! 0 = ''Token'' then split_colon (items ! 1) else None)"

definition accepted :: "svc_env \<Rightarrow> HttpService \<Rightarrow> (string \<times> string) option \<Rightarrow> bool" where
  "accepted env hs cred = (case cred of Some (u, p) \<Rightarrow> compareAuth env hs u p | None \<Rightarrow> False)"

definition authorized :: "svc_env \<Rightarrow> HttpService \<Rightarrow> http_request \<Rightarrow> bool" where
  "authorized env hs r \<longleftrightarrow>
     (hs_username hs = '''' \<and> hs_password hs = '''') \<or>
     compareAuth env hs (values_get (in_Query r) ''u'') (values_get (in_Query r) ''p'') \<or>
     accepted env hs (BasicAuth (in_req r)) \<or> accepted env hs (parseAuth (in_req r))"

definition checkAuth :: "svc_env \<Rightarrow> HttpService \<Rightarrow> http_request \<Rightarrow> Writer \<Rightarrow> bool \<times> Writer" where
  "checkAuth env hs r w =
     (if authorized env hs r then (True, w) else (False, WriteError env r w 401 ''authentication failed''))"

definition checkMethodAndAuth :: "svc_env \<Rightarrow> HttpService \<Rightarrow> http_request \<Rightarrow> string list \<Rightarrow> Writer \<Rightarrow> bool \<times> Writer" where
  "checkMethodAndAuth env hs r methods w =
     (case checkMethod env r methods w of
        (True, w) \<Rightarrow> checkAuth env hs r w
      | (False, w) \<Rightarrow> (False, w))"

subsection \<open>Parameters\<close>

definition bucket2dbrp :: "svc_env \<Rightarrow> string \<Rightarrow> string + string \<times> string" where
  "bucket2dbrp env bucket =
     (case IndexByte bucket (CHR ''/'') of
        None \<Rightarrow>
          if bucket = '''' then Inl (''bucket name '' @ sv_quote env bucket @
            '' is missing a slash; not in \"database/retention-policy\" format'')
          else Inr (bucket, '''')
      | Some idx \<Rightarrow>
          let db = take idx bucket; rp = drop (idx + 1) bucket in
          if db = '''' then Inl (''bucket name '' @ sv_quote env bucket @
            '' is in db/rp form but has an empty database'')
          else Inr (db, rp))"

definition forbidden :: "string \<Rightarrow> string" where
  "forbidden db = ''database forbidden: '' @ db"

definition queryDB :: "HttpService \<Rightarrow> http_request \<Rightarrow> bool \<Rightarrow> string + string" where
  "queryDB hs r form =
     (let db = (if form then FormValue (in_req r) ''db'' else values_get (in_Query r) ''db'') in
      if db = '''' then Inl ''database not found''
      else if IsForbiddenDB (hs_ip hs) db then Inl (forbidden db)
      else Inr db)"

definition formValues :: "http_request \<Rightarrow> string \<Rightarrow> string list" where
  "formValues r key =
     (let str = Trim (FormValue (in_req r) key) '', '' in if str \<noteq> '''' then Split str '','' else [])"

definition formBool :: "http_request \<Rightarrow> string \<Rightarrow> bool option" where
  "formBool r key = ParseBool (FormValue (in_req r) key)"

definition formTick :: "http_request \<Rightarrow> string + int" where
  "formTick r =
     (let str = TrimSpace (FormValue (in_req r) ''tick'') in
      if str = '''' then Inr 0
      else (case ParseInt str of
              Some tick \<Rightarrow> if tick < 0 then Inl ''invalid tick, require non-negative integer'' else Inr tick
            | None \<Rightarrow> Inl ''invalid tick, require non-negative integer''))"

definition formCircleId :: "HttpService \<Rightarrow> http_request \<Rightarrow> string \<Rightarrow> string + nat" where
  "formCircleId hs r key =
     (case ParseInt (FormValue (in_req r) key) of
        Some i \<Rightarrow> if i < 0 \<or> int (length (ip_Circles (hs_ip hs))) \<le> i then Inl (''invalid '' @ key) else Inr (nat i)
      | None \<Rightarrow> Inl (''invalid '' @ key))"

definition positive_param :: "http_request \<Rightarrow> string \<Rightarrow> int \<Rightarrow> int option" where
  "positive_param r key dflt =
     (let str = TrimSpace (FormValue (in_req r) key) in
      if str \<noteq> '''' then (case ParseInt str of Some n \<Rightarrow> if n \<le> 0 then None else Some n | None \<Rightarrow> None)
      else Some dflt)"

definition setWorker :: "http_request \<Rightarrow> Transfer \<Rightarrow> Transfer \<times> string option" where
  "setWorker r tx =
     (case positive_param r ''worker'' DefaultWorker of
        None \<Rightarrow> (tx, Some ''invalid worker, require positive integer'')
      | Some n \<Rightarrow> (tx\<lparr>tx_Worker := n\<rparr>, None))"

definition setBatch :: "http_request \<Rightarrow> Transfer \<Rightarrow> Transfer \<times> string option" where
  "setBatch r tx =
     (case positive_param r ''batch'' DefaultBatch of
        None \<Rightarrow> (tx, Some ''invalid batch, require positive integer'')
      | Some n \<Rightarrow> (tx\<lparr>tx_Batch := n\<rparr>, None))"

definition setLimit :: "http_request \<Rightarrow> Transfer \<Rightarrow> Transfer \<times> string option" where
  "setLimit r tx =
     (case positive_param r ''limit'' DefaultLimit of
        None \<Rightarrow> (tx, Some ''invalid limit, require positive integer'')
      | Some n \<Rightarrow> (tx\<lparr>tx_Limit := n\<rparr>, None))"

text \<open>The regular expression \<^verbatim>\<open>^[\w-.]+:\d{1,5}$\<close>.\<close>

definition host_byte :: "byte \<Rightarrow> bool" where
  "host_byte c \<longleftrightarrow> is_digit c \<or> c \<in> set ''ABCDEFGHIJKLMNOPQRSTUVWXYZabcdefghijklmnopqrstuvwxyz_-.''"

definition is_addr :: "string \<Rightarrow> bool" where
  "is_addr s =
     (case IndexByte s (CHR '':'') of
        None \<Rightarrow> False
      | Some i \<Rightarrow>
          let host = take i s; port = drop (i + 1) s in
          host \<noteq> [] \<and> list_all host_byte host \<and> port \<noteq> [] \<and> length port \<le> 5 \<and> list_all is_digit port)"

definition ErrInvalidHaAddrs :: string where
  "ErrInvalidHaAddrs = ''invalid ha_addrs, require at least two addresses as <host:port>, comma-separated''"

definition setHaAddrs :: "http_request \<Rightarrow> Transfer \<Rightarrow> Transfer \<times> string option" where
  "setHaAddrs r tx =
     (let haAddrs = formValues r ''ha_addrs'' in
      if 1 < length haAddrs then
        (if list_ex (\<lambda>a. \<not> is_addr a) haAddrs then (tx, Some ErrInvalidHaAddrs) else (tx\<lparr>tx_HaAddrs := haAddrs\<rparr>, None))
      else if length haAddrs = 1 then (tx, Some ErrInvalidHaAddrs)
      else (tx, None))"

text \<open>The parameters are set one after the other: those before the first bad one stay set.\<close>

fun set_params :: "(Transfer \<Rightarrow> Transfer \<times> string option) list \<Rightarrow> Transfer \<Rightarrow> Transfer \<times> string option" where
  "set_params [] tx = (tx, None)"
| "set_params (f # fs) tx = (case f tx of (tx, Some e) \<Rightarrow> (tx, Some e) | (tx, None) \<Rightarrow> set_params fs tx)"

definition setParam :: "http_request \<Rightarrow> Transfer \<Rightarrow> Transfer \<times> string option" where
  "setParam r tx = set_params [setWorker r, setBatch r, setLimit r, setHaAddrs r] tx"

subsection \<open>The handlers\<close>

type_synonym handled = "(HttpService \<times> Writer \<times> background option) option"

definition answer_with :: "HttpService \<Rightarrow> Writer \<Rightarrow> handled" where
  "answer_with hs w = Some (hs, w, None)"

definition when_authorized ::
    "svc_env \<Rightarrow> HttpService \<Rightarrow> http_request \<Rightarrow> string list \<Rightarrow> Writer \<Rightarrow> (Writer \<Rightarrow> handled) \<Rightarrow> handled" where
  "when_authorized env hs r methods w k =
     (case checkMethodAndAuth env hs r methods w of (False, w) \<Rightarrow> answer_with hs w | (True, w) \<Rightarrow> k w)"

definition refuse :: "svc_env \<Rightarrow> HttpService \<Rightarrow> http_request \<Rightarrow> Writer \<Rightarrow> int \<Rightarrow> string \<Rightarrow> handled" where
  "refuse env hs r w status err = answer_with hs (WriteError env r w status err)"

definition HandlerPing :: "svc_env \<Rightarrow> HttpService \<Rightarrow> http_request \<Rightarrow> Writer \<Rightarrow> handled" where
  "HandlerPing env hs r w = answer_with hs (WriteHeader w 204)"

definition HandlerQuery :: "svc_env \<Rightarrow> HttpService \<Rightarrow> http_request \<Rightarrow> Writer \<Rightarrow> handled" where
  "HandlerQuery env hs r w =
     when_authorized env hs r [''GET'', ''POST''] w (\<lambda>w.
       do { (ip, req, w, body, err) \<leftarrow> Query (sv_xe env) (sv_order env) (sv_perms env) (hs_ip hs) (in_req r) w;
            let hs = hs\<lparr>hs_ip := ip\<rparr>;
            (case err of
               Some e \<Rightarrow> refuse env hs r w 400 (Error_text env e)
             | None \<Rightarrow> answer_with hs (hs_WriteBody w body)) })"

definition flux_request :: "svc_env \<Rightarrow> string \<Rightarrow> bytes \<Rightarrow> string + FluxRequest" where
  "flux_request env mt rbody =
     (if mt = ''application/vnd.flux'' then Inr \<lparr>fr_Spec = None, fr_Query = rbody, fr_Type = ''''\<rparr>
      else (case sv_flux env rbody of
              Inl e \<Rightarrow> Inl (''failed parsing request body as JSON: '' @ Error_text env e)
            | Inr qr \<Rightarrow> Inr qr))"

definition HandlerQueryV2 :: "svc_env \<Rightarrow> HttpService \<Rightarrow> http_request \<Rightarrow> Writer \<Rightarrow> handled" where
  "HandlerQueryV2 env hs r w =
     when_authorized env hs r [''POST''] w (\<lambda>w.
       let ct = values_get (rq_Header (in_req r)) ''Content-Type'';
           contentType = (if ct \<noteq> '''' then ct else ''application/json'')
       in case sv_mime env contentType of
         Inl e \<Rightarrow> refuse env hs r w 400 (Error_text env e)
       | Inr mt \<Rightarrow>
           (case in_Body r of
              Inl e \<Rightarrow> refuse env hs r w 400 (Error_text env e)
            | Inr rbody \<Rightarrow>
                (case flux_request env mt rbody of
                   Inl msg \<Rightarrow> refuse env hs r w 400 msg
                 | Inr qr \<Rightarrow>
                     if fr_Query qr = '''' \<and> fr_Spec qr = None
                     then refuse env hs r w 400 ''request body requires either spec or query''
                     else if fr_Type qr \<noteq> '''' \<and> fr_Type qr \<noteq> ''flux''
                     then refuse env hs r w 400 (''unknown query type: '' @ fr_Type qr)
                     else do {
                       (ip, req, w, err) \<leftarrow> ip_QueryFlux (sv_xe env) (sv_fx env) (sv_perms env) (hs_ip hs) qr
                                               ((in_req r)\<lparr>rq_Body := rbody\<rparr>) w;
                       let hs = hs\<lparr>hs_ip := ip\<rparr>;
                       (case err of
                          Some e \<Rightarrow> refuse env hs r w 400 (Error_text env e)
                        | None \<Rightarrow> answer_with hs w) })))"

text \<open>The common tail of the two write handlers. \<^verbatim>\<open>ip.Write\<close> never reports an error.\<close>

definition handlerWrite ::
    "svc_env \<Rightarrow> HttpService \<Rightarrow> string \<Rightarrow> string \<Rightarrow> string \<Rightarrow> http_request \<Rightarrow> Writer \<Rightarrow> handled" where
  "handlerWrite env hs db rp precision r w =
     (case (if values_get (rq_Header (in_req r)) ''Content-Encoding'' = ''gzip'' then sv_gzip env (in_Body r)
            else Some (in_Body r)) of
        None \<Rightarrow> refuse env hs r w 400 ''unable to decode gzip body''
      | Some (Inl e) \<Rightarrow> refuse env hs r w 400 (Error_text env e)
      | Some (Inr p) \<Rightarrow>
          do { ip \<leftarrow> ip_Write (sv_we env) (sv_clock env) (hs_ip hs) p db rp precision;
               answer_with (hs\<lparr>hs_ip := ip\<rparr>) (WriteHeader w 204) })"

definition HandlerWrite :: "svc_env \<Rightarrow> HttpService \<Rightarrow> http_request \<Rightarrow> Writer \<Rightarrow> handled" where
  "HandlerWrite env hs r w =
     when_authorized env hs r [''POST''] w (\<lambda>w.
       let precision = values_get (in_Query r) ''precision'' in
       if precision \<notin> {'''', ''n'', ''ns'', ''u'', ''ms'', ''s'', ''m'', ''h''}
       then refuse env hs r w 400 (''invalid precision '' @ sv_quote env precision @ '' (use n, ns, u, ms, s, m or h)'')
       else (case queryDB hs r False of
               Inl msg \<Rightarrow> refuse env hs r w 400 msg
             | Inr db \<Rightarrow> handlerWrite env hs db (values_get (in_Query r) ''rp'')
                           (if precision = '''' then ''ns'' else precision) r w))"

definition HandlerWriteV2 :: "svc_env \<Rightarrow> HttpService \<Rightarrow> http_request \<Rightarrow> Writer \<Rightarrow> handled" where
  "HandlerWriteV2 env hs r w =
     when_authorized env hs r [''POST''] w (\<lambda>w.
       let precision = values_get (in_Query r) ''precision'' in
       if precision \<notin> {''ns'', ''us'', ''ms'', ''s'', ''''}
       then refuse env hs r w 400 (''invalid precision '' @ sv_quote env precision @ '' (use ns, us, ms or s)'')
       else (case bucket2dbrp env (values_get (in_Query r) ''bucket'') of
               Inl msg \<Rightarrow> refuse env hs r w 404 msg
             | Inr (db, rp) \<Rightarrow>
                 if IsForbiddenDB (hs_ip hs) db then refuse env hs r w 400 (forbidden db)
                 else handlerWrite env hs db rp
                        (if precision = ''ns'' then ''n'' else if precision = ''us'' then ''u'' else precision) r w))"

definition HandlerHealth :: "svc_env \<Rightarrow> HttpService \<Rightarrow> http_request \<Rightarrow> Writer \<Rightarrow> handled" where
  "HandlerHealth env hs r w =
     when_authorized env hs r [''GET''] w (\<lambda>w.
       do { (ip, health) \<leftarrow> ip_GetHealth (sv_health env) (we_lookup (sv_we env)) (we_measureOnly (sv_we env)) (hs_ip hs)
                              (values_get (in_Query r) ''stats'' = ''true'');
            answer_with (hs\<lparr>hs_ip := ip\<rparr>) (WriteData env r w 200 (HealthPayload health)) })"

text \<open>A nil backend panics.\<close>

definition replica_row :: "Proxy \<Rightarrow> be_ptr option \<Rightarrow> (string \<times> string \<times> nat \<times> string) option" where
  "replica_row ip b =
     map_option (\<lambda>p. let hb = ib_hb (get_be ip p); c = ip_Circles ip ! fst p
                     in (hb_Name hb, hb_Url hb, ic_CircleId c, ic_Name c)) b"

definition HandlerReplica :: "svc_env \<Rightarrow> HttpService \<Rightarrow> http_request \<Rightarrow> Writer \<Rightarrow> handled" where
  "HandlerReplica env hs r w =
     when_authorized env hs r [''GET''] w (\<lambda>w.
       let db = values_get (in_Query r) ''db''; meas = values_get (in_Query r) ''meas'' in
       if db \<noteq> '''' \<and> meas \<noteq> '''' then
         (case GetBackends (we_lookup (sv_we env)) (hs_ip hs) (GetKey (we_measureOnly (sv_we env)) db meas) of
            (ip, backends) \<Rightarrow>
              do { data \<leftarrow> those (map (replica_row ip) backends);
                   answer_with (hs\<lparr>hs_ip := ip\<rparr>) (WriteData env r w 200 (ReplicaPayload data)) })
       else refuse env hs r w 400 ''invalid db or meas'')"

definition HandlerEncrypt :: "svc_env \<Rightarrow> HttpService \<Rightarrow> http_request \<Rightarrow> Writer \<Rightarrow> handled" where
  "HandlerEncrypt env hs r w =
     (case checkMethod env r [''GET''] w of
        (False, w) \<Rightarrow> answer_with hs w
      | (True, w) \<Rightarrow> answer_with hs (WriteText w 200 (AesEncrypt (sv_encrypt env) (values_get (in_Query r) ''text''))))"

definition HandlerDecrypt :: "svc_env \<Rightarrow> HttpService \<Rightarrow> http_request \<Rightarrow> Writer \<Rightarrow> handled" where
  "HandlerDecrypt env hs r w =
     (case checkMethod env r [''GET''] w of
        (False, w) \<Rightarrow> answer_with hs w
      | (True, w) \<Rightarrow>
          if \<not> CheckCipherKey (values_get (in_Query r) ''key'') then refuse env hs r w 400 ''invalid key''
          else answer_with hs (WriteText w 200 (AesDecrypt (sv_decrypt env) (values_get (in_Query r) ''text''))))"

subsection \<open>Starting a transfer\<close>

definition circle_busy :: "nat \<Rightarrow> string" where
  "circle_busy cid = ''circle '' @ Itoa (int cid) @ '' is transferring''"

text \<open>The common end of the handlers that start a transfer: the parameters are set and the
  goroutine is started.\<close>

definition start_transfer ::
    "svc_env \<Rightarrow> HttpService \<Rightarrow> http_request \<Rightarrow> Writer \<Rightarrow> background \<Rightarrow> handled" where
  "start_transfer env hs r w b =
     (if tx_Resyncing (hs_tx hs) then answer_with hs (WriteText w 400 ''proxy is resyncing'')
      else (case setParam r (hs_tx hs) of
              (tx, Some e) \<Rightarrow> refuse env (hs\<lparr>hs_tx := tx\<rparr>) r w 400 e
            | (tx, None) \<Rightarrow> Some (hs\<lparr>hs_tx := tx\<rparr>, WriteText w 202 ''accepted'', Some b)))"

text \<open>The backends in the body of \<^verbatim>\<open>rm\<close>: each gets new statistics, at once; a null is a nil
  pointer.\<close>

fun removed_backends :: "BackendConfig option list \<Rightarrow> CircleState \<Rightarrow> (HttpBackend list \<times> CircleState) option" where
  "removed_backends [] cs = Some ([], cs)"
| "removed_backends (None # cfgs) cs = None"
| "removed_backends (Some cfg # cfgs) cs =
     do { (bes, cs) \<leftarrow> removed_backends cfgs (cs\<lparr>cs_Stats := map_set (bc_Url cfg) zero_stats (cs_Stats cs)\<rparr>);
          Some (ib_hb (NewSimpleBackend cfg) # bes, cs) }"

definition HandlerRebalance :: "svc_env \<Rightarrow> HttpService \<Rightarrow> http_request \<Rightarrow> Writer \<Rightarrow> handled" where
  "HandlerRebalance env hs r w =
     when_authorized env hs r [''POST''] w (\<lambda>w.
       case formCircleId hs r ''circle_id'' of
         Inl msg \<Rightarrow> refuse env hs r w 400 msg
       | Inr cid \<Rightarrow>
           let operation = FormValue (in_req r) ''operation'' in
           if operation \<noteq> ''add'' \<and> operation \<noteq> ''rm'' then refuse env hs r w 400 ''invalid operation''
           else
             (case (if operation = ''rm'' then sv_backends env (in_Body r) else Some []) of
                None \<Rightarrow> refuse env hs r w 400 ''invalid backends from body''
              | Some cfgs \<Rightarrow>
                  do { cs \<leftarrow> byte_at (tx_CircleStates (hs_tx hs)) cid;
                       (bes, cs) \<leftarrow> removed_backends cfgs cs;
                       ic \<leftarrow> byte_at (ip_Circles (hs_ip hs)) cid;
                       let hs = hs\<lparr>hs_tx := (hs_tx hs)\<lparr>tx_CircleStates := (tx_CircleStates (hs_tx hs))[cid := cs]\<rparr>\<rparr>;
                       if cs_Transferring cs then answer_with hs (WriteText w 400 (circle_busy cid))
                       else start_transfer env hs r w (Rebalancing cid (bes @ circle_hbs ic) (formValues r ''dbs'')) }))"

definition HandlerRecovery :: "svc_env \<Rightarrow> HttpService \<Rightarrow> http_request \<Rightarrow> Writer \<Rightarrow> handled" where
  "HandlerRecovery env hs r w =
     when_authorized env hs r [''POST''] w (\<lambda>w.
       case formCircleId hs r ''from_circle_id'' of
         Inl msg \<Rightarrow> refuse env hs r w 400 msg
       | Inr fromId \<Rightarrow>
           (case formCircleId hs r ''to_circle_id'' of
              Inl msg \<Rightarrow> refuse env hs r w 400 msg
            | Inr toId \<Rightarrow>
                if fromId = toId then refuse env hs r w 400 ''from_circle_id and to_circle_id cannot be same''
                else do {
                  fcs \<leftarrow> byte_at (tx_CircleStates (hs_tx hs)) fromId;
                  tcs \<leftarrow> byte_at (tx_CircleStates (hs_tx hs)) toId;
                  if cs_Transferring fcs \<or> cs_Transferring tcs
                  then answer_with hs (WriteText w 400
                         (''circle '' @ Itoa (int fromId) @ '' or '' @ Itoa (int toId) @ '' is transferring''))
                  else start_transfer env hs r w (Recovering fromId toId (formValues r ''backend_urls'') (formValues r ''dbs'')) }))"

definition HandlerResync :: "svc_env \<Rightarrow> HttpService \<Rightarrow> http_request \<Rightarrow> Writer \<Rightarrow> handled" where
  "HandlerResync env hs r w =
     when_authorized env hs r [''POST''] w (\<lambda>w.
       case formTick r of
         Inl msg \<Rightarrow> refuse env hs r w 400 msg
       | Inr tick \<Rightarrow>
           (case find (\<lambda>(cs, ic). cs_Transferring cs) (zip (tx_CircleStates (hs_tx hs)) (ip_Circles (hs_ip hs))) of
              Some (cs, ic) \<Rightarrow> answer_with hs (WriteText w 400 (circle_busy (ic_CircleId ic)))
            | None \<Rightarrow> start_transfer env hs r w (Resyncing (formValues r ''dbs'') tick)))"

definition HandlerCleanup :: "svc_env \<Rightarrow> HttpService \<Rightarrow> http_request \<Rightarrow> Writer \<Rightarrow> handled" where
  "HandlerCleanup env hs r w =
     when_authorized env hs r [''POST''] w (\<lambda>w.
       case formCircleId hs r ''circle_id'' of
         Inl msg \<Rightarrow> refuse env hs r w 400 msg
       | Inr cid \<Rightarrow>
           do { cs \<leftarrow> byte_at (tx_CircleStates (hs_tx hs)) cid;
                if cs_Transferring cs then answer_with hs (WriteText w 400 (circle_busy cid))
                else start_transfer env hs r w (Cleaning cid) })"

subsection \<open>The state and the statistics of a transfer\<close>

definition circle_states :: "HttpService \<Rightarrow> (nat \<times> string \<times> bool) list" where
  "circle_states hs =
     map (\<lambda>(cs, ic). (ic_CircleId ic, ic_Name ic, cs_Transferring cs))
       (zip (tx_CircleStates (hs_tx hs)) (ip_Circles (hs_ip hs)))"

definition set_transferring :: "HttpService \<Rightarrow> nat \<Rightarrow> bool \<Rightarrow> HttpService option" where
  "set_transferring hs cid b =
     do { cs \<leftarrow> byte_at (tx_CircleStates (hs_tx hs)) cid;
          ic \<leftarrow> byte_at (ip_Circles (hs_ip hs)) cid;
          Some (hs\<lparr>hs_tx := (hs_tx hs)\<lparr>tx_CircleStates := (tx_CircleStates (hs_tx hs))[cid := cs\<lparr>cs_Transferring := b\<rparr>]\<rparr>,
                   hs_ip := (hs_ip hs)\<lparr>ip_Circles := (ip_Circles (hs_ip hs))[cid := ic_SetTransferIn ic b]\<rparr>\<rparr>) }"

text \<open>The second half of a post: the state of one circle, after the resyncing flag.\<close>

definition post_circle :: "svc_env \<Rightarrow> HttpService \<Rightarrow> http_request \<Rightarrow> Writer \<Rightarrow> bool option \<Rightarrow> handled" where
  "post_circle env hs r w resyncing =
     (if FormValue (in_req r) ''circle_id'' \<noteq> '''' \<or> FormValue (in_req r) ''transferring'' \<noteq> '''' then
        (case formCircleId hs r ''circle_id'' of
           Inl msg \<Rightarrow> refuse env hs r w 400 msg
         | Inr cid \<Rightarrow>
             (case formBool r ''transferring'' of
                None \<Rightarrow> refuse env hs r w 400 ''illegal transferring''
              | Some b \<Rightarrow>
                  do { hs \<leftarrow> set_transferring hs cid b;
                       let ic = ip_Circles (hs_ip hs) ! cid;
                       answer_with hs (WriteData env r w 200 (SetPayload resyncing (Some (ic_CircleId ic, ic_Name ic, b)))) }))
      else if resyncing = None then refuse env hs r w 400 ''missing query parameter''
      else answer_with hs (WriteData env r w 200 (SetPayload resyncing None)))"

definition HandlerTransferState :: "svc_env \<Rightarrow> HttpService \<Rightarrow> http_request \<Rightarrow> Writer \<Rightarrow> handled" where
  "HandlerTransferState env hs r w =
     when_authorized env hs r [''GET'', ''POST''] w (\<lambda>w.
       if rq_Method (in_req r) = ''GET''
       then answer_with hs (WriteData env r w 200 (StatePayload (tx_Resyncing (hs_tx hs)) (circle_states hs)))
       else if rq_Method (in_req r) = ''POST'' then
         (if FormValue (in_req r) ''resyncing'' \<noteq> '''' then
            (case formBool r ''resyncing'' of
               None \<Rightarrow> refuse env hs r w 400 ''illegal resyncing''
             | Some b \<Rightarrow> post_circle env (hs\<lparr>hs_tx := (hs_tx hs)\<lparr>tx_Resyncing := b\<rparr>\<rparr>) r w (Some b))
          else post_circle env hs r w None)
       else answer_with hs w)"

definition HandlerTransferStats :: "svc_env \<Rightarrow> HttpService \<Rightarrow> http_request \<Rightarrow> Writer \<Rightarrow> handled" where
  "HandlerTransferStats env hs r w =
     when_authorized env hs r [''GET''] w (\<lambda>w.
       case formCircleId hs r ''circle_id'' of
         Inl msg \<Rightarrow> refuse env hs r w 400 msg
       | Inr cid \<Rightarrow>
           if FormValue (in_req r) ''type'' \<in> {''rebalance'', ''recovery'', ''resync'', ''cleanup''}
           then do { cs \<leftarrow> byte_at (tx_CircleStates (hs_tx hs)) cid;
                     answer_with hs (WriteData env r w 200 (StatsPayload (cs_Stats cs))) }
           else refuse env hs r w 400 ''invalid stats type'')"

subsection \<open>Prometheus\<close>

text \<open>The metric is the value of the last matcher on the name. When there is none the error is
  written, and the handler goes on.\<close>

definition matched_metric :: "(string \<times> string) list \<Rightarrow> string" where
  "matched_metric matchers = foldl (\<lambda>m (name, value). if name = ''__name__'' then value else m) '''' matchers"

definition HandlerPromRead :: "svc_env \<Rightarrow> HttpService \<Rightarrow> http_request \<Rightarrow> Writer \<Rightarrow> handled" where
  "HandlerPromRead env hs r w =
     when_authorized env hs r [''POST''] w (\<lambda>w.
       case queryDB hs r True of
         Inl msg \<Rightarrow> refuse env hs r w 400 msg
       | Inr db \<Rightarrow>
           (case in_Body r of
              Inl e \<Rightarrow> refuse env hs r w 500 (Error_text env e)
            | Inr compressed \<Rightarrow>
                (case sv_snappy env compressed of
                   Inl e \<Rightarrow> refuse env hs r w 400 (Error_text env e)
                 | Inr reqBuf \<Rightarrow>
                     (case sv_read env reqBuf of
                        Inl e \<Rightarrow> refuse env hs r w 400 (Error_text env e)
                      | Inr queries \<Rightarrow>
                          if length queries \<noteq> 1
                          then refuse env hs r w 400 ''prometheus read endpoint currently only supports one query at a time''
                          else
                            let metric = matched_metric (hd queries);
                                w = (if metric = '''' then WriteError env r w 400 ''prometheus metric not found'' else w)
                            in do {
                              (ip, req, w, body, err) \<leftarrow> ReadProm (sv_xe env) (sv_perms env) (hs_ip hs) db metric
                                                            ((in_req r)\<lparr>rq_Body := compressed\<rparr>) w;
                              let hs = hs\<lparr>hs_ip := ip\<rparr>;
                              (case err of
                                 Some e \<Rightarrow> refuse env hs r w 400 (Error_text env e)
                               | None \<Rightarrow> answer_with hs w) }))))"

text \<open>When the points cannot be written nothing is answered, which \<^verbatim>\<open>net/http\<close> makes a 200.\<close>

definition HandlerPromWrite :: "svc_env \<Rightarrow> HttpService \<Rightarrow> http_request \<Rightarrow> Writer \<Rightarrow> handled" where
  "HandlerPromWrite env hs r w =
     when_authorized env hs r [''POST''] w (\<lambda>w.
       case queryDB hs r False of
         Inl msg \<Rightarrow> refuse env hs r w 400 msg
       | Inr db \<Rightarrow>
           (case in_Body r of
              Inl e \<Rightarrow> refuse env hs r w 400 (Error_text env e)
            | Inr buf \<Rightarrow>
                (case sv_snappy env buf of
                   Inl e \<Rightarrow> refuse env hs r w 400 (Error_text env e)
                 | Inr reqBuf \<Rightarrow>
                     (case sv_write env reqBuf of
                        Inl e \<Rightarrow> refuse env hs r w 400 (Error_text env e)
                      | Inr tss \<Rightarrow>
                          (case WriteRequestToPoints (sv_NewPoint env) tss of
                             Inl e \<Rightarrow> refuse env hs r w 400 (Error_text env e)
                           | Inr (points, dropped) \<Rightarrow>
                               do { (ip, err) \<leftarrow> WritePoints (sv_we env) points db (values_get (in_Query r) ''rp'') None (hs_ip hs);
                                    let hs = hs\<lparr>hs_ip := ip\<rparr>;
                                    answer_with hs (if err = None then WriteHeader w 204 else w) })))))"

subsection \<open>The multiplexer\<close>

definition Register :: "(string \<times> (svc_env \<Rightarrow> HttpService \<Rightarrow> http_request \<Rightarrow> Writer \<Rightarrow> handled)) list" where
  "Register =
     [(''/ping'', HandlerPing), (''/query'', HandlerQuery), (''/write'', HandlerWrite),
      (''/api/v2/query'', HandlerQueryV2), (''/api/v2/write'', HandlerWriteV2), (''/health'', HandlerHealth),
      (''/replica'', HandlerReplica), (''/encrypt'', HandlerEncrypt), (''/decrypt'', HandlerDecrypt),
      (''/rebalance'', HandlerRebalance), (''/recovery'', HandlerRecovery), (''/resync'', HandlerResync),
      (''/cleanup'', HandlerCleanup), (''/transfer/state'', HandlerTransferState),
      (''/transfer/stats'', HandlerTransferStats), (''/api/v1/prom/read'', HandlerPromRead),
      (''/api/v1/prom/write'', HandlerPromWrite)]"

text \<open>Every other path is left to \<^verbatim>\<open>net/http\<close>, with the profiler registered or not.\<close>

definition ServeHTTP :: "svc_env \<Rightarrow> string \<Rightarrow> http_request \<Rightarrow> HttpService \<Rightarrow> Writer \<Rightarrow> handled" where
  "ServeHTTP env path r hs w =
     (let w = add_header ''X-Influxdb-Build'' ''InfluxDB Proxy'' (set_header ''X-Influxdb-Version'' (sv_Version env) w) in
      case map_get Register path of
        Some handler \<Rightarrow> handler env hs r w
      | None \<Rightarrow> answer_with hs (sv_nethttp env (hs_pprofEnabled hs) path r w))"

section \<open>Responses\<close>

text \<open>The texts tell the packages' own errors apart.\<close>

lemma sentinel_texts_distinct:
  "distinct (None # map sentinel_text
    [ErrBadRequest, ErrUnauthorized, ErrNotFound, ErrInternal, ErrUnknown, ErrWrongBackslash, ErrUnmatchedQuote,
     ErrUnclosed, ErrIllegalQL, ErrEmptyQuery, ErrDatabaseNotFound, ErrBackendsUnavailable, ErrGetMeasurement, ErrGetBackends,
     ErrGetBucket, ErrEqualMeasurement, ErrMultiMeasurements, ErrIllegalFluxQuery, ErrEmptyCircles, ErrEmptyBackends,
     ErrEmptyBackendName, ErrDuplicatedBackendName, ErrInvalidHashKey])"
  by code_simp

lemma status_WriteHeader [simp]:
  "rw_Status (WriteHeader w code) = (case rw_Status w of None \<Rightarrow> Some code | Some s \<Rightarrow> Some s)"
  by (simp add: WriteHeader_def split: option.split)

lemma status_WriteBody [simp]:
  "rw_Status (fst (Http_Backend.WriteBody w p)) = (case rw_Status w of None \<Rightarrow> Some 200 | Some s \<Rightarrow> Some s)"
  by (simp add: Http_Backend.WriteBody_def Let_def split: option.split)

lemma status_headers [simp]:
  "rw_Status (set_header k v w) = rw_Status w" "rw_Status (add_header k v w) = rw_Status w"
  by (simp_all add: set_header_def add_header_def)

lemma status_WriteError [simp]:
  "rw_Status (WriteError env r w code e) = (case rw_Status w of None \<Rightarrow> Some code | Some s \<Rightarrow> Some s)"
  by (simp add: WriteError_def Let_def split: option.split)

lemma status_WriteText [simp]:
  "rw_Status (WriteText w code t) = (case rw_Status w of None \<Rightarrow> Some code | Some s \<Rightarrow> Some s)"
  by (simp add: WriteText_def split: option.split)

lemma status_WriteData [simp]:
  "rw_Status (WriteData env r w code d) = (case rw_Status w of None \<Rightarrow> Some code | Some s \<Rightarrow> Some s)"
  by (simp add: WriteData_def Let_def split: option.split)

section \<open>The contract of a handler\<close>

text \<open>The state that the handlers rely on: a transfer state for every circle, positive limits and
  either no addresses of other proxies or several well-formed ones; and what never changes.\<close>

definition addrs_ok :: "string list \<Rightarrow> bool" where
  "addrs_ok as \<longleftrightarrow> length as \<noteq> 1 \<and> list_all is_addr as"

definition service_ok :: "HttpService \<Rightarrow> bool" where
  "service_ok hs \<longleftrightarrow>
     length (tx_CircleStates (hs_tx hs)) = length (ip_Circles (hs_ip hs)) \<and>
     positive (hs_tx hs) \<and> addrs_ok (tx_HaAddrs (hs_tx hs))"

definition fixed ::
    "HttpService \<Rightarrow> router \<Rightarrow> (circle_shape list \<times> Set) \<times> string \<times> string \<times> bool \<times> string \<times> string" where
  "fixed hs = (\<lambda>lookup. (proxy_shape lookup (hs_ip hs), hs_username hs, hs_password hs, hs_authEncrypt hs,
     tx_username (hs_tx hs), tx_password (hs_tx hs)))"

text \<open>The consistent hash that a request uses for its writes and its queries.\<close>

definition uses :: "router \<Rightarrow> svc_env \<Rightarrow> bool" where
  "uses lookup env \<longleftrightarrow> xe_lookup (sv_xe env) = lookup \<and> we_lookup (sv_we env) = lookup"

text \<open>The circles that a transfer works on exist and are idle.\<close>

definition idle :: "HttpService \<Rightarrow> nat \<Rightarrow> bool" where
  "idle hs cid \<longleftrightarrow> cid < length (ip_Circles (hs_ip hs)) \<and> \<not> cs_Transferring (tx_CircleStates (hs_tx hs) ! cid)"

definition may_start :: "HttpService \<Rightarrow> background \<Rightarrow> bool" where
  "may_start hs b \<longleftrightarrow>
     \<not> tx_Resyncing (hs_tx hs) \<and>
     (case b of
        Rebalancing cid bes dbs \<Rightarrow> idle hs cid
      | Recovering fromId toId urls dbs \<Rightarrow> idle hs fromId \<and> idle hs toId \<and> fromId \<noteq> toId
      | Resyncing dbs tick \<Rightarrow> (\<forall>cid < length (ip_Circles (hs_ip hs)). idle hs cid) \<and> 0 \<le> tick
      | Cleaning cid \<Rightarrow> idle hs cid)"

locale service_handler =
  fixes handler :: "svc_env \<Rightarrow> HttpService \<Rightarrow> http_request \<Rightarrow> Writer \<Rightarrow> handled"
  assumes keeps: "handler env hs r w = Some (hs', w', b) \<Longrightarrow> service_ok hs \<Longrightarrow> 
      service_ok hs' \<and> (uses lookup env \<longrightarrow> fixed hs' lookup = fixed hs lookup)"
    and starts: "handler env hs r w = Some (hs', w', Some bg) \<Longrightarrow> service_ok hs \<Longrightarrow>
      may_start hs bg \<and> may_start hs' bg \<and> authorized env hs r \<and> rq_Method (in_req r) = ''POST''"

locale guarded_handler = service_handler +
  assumes refuses: "\<not> authorized env hs r \<Longrightarrow>
    \<exists>code \<in> {401, 405}. \<exists>msg. handler env hs r w = Some (hs, WriteError env r w code msg, None)"
begin

lemma acts_authorized: "handler env hs r w = Some (hs', w', b) \<Longrightarrow> hs' \<noteq> hs \<or> b \<noteq> None \<Longrightarrow> authorized env hs r"
  using refuses [of env hs r w] by auto

lemma refusal_status:
  assumes "\<not> authorized env hs r" "rw_Status w = None"
  shows "\<exists>w'. handler env hs r w = Some (hs, w', None) \<and> rw_Status w' \<in> {Some 401, Some 405}"
  using refuses [OF assms(1), of w] assms(2) by auto

end

text \<open>Behind \<open>when_authorized\<close> it is enough to look at what follows the checks.\<close>

lemma when_authorized_refuses:
  "\<not> authorized env hs r \<Longrightarrow> \<exists>code \<in> {401, 405}. \<exists>msg. when_authorized env hs r methods w k = Some (hs, WriteError env r w code msg, None)"
  by (auto simp: when_authorized_def checkMethodAndAuth_def checkMethod_def checkAuth_def answer_with_def)

lemma when_authorized_cases:
  assumes "when_authorized env hs r methods w k = Some (hs', w', b)"
  obtains "hs' = hs" "b = None" | "k w = Some (hs', w', b)" "authorized env hs r" "rq_Method (in_req r) \<in> set methods"
  using assms by (auto simp: when_authorized_def checkMethodAndAuth_def checkMethod_def checkAuth_def answer_with_def split: if_splits)

lemma guarded_handlerI:
  assumes eq: "\<And>env hs r w. handler env hs r w = when_authorized env hs r methods w (k env hs r)"
    and k: "\<And>env hs r w hs' w' b. k env hs r w = Some (hs', w', b) \<Longrightarrow> service_ok hs \<Longrightarrow>
      service_ok hs' \<and> (\<forall>lookup. uses lookup env \<longrightarrow> fixed hs' lookup = fixed hs lookup) \<and>
      (\<forall>bg. b = Some bg \<longrightarrow> may_start hs bg \<and> may_start hs' bg \<and> methods = [''POST''])"
  shows "guarded_handler handler"
proof unfold_locales
  fix env hs r w hs' w' b lookup
  assume "handler env hs r w = Some (hs', w', b)" "service_ok hs"
  then show "service_ok hs' \<and> (uses lookup env \<longrightarrow> fixed hs' lookup = fixed hs lookup)"
    unfolding eq using k by (elim when_authorized_cases) auto
next
  fix env hs r w hs' w' bg
  assume "handler env hs r w = Some (hs', w', Some bg)" "service_ok hs"
  then show "may_start hs bg \<and> may_start hs' bg \<and> authorized env hs r \<and> rq_Method (in_req r) = ''POST''"
    unfolding eq using k by (elim when_authorized_cases) auto
next
  fix env :: svc_env and hs r w
  assume "\<not> authorized env hs r"
  from when_authorized_refuses [OF this]
  show "\<exists>code \<in> {401, 405}. \<exists>msg. handler env hs r w = Some (hs, WriteError env r w code msg, None)" unfolding eq .
qed

subsection \<open>The handlers that only use the proxy\<close>

lemma proxy_kept:
  "length (ip_Circles ip) = length (ip_Circles (hs_ip hs)) \<Longrightarrow> service_ok (hs\<lparr>hs_ip := ip\<rparr>) = service_ok hs"
  "proxy_shape lookup ip = proxy_shape lookup (hs_ip hs) \<Longrightarrow> fixed (hs\<lparr>hs_ip := ip\<rparr>) lookup = fixed hs lookup"
  by (simp_all add: service_ok_def fixed_def)

lemma same_proxy:
  assumes "proxy_shape lookup ip' = proxy_shape lookup ip"
  shows "length (ip_Circles ip') = length (ip_Circles ip) \<and> proxy_shape lookup ip' = proxy_shape lookup ip"
  using assms by (auto simp: proxy_shape_def dest: shape_length)

lemma answers [simp]:
  "refuse env hs r w status e = Some (hs', w', b) \<longleftrightarrow> hs' = hs \<and> b = None \<and> w' = WriteError env r w status e"
  "answer_with hs w = Some (hs', w', b) \<longleftrightarrow> hs' = hs \<and> b = None \<and> w' = w"
  by (auto simp: refuse_def answer_with_def)

interpretation query_handler: guarded_handler HandlerQuery
  by (rule guarded_handlerI [OF HandlerQuery_def])
    (auto simp: bind_eq_Some_conv Let_def split: option.split_asm dest!: Query_shape [THEN same_proxy] simp: proxy_kept uses_def)

interpretation flux_handler: guarded_handler HandlerQueryV2
  by (rule guarded_handlerI [OF HandlerQueryV2_def])
    (auto simp: bind_eq_Some_conv Let_def proxy_kept uses_def split: option.split_asm sum.split_asm if_split_asm dest!: ip_QueryFlux_shape [THEN same_proxy])

lemma handlerWrite_kept:
  "handlerWrite env hs db rp precision r w = Some (hs', w', b) \<Longrightarrow>
     service_ok hs' = service_ok hs \<and> fixed hs' (we_lookup (sv_we env)) = fixed hs (we_lookup (sv_we env)) \<and> b = None"
  by (auto simp: handlerWrite_def bind_eq_Some_conv proxy_kept split: option.split_asm sum.split_asm
      dest!: ip_Write_shape [THEN same_proxy])

interpretation write_handler: guarded_handler HandlerWrite
  by (rule guarded_handlerI [OF HandlerWrite_def])
    (auto simp: Let_def uses_def split: sum.split_asm if_split_asm dest!: handlerWrite_kept)

interpretation write_v2_handler: guarded_handler HandlerWriteV2
  by (rule guarded_handlerI [OF HandlerWriteV2_def])
    (auto simp: Let_def uses_def split: sum.split_asm if_split_asm dest!: handlerWrite_kept)

interpretation health_handler: guarded_handler HandlerHealth
  by (rule guarded_handlerI [OF HandlerHealth_def]) (auto simp: bind_eq_Some_conv proxy_kept uses_def dest!: ip_GetHealth_shape [THEN same_proxy])

interpretation replica_handler: guarded_handler HandlerReplica
  by (rule guarded_handlerI [OF HandlerReplica_def])
    (auto simp: Let_def bind_eq_Some_conv proxy_kept uses_def split: if_split_asm prod.split_asm dest!: GetBackends_shape [THEN same_proxy])

interpretation prom_read_handler: guarded_handler HandlerPromRead
  by (rule guarded_handlerI [OF HandlerPromRead_def])
    (auto simp: Let_def bind_eq_Some_conv proxy_kept uses_def split: if_split_asm sum.split_asm option.split_asm dest!: ReadProm_shape [THEN same_proxy])

interpretation prom_write_handler: guarded_handler HandlerPromWrite
  by (rule guarded_handlerI [OF HandlerPromWrite_def])
    (auto simp: bind_eq_Some_conv proxy_kept uses_def split: if_split_asm sum.split_asm prod.split_asm dest!: WritePoints_shape [THEN same_proxy])

interpretation ping_handler: service_handler HandlerPing
  by unfold_locales (auto simp: HandlerPing_def)

interpretation encrypt_handler: service_handler HandlerEncrypt
  by unfold_locales (auto simp: HandlerEncrypt_def split: prod.split_asm bool.split_asm)

interpretation decrypt_handler: service_handler HandlerDecrypt
  by unfold_locales (auto simp: HandlerDecrypt_def split: prod.split_asm bool.split_asm if_split_asm)

subsection \<open>The handlers that start a transfer\<close>

lemma positive_param_pos: "positive_param r key dflt = Some n \<Longrightarrow> 0 < dflt \<Longrightarrow> 0 < n"
  by (auto simp: positive_param_def Let_def split: if_split_asm option.split_asm)

lemma set_params_induct:
  assumes "set_params fs tx = (tx', e)" "P tx" "\<And>f tx. f \<in> set fs \<Longrightarrow> P tx \<Longrightarrow> P (fst (f tx))"
  shows "P tx'"
  using assms
proof (induction fs arbitrary: tx)
  case (Cons f fs)
  obtain tx1 e1 where f: "f tx = (tx1, e1)" by (cases "f tx")
  with Cons.prems(2) Cons.prems(3) [of f tx] have "P tx1" by simp
  with Cons f show ?case by (cases e1) auto
qed simp

text \<open>What \<^verbatim>\<open>setParam\<close> keeps, whether or not it reports an error.\<close>

definition params_kept :: "Transfer \<Rightarrow> Transfer \<Rightarrow> bool" where
  "params_kept tx tx' \<longleftrightarrow>
     tx_CircleStates tx' = tx_CircleStates tx \<and> tx_Resyncing tx' = tx_Resyncing tx \<and> tx_username tx' = tx_username tx \<and>
     tx_password tx' = tx_password tx \<and> (positive tx \<longrightarrow> positive tx') \<and>
     (addrs_ok (tx_HaAddrs tx) \<longrightarrow> addrs_ok (tx_HaAddrs tx'))"

lemma setParam_kept: "setParam r tx = (tx', e) \<Longrightarrow> params_kept tx tx'"
proof (unfold setParam_def, erule set_params_induct [where P = "params_kept tx"])
  show "params_kept tx tx" by (simp add: params_kept_def)
next
  fix f tx1
  assume k: "params_kept tx tx1" and f: "f \<in> set [setWorker r, setBatch r, setLimit r, setHaAddrs r]"
  have p: "0 < DefaultWorker" "0 < DefaultBatch" "0 < DefaultLimit"
    by (simp_all add: DefaultWorker_def DefaultBatch_def DefaultLimit_def)
  have "params_kept tx (fst (setWorker r tx1))" "params_kept tx (fst (setBatch r tx1))" "params_kept tx (fst (setLimit r tx1))"
    using k p by (auto simp: setWorker_def setBatch_def setLimit_def params_kept_def positive_def
        dest: positive_param_pos split: option.split)
  moreover have "params_kept tx (fst (setHaAddrs r tx1))"
    using k by (auto simp: setHaAddrs_def Let_def params_kept_def positive_def addrs_ok_def list_ex_iff list_all_iff)
  ultimately show "params_kept tx (fst (f tx1))" using f by auto
qed

lemma start_transfer_kept:
  assumes "start_transfer env hs r w bg = Some (hs', w', b)" "service_ok hs"
    and "\<not> tx_Resyncing (hs_tx hs) \<Longrightarrow> may_start hs bg"
  shows "service_ok hs' \<and> fixed hs' = fixed hs \<and> (\<forall>bg. b = Some bg \<longrightarrow> may_start hs bg \<and> may_start hs' bg)"
proof (cases "tx_Resyncing (hs_tx hs)")
  case False
  obtain tx e where p: "setParam r (hs_tx hs) = (tx, e)" by (cases "setParam r (hs_tx hs)")
  from setParam_kept [OF this] have k: "params_kept (hs_tx hs) tx" .
  from assms(1) False p have hs': "hs' = hs\<lparr>hs_tx := tx\<rparr>" and b: "b \<in> {None, Some bg}"
    by (auto simp: start_transfer_def split: option.split_asm)
  from k assms(2) have "service_ok hs'" "fixed hs' = fixed hs"
    by (auto simp: hs' params_kept_def service_ok_def fixed_def)
  moreover from k have "may_start hs' bg = may_start hs bg"
    by (simp add: hs' params_kept_def may_start_def idle_def split: background.split)
  ultimately show ?thesis using b assms(3) [OF False] by auto
qed (use assms in \<open>auto simp: start_transfer_def\<close>)

lemma formCircleId_range: "formCircleId hs r key = Inr cid \<Longrightarrow> cid < length (ip_Circles (hs_ip hs))"
  by (auto simp: formCircleId_def split: option.split_asm if_split_asm)

lemma removed_backends_flag: "removed_backends cfgs cs = Some (bes, cs') \<Longrightarrow> cs_Transferring cs' = cs_Transferring cs"
  by (induction cfgs cs arbitrary: bes rule: removed_backends.induct) (auto simp: bind_eq_Some_conv)

lemma circle_state_update:
  assumes "service_ok hs" "cid < length (tx_CircleStates (hs_tx hs))"
    and "cs_Transferring cs = cs_Transferring (tx_CircleStates (hs_tx hs) ! cid)"
  defines "hs1 \<equiv> hs\<lparr>hs_tx := (hs_tx hs)\<lparr>tx_CircleStates := (tx_CircleStates (hs_tx hs))[cid := cs]\<rparr>\<rparr>"
  shows "service_ok hs1" "fixed hs1 = fixed hs" "may_start hs1 = may_start hs"
proof -
  have "idle hs1 i = idle hs i" for i
    using assms by (auto simp: idle_def hs1_def nth_list_update)
  then show "may_start hs1 = may_start hs" by (intro ext) (simp add: may_start_def hs1_def split: background.split)
qed (use assms in \<open>auto simp: service_ok_def fixed_def positive_def\<close>)

lemma idleI: "formCircleId hs r key = Inr cid \<Longrightarrow> byte_at (tx_CircleStates (hs_tx hs)) cid = Some cs \<Longrightarrow>
    \<not> cs_Transferring cs \<Longrightarrow> idle hs cid"
  by (auto simp: idle_def byte_at_Some_iff dest: formCircleId_range)

interpretation recovery_handler: guarded_handler HandlerRecovery
  by (rule guarded_handlerI [OF HandlerRecovery_def],
      auto simp: bind_eq_Some_conv may_start_def split: sum.split_asm if_split_asm intro: idleI dest!: start_transfer_kept)

interpretation cleanup_handler: guarded_handler HandlerCleanup
  by (rule guarded_handlerI [OF HandlerCleanup_def],
      auto simp: bind_eq_Some_conv may_start_def split: sum.split_asm if_split_asm intro: idleI dest!: start_transfer_kept)

lemma rebalance_start:
  assumes "formCircleId hs r ''circle_id'' = Inr cid" "service_ok hs"
    and "byte_at (tx_CircleStates (hs_tx hs)) cid = Some cs0" "removed_backends cfgs cs0 = Some (bes, cs)"
    and "hs1 = hs\<lparr>hs_tx := (hs_tx hs)\<lparr>tx_CircleStates := (tx_CircleStates (hs_tx hs))[cid := cs]\<rparr>\<rparr>"
    and "(if cs_Transferring cs then answer_with hs1 wa else start_transfer env hs1 r w (Rebalancing cid bs dbs)) = Some (hs', w', b)"
  shows "service_ok hs' \<and> fixed hs' = fixed hs \<and> (\<forall>bg. b = Some bg \<longrightarrow> may_start hs bg \<and> may_start hs' bg)"
proof -
  from assms(1-3) have cid: "cid < length (ip_Circles (hs_ip hs))" "cid < length (tx_CircleStates (hs_tx hs))"
    "tx_CircleStates (hs_tx hs) ! cid = cs0"
    by (auto dest: formCircleId_range simp: byte_at_Some_iff)
  note c = circle_state_update [OF assms(2) cid(2), of cs, folded assms(5)]
  from removed_backends_flag [OF assms(4)] cid have hs1: "service_ok hs1" "fixed hs1 = fixed hs" "may_start hs1 = may_start hs"
    using c by auto
  show ?thesis
  proof (cases "cs_Transferring cs")
    case False
    have "may_start hs1 (Rebalancing cid bs dbs)" if "\<not> tx_Resyncing (hs_tx hs1)"
      using that False cid by (simp add: may_start_def idle_def assms(5))
    with start_transfer_kept [of env hs1 r w "Rebalancing cid bs dbs" hs' w' b] False assms(6) hs1 show ?thesis by auto
  qed (use assms(6) hs1 in auto)
qed

interpretation rebalance_handler: guarded_handler HandlerRebalance
proof (rule guarded_handlerI [OF HandlerRebalance_def], goal_cases)
  case (1 env hs r w hs' w' b)
  show ?case
  proof (cases "formCircleId hs r ''circle_id''")
    case (Inr cid)
    let ?op = "FormValue (in_req r) ''operation''"
    let ?cfgs = "if ?op = ''rm'' then sv_backends env (in_Body r) else Some []"
    show ?thesis
    proof (cases "(?op \<noteq> ''add'' \<and> ?op \<noteq> ''rm'') \<or> ?cfgs = None")
      case False
      then obtain cfgs where cfgs: "?cfgs = Some cfgs" and op: "\<not> (?op \<noteq> ''add'' \<and> ?op \<noteq> ''rm'')" by blast
      from 1(1) Inr have "\<exists>cs0 bes cs bs. byte_at (tx_CircleStates (hs_tx hs)) cid = Some cs0 \<and>
          removed_backends cfgs cs0 = Some (bes, cs) \<and>
          (let hs = hs\<lparr>hs_tx := (hs_tx hs)\<lparr>tx_CircleStates := (tx_CircleStates (hs_tx hs))[cid := cs]\<rparr>\<rparr>
           in if cs_Transferring cs then answer_with hs (WriteText w 400 (circle_busy cid))
              else start_transfer env hs r w (Rebalancing cid bs (formValues r ''dbs''))) = Some (hs', w', b)"
        by (simp only: sum.case Let_def [of ?op] if_not_P [OF op] cfgs option.case bind_eq_Some_conv)
            (auto simp: bind_eq_Some_conv)
      then have "service_ok hs' \<and> fixed hs' = fixed hs \<and> (\<forall>bg. b = Some bg \<longrightarrow> may_start hs bg \<and> may_start hs' bg)"
        unfolding Let_def using rebalance_start [OF Inr 1(2) _ _ refl] by blast
      then show ?thesis by simp
    qed (use 1 Inr in \<open>auto split: if_split_asm\<close>)
  qed (use 1 in auto)
qed

lemma no_transferring_circle:
  assumes "find (\<lambda>(cs, ic). cs_Transferring cs) (zip (tx_CircleStates (hs_tx hs)) (ip_Circles (hs_ip hs))) = None" "service_ok hs"
  shows "\<forall>cid < length (ip_Circles (hs_ip hs)). idle hs cid"
  using assms by (fastforce simp: find_None_iff idle_def service_ok_def set_zip)

lemma formTick_nonneg: "formTick r = Inr tick \<Longrightarrow> 0 \<le> tick"
  by (auto simp: formTick_def Let_def split: if_split_asm option.split_asm)

interpretation resync_handler: guarded_handler HandlerResync
  by (rule guarded_handlerI [OF HandlerResync_def],
      auto simp: bind_eq_Some_conv may_start_def split: sum.split_asm option.split_asm
        intro: formTick_nonneg dest!: start_transfer_kept no_transferring_circle)

subsection \<open>The transfer state\<close>

lemma set_transferring_kept:
  assumes "set_transferring hs cid b = Some hs'" "service_ok hs"
  shows "service_ok hs' \<and> fixed hs' = fixed hs"
proof -
  from assms(1) have p: "proxy_shape lookup (hs_ip hs') = proxy_shape lookup (hs_ip hs)" for lookup
    by (auto simp: set_transferring_def bind_eq_Some_conv byte_at_Some_iff
        intro!: proxy_shape_eq shape_update same_circle_SetTransferIn)
  with assms same_proxy [OF p] show ?thesis
    by (auto simp: set_transferring_def bind_eq_Some_conv service_ok_def fixed_def positive_def)
qed

lemma post_circle_kept:
  "post_circle env hs r w res = Some (hs', w', b) \<Longrightarrow> service_ok hs \<Longrightarrow> service_ok hs' \<and> fixed hs' = fixed hs \<and> b = None"
  by (auto simp: post_circle_def Let_def bind_eq_Some_conv split: if_split_asm sum.split_asm option.split_asm
      dest: set_transferring_kept)

lemma resyncing_kept:
  "service_ok (hs\<lparr>hs_tx := (hs_tx hs)\<lparr>tx_Resyncing := b\<rparr>\<rparr>) = service_ok hs"
  "fixed (hs\<lparr>hs_tx := (hs_tx hs)\<lparr>tx_Resyncing := b\<rparr>\<rparr>) = fixed hs"
  by (simp_all add: service_ok_def fixed_def positive_def)

interpretation state_handler: guarded_handler HandlerTransferState
  by (rule guarded_handlerI [OF HandlerTransferState_def],
      auto simp: resyncing_kept split: if_split_asm option.split_asm dest!: post_circle_kept)

interpretation stats_handler: guarded_handler HandlerTransferStats
  by (rule guarded_handlerI [OF HandlerTransferStats_def],
      auto simp: bind_eq_Some_conv split: sum.split_asm if_split_asm)

end
