(* ===== verification/Service_Runs.thy ===== *)
theory Service_Runs
  imports Service
begin

text \<open>
  The service over time: every state that requests, transfers, their tasks and the background
  work of the backends lead to, starting from \<^verbatim>\<open>NewHttpService\<close>. A request is one step here, and so
  is each single change that a transfer makes, so transfers run interleaved with each other and
  with requests. The invariants rest on the contract of the handlers in \<open>Service\<close> and the
  frame rules in \<open>Shape\<close>. At the end the announcements of a transfer meet the handler of the
  proxy that receives them, and the two write endpoints are compared.
\<close>

section \<open>The registered handlers\<close>

lemma registered_handler: "map_get Register path = Some handler \<Longrightarrow> service_handler handler"
  unfolding Register_def
  by (auto split: if_split_asm intro: ping_handler.service_handler_axioms encrypt_handler.service_handler_axioms
      decrypt_handler.service_handler_axioms query_handler.service_handler_axioms flux_handler.service_handler_axioms
      write_handler.service_handler_axioms write_v2_handler.service_handler_axioms health_handler.service_handler_axioms
      replica_handler.service_handler_axioms prom_read_handler.service_handler_axioms
      prom_write_handler.service_handler_axioms rebalance_handler.service_handler_axioms
      recovery_handler.service_handler_axioms resync_handler.service_handler_axioms
      cleanup_handler.service_handler_axioms state_handler.service_handler_axioms stats_handler.service_handler_axioms)

lemma registered_guarded:
  "map_get Register path = Some handler \<Longrightarrow> path \<notin> {''/ping'', ''/encrypt'', ''/decrypt''} \<Longrightarrow> guarded_handler handler"
  unfolding Register_def
  by (auto split: if_split_asm intro: query_handler.guarded_handler_axioms flux_handler.guarded_handler_axioms
      write_handler.guarded_handler_axioms write_v2_handler.guarded_handler_axioms health_handler.guarded_handler_axioms
      replica_handler.guarded_handler_axioms prom_read_handler.guarded_handler_axioms
      prom_write_handler.guarded_handler_axioms rebalance_handler.guarded_handler_axioms
      recovery_handler.guarded_handler_axioms resync_handler.guarded_handler_axioms
      cleanup_handler.guarded_handler_axioms state_handler.guarded_handler_axioms stats_handler.guarded_handler_axioms)

lemma ServeHTTP_cases:
  assumes "ServeHTTP env path r hs w = Some (hs', w', b)"
  obtains handler w0 where "map_get Register path = Some handler" "handler env hs r w0 = Some (hs', w', b)" "rw_Status w0 = rw_Status w"
  | "map_get Register path = None" "hs' = hs" "b = None"
  using assms by (auto simp: ServeHTTP_def Let_def split: option.split_asm)

lemma ServeHTTP_registered:
  "map_get Register path = Some handler \<Longrightarrow> \<exists>w0. rw_Status w0 = rw_Status w \<and> ServeHTTP env path r hs w = handler env hs r w0"
  by (rule exI [of _ "add_header ''X-Influxdb-Build'' ''InfluxDB Proxy'' (set_header ''X-Influxdb-Version'' (sv_Version env) w)"])
    (simp add: ServeHTTP_def Let_def)

lemma ServeHTTP_keeps:
  assumes "ServeHTTP env path r hs w = Some (hs', w', b)" "service_ok hs"
  shows "service_ok hs' \<and> (uses lookup env \<longrightarrow> fixed hs' lookup = fixed hs lookup)"
  using assms(1)
proof (cases rule: ServeHTTP_cases)
  case (1 handler w0)
  show ?thesis by (rule service_handler.keeps [OF registered_handler [OF 1(1)] 1(2) assms(2)])
qed (use assms(2) in simp)

section \<open>Authentication\<close>

text \<open>C14: without valid credentials nothing happens. A request to any endpoint but \<^verbatim>\<open>/ping\<close>,
  \<^verbatim>\<open>/encrypt\<close> and \<^verbatim>\<open>/decrypt\<close> that carries the configured credentials neither in its URL nor
  in a basic or a token authorization is answered with 401, or with 405 when its method is
  wrong; the service does not change, no transfer is started and nothing panics.\<close>

theorem unauthorized_request_refused:
  assumes "map_get Register path = Some handler" "path \<notin> {''/ping'', ''/encrypt'', ''/decrypt''}"
    and "\<not> authorized env hs r" "rw_Status w = None"
  shows "\<exists>w'. ServeHTTP env path r hs w = Some (hs, w', None) \<and> rw_Status w' \<in> {Some 401, Some 405}"
  using ServeHTTP_registered [OF assms(1), of w env r hs] assms(4)
    guarded_handler.refusal_status [OF registered_guarded [OF assms(1,2)] assms(3)] by metis

section \<open>Reachable states\<close>

text \<open>All requests and transfers use the same consistent hash, \<open>lookup\<close>. The last rule is the
  work of a backend's own goroutines: whatever it makes of one backend, the other backends and
  the circles stay.\<close>

inductive service_run :: "router \<Rightarrow> HttpService \<Rightarrow> HttpService \<Rightarrow> bool" for lookup hs0 where
  start: "service_run lookup hs0 hs0"
| request: "service_run lookup hs0 hs \<Longrightarrow> uses lookup env \<Longrightarrow> ServeHTTP env path r hs w = Some (hs', w', b) \<Longrightarrow>
    service_run lookup hs0 hs'"
| transfer: "service_run lookup hs0 hs \<Longrightarrow> te_lookup tenv = lookup \<Longrightarrow>
    transfer_part tenv (hs_tx hs, ip_Circles (hs_ip hs)) (tx, ics) \<Longrightarrow>
    service_run lookup hs0 (hs\<lparr>hs_tx := tx, hs_ip := (hs_ip hs)\<lparr>ip_Circles := ics\<rparr>\<rparr>)"
| task: "service_run lookup hs0 hs \<Longrightarrow> run_job tenv (hs_tx hs) j (ip_Circles (hs_ip hs)) = Some (ics, err) \<Longrightarrow>
    service_run lookup hs0 (hs\<lparr>hs_ip := (hs_ip hs)\<lparr>ip_Circles := ics\<rparr>\<rparr>)"
| backend: "service_run lookup hs0 hs \<Longrightarrow> service_run lookup hs0 (hs\<lparr>hs_ip := set_be (hs_ip hs) p be\<rparr>)"

lemma transfer_step_kept:
  assumes "kept lookup (hs_tx hs, ip_Circles (hs_ip hs)) (tx, ics)" "service_ok hs"
  shows "service_ok (hs\<lparr>hs_tx := tx, hs_ip := (hs_ip hs)\<lparr>ip_Circles := ics\<rparr>\<rparr>) \<and>
    fixed (hs\<lparr>hs_tx := tx, hs_ip := (hs_ip hs)\<lparr>ip_Circles := ics\<rparr>\<rparr>) lookup = fixed hs lookup"
  using assms by (auto simp: kept_def steady_def service_ok_def fixed_def proxy_shape_def dest: shape_length)

lemma proxy_step_kept:
  "proxy_shape lookup ip = proxy_shape lookup (hs_ip hs) \<Longrightarrow> service_ok hs \<Longrightarrow>
     service_ok (hs\<lparr>hs_ip := ip\<rparr>) \<and> fixed (hs\<lparr>hs_ip := ip\<rparr>) lookup = fixed hs lookup"
  by (drule same_proxy) (simp add: proxy_kept)

lemma service_run_keeps:
  "service_run lookup hs0 hs \<Longrightarrow> service_ok hs0 \<Longrightarrow> service_ok hs \<and> fixed hs lookup = fixed hs0 lookup"
proof (induction rule: service_run.induct)
  case (request hs env path r w hs' w' b)
  then show ?case using ServeHTTP_keeps by metis
next
  case (transfer hs tenv tx ics)
  then show ?case using transfer_step_kept [OF transfer_part_kept] by metis
next
  case (task hs tenv j ics err)
  then show ?case using proxy_step_kept [OF proxy_shape_eq [OF run_job_shape]] by metis
next
  case (backend hs p be)
  then show ?case using proxy_step_kept [OF set_be_shape] by metis
qed simp

lemma new_circles_length: "new_circles opened cfg i cs = Some ics \<Longrightarrow> length ics = length cs"
  by (induction cs arbitrary: i ics) (auto simp: bind_eq_Some_conv)

lemma NewHttpService_ok:
  assumes "NewHttpService mkdir opened cfg mo = Some (hs, mo')"
  shows "service_ok hs" "length (ip_Circles (hs_ip hs)) = length (pc_Circles cfg)"
    "hs_username hs = pc_Username cfg" "hs_password hs = pc_Password cfg"
    "tx_username (hs_tx hs) = ''''" "tx_password (hs_tx hs) = ''''"
  using assms by (auto simp: NewHttpService_def NewProxy_def NewTransfer_def bind_eq_Some_conv service_ok_def
      positive_def addrs_ok_def DefaultWorker_def DefaultBatch_def DefaultLimit_def new_circles_length
      split: if_split_asm)

text \<open>C13: the parameters of a transfer are sound in every state that the service can reach by
  requests, the steps of transfers, their tasks and the work of the backends, however
  interleaved: the numbers of workers, of lines in a batch and of rows in a page are positive, there are no addresses of other proxies
  or at least two well-formed ones, and every configured circle has its transfer state. The
  circles with their ids, names, numbers of backends and consistent hashes, the white list and
  the credentials never change.\<close>

theorem service_invariant:
  assumes "NewHttpService mkdir opened cfg mo = Some (hs0, mo')" "service_run lookup hs0 hs"
  shows "positive (hs_tx hs) \<and> addrs_ok (tx_HaAddrs (hs_tx hs)) \<and>
    length (tx_CircleStates (hs_tx hs)) = length (pc_Circles cfg) \<and>
    length (ip_Circles (hs_ip hs)) = length (pc_Circles cfg) \<and> fixed hs lookup = fixed hs0 lookup"
proof -
  note new = NewHttpService_ok [OF assms(1)]
  from service_run_keeps [OF assms(2) new(1)] have k: "service_ok hs" "fixed hs lookup = fixed hs0 lookup" by auto
  then have "length (ip_Circles (hs_ip hs)) = length (ip_Circles (hs_ip hs0))"
    by (auto simp: fixed_def proxy_shape_def dest: shape_length)
  with k new(2) show ?thesis by (simp add: service_ok_def)
qed

section \<open>Whole transfers\<close>

text \<open>The frame of a transfer. Whatever a rebalancing, recovery, resynchronisation or cleanup makes
  of the transfer state and the circles from its first statement to its last, stays within the
  single changes of \<open>transfer_part\<close>: flags set, counters stored, single measurements placed,
  parameters reset. So the invariants of the service, which hold however such changes are
  interleaved, hold for whole transfers. Which flags are set, when they are cleared again and what
  is told to the other proxies is in \<open>Announcing\<close>, what is copied in \<open>Transfers\<close> and \<open>Relocation\<close>.\<close>

theorem transfer_is_its_parts:
  assumes "run_background env b (tx, ics) = Some (tx', ics', es)"
  shows "(transfer_part env)\<^sup>*\<^sup>* (tx, ics) (tx', ics')"
proof -
  from assms have "reached env (tx, ics) (tx', ics', es)"
    by (auto simp: run_background_def split: background.split_asm
        intro: Rebalance_reached Recovery_reached Resync_reached Cleanup_reached)
  then show ?thesis by (simp add: reached_def)
qed

lemma parts_run:
  assumes "parts tenv (hs_tx hs, ip_Circles (hs_ip hs)) (tx, ics)" "service_run lookup hs0 hs" "te_lookup tenv = lookup"
  shows "service_run lookup hs0 (hs\<lparr>hs_tx := tx, hs_ip := (hs_ip hs)\<lparr>ip_Circles := ics\<rparr>\<rparr>)"
  using assms(1)
proof (induction rule: rtranclp_induct2)
  case (step tx1 ics1 tx2 ics2)
  from service_run.transfer [OF step.IH assms(3), of tx2 ics2] step.hyps(2) show ?case by simp
qed (use assms(2) in simp)

section \<open>Starting transfers\<close>

text \<open>C20: a transfer is only started when nothing is in its way. When a request starts a
  transfer in a state of the service that can be reached, the request was an authorized post,
  the proxy is not resyncing, the circles that the transfer works on exist and none of them is
  transferring (all circles, for a resynchronisation; two different ones, for a recovery), and
  the parameters that it will use are positive.\<close>

theorem transfers_start_idle:
  assumes "NewHttpService mkdir opened cfg mo = Some (hs0, mo')" "service_run lookup hs0 hs"
    and "ServeHTTP env path r hs w = Some (hs', w', Some bg)"
  shows "may_start hs' bg \<and> positive (hs_tx hs') \<and> authorized env hs r \<and> rq_Method (in_req r) = ''POST''"
proof -
  from service_run_keeps [OF assms(2) NewHttpService_ok(1) [OF assms(1)]] have ok: "service_ok hs" by simp
  from assms(3) ServeHTTP_keeps [OF assms(3) ok] show ?thesis
    by (cases rule: ServeHTTP_cases)
      (auto simp: service_ok_def dest: service_handler.starts [OF registered_handler _ ok])
qed

text \<open>The flag that the next request looks at is only set by the transfer itself, so the same
  request is accepted again as long as the first transfer has not begun.\<close>

lemma setParam_err: "snd (setParam r tx) = snd (setParam r tx')"
  by (auto simp: setParam_def setWorker_def setBatch_def setLimit_def setHaAddrs_def Let_def split: option.split)

lemma start_transfer_again:
  assumes "start_transfer env hs r w bg = Some (hs', w', Some bg)"
  shows "\<exists>hs'' w''. start_transfer env hs' r w2 bg = Some (hs'', w'', Some bg)"
    and "\<exists>tx. hs' = hs\<lparr>hs_tx := tx\<rparr> \<and> tx_CircleStates tx = tx_CircleStates (hs_tx hs)"
proof -
  obtain tx e where p: "setParam r (hs_tx hs) = (tx, e)" by (cases "setParam r (hs_tx hs)")
  with assms have e: "e = None" "hs' = hs\<lparr>hs_tx := tx\<rparr>" "\<not> tx_Resyncing (hs_tx hs)"
    by (auto simp: start_transfer_def split: if_split_asm option.split_asm)
  note k = setParam_kept [OF p]
  obtain tx2 e2 where p2: "setParam r tx = (tx2, e2)" by (cases "setParam r tx")
  with setParam_err [of r tx "hs_tx hs"] p e have "e2 = None" by simp
  with p2 e k show "\<exists>hs'' w''. start_transfer env hs' r w2 bg = Some (hs'', w'', Some bg)"
    by (simp add: start_transfer_def params_kept_def)
  from e k show "\<exists>tx. hs' = hs\<lparr>hs_tx := tx\<rparr> \<and> tx_CircleStates tx = tx_CircleStates (hs_tx hs)"
    by (auto simp: params_kept_def)
qed

theorem cleanup_accepted_twice:
  assumes "HandlerCleanup env hs r w = Some (hs', w', Some bg)"
  shows "\<exists>hs'' w''. HandlerCleanup env hs' r w = Some (hs'', w'', Some bg)"
proof -
  from assms obtain w1 cid cs where h: "checkMethodAndAuth env hs r [''POST''] w = (True, w1)"
    "formCircleId hs r ''circle_id'' = Inr cid" "byte_at (tx_CircleStates (hs_tx hs)) cid = Some cs" "\<not> cs_Transferring cs"
    "start_transfer env hs r w1 (Cleaning cid) = Some (hs', w', Some bg)"
    by (auto simp: HandlerCleanup_def when_authorized_def bind_eq_Some_conv
        split: prod.split_asm bool.split_asm sum.split_asm if_split_asm)
  then have bg: "bg = Cleaning cid" by (auto simp: start_transfer_def split: if_split_asm prod.split_asm option.split_asm)
  note again = start_transfer_again [OF h(5) [unfolded bg]]
  from again(2) obtain tx where hs': "hs' = hs\<lparr>hs_tx := tx\<rparr>" "tx_CircleStates tx = tx_CircleStates (hs_tx hs)" by blast
  have "compareAuth env hs' = compareAuth env hs" by (intro ext) (simp add: hs' compareAuth_def transAuth_def)
  then have "authorized env hs' r = authorized env hs r" by (simp add: hs' authorized_def accepted_def split: option.split)
  then have "checkAuth env hs' r = checkAuth env hs r"
    by (intro ext) (simp add: checkAuth_def)
  then have "checkMethodAndAuth env hs' r [''POST''] w = checkMethodAndAuth env hs r [''POST''] w"
    by (simp add: checkMethodAndAuth_def split: prod.split bool.split)
  moreover have "formCircleId hs' r ''circle_id'' = formCircleId hs r ''circle_id''" by (simp add: hs' formCircleId_def split: option.split)
  ultimately have "HandlerCleanup env hs' r w = start_transfer env hs' r w1 (Cleaning cid)"
    using h by (simp add: HandlerCleanup_def when_authorized_def hs')
  with again(1) bg show ?thesis by simp
qed

section \<open>The administrative requests do not panic\<close>

lemma start_transfer_total [simp]: "\<exists>hs' w' b. start_transfer env hs r w bg = Some (hs', w', b)"
  by (auto simp: start_transfer_def refuse_def answer_with_def split: prod.split option.split)

lemma removed_backends_total: "None \<notin> set cfgs \<Longrightarrow> \<exists>r. removed_backends cfgs cs = Some r"
  by (induction cfgs cs rule: removed_backends.induct) fastforce+

lemma when_authorized_total: "(\<And>w. k w \<noteq> None) \<Longrightarrow> when_authorized env hs r methods w k \<noteq> None"
  by (auto simp: when_authorized_def answer_with_def split: prod.split bool.split)

lemma answers_total [simp]: "refuse env hs r w code e \<noteq> None" "answer_with hs w \<noteq> None"
  by (auto simp: refuse_def answer_with_def)

lemma circle_state_at:
  "service_ok hs \<Longrightarrow> formCircleId hs r key = Inr cid \<Longrightarrow>
     (\<exists>cs. byte_at (tx_CircleStates (hs_tx hs)) cid = Some cs) \<and> (\<exists>ic. byte_at (ip_Circles (hs_ip hs)) cid = Some ic)"
  by (auto simp: service_ok_def byte_at_def dest: formCircleId_range)

lemma Rebalance_total:
  assumes ok: "service_ok hs" and b: "\<forall>cfgs. sv_backends env (in_Body r) = Some cfgs \<longrightarrow> None \<notin> set cfgs"
  shows "HandlerRebalance env hs r w \<noteq> None"
proof (cases "formCircleId hs r ''circle_id''")
  case (Inr cid)
  let ?cfgs = "if FormValue (in_req r) ''operation'' = ''rm'' then sv_backends env (in_Body r) else Some []"
  from circle_state_at [OF ok Inr] obtain cs ic where
    at: "byte_at (tx_CircleStates (hs_tx hs)) cid = Some cs" "byte_at (ip_Circles (hs_ip hs)) cid = Some ic" by blast
  show ?thesis
  proof (cases ?cfgs)
    case None
    then show ?thesis using Inr unfolding HandlerRebalance_def
      by (intro when_authorized_total) (simp only: sum.case Let_def option.case, simp)
  next
    case (Some cfgs)
    with b have "None \<notin> set cfgs" by (auto split: if_split_asm)
    with removed_backends_total obtain bes cs' where "removed_backends cfgs cs = Some (bes, cs')" by fastforce
    with Inr Some at show ?thesis unfolding HandlerRebalance_def
      by (intro when_authorized_total) (simp only: sum.case Let_def option.case, simp)
  qed
next
  case (Inl msg)
  then show ?thesis by (simp add: HandlerRebalance_def del: not_None_eq) (rule when_authorized_total, simp)
qed

lemma Recovery_total:
  assumes "service_ok hs"
  shows "HandlerRecovery env hs r w \<noteq> None"
  unfolding HandlerRecovery_def
  by (rule when_authorized_total)
    (use circle_state_at [OF assms, of r "''from_circle_id''"] circle_state_at [OF assms, of r "''to_circle_id''"]
      in \<open>auto split: sum.split\<close>)

lemma Resync_total: "HandlerResync env hs r w \<noteq> None"
  unfolding HandlerResync_def
  by (rule when_authorized_total) (auto split: sum.split option.split)

lemma Cleanup_total: "service_ok hs \<Longrightarrow> HandlerCleanup env hs r w \<noteq> None"
  unfolding HandlerCleanup_def
  by (rule when_authorized_total) (auto dest: circle_state_at split: sum.split)

lemma post_circle_total: "service_ok hs \<Longrightarrow> \<exists>hs' w' b. post_circle env hs r w res = Some (hs', w', b)"
  by (auto simp: post_circle_def set_transferring_def Let_def dest: circle_state_at split: sum.split option.split)

lemma State_total: "service_ok hs \<Longrightarrow> HandlerTransferState env hs r w \<noteq> None"
  unfolding HandlerTransferState_def
  by (rule when_authorized_total) (auto simp: resyncing_kept post_circle_total split: option.split)

lemma Stats_total: "service_ok hs \<Longrightarrow> HandlerTransferStats env hs r w \<noteq> None"
  unfolding HandlerTransferStats_def
  by (rule when_authorized_total) (auto dest: circle_state_at split: sum.split)

definition admin_paths :: "string set" where
  "admin_paths = {''/ping'', ''/encrypt'', ''/decrypt'', ''/rebalance'', ''/recovery'', ''/resync'', ''/cleanup'',
     ''/transfer/state'', ''/transfer/stats''}"

text \<open>C26: the administrative requests never panic. In every state of the service that can be
  reached, a request to start a transfer, to look at or set the transfer state, to read the
  statistics or to encrypt or decrypt a text is answered, whatever its parameters: every index of
  a circle has been checked against the circles. The body of an \<^verbatim>\<open>rm\<close> must not have a null
  among its backends.\<close>

theorem admin_requests_no_panic:
  assumes "NewHttpService mkdir opened cfg mo = Some (hs0, mo')" "service_run lookup hs0 hs" "path \<in> admin_paths"
    and "\<forall>cfgs. sv_backends env (in_Body r) = Some cfgs \<longrightarrow> None \<notin> set cfgs"
  shows "ServeHTTP env path r hs w \<noteq> None"
proof -
  from service_run_keeps [OF assms(2) NewHttpService_ok(1) [OF assms(1)]] have ok: "service_ok hs" by simp
  note admin = Rebalance_total [OF ok assms(4)] Recovery_total [OF ok] Resync_total Cleanup_total [OF ok]
    State_total [OF ok] Stats_total [OF ok]
  have "HandlerPing env hs r v \<noteq> None" "HandlerEncrypt env hs r v \<noteq> None" "HandlerDecrypt env hs r v \<noteq> None" for v
    by (auto simp: HandlerPing_def HandlerEncrypt_def HandlerDecrypt_def simp del: not_None_eq split: prod.split bool.split)
  note total = admin this
  from assms(3) obtain handler where h: "map_get Register path = Some handler" "\<And>v. handler env hs r v \<noteq> None"
    unfolding admin_paths_def
    by (elim insertE emptyE) (simp_all add: Register_def total del: not_None_eq)
  from ServeHTTP_registered [OF h(1), of w env r hs] h(2) show ?thesis by metis
qed

text \<open>A null in the body of an \<^verbatim>\<open>rm\<close> does panic.\<close>

theorem null_backend_panics:
  assumes "authorized env hs r" "rq_Method (in_req r) = ''POST''" "formCircleId hs r ''circle_id'' = Inr cid"
    and "FormValue (in_req r) ''operation'' = ''rm''" "sv_backends env (in_Body r) = Some [None]"
  shows "HandlerRebalance env hs r w = None"
  using assms by (simp add: HandlerRebalance_def when_authorized_def checkMethodAndAuth_def checkMethod_def checkAuth_def)

section \<open>Announcements between proxies\<close>

text \<open>How the standard library of the receiving proxy takes a posted request apart: the path and
  the query behind the host, and \<^verbatim>\<open>url.ParseQuery\<close>, which skips what it cannot unescape.\<close>

fun parse_pairs :: "string list \<Rightarrow> go_values \<Rightarrow> go_values" where
  "parse_pairs [] m = m"
| "parse_pairs (kv # kvs) m =
     (let key = takeWhile (\<lambda>c. c \<noteq> CHR ''='') kv; val = drop (length key + 1) kv in
      if kv = '''' then parse_pairs kvs m
      else case (QueryUnescape key, QueryUnescape val) of
             (Inr k, Inr v) \<Rightarrow> parse_pairs kvs (map_set k ((case map_get m k of None \<Rightarrow> [] | Some vs \<Rightarrow> vs) @ [v]) m)
           | _ \<Rightarrow> parse_pairs kvs m)"

definition ParseQuery :: "string \<Rightarrow> go_values" where
  "ParseQuery s = parse_pairs (Split s ''&'') []"

definition url_target :: "string \<Rightarrow> string \<times> string" where
  "url_target url =
     (let rest = (case Index url ''://'' of Some i \<Rightarrow> drop (i + 3) url | None \<Rightarrow> url);
          target = dropWhile (\<lambda>c. c \<noteq> CHR ''/'') rest;
          path = takeWhile (\<lambda>c. c \<noteq> CHR ''?'') target
      in (path, drop (length path + 1) target))"

definition incoming :: "Request \<Rightarrow> string \<times> http_request" where
  "incoming req =
     (case url_target (rq_URL req) of
        (path, q) \<Rightarrow> (path, \<lparr>in_req = req\<lparr>rq_Form := ParseQuery q\<rparr>, in_Query = ParseQuery q, in_Body = Inr (rq_Body req)\<rparr>))"

lemma takeWhile_host: "CHR ''/'' \<notin> set addr \<Longrightarrow> dropWhile (\<lambda>c. c \<noteq> CHR ''/'') (addr @ CHR ''/'' # s) = CHR ''/'' # s"
  by (induction addr) auto

lemma is_addr_host: "is_addr addr \<Longrightarrow> CHR ''/'' \<notin> set addr"
proof -
  assume "is_addr addr"
  then obtain i where i: "IndexByte addr (CHR '':'') = Some i" "list_all host_byte (take i addr)"
    "list_all is_digit (drop (i + 1) addr)" by (auto simp: is_addr_def Let_def split: option.split_asm)
  then have "addr = take i addr @ CHR '':'' # drop (i + 1) addr"
    using id_take_nth_drop [of i addr] by (simp add: IndexByte_Some)
  from arg_cong [OF this, of set] have "set addr = set (take i addr) \<union> insert (CHR '':'') (set (drop (i + 1) addr))" by simp
  moreover have "\<not> host_byte (CHR ''/'')" "\<not> is_digit (CHR ''/'')" "CHR ''/'' \<noteq> CHR '':''"
    by (simp_all add: host_byte_def is_digit_def)
  ultimately show ?thesis using i(2,3) unfolding list_all_iff by blast
qed

lemma unescape_plain: "set s \<inter> {CHR ''%'', CHR ''+''} = {} \<Longrightarrow> QueryUnescape s = Inr s"
  by (induction s) auto

lemma digits_plain: "c \<in> set (nat_digits n) \<Longrightarrow> is_digit c"
  using nat_digits_digits [of n] by (simp add: list_all_iff)

lemma ParseInt_Itoa: "n < 2 ^ 63 \<Longrightarrow> ParseInt (Itoa (int n)) = Some (int n)"
proof -
  assume n: "n < 2 ^ 63"
  have "\<not> HasPrefix (nat_digits n) ''-''" "\<not> HasPrefix (nat_digits n) ''+''"
    using digits_plain [of _ n] by (cases "nat_digits n"; force simp: HasPrefix_def is_digit_def)+
  with n nat_digits_digits [of n] show ?thesis
    by (simp add: ParseInt_def Itoa_nat Let_def)
qed

lemma announcement_target:
  assumes "CHR ''/'' \<notin> set addr" "postBroadcast tenv tx (''http://'' @ addr @ ''/transfer/state?'' @ q) = Some req"
  shows "url_target (rq_URL req) = (''/transfer/state'', q)" "rq_Method req = ''POST''" "rq_Body req = []"
proof -
  from assms(2) have "rq_URL req = (if tx_httpsEnabled tx then ''https://'' else ''http://'') @ addr @ ''/transfer/state?'' @ q"
    and r: "rq_Method req = ''POST''" "rq_Body req = []"
    by (auto simp: postBroadcast_def Let_def replace_first_def plain_request_def SetBasicAuth_def split: if_split_asm)
  with takeWhile_host [OF assms(1), of "''transfer/state?'' @ q"]
  show "url_target (rq_URL req) = (''/transfer/state'', q)" by (simp add: url_target_def)
  show "rq_Method req = ''POST''" "rq_Body req = []" by fact+
qed

definition state_query :: "nat \<Rightarrow> bool \<Rightarrow> string" where
  "state_query cid b = ''circle_id='' @ Itoa (int cid) @ ''&transferring='' @ bool_text b"

lemma state_query_parsed:
  "ParseQuery (state_query cid b) = [(''circle_id'', [Itoa (int cid)]), (''transferring'', [bool_text b])]"
proof -
  have d: "c \<notin> set (Itoa (int cid))" if "\<not> is_digit c" for c using that digits_plain by (auto simp: Itoa_nat)
  have "\<not> is_digit (CHR ''&'')" "\<not> is_digit (CHR ''%'')" "\<not> is_digit (CHR ''+'')" by (simp_all add: is_digit_def)
  note d = this [THEN d]
  from d(2,3) have u: "QueryUnescape (Itoa (int cid)) = Inr (Itoa (int cid))" by (intro unescape_plain) simp
  have t: "CHR ''&'' \<notin> set (''transferring='' @ bool_text b)" "QueryUnescape (bool_text b) = Inr (bool_text b)"
    by (simp_all add: bool_text_def)
  have c: "CHR ''&'' \<notin> set (''circle_id='' @ Itoa (int cid))" using d(1) by simp
  have "state_query cid b = (''circle_id='' @ Itoa (int cid)) @ CHR ''&'' # (''transferring='' @ bool_text b)"
    by (simp add: state_query_def)
  then have "Split (state_query cid b) ''&'' = [''circle_id='' @ Itoa (int cid), ''transferring='' @ bool_text b]"
    unfolding Split_def by (simp only: Split_aux_first [OF c] Split_aux_last [OF t(1)] append_Nil)
  moreover have "parse_pairs [''circle_id='' @ Itoa (int cid), ''transferring='' @ bool_text b] [] =
      [(''circle_id'', [Itoa (int cid)]), (''transferring'', [bool_text b])]"
    by (simp add: u t(2))
  ultimately show ?thesis by (simp only: ParseQuery_def)
qed

lemma transferring_url_parts:
  "transferring_url addr cid b = ''http://'' @ addr @ ''/transfer/state?'' @ state_query cid b"
  by (simp add: transferring_url_def state_query_def)

text \<open>C27: an announcement is understood. When a proxy tells another one that a circle is
  transferring or no longer transferring, and the other proxy has the circle and lets the
  request in, the receiver parses the posted URL back into the circle and the flag, answers
  with 200 and sets exactly that: the flag of the circle and the transfer-in flag of each of
  its backends; all other circles and its own resyncing flag stay.\<close>

theorem announcement_understood:
  assumes "is_addr addr" "postBroadcast tenv tx (transferring_url addr cid b) = Some req"
    and "service_ok peer" "cid < length (ip_Circles (hs_ip peer))" "length (ip_Circles (hs_ip peer)) < 2 ^ 63"
    and "authorized env peer (snd (incoming req))"
  shows "\<exists>peer' w'. ServeHTTP env (fst (incoming req)) (snd (incoming req)) peer new_writer = Some (peer', w', None) \<and>
    rw_Status w' = Some 200 \<and>
    tx_CircleStates (hs_tx peer') =
      (tx_CircleStates (hs_tx peer))[cid := (tx_CircleStates (hs_tx peer) ! cid)\<lparr>cs_Transferring := b\<rparr>] \<and>
    ip_Circles (hs_ip peer') = (ip_Circles (hs_ip peer))[cid := ic_SetTransferIn (ip_Circles (hs_ip peer) ! cid) b] \<and>
    tx_Resyncing (hs_tx peer') = tx_Resyncing (hs_tx peer)"
proof -
  note t = announcement_target [OF is_addr_host [OF assms(1)] assms(2) [unfolded transferring_url_parts]]
  let ?r = "snd (incoming req)"
  from t have r: "fst (incoming req) = ''/transfer/state''" "rq_Method (in_req ?r) = ''POST''"
    "rq_Form (in_req ?r) = [(''circle_id'', [Itoa (int cid)]), (''transferring'', [bool_text b])]"
    by (simp_all add: incoming_def state_query_parsed)
  have f: "FormValue (in_req ?r) ''circle_id'' = Itoa (int cid)" "FormValue (in_req ?r) ''transferring'' = bool_text b"
    "FormValue (in_req ?r) ''resyncing'' = ''''"
    by (simp_all add: FormValue_def values_get_def r)
  from assms(4,5) have id: "formCircleId peer ?r ''circle_id'' = Inr cid"
    by (simp add: formCircleId_def f ParseInt_Itoa)
  have b: "formBool ?r ''transferring'' = Some b" by (cases b) (simp_all add: formBool_def f bool_text_def ParseBool_def)
  have n: "bool_text b \<noteq> ''''" by (simp add: bool_text_def)
  from assms(3,4) have len: "cid < length (tx_CircleStates (hs_tx peer))" by (simp add: service_ok_def)
  show ?thesis
    using assms(4) len
    by (simp add: ServeHTTP_def Let_def r(1) Register_def HandlerTransferState_def when_authorized_def checkMethodAndAuth_def
        checkMethod_def checkAuth_def assms(6) r(2) f n post_circle_def id b set_transferring_def byte_at_def answer_with_def
        new_writer_def)
qed

text \<open>But the credentials of the configuration never reach the transfer state, so no announcement
  carries any: a receiver that has credentials of its own refuses every one, and its circle
  keeps its flags.\<close>

theorem announcement_refused:
  assumes "NewHttpService mkdir opened cfg mo = Some (hs0, mo')" "service_run lookup hs0 hs"
    and "is_addr addr" "postBroadcast tenv (hs_tx hs) (transferring_url addr cid b) = Some req"
    and "hs_username peer \<noteq> '''' \<or> hs_password peer \<noteq> ''''" "\<not> compareAuth env peer '''' ''''"
  shows "\<exists>w'. ServeHTTP env (fst (incoming req)) (snd (incoming req)) peer new_writer = Some (peer, w', None) \<and>
    rw_Status w' = Some 401"
proof -
  note new = NewHttpService_ok [OF assms(1)]
  from service_run_keeps [OF assms(2) new(1)] new(5,6) have "tx_username (hs_tx hs) = ''''" "tx_password (hs_tx hs) = ''''"
    by (auto simp: fixed_def)
  with assms(4) have h: "rq_Header req = []"
    by (auto simp: postBroadcast_def Let_def plain_request_def split: if_split_asm)
  note t = announcement_target [OF is_addr_host [OF assms(3)] assms(4) [unfolded transferring_url_parts]]
  let ?r = "snd (incoming req)"
  from t h have r: "fst (incoming req) = ''/transfer/state''" "rq_Method (in_req ?r) = ''POST''" "rq_Header (in_req ?r) = []"
    "in_Query ?r = [(''circle_id'', [Itoa (int cid)]), (''transferring'', [bool_text b])]"
    by (simp_all add: incoming_def state_query_parsed)
  have "\<not> authorized env peer ?r"
    using assms(5,6) by (auto simp: authorized_def r values_get_def BasicAuth_def parseAuth_def accepted_def)
  then show ?thesis
    by (simp add: ServeHTTP_def Let_def r(1,2) Register_def HandlerTransferState_def when_authorized_def
        checkMethodAndAuth_def checkMethod_def checkAuth_def answer_with_def new_writer_def)
qed

section \<open>The two write endpoints\<close>

lemma WriteRow_precision:
  "(\<And>now line. AppendNano (we_multiplier env) now line p = AppendNano (we_multiplier env) now line p') \<Longrightarrow>
     WriteRow env now ip line db rp p = WriteRow env now ip line db rp p'"
  by (simp add: WriteRow_def)

lemma write_loop_precision:
  assumes "\<And>now line. AppendNano (we_multiplier env) now line p = AppendNano (we_multiplier env) now line p'"
  shows "write_loop env clock body db rp p pos n ip = write_loop env clock body db rp p' pos n ip"
proof (induction "length body - pos" arbitrary: pos n ip rule: less_induct)
  case less
  have "write_loop env clock body db rp p (i + 1) m ip1 = write_loop env clock body db rp p' (i + 1) m ip1"
    if "pos < length body" "ScanLine body pos = Some (i, block)" for i block m ip1
    using that(1) ScanLine_advance [OF that(2)] by (intro less) arith
  then show ?case
    by (subst (1 2) write_loop.simps)
      (auto simp: WriteRow_precision [of env p p', OF assms] split: option.split prod.split)
qed

lemma write_ns: "ip_Write env clock ip body db rp ''n'' = ip_Write env clock ip body db rp ''ns''"
  unfolding ip_Write_def by (rule write_loop_precision) (simp add: AppendNano_def Let_def split: prod.split)

text \<open>Without a precision the first version takes nanoseconds, while the second hands on the empty
  precision, for which \<^verbatim>\<open>models.GetPrecisionMultiplier\<close> has the factor 1: the time stamp is then read
  as a number and printed again. A line keeps its stamp if it has none, or one that is printed as it
  was.\<close>

definition stamp_kept :: "bytes \<Rightarrow> bool" where
  "stamp_kept line =
     (let l = TrimSpace line; (pos, found) = ScanTime l; stamp = drop (nat (pos + 1)) l
      in found \<longrightarrow> Int64ToBytes (BytesToInt64 stamp) = stamp)"

lemma AppendNano_default:
  assumes "mulOf '''' = 1" "stamp_kept line"
  shows "AppendNano mulOf now line '''' = AppendNano mulOf now line ''ns''"
proof -
  obtain pos found where st: "ScanTime (TrimSpace line) = (pos, found)" by (cases "ScanTime (TrimSpace line)")
  with assms show ?thesis by (cases found) (simp_all add: AppendNano_def stamp_kept_def Let_def)
qed

lemma write_rows_precision:
  assumes "\<forall>row \<in> set rows. \<forall>now. AppendNano (we_multiplier env) now row p = AppendNano (we_multiplier env) now row p'"
  shows "write_rows env clock db rp p n rows ip = write_rows env clock db rp p' n rows ip"
  using assms
proof (induction rows arbitrary: n ip)
  case (Cons row rows)
  then have "WriteRow env (clock n) ip row db rp p = WriteRow env (clock n) ip row db rp p'" by (simp add: WriteRow_def)
  moreover have "write_rows env clock db rp p (Suc n) rows = write_rows env clock db rp p' (Suc n) rows"
    by (rule ext) (use Cons in simp)
  ultimately show ?case by simp
qed simp

text \<open>A body whose lines keep their stamps; \<open>body_rows\<close> takes bodies without quotes and backslashes
  apart.\<close>

definition stamps_kept :: "bytes \<Rightarrow> bool" where
  "stamps_kept body \<longleftrightarrow> CHR 0x5C \<notin> set body \<and> CHR ''\"'' \<notin> set body \<and> list_all stamp_kept (body_rows body)"

lemma write_default:
  assumes "we_multiplier env '''' = 1" "stamps_kept body"
  shows "ip_Write env clock ip body db rp '''' = ip_Write env clock ip body db rp ''ns''"
proof -
  from assms(2) have "ip_Write env clock ip body db rp q = write_rows env clock db rp q 0 (body_rows body) ip" for q
    using write_loop_rows [of "[]" body] by (simp add: ip_Write_def stamps_kept_def)
  moreover have "write_rows env clock db rp '''' 0 (body_rows body) ip = write_rows env clock db rp ''ns'' 0 (body_rows body) ip"
    by (rule write_rows_precision) (use assms AppendNano_default in \<open>simp add: stamps_kept_def list_all_iff\<close>)
  ultimately show ?thesis by simp
qed

text \<open>The bytes that \<^verbatim>\<open>handlerWrite\<close> passes on, behind the decompression, if it gets any.\<close>

definition written_body :: "svc_env \<Rightarrow> http_request \<Rightarrow> bytes option" where
  "written_body env r =
     (case (if values_get (rq_Header (in_req r)) ''Content-Encoding'' = ''gzip'' then sv_gzip env (in_Body r)
            else Some (in_Body r)) of
        Some (Inr p) \<Rightarrow> Some p
      | _ \<Rightarrow> None)"

text \<open>C33: the write endpoint of version 2 is that of version 1 under other names. A request to
  \<^verbatim>\<open>/api/v2/write\<close> with the bucket \<open>db/rp\<close>, or with the bucket \<open>db\<close> for the default retention
  policy, has the same outcome in every respect (the state of all backends, the answer with its
  status, headers and body, a panic) as one to \<^verbatim>\<open>/write\<close> with that database and retention policy
  and the corresponding precision, whether it is accepted or refused. This holds for every
  precision that version 2 knows; without one, where version 2 prints the time stamps anew, for
  bodies whose stamps are printed as they were (and without quotes and backslashes).\<close>

theorem write_v2_is_write:
  assumes "(p2, p1) \<in> {(''ns'', ''ns''), (''us'', ''u''), (''ms'', ''ms''), (''s'', ''s''), ('''', '''')}"
    and "db \<noteq> ''''" "CHR ''/'' \<notin> set db" "bucket = db @ ''/'' @ rp \<or> rp = '''' \<and> bucket = db"
    and "p2 = '''' \<Longrightarrow> we_multiplier (sv_we env) '''' = 1 \<and> (\<forall>body. written_body env r = Some body \<longrightarrow> stamps_kept body)"
    and "r1 = r\<lparr>in_Query := map_set ''precision'' [p1] (map_set ''db'' [db] (map_set ''rp'' [rp] (in_Query r)))\<rparr>"
    and "r2 = r\<lparr>in_Query := map_set ''precision'' [p2] (map_set ''bucket'' [bucket] (in_Query r))\<rparr>"
  shows "HandlerWriteV2 env hs r2 w = HandlerWrite env hs r1 w"
proof -
  have q: "values_get (in_Query r2) k = values_get (in_Query r1) k" if "k \<in> {''u'', ''p'', ''pretty''}" for k
    using that by (auto simp: assms(6,7) values_get_def map_get_set)
  have p: "values_get (in_Query r2) ''precision'' = p2" "values_get (in_Query r1) ''precision'' = p1"
    "values_get (in_Query r1) ''db'' = db" "values_get (in_Query r1) ''rp'' = rp"
    "values_get (in_Query r2) ''bucket'' = bucket" "in_req r2 = in_req r" "in_req r1 = in_req r"
    "in_Body r2 = in_Body r" "in_Body r1 = in_Body r"
    by (simp_all add: assms(6,7) values_get_def map_get_set)
  have we: "WriteError env r2 = WriteError env r1"
    by (intro ext) (simp add: WriteError_def pretty_def q)
  then have re: "refuse env hs r2 = refuse env hs r1" by (intro ext) (simp add: refuse_def)
  have "authorized env hs r2 = authorized env hs r1" by (simp add: authorized_def q p)
  then have "checkMethodAndAuth env hs r2 = checkMethodAndAuth env hs r1"
    by (intro ext) (simp add: checkMethodAndAuth_def checkMethod_def checkAuth_def we p)
  then have wa: "when_authorized env hs r2 ms w = when_authorized env hs r1 ms w" for ms
    by (intro ext) (simp add: when_authorized_def)
  have b: "bucket2dbrp env bucket = Inr (db, rp)"
    using assms(2-4) IndexByte_None [of db "CHR ''/''"] by (auto simp: bucket2dbrp_def Let_def)
  have hw: "handlerWrite env hs db rp p r2 = handlerWrite env hs db rp p r1" for p
    by (intro ext) (simp add: handlerWrite_def p re split: option.split sum.split)
  have hn: "handlerWrite env hs db rp ''n'' r1 = handlerWrite env hs db rp ''ns'' r1"
    by (intro ext) (simp add: handlerWrite_def write_ns split: option.split sum.split)
  have hd: "handlerWrite env hs db rp '''' r1 = handlerWrite env hs db rp ''ns'' r1" if "p2 = ''''"
    using assms(5) [OF that]
    by (intro ext) (auto simp: handlerWrite_def p written_body_def write_default split: option.split sum.split)
  show ?thesis
    unfolding HandlerWriteV2_def HandlerWrite_def wa
    using assms(1,2) by (elim insertE emptyE Pair_inject) (simp_all add: p b re hw hn hd queryDB_def Let_def)
qed

text \<open>A stamp with leading zeros is written differently without a precision.\<close>

theorem default_precision_differs:
  assumes "mulOf '''' = 1"
  shows "AppendNano mulOf now ''cpu v=1 007'' '''' = ''cpu v=1 7'' \<and>
    AppendNano mulOf now ''cpu v=1 007'' ''ns'' = ''cpu v=1 007''"
proof -
  have "TrimSpace ''cpu v=1 007'' = ''cpu v=1 007''" "ScanTime ''cpu v=1 007'' = (7, True)"
    "Int64ToBytes (BytesToInt64 ''007'') = ''7''" by code_simp+
  with assms show ?thesis by (simp add: AppendNano_def)
qed

section \<open>Instances\<close>

definition sample_sv :: svc_env where
  "sample_sv = \<lparr>sv_xe = sample_xe, sv_we = sample_we, sv_fx = sample_fx, sv_health = (\<lambda>_. answer 200),
     sv_order = in_order, sv_perms = [0], sv_clock = (\<lambda>_. 7), sv_Error = (\<lambda>_. ''''), sv_quote = id,
     sv_json = (\<lambda>_ _. ''{}''), sv_mime = Inr, sv_flux = (\<lambda>_. Inl ErrIO), sv_backends = (\<lambda>_. None),
     sv_gzip = Some, sv_snappy = Inr, sv_read = (\<lambda>_. Inl ErrIO), sv_write = (\<lambda>_. Inl ErrIO),
     sv_NewPoint = (\<lambda>_ _ _ _. Inl ErrIO), sv_encrypt = id, sv_decrypt = id, sv_Version = ''2.5'',
     sv_nethttp = (\<lambda>_ _ _ w. w)\<rparr>"

definition sample_hs :: HttpService where
  "sample_hs = \<lparr>hs_ip = sample_px, hs_tx = NewTransfer sample_pxcfg, hs_username = '''', hs_password = '''',
     hs_authEncrypt = False, hs_writeTracing = False, hs_queryTracing = False, hs_pprofEnabled = False\<rparr>"

definition posted :: "go_values \<Rightarrow> http_request" where
  "posted vs = \<lparr>in_req = (plain_request ''POST'' ''/'' [])\<lparr>rq_Form := vs\<rparr>, in_Query = vs, in_Body = Inr ''cpu v=1''\<rparr>"

lemma sample_sv_uses: "uses first_member sample_sv"
  by (simp add: uses_def sample_sv_def sample_xe_def sample_we_def)

lemma sample_hs_new: "NewHttpService (Exists, None) (\<lambda>_. (empty_backlog, None)) sample_pxcfg False = Some (sample_hs, False)"
  by (simp add: NewHttpService_def NewProxy_sample sample_hs_def) (simp add: sample_pxcfg_def setDefault_def sample_config_def)

theorem unauthorized_request_refused_witness:
  "\<exists>w'. ServeHTTP sample_sv ''/rebalance'' (posted []) (sample_hs\<lparr>hs_username := ''admin''\<rparr>) new_writer =
       Some (sample_hs\<lparr>hs_username := ''admin''\<rparr>, w', None) \<and> rw_Status w' \<in> {Some 401, Some 405}"
  by (rule unauthorized_request_refused [where handler = HandlerRebalance])
    (simp_all add: Register_def authorized_def sample_hs_def posted_def plain_request_def values_get_def BasicAuth_def
      parseAuth_def accepted_def compareAuth_def transAuth_def new_writer_def)

text \<open>A cleanup with four workers.\<close>

definition cleaning :: http_request where
  "cleaning = posted [(''circle_id'', [''0'']), (''worker'', [''4''])]"

lemma cleaning_params: "setParam cleaning (NewTransfer sample_pxcfg) = ((NewTransfer sample_pxcfg)\<lparr>tx_Worker := 4\<rparr>, None)"
proof -
  have "positive_param cleaning ''worker'' DefaultWorker = Some 4" by code_simp
  moreover have "positive_param cleaning ''batch'' DefaultBatch = Some DefaultBatch"
    "positive_param cleaning ''limit'' DefaultLimit = Some DefaultLimit" "formValues cleaning ''ha_addrs'' = []"
    by code_simp+
  ultimately show ?thesis
    by (simp add: setParam_def setWorker_def setBatch_def setLimit_def setHaAddrs_def NewTransfer_def)
qed

lemma cleaning_starts:
  "\<exists>w'. ServeHTTP sample_sv ''/cleanup'' cleaning sample_hs new_writer =
     Some (sample_hs\<lparr>hs_tx := (NewTransfer sample_pxcfg)\<lparr>tx_Worker := 4\<rparr>\<rparr>, w', Some (Cleaning 0))"
proof -
  have n: "length (ip_Circles sample_px) = 1" by (simp add: sample_px_def)
  have "ParseInt ''0'' = Some 0" by code_simp
  then have cid: "formCircleId sample_hs cleaning ''circle_id'' = Inr 0"
    by (simp add: formCircleId_def sample_hs_def n cleaning_def posted_def FormValue_def values_get_def)
  have "byte_at (tx_CircleStates (NewTransfer sample_pxcfg)) 0 = Some (NewCircleState (hd (pc_Circles sample_config)))"
    by (simp add: NewTransfer_def sample_pxcfg_def setDefault_def sample_config_def byte_at_def)
  moreover have "\<not> cs_Transferring (NewCircleState (hd (pc_Circles sample_config)))" by (simp add: NewCircleState_def)
  moreover have "authorized sample_sv sample_hs cleaning" "rq_Method (in_req cleaning) = ''POST''"
    by (simp_all add: authorized_def sample_hs_def cleaning_def posted_def plain_request_def)
  moreover have "hs_tx sample_hs = NewTransfer sample_pxcfg" by (simp add: sample_hs_def)
  moreover have "start_transfer sample_sv sample_hs cleaning v (Cleaning 0) =
      Some (sample_hs\<lparr>hs_tx := (NewTransfer sample_pxcfg)\<lparr>tx_Worker := 4\<rparr>\<rparr>, WriteText v 202 ''accepted'', Some (Cleaning 0))" for v
    using cleaning_params by (simp add: start_transfer_def sample_hs_def) (simp add: NewTransfer_def)
  ultimately show ?thesis
    by (simp add: ServeHTTP_def Let_def Register_def HandlerCleanup_def when_authorized_def checkMethodAndAuth_def
        checkMethod_def checkAuth_def cid)
qed

theorem service_invariant_witness:
  "\<exists>hs. service_run first_member sample_hs hs \<and> tx_Worker (hs_tx hs) = 4 \<and> positive (hs_tx hs) \<and>
     fixed hs first_member = fixed sample_hs first_member"
proof -
  from cleaning_starts obtain w' where
    s: "ServeHTTP sample_sv ''/cleanup'' cleaning sample_hs new_writer =
      Some (sample_hs\<lparr>hs_tx := (NewTransfer sample_pxcfg)\<lparr>tx_Worker := 4\<rparr>\<rparr>, w', Some (Cleaning 0))" ..
  note r = service_run.request [OF service_run.start sample_sv_uses s]
  from service_invariant [OF sample_hs_new r] r show ?thesis
    by (intro exI [of _ "sample_hs\<lparr>hs_tx := (NewTransfer sample_pxcfg)\<lparr>tx_Worker := 4\<rparr>\<rparr>"]) simp
qed

theorem transfers_start_idle_witness:
  "\<exists>hs' w'. ServeHTTP sample_sv ''/cleanup'' cleaning sample_hs new_writer = Some (hs', w', Some (Cleaning 0)) \<and>
     may_start hs' (Cleaning 0) \<and> positive (hs_tx hs')"
proof -
  from cleaning_starts obtain w' hs' where
    s: "ServeHTTP sample_sv ''/cleanup'' cleaning sample_hs new_writer = Some (hs', w', Some (Cleaning 0))" by blast
  from transfers_start_idle [OF sample_hs_new service_run.start s] s show ?thesis by blast
qed

theorem admin_requests_no_panic_witness: "ServeHTTP sample_sv ''/resync'' cleaning sample_hs new_writer \<noteq> None"
  by (rule admin_requests_no_panic [OF sample_hs_new service_run.start]) (simp_all add: admin_paths_def sample_sv_def)

theorem announcement_understood_witness:
  "\<exists>req peer' w'. postBroadcast sample_tx_env sample_tx (transferring_url ''127.0.0.1:7076'' 0 True) = Some req \<and>
     ServeHTTP sample_sv (fst (incoming req)) (snd (incoming req)) sample_hs new_writer = Some (peer', w', None) \<and>
     cs_Transferring (tx_CircleStates (hs_tx peer') ! 0)"
proof -
  obtain req where req: "postBroadcast sample_tx_env sample_tx (transferring_url ''127.0.0.1:7076'' 0 True) = Some req"
    using postBroadcast_ok [of sample_tx_env sample_tx] by (fastforce simp: sample_tx_env_def sample_env_def)
  have a: "is_addr ''127.0.0.1:7076''" by code_simp
  have n: "length (ip_Circles (hs_ip sample_hs)) = 1" by (simp add: sample_hs_def sample_px_def)
  have "authorized sample_sv sample_hs (snd (incoming req))" by (simp add: authorized_def sample_hs_def)
  with announcement_understood [OF a req NewHttpService_ok(1) [OF sample_hs_new], where env = sample_sv] n
  obtain peer' w' where "ServeHTTP sample_sv (fst (incoming req)) (snd (incoming req)) sample_hs new_writer = Some (peer', w', None)"
    "tx_CircleStates (hs_tx peer') = (tx_CircleStates (hs_tx sample_hs))
      [0 := (tx_CircleStates (hs_tx sample_hs) ! 0)\<lparr>cs_Transferring := True\<rparr>]"
    by auto
  moreover have "length (tx_CircleStates (hs_tx sample_hs)) = 1"
    using NewHttpService_ok(1) [OF sample_hs_new] n by (simp add: service_ok_def)
  ultimately show ?thesis using req by fastforce
qed

definition stamped :: http_request where
  "stamped = (posted [])\<lparr>in_Body := Inr ''cpu v=1 1500''\<rparr>"

theorem write_v2_is_write_witness:
  "HandlerWriteV2 sample_sv sample_hs
       (stamped\<lparr>in_Query := map_set ''precision'' [''us''] (map_set ''bucket'' [''db'' @ ''/'' @ ''rp''] [])\<rparr>) new_writer =
     HandlerWrite sample_sv sample_hs
       (stamped\<lparr>in_Query := map_set ''precision'' [''u''] (map_set ''db'' [''db''] (map_set ''rp'' [''rp''] []))\<rparr>) new_writer \<and>
   HandlerWriteV2 sample_sv sample_hs
       (stamped\<lparr>in_Query := map_set ''precision'' [''''] (map_set ''bucket'' [''db''] [])\<rparr>) new_writer =
     HandlerWrite sample_sv sample_hs
       (stamped\<lparr>in_Query := map_set ''precision'' [''''] (map_set ''db'' [''db''] (map_set ''rp'' [''''] []))\<rparr>) new_writer"
proof
  show "HandlerWriteV2 sample_sv sample_hs
       (stamped\<lparr>in_Query := map_set ''precision'' [''us''] (map_set ''bucket'' [''db'' @ ''/'' @ ''rp''] [])\<rparr>) new_writer =
     HandlerWrite sample_sv sample_hs
       (stamped\<lparr>in_Query := map_set ''precision'' [''u''] (map_set ''db'' [''db''] (map_set ''rp'' [''rp''] []))\<rparr>) new_writer"
    by (rule write_v2_is_write [where r = stamped and db = "''db''" and rp = "''rp''" and ?p1.0 = "''u''" and ?p2.0 = "''us''"
        and bucket = "''db/rp''"]) (simp_all add: posted_def stamped_def)
  have "stamps_kept ''cpu v=1 1500''" by code_simp
  then have "\<forall>body. written_body sample_sv stamped = Some body \<longrightarrow> stamps_kept body"
    by (simp add: written_body_def stamped_def posted_def plain_request_def values_get_def)
  then show "HandlerWriteV2 sample_sv sample_hs
       (stamped\<lparr>in_Query := map_set ''precision'' [''''] (map_set ''bucket'' [''db''] [])\<rparr>) new_writer =
     HandlerWrite sample_sv sample_hs
       (stamped\<lparr>in_Query := map_set ''precision'' [''''] (map_set ''db'' [''db''] (map_set ''rp'' [''''] []))\<rparr>) new_writer"
    by (intro write_v2_is_write [where r = stamped and db = "''db''" and rp = "''''" and ?p1.0 = "''''" and ?p2.0 = "''''"
        and bucket = "''db''"]) (simp_all add: posted_def stamped_def sample_sv_def sample_we_def)
qed

theorem transfer_is_its_parts_witness:
  "\<exists>tx' ics' effs. run_background sample_tx_env (Rebalancing 0 [old_backend] [''db'']) (sample_tx, ip_Circles sample_px) =
       Some (tx', ics', effs) \<and>
     (transfer_part sample_tx_env)\<^sup>*\<^sup>* (sample_tx, ip_Circles sample_px) (tx', ics')"
proof -
  from sample_prepare obtain es where p: "prepare sample_tx_env [''db''] (sample_tx, ip_Circles sample_px) = Some ([''db''], es, True)" ..
  from Rebalance_run [OF sample_routable(1) _ _ sample_posts p, of 0 "[old_backend]"] sample_source
  obtain tx' ics' effs where "Rebalance sample_tx_env 0 [old_backend] [''db''] (sample_tx, ip_Circles sample_px) = Some (tx', ics', effs)"
    by (auto simp: sample_routable(2) sample_tx_simps)
  then have "run_background sample_tx_env (Rebalancing 0 [old_backend] [''db'']) (sample_tx, ip_Circles sample_px) = Some (tx', ics', effs)"
    by (simp add: run_background_def)
  from transfer_is_its_parts [OF this] this show ?thesis by blast
qed

end
