(* ===== verification/Service_Routing.thy ===== *)
theory Service_Routing
  imports Service_Runs
begin

text \<open>
  Where the measurements live while the service runs. The frame rules of \<open>Shape\<close> keep the
  consistent hash of every circle and the coherence of its cache, so every key keeps its
  backend in every state that the service can reach, and the requests that write, look up or
  read by a key find one.
\<close>

section \<open>Routing depends on the shape only\<close>

lemma same_shape_routes:
  assumes "circle_shape lookup ic' = circle_shape lookup ic"
  shows "route lookup ic' = route lookup ic" "circle_routes lookup ic' = circle_routes lookup ic"
proof -
  from assms show r: "route lookup ic' = route lookup ic"
    by (intro ext) (simp add: circle_shape_def route_def)
  from assms show "circle_routes lookup ic' = circle_routes lookup ic"
    by (simp add: circle_shape_def circle_routes_def r)
qed

lemma shape_nth: "shape lookup ics' = shape lookup ics \<Longrightarrow> p < length ics \<Longrightarrow> circle_shape lookup (ics' ! p) = circle_shape lookup (ics ! p)"
  unfolding shape_def by (metis length_map nth_map)

lemma fixed_shape: "fixed hs' lookup = fixed hs lookup \<Longrightarrow> shape lookup (ip_Circles (hs_ip hs')) = shape lookup (ip_Circles (hs_ip hs))"
  by (simp add: fixed_def proxy_shape_def)

lemma fixed_proxy_inv:
  assumes "fixed hs' lookup = fixed hs lookup" "proxy_inv lookup (hs_ip hs)"
  shows "proxy_inv lookup (hs_ip hs')"
proof -
  note s = fixed_shape [OF assms(1)]
  have "length (ip_Circles (hs_ip hs')) = length (ip_Circles (hs_ip hs))" using shape_length [OF s] .
  with assms(2) same_shape_routes(2) [OF shape_nth [OF s]] show ?thesis
    by (simp add: proxy_inv_def list_all_length)
qed

lemma NewHttpService_routes:
  assumes "NewHttpService mkdir opened cfg mo = Some (hs, mo')" "checkConfig cfg = None"
    and "picks_member lookup"
  shows "proxy_inv lookup (hs_ip hs)"
proof -
  from assms(1) obtain mo1 where "NewProxy mkdir opened cfg mo = Some (hs_ip hs, mo1)"
    by (auto simp: NewHttpService_def bind_eq_Some_conv)
  from NewProxy_routes [OF this assms(2-3)] show ?thesis .
qed

lemma reachable_routes:
  assumes "NewHttpService mkdir opened cfg mo = Some (hs0, mo')" "checkConfig cfg = None"
    and "picks_member lookup" "service_run lookup hs0 hs"
  shows "fixed hs lookup = fixed hs0 lookup" "proxy_inv lookup (hs_ip hs0)" "proxy_inv lookup (hs_ip hs)"
    "length (ip_Circles (hs_ip hs)) = length (pc_Circles cfg)"
proof -
  note new = NewHttpService_ok [OF assms(1)]
  from service_run_keeps [OF assms(4) new(1)] show k: "fixed hs lookup = fixed hs0 lookup" by simp
  show inv: "proxy_inv lookup (hs_ip hs0)" by (rule NewHttpService_routes [OF assms(1-3)])
  show "proxy_inv lookup (hs_ip hs)" by (rule fixed_proxy_inv [OF k inv])
  from shape_length [OF fixed_shape [OF k]] new(2) show "length (ip_Circles (hs_ip hs)) = length (pc_Circles cfg)" by simp
qed

text \<open>C10: a measurement lives on one backend of each circle as long as the service runs. With a
  configuration that the check accepts and a consistent hash that picks one of its members, every key is looked up in every circle as the same existing backend
  in every state that requests, the steps of transfers of every kind and the backends lead to,
  however interleaved, as in the initial one.\<close>

theorem routing_never_changes:
  assumes "NewHttpService mkdir opened cfg mo = Some (hs0, mo')" "checkConfig cfg = None"
    and "picks_member lookup" "service_run lookup hs0 hs"
    and "p < length (pc_Circles cfg)"
  shows "\<exists>i < length (ic_Backends (ip_Circles (hs_ip hs) ! p)).
    snd (GetBackend lookup (ip_Circles (hs_ip hs) ! p) key) = Some i \<and>
    snd (GetBackend lookup (ip_Circles (hs_ip hs0) ! p) key) = Some i"
proof -
  note r = reachable_routes [OF assms(1-4)]
  have len: "length (ip_Circles (hs_ip hs0)) = length (pc_Circles cfg)" by (rule NewHttpService_ok(2) [OF assms(1)])
  with assms(5) r(2-4) have c: "circle_routes lookup (ip_Circles (hs_ip hs0) ! p)" "circle_routes lookup (ip_Circles (hs_ip hs) ! p)"
    by (simp_all add: proxy_inv_def list_all_length)
  have "route lookup (ip_Circles (hs_ip hs) ! p) = route lookup (ip_Circles (hs_ip hs0) ! p)"
    by (rule same_shape_routes(1) [OF shape_nth [OF fixed_shape [OF r(1)]]]) (use assms(5) len in simp)
  moreover from c(2) obtain i where "i < length (ic_Backends (ip_Circles (hs_ip hs) ! p))"
    "route lookup (ip_Circles (hs_ip hs) ! p) key = Some i"
    unfolding circle_routes_def by blast
  ultimately show ?thesis using c by (auto simp: circle_routes_def circle_cache.lookup_val)
qed

section \<open>The requests that use a key do not panic\<close>

lemma total_bind: "x \<noteq> None \<Longrightarrow> (\<And>a. x = Some a \<Longrightarrow> f a \<noteq> None) \<Longrightarrow> x \<bind> f \<noteq> None"
  by (cases x) auto

lemma handlerWrite_total:
  assumes "proxy_inv (we_lookup (sv_we env)) (hs_ip hs)"
  shows "handlerWrite env hs db rp precision r w \<noteq> None"
proof -
  have "ip_Write (sv_we env) (sv_clock env) (hs_ip hs) p db rp precision \<noteq> None" for p
    using write_loop_total [OF assms, of "sv_clock env" p db rp precision 0 0] by (auto simp: ip_Write_def)
  then show ?thesis by (simp add: handlerWrite_def total_bind split: option.split sum.split del: not_None_eq)
qed

lemma WritePoints_total:
  "proxy_inv (we_lookup env) ip \<Longrightarrow> \<exists>ip' err'. WritePoints env pts db rp err ip = Some (ip', err')"
proof (induction env pts db rp err ip rule: WritePoints.induct)
  case (2 env meas line pts db rp err ip)
  obtain ip1 bes where g: "GetBackends (we_lookup env) ip (GetKey (we_measureOnly env) db meas) = (ip1, bes)"
    by (cases "GetBackends (we_lookup env) ip (GetKey (we_measureOnly env) db meas)")
  have "proxy_inv (we_lookup env) ip1"
    using GetBackends_spec [OF "2.prems", of "GetKey (we_measureOnly env) db meas"] g same_routing_proxy_inv [OF _ "2.prems"]
    by auto
  moreover from write_point_to_targets [OF "2.prems" g, of "\<lparr>lp_db = db, lp_rp = rp, lp_line = line\<rparr>" err]
  obtain ip2 err2 where "write_all bes \<lparr>lp_db = db, lp_rp = rp, lp_line = line\<rparr> err ip1 = Some (ip2, err2)"
    "proxy_inv (we_lookup env) ip2" by blast
  ultimately show ?case using g "2.IH" by (auto simp: Let_def)
qed simp

lemma those_map_total: "(\<And>x. x \<in> set xs \<Longrightarrow> f x \<noteq> None) \<Longrightarrow> those (map f xs) \<noteq> None"
  by (induction xs) (force split: option.split)+

lemma replica_total:
  assumes "proxy_inv (we_lookup (sv_we env)) (hs_ip hs)"
  shows "HandlerReplica env hs r w \<noteq> None"
proof -
  have "those (map (replica_row ip) bes) \<noteq> None" if "GetBackends (we_lookup (sv_we env)) (hs_ip hs) key = (ip, bes)" for key ip bes
    using GetBackends_spec [OF assms, of key] that by (intro those_map_total) (auto simp: replica_row_def)
  then show ?thesis unfolding HandlerReplica_def Let_def
    by (intro when_authorized_total) (simp add: total_bind split: prod.split del: not_None_eq)
qed

lemma prom_write_total:
  assumes "proxy_inv (we_lookup (sv_we env)) (hs_ip hs)"
  shows "HandlerPromWrite env hs r w \<noteq> None"
proof -
  have "WritePoints (sv_we env) pts db rp None (hs_ip hs) \<noteq> None" for pts db rp
    using WritePoints_total [OF assms] by auto
  then show ?thesis unfolding HandlerPromWrite_def
    by (intro when_authorized_total) (simp add: total_bind Let_def split: prod.split sum.split del: not_None_eq)
qed

lemma query_total:
  assumes "proxy_inv lookup ip" "\<forall>p \<in> set perms. p < length (ip_Circles ip)"
  shows "query lookup perms fn ip key req w \<noteq> None"
  using query_spec [OF assms, of fn key req w] by (auto simp del: not_None_eq)

lemma prom_read_total:
  assumes "proxy_inv (xe_lookup (sv_xe env)) (hs_ip hs)" "\<forall>p \<in> set (sv_perms env). p < length (ip_Circles (hs_ip hs))"
  shows "HandlerPromRead env hs r w \<noteq> None"
  unfolding HandlerPromRead_def
  by (intro when_authorized_total)
    (simp add: total_bind ReadProm_def query_total [OF assms] Let_def split: prod.split sum.split option.split del: not_None_eq)

lemma query_handler_total:
  assumes "\<And>v. Query (sv_xe env) (sv_order env) (sv_perms env) (hs_ip hs) (in_req r) v \<noteq> None"
  shows "HandlerQuery env hs r w \<noteq> None"
  unfolding HandlerQuery_def
  by (intro when_authorized_total)
    (simp add: total_bind assms Let_def split: prod.split option.split del: not_None_eq)

lemma write_handlers_total:
  assumes "proxy_inv (we_lookup (sv_we env)) (hs_ip hs)"
  shows "HandlerWrite env hs r w \<noteq> None" "HandlerWriteV2 env hs r w \<noteq> None"
  unfolding HandlerWrite_def HandlerWriteV2_def
  by (intro when_authorized_total, simp add: handlerWrite_total [OF assms] Let_def split: prod.split sum.split del: not_None_eq)+

definition data_paths :: "string set" where
  "data_paths = {''/write'', ''/api/v2/write'', ''/replica'', ''/api/v1/prom/read'', ''/api/v1/prom/write''}"

text \<open>C17: no request that writes or reads by a key can bring the proxy down. With a configuration
  that the check accepts and a consistent hash that picks one of its members, in every state that the service can reach, a request to write lines or points, to
  show the replicas of a measurement or to read through the remote read interface is answered
  for any bytes of its body, database, retention policy and precision: no index runs out of
  range, no nil backend is used and every loop ends.\<close>

theorem data_requests_answered:
  assumes "NewHttpService mkdir opened cfg mo = Some (hs0, mo')" "checkConfig cfg = None"
    and "picks_member lookup" "service_run lookup hs0 hs"
    and "uses lookup env" "\<forall>p \<in> set (sv_perms env). p < length (pc_Circles cfg)" "path \<in> data_paths"
  shows "\<exists>hs' w' b. ServeHTTP env path r hs w = Some (hs', w', b) \<and> proxy_inv lookup (hs_ip hs')"
proof -
  note r = reachable_routes [OF assms(1-4)]
  from assms(5) have l: "xe_lookup (sv_xe env) = lookup" "we_lookup (sv_we env) = lookup" by (simp_all add: uses_def)
  note inv = r(3) [folded l(2)] r(3) [folded l(1)]
  note total = write_handlers_total [OF inv(1)] replica_total [OF inv(1)] prom_write_total [OF inv(1)]
    prom_read_total [OF inv(2) assms(6) [folded r(4)]]
  from assms(7) obtain handler where h: "map_get Register path = Some handler" "\<And>v. handler env hs r v \<noteq> None"
    unfolding data_paths_def by (elim insertE emptyE) (simp_all add: Register_def total del: not_None_eq)
  obtain hs' w' b where s: "ServeHTTP env path r hs w = Some (hs', w', b)"
    using ServeHTTP_registered [OF h(1), of w env r hs] h(2) by (metis option.exhaust prod_cases3)
  with reachable_routes(3) [OF assms(1-3) service_run.request [OF assms(4,5) s]] show ?thesis by blast
qed


section \<open>Instances\<close>

text \<open>After a request for a cleanup.\<close>

lemma cleaning_reached: "\<exists>hs. service_run first_member sample_hs hs \<and> tx_Worker (hs_tx hs) = 4"
proof -
  from cleaning_starts obtain w' where
    s: "ServeHTTP sample_sv ''/cleanup'' cleaning sample_hs new_writer =
      Some (sample_hs\<lparr>hs_tx := (NewTransfer sample_pxcfg)\<lparr>tx_Worker := 4\<rparr>\<rparr>, w', Some (Cleaning 0))" ..
  from service_run.request [OF service_run.start sample_sv_uses s] show ?thesis by fastforce
qed

theorem routing_never_changes_witness:
  "\<exists>hs. service_run first_member sample_hs hs \<and> tx_Worker (hs_tx hs) = 4 \<and>
     (\<exists>i. snd (GetBackend first_member (ip_Circles (hs_ip hs) ! 0) ''db,cpu'') = Some i \<and>
       snd (GetBackend first_member (ip_Circles (hs_ip sample_hs) ! 0) ''db,cpu'') = Some i)"
proof -
  from cleaning_reached obtain hs where h: "service_run first_member sample_hs hs" "tx_Worker (hs_tx hs) = 4" by blast
  have "0 < length (pc_Circles sample_pxcfg)" by (simp add: sample_pxcfg_def setDefault_def sample_config_def)
  from routing_never_changes [OF sample_hs_new sample_pxcfg_ok picks_member_first h(1) this] h show ?thesis by blast
qed

theorem data_requests_answered_witness:
  "\<exists>hs' w' b. ServeHTTP sample_sv ''/write'' (posted [(''db'', [''db''])]) sample_hs new_writer = Some (hs', w', b) \<and>
     proxy_inv first_member (hs_ip hs')"
proof (rule data_requests_answered [OF sample_hs_new sample_pxcfg_ok picks_member_first service_run.start sample_sv_uses])
  show "\<forall>p \<in> set (sv_perms sample_sv). p < length (pc_Circles sample_pxcfg)"
    by (simp add: sample_sv_def sample_pxcfg_def setDefault_def sample_config_def)
qed (simp add: data_paths_def)

definition show_posted :: http_request where
  "show_posted = \<lparr>in_req = show_request, in_Query = [], in_Body = Inr []\<rparr>"

text \<open>The servers list two measurements.\<close>

definition listing_sv :: svc_env where
  "listing_sv = sample_sv\<lparr>sv_xe := listing_xe\<rparr>"


end
