(* ===== verification/Startup.thy ===== *)
theory Startup
  imports Service_Routing
begin

text \<open>
  The start of the program, \<^verbatim>\<open>main.go\<close>: its flags, what it does with its configuration file and
  the service it builds, what it prints and logs, up to the server of \<^verbatim>\<open>net/http\<close>. The arguments
  of the command line, the outcome of reading and decoding the file, of creating the data
  directory and of opening the backlogs are arguments.
\<close>

section \<open>The flags\<close>

text \<open>What the program is told: the configuration file and whether to print the version, or the code
  with which package \<^verbatim>\<open>flag\<close> ends it after a wrong or a help flag.\<close>

datatype flags = Flags (fl_configFile: string) (fl_version: bool) | FlagExit nat

text \<open>An argument that is a flag, without its dashes, cut at the first \<open>=\<close> behind the first character.\<close>

definition flag_name :: "string \<Rightarrow> string \<times> string option" where
  "flag_name s =
     (let name = hd s # takeWhile (\<lambda>c. c \<noteq> CHR ''='') (tl s) in
      (name, if length name = length s then None else Some (drop (Suc (length name)) s)))"

text \<open>\<^verbatim>\<open>flag.Parse\<close> with the two flags of the program: it stops before the first argument that is no
  flag, and behind \<open>--\<close>.\<close>

fun parse_flags :: "string list \<Rightarrow> string \<Rightarrow> bool \<Rightarrow> flags" where
  "parse_flags [] configFile version = Flags configFile version"
| "parse_flags (s # args) configFile version =
     (if length s < 2 \<or> hd s \<noteq> CHR ''-'' \<or> s = ''--'' then Flags configFile version
      else
        let name = (if s ! 1 = CHR ''-'' then drop 2 s else tl s) in
        if name = [] \<or> hd name = CHR ''-'' \<or> hd name = CHR ''='' then FlagExit 2
        else case flag_name name of
          (name, value) \<Rightarrow>
            if name = ''version'' then
              (case value of
                 None \<Rightarrow> parse_flags args configFile True
               | Some v \<Rightarrow> (case ParseBool v of None \<Rightarrow> FlagExit 2 | Some b \<Rightarrow> parse_flags args configFile b))
            else if name = ''config'' then
              (case value of
                 Some v \<Rightarrow> parse_flags args v version
               | None \<Rightarrow> (case args of [] \<Rightarrow> FlagExit 2 | v # args' \<Rightarrow> parse_flags args' v version))
            else FlagExit (if name = ''help'' \<or> name = ''h'' then 0 else 2))"

definition init :: "string list \<Rightarrow> flags" where
  "init args = parse_flags args ''proxy.json'' False"

lemma init_default: "init [] = Flags ''proxy.json'' False"
  by (simp add: init_def)

text \<open>The last flag of a kind counts; what follows the first other argument is ignored.\<close>

lemma parse_flags_config:
  "parse_flags (''-config'' # file # args) c v = parse_flags args file v"
  "parse_flags (''--config'' # file # args) c v = parse_flags args file v"
  "parse_flags ((''-config='' @ file) # args) c v = parse_flags args file v"
  by (simp_all add: flag_name_def)

lemma parse_flags_version: "parse_flags (''-version'' # args) c v = parse_flags args c True"
  by (simp add: flag_name_def)

lemma parse_flags_rest: "s = [] \<or> hd s \<noteq> CHR ''-'' \<Longrightarrow> parse_flags (s # args) c v = Flags c v"
  by auto

section \<open>The program\<close>

text \<open>The package variables that the linker sets, and what \<^verbatim>\<open>runtime\<close> says of the program.\<close>

record build_info =
  bi_Version :: string
  bi_GitCommit :: string
  bi_BuildTime :: string
  bi_GoVersion :: string
  bi_OS :: string
  bi_Arch :: string

definition printVersion :: "build_info \<Rightarrow> string list" where
  "printVersion b =
     [''Version:    '' @ bi_Version b,
      ''Git commit: '' @ bi_GitCommit b,
      ''Build time: '' @ bi_BuildTime b,
      ''Go version: '' @ bi_GoVersion b,
      ''OS/Arch:    '' @ bi_OS b @ ''/'' @ bi_Arch b]"

text \<open>The verbs \<^verbatim>\<open>%t\<close> for a Boolean and \<^verbatim>\<open>%v\<close> for a slice of strings.\<close>

definition fmt_bool :: "bool \<Rightarrow> string" where
  "fmt_bool b = (if b then ''true'' else ''false'')"

definition fmt_strings :: "string list \<Rightarrow> string" where
  "fmt_strings xs = ''['' @ Join xs '' '' @ '']''"

definition PrintSummary :: "ProxyConfig \<Rightarrow> string list" where
  "PrintSummary cfg =
     (Itoa (int (length (pc_Circles cfg))) @ '' circles loaded from file'') #
     map (\<lambda>(id, circle). ''circle '' @ Itoa (int id) @ '': '' @ Itoa (int (length (cc_Backends circle))) @ '' backends loaded'')
       (enumerate 0 (pc_Circles cfg)) @
     [''hash key: '' @ pc_HashKey cfg] @
     (if pc_DBList cfg \<noteq> [] then [''db list: '' @ fmt_strings (pc_DBList cfg)] else []) @
     [''auth: '' @ fmt_bool (pc_Username cfg \<noteq> '''' \<or> pc_Password cfg \<noteq> '''') @ '', encrypt: '' @ fmt_bool (pc_AuthEncrypt cfg)]"

text \<open>What \<^verbatim>\<open>main\<close> logs until it serves, without the time and the place that \<^verbatim>\<open>log\<close> puts before
  each line.\<close>

definition start_log :: "build_info \<Rightarrow> ProxyConfig \<Rightarrow> string list" where
  "start_log b cfg =
     (''version: '' @ bi_Version b @ '', commit: '' @ bi_GitCommit b @ '', build: '' @ bi_BuildTime b) # PrintSummary cfg @
     [(if pc_HTTPSEnabled cfg then ''https'' else ''http'') @ '' service start, listen on '' @ pc_ListenAddr cfg]"

text \<open>The log says whether there are credentials, and nothing else about them.\<close>

lemma start_log_hides_credentials:
  assumes "(u \<noteq> '''' \<or> p \<noteq> '''') = (pc_Username cfg \<noteq> '''' \<or> pc_Password cfg \<noteq> '''')"
  shows "start_log b (cfg\<lparr>pc_Username := u, pc_Password := p\<rparr>) = start_log b cfg"
  using assms by (simp add: start_log_def PrintSummary_def)

datatype started =
    PrintedVersion "string list"
  | IllegalConfig error
  | Exited
  | Serving (st_Log: "string list") (st_Addr: string) (st_IdleTimeout: int) (st_TLS: "(string \<times> string) option") (st_Handler: HttpService)

text \<open>\<open>Exited\<close> is \<^verbatim>\<open>log.Fatalln\<close> in \<^verbatim>\<open>NewProxy\<close> or a panic while the service is built. The time-out
  is the number of seconds.\<close>

definition main ::
    "build_info \<Rightarrow> bool \<Rightarrow> error option \<Rightarrow> ProxyConfig \<times> error option \<Rightarrow> stat \<times> error option \<Rightarrow>
     (BackendConfig \<Rightarrow> FileBackend \<times> error option) \<Rightarrow> started" where
  "main b version readInConfig unmarshal mkdir opened =
     (if version then PrintedVersion (printVersion b)
      else case NewFileConfig readInConfig unmarshal of
        (_, Some e) \<Rightarrow> IllegalConfig e
      | (None, None) \<Rightarrow> Exited
      | (Some cfg, None) \<Rightarrow>
          (case NewHttpService mkdir opened cfg False of
             None \<Rightarrow> Exited
           | Some (hs, measureOnly) \<Rightarrow>
               Serving (start_log b cfg) (pc_ListenAddr cfg) (pc_IdleTimeout cfg)
                 (if pc_HTTPSEnabled cfg then Some (pc_HTTPSCert cfg, pc_HTTPSKey cfg) else None) hs))"

text \<open>The whole program: the flags, then \<^verbatim>\<open>main\<close>; what there is in a file depends on its name.\<close>

definition program ::
    "build_info \<Rightarrow> string list \<Rightarrow> (string \<Rightarrow> error option) \<Rightarrow> (string \<Rightarrow> ProxyConfig \<times> error option) \<Rightarrow>
     stat \<times> error option \<Rightarrow> (BackendConfig \<Rightarrow> FileBackend \<times> error option) \<Rightarrow> nat + started" where
  "program b args readInConfig unmarshal mkdir opened =
     (case init args of
        FlagExit code \<Rightarrow> Inl code
      | Flags file version \<Rightarrow> Inr (main b version (readInConfig file) (unmarshal file) mkdir opened))"

text \<open>A configuration is only looked at in the file named last.\<close>

lemma program_reads_named_file:
  assumes "readInConfig file = readInConfig' file" "unmarshal file = unmarshal' file"
  shows "program b [''-config'', file] readInConfig unmarshal mkdir opened =
    program b [''-config'', file] readInConfig' unmarshal' mkdir opened"
  using assms by (simp add: program_def init_def parse_flags_config del: parse_flags.simps(2))

lemma program_version:
  "program b [''-version''] readInConfig unmarshal mkdir opened = Inr (PrintedVersion (printVersion b))"
  by (simp add: program_def init_def parse_flags_version main_def del: parse_flags.simps(2))

section \<open>The service that is started\<close>

text \<open>A backend whose goroutines and tickers can run.\<close>

definition backend_ready :: "Backend \<Rightarrow> bool" where
  "backend_ready be \<longleftrightarrow>
     ib_running be \<and> ib_fb be \<noteq> None \<and> 0 < ib_flushSize be \<and> 0 < ib_flushTime be \<and> 0 < ib_rewriteInterval be"

definition ready_circle :: "Circle \<Rightarrow> bool" where
  "ready_circle ic \<longleftrightarrow> list_all backend_ready (ic_Backends ic)"

lemma add_backends_ready:
  assumes "add_backends pxcfg opened i cfgs ic = Some ic'" "ready_circle ic"
    and "0 < pc_FlushSize pxcfg" "0 < pc_FlushTime pxcfg" "0 < pc_RewriteInterval pxcfg"
  shows "ready_circle ic'"
  using assms
proof (induction pxcfg opened i cfgs ic rule: add_backends.induct)
  case (2 pxcfg opened idx cfg cfgs ic)
  from "2.prems"(1) obtain be where be: "NewBackend cfg pxcfg (opened cfg) = Some be"
    and rest: "add_backends pxcfg opened (Suc idx) cfgs
      (addRouter (ic\<lparr>ic_Backends := ic_Backends ic @ [be]\<rparr>) be idx (pc_HashKey pxcfg)) = Some ic'"
    by (auto split: option.splits)
  from be "2.prems"(3-5) have "backend_ready be"
    by (auto simp: NewBackend_Some backend_ready_def)
  with "2.prems"(2) have "ready_circle (addRouter (ic\<lparr>ic_Backends := ic_Backends ic @ [be]\<rparr>) be idx (pc_HashKey pxcfg))"
    by (simp add: ready_circle_def addRouter_def Let_def)
  from "2.IH" [OF be rest this "2.prems"(3-5)] show ?case .
qed simp

lemma new_circles_ready:
  "new_circles opened cfg i cs = Some ics \<Longrightarrow> 0 < pc_FlushSize cfg \<Longrightarrow> 0 < pc_FlushTime cfg \<Longrightarrow>
     0 < pc_RewriteInterval cfg \<Longrightarrow> list_all ready_circle ics"
proof (induction cs arbitrary: i ics)
  case (Cons c cs)
  then obtain ic ics' where c: "NewCircle opened c cfg i = Some ic" "new_circles opened cfg (Suc i) cs = Some ics'"
    "ics = ic # ics'" by (auto simp: bind_eq_Some_conv)
  have "ready_circle ic"
    by (rule add_backends_ready [OF c(1) [unfolded NewCircle_def] _ Cons.prems(2-4)]) (simp add: ready_circle_def)
  with c Cons show ?case by simp
qed simp

lemma main_cases:
  assumes "main b version readInConfig (raw, err) mkdir opened = Serving lg addr timeout tls hs"
  obtains measureOnly where "checkConfig (setDefault raw) = None"
    "NewHttpService mkdir opened (setDefault raw) False = Some (hs, measureOnly)"
    "addr = pc_ListenAddr (setDefault raw)" "timeout = pc_IdleTimeout (setDefault raw)"
  using assms
  by (auto simp: main_def NewFileConfig_def split: if_split_asm option.split_asm prod.split_asm)

text \<open>C31: a started service is fit to run. When the program serves requests, whatever the file
  said: it listens on some address with a positive time-out; there is a circle for every
  configured one, at least one; every circle has backends, each with its backlog open, its worker
  running and positive sizes and intervals (a ticker of Go panics otherwise); the transfer
  state is sound; and with a consistent hash that picks one of its members every key has its
  backend in every circle.\<close>

theorem main_serves_ready:
  assumes "main b version readInConfig (raw, err) mkdir opened = Serving lg addr timeout tls hs" "picks_member lookup"
  shows "addr \<noteq> '''' \<and> 0 < timeout \<and> ip_Circles (hs_ip hs) \<noteq> [] \<and>
    length (ip_Circles (hs_ip hs)) = length (pc_Circles raw) \<and>
    list_all ready_circle (ip_Circles (hs_ip hs)) \<and> service_ok hs \<and> proxy_inv lookup (hs_ip hs)"
proof -
  let ?cfg = "setDefault raw"
  from assms(1) obtain mo where m: "checkConfig ?cfg = None" "NewHttpService mkdir opened ?cfg False = Some (hs, mo)"
    "addr = pc_ListenAddr ?cfg" "timeout = pc_IdleTimeout ?cfg" by (rule main_cases)
  have pos: "0 < pc_FlushSize ?cfg" "0 < pc_FlushTime ?cfg" "0 < pc_RewriteInterval ?cfg" "0 < pc_IdleTimeout ?cfg"
    "pc_ListenAddr ?cfg \<noteq> ''''" "pc_Circles ?cfg = pc_Circles raw"
    by (simp_all add: setDefault_def default_int_def default_string_def)
  note new = NewHttpService_ok [OF m(2)]
  have "new_circles opened ?cfg 0 (pc_Circles ?cfg) = Some (ip_Circles (hs_ip hs))"
    using m(2) by (auto simp: NewHttpService_def NewProxy_def bind_eq_Some_conv split: if_split_asm)
  from new_circles_ready [OF this pos(1-3)] new(1,2) config_accepted(1) [OF m(1)]
    NewHttpService_routes [OF m(2,1) assms(2)] pos m(3,4)
  show ?thesis by auto
qed

theorem main_serves_ready_witness:
  "\<exists>b lg addr timeout tls. main b False None (sample_config, None) (Exists, None) (\<lambda>_. (empty_backlog, None)) = Serving lg addr timeout tls sample_hs \<and>
     addr \<noteq> '''' \<and> 0 < timeout \<and> list_all ready_circle (ip_Circles (hs_ip sample_hs))"
proof -
  have p: "setDefault sample_config = sample_pxcfg" by (simp add: sample_pxcfg_def)
  have "NewFileConfig None (sample_config, None) = (Some sample_pxcfg, None)"
    using sample_pxcfg_ok by (simp add: NewFileConfig_def p)
  with sample_hs_new obtain lg addr timeout tls where
    "main b False None (sample_config, None) (Exists, None) (\<lambda>_. (empty_backlog, None)) = Serving lg addr timeout tls sample_hs"
    by (simp add: main_def)
  with main_serves_ready [OF this picks_member_first] show ?thesis by blast
qed

end
