(* ===== verification/Delivery.thy ===== *)
theory Delivery
  imports Backend "HOL-Library.Multiset"
begin

text \<open>
  A backend as a whole: its worker, the tasks it has handed to the pool, the loop that rewrites
  the backlog and the files that tasks and loop share, all interleaved. Where \<open>Backend\<close> says
  what each of them does, here every line that was accepted is followed from the channel to
  the server.
\<close>

section \<open>The rewriting loop\<close>

text \<open>Where the goroutine of \<^verbatim>\<open>RewriteLoop\<close> stands: at the head of its loop, before reading a record,
  with a record in its hand, or behind the loop.\<close>

datatype loop = LoopHead | Reading | Holding bytes | Leaving

text \<open>A step of the goroutine: the backend after it, where it stands then (nowhere, when it has
  returned), and what has become of a record it wrote. Other goroutines act between two steps.\<close>

inductive loop_step :: "Backend \<times> loop \<Rightarrow> Backend \<times> loop option \<times> (outcome \<times> bytes) list \<Rightarrow> bool" where
  leave: "ib_fb ib = Some fb \<Longrightarrow> \<not> IsData fb \<Longrightarrow> loop_step (ib, LoopHead) (ib, Some Leaving, [])"
| stop: "ib_fb ib = Some fb \<Longrightarrow> IsData fb \<Longrightarrow> \<not> ib_running ib \<Longrightarrow> loop_step (ib, LoopHead) (ib, None, [])"
| sleep: "ib_fb ib = Some fb \<Longrightarrow> IsData fb \<Longrightarrow> ib_running ib \<Longrightarrow> \<not> IsActive (ib_hb ib) \<Longrightarrow>
    loop_step (ib, LoopHead) (ib, Some LoopHead, [])"
| go_on: "ib_fb ib = Some fb \<Longrightarrow> IsData fb \<Longrightarrow> ib_running ib \<Longrightarrow> IsActive (ib_hb ib) \<Longrightarrow>
    loop_step (ib, LoopHead) (ib, Some Reading, [])"
| read: "ib_fb ib = Some fb \<Longrightarrow> fb_Read (None, None) fb = (fb', res) \<Longrightarrow>
    loop_step (ib, Reading)
      (ib\<lparr>ib_fb := Some fb'\<rparr>, Some (case res of Inr (Some b) \<Rightarrow> Holding b | _ \<Rightarrow> LoopHead), [])"
| resend: "resend env good_Rewrite ib b = Some (ib', err, oc) \<Longrightarrow>
    loop_step (ib, Holding b)
      (ib', Some LoopHead, (case oc of Some out \<Rightarrow> if out = Backlogged then [] else [(out, b)] | None \<Rightarrow> []))"
| left: "loop_step (ib, Leaving) (ib\<lparr>ib_hb := SetRewriting (ib_hb ib) False\<rparr>, None, [])"

inductive_cases loop_stepE: "loop_step (ib, l) (ib', l', lg)"

text \<open>The record whose resending has just failed while no offset had been marked: there is nothing
  to roll back to (\<^verbatim>\<open>file.go:126\<close>), so the consumer stays behind it.\<close>

definition skipped :: "Backend \<Rightarrow> loop \<Rightarrow> (outcome \<times> bytes) list \<Rightarrow> bytes list" where
  "skipped ib l lg = (case l of
       Holding b \<Rightarrow> if lg = [] \<and> (\<forall>fb. ib_fb ib = Some fb \<longrightarrow> \<not> marked fb) then [b] else []
     | _ \<Rightarrow> [])"

text \<open>Undisturbed, reading and resending are \<^verbatim>\<open>Rewrite\<close>.\<close>

lemma Rewrite_in_steps:
  assumes "loop_step (ib, Reading) (ib1, Some (Holding b), lg1)" "loop_step (ib1, Holding b) (ib2, l, lg2)"
  shows "\<exists>env err. Rewrite env good_Rewrite ib = Some (ib2, err) \<and> l = Some LoopHead"
proof -
  from assms(1) obtain fb fb' where r: "ib_fb ib = Some fb" "fb_Read (None, None) fb = (fb', Inr (Some b))"
    "ib1 = ib\<lparr>ib_fb := Some fb'\<rparr>"
    by (auto elim!: loop_stepE split: sum.splits option.splits)
  from assms(2) obtain env err oc where "resend env good_Rewrite ib1 b = Some (ib2, err, oc)" "l = Some LoopHead"
    by (auto elim!: loop_stepE)
  with r show ?thesis by (intro exI [of _ env] exI [of _ err]) (simp add: Rewrite_def good_Rewrite_def)
qed

section \<open>The whole backend\<close>

text \<open>Beside the backend, its worker's phase, its pool and its loop stands the history: the lines
  sent, the tasks submitted, the records settled by the server, and the records passed over.\<close>

record site =
  si_ib :: Backend
  si_phase :: phase
  si_waiting :: "task list"
  si_loops :: "loop list"
  si_sent :: "LinePoint list"
  si_submitted :: "task list"
  si_log :: "(outcome \<times> bytes) list"
  si_skipped :: "bytes list"

definition new_site :: "Backend \<Rightarrow> site" where
  "new_site ib = \<lparr>si_ib = ib, si_phase = AtHead, si_waiting = [], si_loops = [], si_sent = [], si_submitted = [], si_log = [],
     si_skipped = []\<rparr>"

text \<open>The record that a task leaves in the backlog, \<open>gz\<close> being what the compression does.\<close>

definition record_of :: "(bytes \<Rightarrow> bytes) \<Rightarrow> task \<Rightarrow> bytes" where
  "record_of gz t = (case t of (db, rp, p) \<Rightarrow> backlog_record db rp (gz p))"

text \<open>The ticker starts a loop when it raises the rewriting flag.\<close>

definition started :: "event \<Rightarrow> Backend \<Rightarrow> Backend \<Rightarrow> loop list" where
  "started ev ib ib' = (if ev = Ticker \<and> \<not> IsRewriting (ib_hb ib) \<and> IsRewriting (ib_hb ib') then [LoopHead] else [])"

text \<open>The steps of the whole: one of the worker, which closes the files only when the pool is
  done; one task run by the pool; one step of a loop; and the health check or a request that
  changes the state of the connection. The compression and the disk work, and a record that goes to
  the backlog fits there.\<close>

inductive site_step :: "(bytes \<Rightarrow> bytes) \<Rightarrow> site \<Rightarrow> site \<Rightarrow> bool" for gz where
  worker: "worker_step (si_ib s, si_phase s) ev (ib', ph') us \<Longrightarrow> (ev = Finish \<Longrightarrow> si_waiting s = []) \<Longrightarrow>
    (\<And>pt. ev = Send pt \<Longrightarrow> lp_line pt \<noteq> []) \<Longrightarrow>
    site_step gz s (s\<lparr>si_ib := ib', si_phase := ph', si_waiting := si_waiting s @ us, si_submitted := si_submitted s @ us,
      si_sent := si_sent s @ (case ev of Send pt \<Rightarrow> [pt] | _ \<Rightarrow> []), si_loops := started ev (si_ib s) ib' @ si_loops s\<rparr>)"
| task: "si_waiting s = xs @ t # ys \<Longrightarrow> Compress env (snd (snd t)) = (gz (snd (snd t)), None) \<Longrightarrow>
    run_task env good_Write (si_ib s) t = Some (ib', oc) \<Longrightarrow>
    (oc \<notin> {Written, Dropped} \<Longrightarrow> \<exists>fb. ib_fb (si_ib s) = Some fb \<and> fb_fits fb (record_of gz t)) \<Longrightarrow>
    site_step gz s (s\<lparr>si_ib := ib', si_waiting := xs @ ys,
      si_log := si_log s @ (if oc = Backlogged then [] else [(oc, record_of gz t)])\<rparr>)"
| loop: "si_loops s = xs @ l # ys \<Longrightarrow> loop_step (si_ib s, l) (ib', l', lg) \<Longrightarrow>
    site_step gz s (s\<lparr>si_ib := ib', si_loops := xs @ (case l' of None \<Rightarrow> [] | Some k \<Rightarrow> [k]) @ ys, si_log := si_log s @ lg,
      si_skipped := si_skipped s @ skipped (si_ib s) l lg\<rparr>)"
| other: "hb_rewriting hb = hb_rewriting (ib_hb (si_ib s)) \<Longrightarrow> hb_client hb = hb_client (ib_hb (si_ib s)) \<Longrightarrow>
    site_step gz s (s\<lparr>si_ib := (si_ib s)\<lparr>ib_hb := hb\<rparr>\<rparr>)"

inductive site_run :: "(bytes \<Rightarrow> bytes) \<Rightarrow> site \<Rightarrow> site \<Rightarrow> bool" for gz s0 where
  start: "site_run gz s0 s0"
| more: "site_run gz s0 s \<Longrightarrow> site_step gz s s' \<Longrightarrow> site_run gz s0 s'"


section \<open>What each step leaves alone\<close>

lemma WriteCompressed_rewriting:
  "WriteCompressed env hb db rp p = Some (hb', err) \<Longrightarrow> hb_rewriting hb' = hb_rewriting hb \<and> hb_client hb' = hb_client hb"
  by (auto simp: WriteCompressed_def WriteStream_def Let_def split: if_splits option.splits sum.splits)

text \<open>A task settles its record without the files, or with a working disk appends it to the
  backlog.\<close>

lemma run_task_settled:
  assumes "run_task env io ib t = Some (ib', oc)" "oc \<in> {Written, Dropped}"
  shows "\<exists>hb. hb_rewriting hb = hb_rewriting (ib_hb ib) \<and> hb_client hb = hb_client (ib_hb ib) \<and> ib' = ib\<lparr>ib_hb := hb\<rparr>"
proof -
  obtain db rp p where t: "t = (db, rp, p)" by (cases t)
  have bl: "to_backlog io ib1 db rp q \<noteq> Some (ib', oc)" for ib1 q
    using assms(2) by (auto simp: to_backlog_def split: option.splits prod.splits)
  obtain z e where z: "Compress env p = (z, e)" by (cases "Compress env p")
  from assms bl z have a: "e = None" "IsActive (ib_hb ib)" by (auto simp: run_task_def t split: option.splits if_splits)
  with assms(1) z obtain hb err where w: "WriteCompressed env (ib_hb ib) db rp z = Some (hb, err)"
    by (cases "WriteCompressed env (ib_hb ib) db rp z") (auto simp: run_task_def t)
  with assms(1) a z bl have "ib' = ib\<lparr>ib_hb := hb\<rparr>" by (auto simp: run_task_def t Let_def split: if_splits)
  with WriteCompressed_rewriting [OF w] show ?thesis by blast
qed

lemma run_task_record:
  assumes "run_task env good_Write ib t = Some (ib', oc)" "Compress env (snd (snd t)) = (gz (snd (snd t)), None)"
    and "ib_fb ib = Some fb" "fb_Write good_Write fb (record_of gz t) = (fb', None)" "oc \<notin> {Written, Dropped}"
  shows "\<exists>hb. hb_rewriting hb = hb_rewriting (ib_hb ib) \<and> hb_client hb = hb_client (ib_hb ib) \<and>
    oc = Backlogged \<and> ib' = ib\<lparr>ib_hb := hb, ib_fb := Some fb'\<rparr>"
proof -
  obtain db rp p where t: "t = (db, rp, p)" by (cases t)
  have bl: "to_backlog good_Write ib1 db rp (gz p) = Some (ib1\<lparr>ib_fb := Some fb'\<rparr>, Backlogged)" if "ib_fb ib1 = Some fb" for ib1
    using that assms(4) by (simp add: to_backlog_def t record_of_def)
  show ?thesis
  proof (cases "IsActive (ib_hb ib)")
    case False
    with assms(1,2) bl [OF assms(3)] have "ib' = ib\<lparr>ib_fb := Some fb'\<rparr>" "oc = Backlogged" by (simp_all add: run_task_def t)
    then show ?thesis by (intro exI [of _ "ib_hb ib"]) simp
  next
    case True
    with assms(1,2) obtain hb err where w: "WriteCompressed env (ib_hb ib) db rp (gz p) = Some (hb, err)"
      by (cases "WriteCompressed env (ib_hb ib) db rp (gz p)") (auto simp: run_task_def t)
    have "ib_fb (ib\<lparr>ib_hb := hb\<rparr>) = Some fb" using assms(3) by simp
    with assms(1,2,5) True w bl [OF this] WriteCompressed_rewriting [OF w] show ?thesis
      by (intro exI [of _ hb]) (auto simp: run_task_def t Let_def split: if_splits)
  qed
qed

lemma worker_step_files:
  assumes "worker_step (ib, ph) ev (ib', ph') us" "worker_inv ib" "ev \<noteq> Finish"
  shows "ib_fb ib' = ib_fb ib \<and> (ev \<noteq> Ticker \<longrightarrow> ib_hb ib' = ib_hb ib) \<and>
    (IsRewriting (ib_hb ib) \<longrightarrow> IsRewriting (ib_hb ib')) \<and> (ph = Gone \<longrightarrow> ph' = Gone \<and> us = [])"
  using assms(1)
proof (cases rule: worker_step.cases)
  case (receive pt pts)
  with assms(2) WriteBuffer_spec [of "ib\<lparr>ib_chWrite := pts\<rparr>" pt] show ?thesis by (auto simp: worker_inv_def)
next
  case timer
  with assms(2) Flush_spec [of "ib_flushSize ib" ib] show ?thesis by (auto simp: worker_inv_def)
next
  case drain
  with assms(2) Flush_spec [of "ib_flushSize ib" ib] show ?thesis by (auto simp: worker_inv_def)
qed (use assms(3) in \<open>auto simp: WritePoint_def ib_Close_def RewriteIdle_def IsRewriting_def SetRewriting_def
    split: if_splits option.splits\<close>)

section \<open>The accounts\<close>

definition is_record :: "bytes \<Rightarrow> bool" where
  "is_record b \<longleftrightarrow> (\<exists>db rp z. b = backlog_record db rp z)"

definition held :: "loop list \<Rightarrow> bytes list" where
  "held ls = concat (map (\<lambda>l. case l of Holding b \<Rightarrow> [b] | _ \<Rightarrow> []) ls)"

lemma held_simps [simp]:
  "held [] = []" "held (l # ls) = (case l of Holding b \<Rightarrow> [b] | _ \<Rightarrow> []) @ held ls"
  by (simp_all add: held_def)

text \<open>What has to be accounted for, the records found at the start and those of all tasks
  submitted, and where it may be outside the files: in the log of what the server has taken or
  rejected, or waiting for the pool.\<close>

definition claims :: "(bytes \<Rightarrow> bytes) \<Rightarrow> bytes list \<Rightarrow> site \<Rightarrow> bytes multiset" where
  "claims gz old s = mset (map (record_of gz) (si_submitted s)) + mset old"

definition places :: "(bytes \<Rightarrow> bytes) \<Rightarrow> site \<Rightarrow> bytes multiset" where
  "places gz s = mset (map snd (si_log s)) + mset (map (record_of gz) (si_waiting s))"

text \<open>What is lost, nothing else: once an offset has been marked, the records that had been passed
  over before. The first offset marked is that of the consumer, which stands behind them.\<close>

definition lost :: "site \<Rightarrow> FileBackend \<Rightarrow> bytes multiset" where
  "lost s fb = (if marked fb then mset (si_skipped s) else {#})"

text \<open>While the files are open: the pending records are those the loop has passed over without
  success, the one in its hand and those ahead. Once an offset is marked none is passed over.\<close>

definition accounts_open ::
    "(bytes \<Rightarrow> bytes) \<Rightarrow> bytes list \<Rightarrow> bool \<Rightarrow> site \<Rightarrow> FileBackend \<Rightarrow> bytes list \<Rightarrow> bool" where
  "accounts_open gz old m0 s fb passed \<longleftrightarrow>
     ib_fb (si_ib s) = Some fb \<and> fb_inv fb \<and> pending fb = passed @ held (si_loops s) @ ahead fb \<and>
     passed = (if marked fb then [] else si_skipped s) \<and>
     (Reading \<in> set (si_loops s) \<longrightarrow> pending fb \<noteq> []) \<and> (\<forall>b \<in> set (pending fb). is_record b) \<and>
     claims gz old s = places gz s + mset (pending fb) + lost s fb \<and> (m0 \<longrightarrow> marked fb \<and> si_skipped s = [])"

text \<open>Behind the end of the worker the files are closed; a loop that still holds a record may
  write it once more, without being able to mark it.\<close>

definition accounts_closed ::
    "(bytes \<Rightarrow> bytes) \<Rightarrow> bytes list \<Rightarrow> bool \<Rightarrow> site \<Rightarrow> FileBackend \<Rightarrow> bool" where
  "accounts_closed gz old m0 s fb \<longleftrightarrow>
     ib_fb (si_ib s) = Some fb \<and> fb_producer fb = None \<and> fb_consumer fb = None \<and> \<not> fb_meta fb \<and>
     si_phase s = Gone \<and> si_waiting s = [] \<and> claims gz old s \<subseteq># places gz s + mset (pending fb) + lost s fb \<and>
     (m0 \<longrightarrow> marked fb \<and> si_skipped s = [])"

definition loops_ok :: "site \<Rightarrow> bool" where
  "loops_ok s \<longleftrightarrow> length (si_loops s) \<le> 1 \<and> (si_loops s \<noteq> [] \<longrightarrow> hb_rewriting (ib_hb (si_ib s)))"

definition log_ok :: "site \<Rightarrow> bool" where
  "log_ok s \<longleftrightarrow> fst ` set (si_log s) \<subseteq> {Written, Dropped}"

definition accounts :: "(bytes \<Rightarrow> bytes) \<Rightarrow> bytes list \<Rightarrow> bool \<Rightarrow> site \<Rightarrow> bool" where
  "accounts gz old m0 s \<longleftrightarrow>
     (\<exists>fb passed. accounts_open gz old m0 s fb passed) \<or> (\<exists>fb. accounts_closed gz old m0 s fb)"

definition site_inv :: "(bytes \<Rightarrow> bytes) \<Rightarrow> bytes list \<Rightarrow> bool \<Rightarrow> site \<Rightarrow> bool" where
  "site_inv gz old m0 s \<longleftrightarrow>
     worker_inv (si_ib s) \<and> conserves (si_sent s) (si_submitted s) (si_ib s) \<and> loops_ok s \<and> log_ok s \<and>
     accounts gz old m0 s"

lemma worker_inv_update [simp]:
  "worker_inv (ib\<lparr>ib_hb := hb\<rparr>) = worker_inv ib"
  "worker_inv ib \<Longrightarrow> worker_inv (ib\<lparr>ib_fb := Some fb\<rparr>)"
  "worker_inv ib \<Longrightarrow> worker_inv (ib\<lparr>ib_hb := hb, ib_fb := Some fb\<rparr>)"
  by (simp_all add: worker_inv_def)

lemma conserves_update [simp]:
  "conserves sent ts (ib\<lparr>ib_hb := hb\<rparr>) = conserves sent ts ib"
  "conserves sent ts (ib\<lparr>ib_fb := f\<rparr>) = conserves sent ts ib"
  by (simp_all add: conserves_def)

lemma pending_Close: "pending (fb_Close fb) = pending fb" "marked (fb_Close fb) = marked fb"
  by (simp_all add: fb_Close_def pending_def marked_def)

subsection \<open>The worker\<close>

lemma worker_site_inv:
  assumes "site_inv gz old m0 s" "worker_step (si_ib s, si_phase s) ev (ib', ph') us"
    and "ev = Finish \<Longrightarrow> si_waiting s = []" "\<And>pt. ev = Send pt \<Longrightarrow> lp_line pt \<noteq> []"
  defines "s' \<equiv> s\<lparr>si_ib := ib', si_phase := ph', si_waiting := si_waiting s @ us, si_submitted := si_submitted s @ us,
      si_sent := si_sent s @ (case ev of Send pt \<Rightarrow> [pt] | _ \<Rightarrow> []), si_loops := started ev (si_ib s) ib' @ si_loops s\<rparr>"
  shows "site_inv gz old m0 s'"
proof -
  from assms(1) have w: "worker_inv (si_ib s)" "conserves (si_sent s) (si_submitted s) (si_ib s)"
    and l: "loops_ok s" "log_ok s" by (simp_all add: site_inv_def)
  from worker_step_inv [OF assms(2)] w assms(4)
  have w': "worker_inv ib'" "conserves (si_sent s @ (case ev of Send pt \<Rightarrow> [pt] | _ \<Rightarrow> [])) (si_submitted s @ us) ib'" by auto
  then have w': "worker_inv (si_ib s')" "conserves (si_sent s') (si_submitted s') (si_ib s')" by (simp_all add: s'_def)
  have log: "log_ok s'" using l(2) by (simp add: log_ok_def s'_def)
  show ?thesis
  proof (cases "ev = Finish")
    case True
    with assms(2) have f: "ib' = shut_down (si_ib s)" "ph' = Gone" "us = []" "si_phase s = Closing"
      by (auto elim!: worker_stepE)
    from True f have ls: "si_loops s' = si_loops s" by (simp add: s'_def started_def)
    have "loops_ok s'"
      using l(1) ls by (simp add: loops_ok_def s'_def f(1) shut_down_def hb_Close_def)
    moreover from assms(1) f(4) obtain fb passed where "accounts_open gz old m0 s fb passed"
      by (auto simp: site_inv_def accounts_def accounts_closed_def)
    then have "ib_fb (si_ib s) = Some fb" "claims gz old s = places gz s + mset (pending fb) + lost s fb"
      "m0 \<longrightarrow> marked fb \<and> si_skipped s = []" unfolding accounts_open_def by blast+
    then have "accounts_closed gz old m0 s' (fb_Close fb)"
      using assms(3) [OF True] f pending_Close [of fb]
      by (simp add: accounts_closed_def s'_def shut_down_def claims_def places_def lost_def) (simp add: fb_Close_def)
    then have "accounts gz old m0 s'" unfolding accounts_def by blast
    ultimately show ?thesis using w' log by (simp add: site_inv_def)
  next
    case False
    note st = worker_step_files [OF assms(2) w(1) False]
    have ls: "started ev (si_ib s) ib' = [] \<or> si_loops s = [] \<and> started ev (si_ib s) ib' = [LoopHead] \<and> hb_rewriting (ib_hb ib')"
      using l(1) by (auto simp: started_def loops_ok_def IsRewriting_def)
    have rd: "Reading \<in> set (started ev (si_ib s) ib' @ si_loops s) \<longleftrightarrow> Reading \<in> set (si_loops s)" by (auto simp: started_def)
    have "loops_ok s'"
      using ls l(1) st by (auto simp: loops_ok_def s'_def IsRewriting_def)
    moreover have "held (si_loops s') = held (si_loops s)" using ls by (auto simp: s'_def)
    then have o: "accounts_open gz old m0 s' fb passed" if "accounts_open gz old m0 s fb passed" for fb passed
      using that st rd by (auto simp: accounts_open_def s'_def claims_def places_def lost_def)
    have "accounts_closed gz old m0 s' fb" if "accounts_closed gz old m0 s fb" for fb
      using that st by (auto simp: accounts_closed_def s'_def claims_def places_def lost_def)
    with o assms(1) have "accounts gz old m0 s'" unfolding site_inv_def accounts_def by blast
    ultimately show ?thesis using w' log by (simp add: site_inv_def)
  qed
qed

subsection \<open>The pool\<close>

lemma record_of_is_record: "is_record (record_of gz t)"
  by (cases t) (auto simp: is_record_def record_of_def)

lemma task_site_inv:
  assumes "site_inv gz old m0 s" "si_waiting s = xs @ t # ys" "Compress env (snd (snd t)) = (gz (snd (snd t)), None)"
    and "run_task env good_Write (si_ib s) t = Some (ib', oc)"
    and "oc \<notin> {Written, Dropped} \<Longrightarrow> \<exists>fb. ib_fb (si_ib s) = Some fb \<and> fb_fits fb (record_of gz t)"
  defines "s' \<equiv> s\<lparr>si_ib := ib', si_waiting := xs @ ys,
      si_log := si_log s @ (if oc = Backlogged then [] else [(oc, record_of gz t)])\<rparr>"
  shows "site_inv gz old m0 s'"
proof -
  let ?r = "record_of gz t"
  from assms(1,2) obtain fb passed where o: "accounts_open gz old m0 s fb passed"
    by (auto simp: site_inv_def accounts_def accounts_open_def accounts_closed_def)
  then have fb: "ib_fb (si_ib s) = Some fb" "fb_inv fb" and pend: "pending fb = passed @ held (si_loops s) @ ahead fb"
    and bal: "claims gz old s = places gz s + mset (pending fb) + lost s fb"
    unfolding accounts_open_def by blast+
  have c: "claims gz old s' = claims gz old s" and no: "lost s' f = lost s f" for f by (simp_all add: claims_def lost_def s'_def)
  have "accounts gz old m0 s' \<and> loops_ok s' \<and> log_ok s' \<and> worker_inv (si_ib s') \<and> conserves (si_sent s') (si_submitted s') (si_ib s')"
  proof (cases "oc \<in> {Written, Dropped}")
    case True
    from run_task_settled [OF assms(4) True] obtain hb where hb: "hb_rewriting hb = hb_rewriting (ib_hb (si_ib s))"
      "ib' = (si_ib s)\<lparr>ib_hb := hb\<rparr>" by blast
    from True have "places gz s' = places gz s" using assms(2) by (auto simp: places_def s'_def)
    with o hb c no have "accounts_open gz old m0 s' fb passed" by (auto simp: accounts_open_def s'_def)
    then have "accounts gz old m0 s'" unfolding accounts_def by blast
    with assms(1) True hb show ?thesis by (auto simp: site_inv_def loops_ok_def log_ok_def s'_def)
  next
    case False
    from assms(5) [OF False] fb(1) have "fb_fits fb ?r" by simp
    from fb_Write_inv [OF fb(2) this] obtain fb' where
      w: "fb_Write good_Write fb ?r = (fb', None)" "fb_inv fb'" "pending fb' = pending fb @ [?r]" "ahead fb' = ahead fb @ [?r]"
        "marked fb' \<longleftrightarrow> marked fb" by blast
    from run_task_record [where gz = gz, OF assms(4,3) fb(1) w(1) False] obtain hb where
      hb: "hb_rewriting hb = hb_rewriting (ib_hb (si_ib s))" and a: "oc = Backlogged" "ib' = (si_ib s)\<lparr>ib_hb := hb, ib_fb := Some fb'\<rparr>" by blast
    then have "places gz s = places gz s' + {#?r#}" using assms(2) by (simp add: places_def s'_def)
    then have "claims gz old s' = places gz s' + mset (pending fb') + lost s' fb'" using bal c w(3,5) by (simp add: lost_def s'_def)
    with o a w record_of_is_record have "accounts_open gz old m0 s' fb' passed"
      by (simp add: accounts_open_def s'_def ball_Un)
    then have "accounts gz old m0 s'" unfolding accounts_def by blast
    with assms(1) a hb show ?thesis by (auto simp: site_inv_def loops_ok_def log_ok_def s'_def)
  qed
  then show ?thesis by (simp add: site_inv_def)
qed

subsection \<open>The loop\<close>

lemma settle_files:
  assumes "settle good_Rewrite ib werr = Some (ib', err)" "ib_fb ib = Some fb"
  shows "ib' = ib\<lparr>ib_fb := Some (fst (if verdict werr = Backlogged then RollbackMeta good_Rollback fb else UpdateMeta good_Update fb))\<rparr>"
  using assms by (auto simp: settle_def good_Rewrite_def verdict_def Let_def split: prod.splits if_splits)

lemma resend_frame:
  assumes "resend env good_Rewrite ib b = Some (ib', err, oc)" "ib_fb ib = Some fb"
  shows "\<exists>hb. hb_rewriting hb = hb_rewriting (ib_hb ib) \<and> hb_client hb = hb_client (ib_hb ib) \<and>
    ib' = ib\<lparr>ib_hb := hb, ib_fb := Some (case oc of None \<Rightarrow> fb
       | Some out \<Rightarrow> fst (if out = Backlogged then RollbackMeta good_Rollback fb else UpdateMeta good_Update fb))\<rparr>"
proof (cases oc)
  case None
  with assms have "ib' = ib" by (auto simp: resend_def bind_eq_Some_conv split: list.splits sum.splits)
  with None assms(2) show ?thesis by (intro exI [of _ "ib_hb ib"]) (cases ib, simp)
next
  case (Some out)
  with assms(1) obtain db rp z hb werr where w: "WriteCompressed env (ib_hb ib) db rp z = Some (hb, werr)"
    "settle good_Rewrite (ib\<lparr>ib_hb := hb\<rparr>) werr = Some (ib', err)" "out = verdict werr"
    by (auto simp: resend_def bind_eq_Some_conv split: list.splits sum.splits)
  from settle_files [OF w(2)] assms(2) WriteCompressed_rewriting [OF w(1)] w(3) Some show ?thesis
    by (intro exI [of _ hb]) simp
qed

lemma verdict_cases: "verdict err = Written \<or> verdict err = Dropped \<or> verdict err = Backlogged"
  by (simp add: verdict_def)

lemma resend_oc: "resend env io ib b = Some (ib', err, Some out) \<Longrightarrow> out = Written \<or> out = Dropped \<or> out = Backlogged"
  using verdict_cases by (auto simp: resend_def bind_eq_Some_conv split: list.splits sum.splits)

lemma resend_verdict:
  assumes "resend env good_Rewrite ib b = Some (ib', err, oc)" "is_record b"
  shows "\<exists>out \<in> {Written, Dropped, Backlogged}. oc = Some out"
proof -
  from assms(2) obtain db rp z where "b = backlog_record db rp z" by (auto simp: is_record_def)
  with assms(1) obtain werr where "oc = Some (verdict werr)"
    by (auto simp: resend_record bind_eq_Some_conv)
  with verdict_cases [of werr] show ?thesis by auto
qed

lemma loop_files_closed:
  assumes "fb_producer fb = None" "fb_consumer fb = None" "\<not> fb_meta fb"
  shows "fst (UpdateMeta good_Update fb) = fb" "fst (RollbackMeta good_Rollback fb) = fb"
    "fb_Read (None, None) fb = (fb', res) \<Longrightarrow> fb' = fb \<and> (\<forall>b. res \<noteq> Inr (Some b))"
  using assms by (auto simp: UpdateMeta_def RollbackMeta_def fb_Read_def split: if_splits)

text \<open>Reading moves a record from those ahead into the hand.\<close>

lemma read_accounts:
  assumes "accounts gz old m0 s" "si_loops s = [Reading]" "ib_fb (si_ib s) = Some fb" "fb_Read (None, None) fb = (fb', res)"
  defines "s' \<equiv> s\<lparr>si_ib := (si_ib s)\<lparr>ib_fb := Some fb'\<rparr>,
      si_loops := [case res of Inr (Some b) \<Rightarrow> Holding b | _ \<Rightarrow> LoopHead]\<rparr>"
  shows "accounts gz old m0 s'"
proof -
  have cp: "claims gz old s' = claims gz old s" "places gz s' = places gz s" "lost s' f = lost s f" for f
    by (simp_all add: claims_def places_def lost_def s'_def)
  have "accounts_open gz old m0 s' fb' passed" if o: "accounts_open gz old m0 s fb passed" for passed
  proof (cases "ahead fb")
    case Nil
    with o have "fb' = fb" "\<forall>b. res \<noteq> Inr (Some b)"
      using fb_Read_none [of fb] assms(4) by (auto simp: accounts_open_def split: if_splits)
    with o cp assms(2) show ?thesis
      by (auto simp: accounts_open_def s'_def split: sum.split option.split)
  next
    case (Cons b rs)
    with o fb_Read_inv [of fb b rs] assms(4) have
      "res = Inr (Some b)" "fb_inv fb'" "ahead fb' = rs" "pending fb' = pending fb" "marked fb' \<longleftrightarrow> marked fb"
      by (auto simp: accounts_open_def)
    with o cp(1,2) assms(2) Cons show ?thesis by (simp add: accounts_open_def lost_def s'_def)
  qed
  moreover have "accounts_closed gz old m0 s' fb'" if c: "accounts_closed gz old m0 s fb"
    using c cp loop_files_closed(3) [of fb fb' res] assms(4) by (simp add: accounts_closed_def s'_def)
  moreover from assms(1) obtain fb0 passed
    where "accounts_open gz old m0 s fb0 passed \<or> accounts_closed gz old m0 s fb0"
    unfolding accounts_def by blast
  moreover from this have "fb0 = fb" using assms(3) by (auto simp: accounts_open_def accounts_closed_def)
  ultimately show ?thesis unfolding accounts_def by blast
qed

text \<open>Settling takes the record off the files, with those passed over; otherwise it is read again,
  or passed over itself as long as no offset is marked.\<close>

lemma resend_accounts:
  assumes "accounts gz old m0 s" "si_loops s = [Holding b]" "resend env good_Rewrite (si_ib s) b = Some (ib', err, oc)"
    and lg: "lg = (case oc of Some out \<Rightarrow> if out = Backlogged then [] else [(out, b)] | None \<Rightarrow> [])"
  defines "s' \<equiv> s\<lparr>si_ib := ib', si_loops := [LoopHead], si_log := si_log s @ lg,
      si_skipped := si_skipped s @ skipped (si_ib s) (Holding b) lg\<rparr>"
  shows "accounts gz old m0 s'"
  using assms(1) unfolding accounts_def [of _ _ _ s]
proof (elim disjE exE)
  fix fb passed
  assume o: "accounts_open gz old m0 s fb passed"
  then have fb: "ib_fb (si_ib s) = Some fb" "fb_inv fb" and pend: "pending fb = passed @ b # ahead fb" and rec: "is_record b"
    and bal: "claims gz old s = places gz s + mset (pending fb) + lost s fb"
    and passed: "passed = (if marked fb then [] else si_skipped s)" "m0 \<longrightarrow> marked fb \<and> si_skipped s = []"
    using assms(2) by (simp_all add: accounts_open_def)
  from resend_verdict [OF assms(3) rec] obtain out where out: "oc = Some out" "out \<in> {Written, Dropped, Backlogged}" by blast
  with resend_frame [OF assms(3) fb(1)] obtain hb fb' where
    r: "oc = Some out" "ib' = (si_ib s)\<lparr>ib_hb := hb, ib_fb := Some fb'\<rparr>"
      "out \<in> {Written, Dropped} \<and> fb' = fst (UpdateMeta good_Update fb) \<or>
       out = Backlogged \<and> fb' = fst (RollbackMeta good_Rollback fb)" by auto
  have cl: "claims gz old s' = claims gz old s" by (simp add: claims_def s'_def)
  have "\<exists>passed'. accounts_open gz old m0 s' fb' passed'"
    using r(3)
  proof
    assume a: "out \<in> {Written, Dropped} \<and> fb' = fst (UpdateMeta good_Update fb)"
    with UpdateMeta_inv [OF fb(2)] have u: "fb_inv fb'" "pending fb' = ahead fb" "ahead fb' = ahead fb" "marked fb'" by auto
    have sk: "si_skipped s' = si_skipped s" and pl: "places gz s' = places gz s + {#b#}"
      using a r(1) by (auto simp: places_def s'_def lg skipped_def)
    have "lost s' fb' = lost s fb + mset passed" using u(4) passed sk by (simp add: lost_def)
    with bal pend u(2) cl pl have "claims gz old s' = places gz s' + mset (pending fb') + lost s' fb'" by simp
    with o u r passed sk pend have "accounts_open gz old m0 s' fb' []" by (simp add: accounts_open_def s'_def)
    then show ?thesis ..
  next
    assume a: "out = Backlogged \<and> fb' = fst (RollbackMeta good_Rollback fb)"
    with r(1) have "lg = []" by (simp add: lg)
    then have pl: "places gz s' = places gz s" and sk: "si_skipped s' = si_skipped s @ (if marked fb then [] else [b])"
      using fb(1) by (simp_all add: places_def s'_def skipped_def)
    show ?thesis
    proof (cases "marked fb")
      case True
      with a RollbackMeta_inv [OF fb(2)] have u: "fb_inv fb'" "pending fb' = pending fb" "ahead fb' = pending fb" "marked fb'" by auto
      with o cl pl sk r True have "accounts_open gz old m0 s' fb' []" by (simp add: accounts_open_def lost_def s'_def)
      then show ?thesis ..
    next
      case False
      with a RollbackMeta_unmarked [of fb] fb(2) have "fb' = fb" by (auto simp: fb_inv_def represents_def)
      with o cl pl sk r False pend have "accounts_open gz old m0 s' fb' (passed @ [b])" by (simp add: accounts_open_def lost_def s'_def)
      then show ?thesis ..
    qed
  qed
  then show ?thesis unfolding accounts_def by blast
next
  fix fb
  assume c: "accounts_closed gz old m0 s fb"
  then have fb: "ib_fb (si_ib s) = Some fb" by (simp add: accounts_closed_def)
  have "ib_fb ib' = Some fb"
    using resend_frame [OF assms(3), of fb] c loop_files_closed(1,2) [of fb]
    by (auto simp: accounts_closed_def split: option.splits)
  moreover have "places gz s \<subseteq># places gz s'" by (simp add: places_def s'_def)
  moreover have "marked fb \<longrightarrow> si_skipped s' = si_skipped s" using fb by (simp add: s'_def skipped_def)
  then have "lost s' fb = lost s fb" "m0 \<longrightarrow> marked fb \<and> si_skipped s' = []"
    using c by (auto simp: lost_def accounts_closed_def)
  ultimately have "accounts_closed gz old m0 s' fb"
    using c by (auto simp: accounts_closed_def s'_def claims_def intro: subset_mset.order_trans subset_mset.add_right_mono)
  then show ?thesis unfolding accounts_def by blast
qed

lemma accounts_frame:
  assumes "accounts gz old m0 s" "ib_fb ib' = ib_fb (si_ib s)" "held ls = held (si_loops s)"
    and "\<And>fb. Reading \<in> set ls \<Longrightarrow> Reading \<notin> set (si_loops s) \<Longrightarrow> ib_fb (si_ib s) = Some fb \<Longrightarrow> fb_inv fb \<Longrightarrow> pending fb \<noteq> []"
  shows "accounts gz old m0 (s\<lparr>si_ib := ib', si_loops := ls\<rparr>)" (is "accounts gz old m0 ?s'")
proof -
  have "accounts_open gz old m0 ?s' fb passed" if "accounts_open gz old m0 s fb passed" for fb passed
    using that assms(2-4) by (auto simp: accounts_open_def claims_def places_def lost_def)
  moreover have "accounts_closed gz old m0 ?s' fb" if "accounts_closed gz old m0 s fb" for fb
    using that assms(2) by (auto simp: accounts_closed_def claims_def places_def lost_def)
  ultimately show ?thesis using assms(1) unfolding accounts_def by blast
qed

lemma loop_site_inv:
  assumes "site_inv gz old m0 s" "si_loops s = xs @ l # ys" "loop_step (si_ib s, l) (ib', l', lg)"
  shows "site_inv gz old m0
    (s\<lparr>si_ib := ib', si_loops := xs @ (case l' of None \<Rightarrow> [] | Some k \<Rightarrow> [k]) @ ys, si_log := si_log s @ lg,
      si_skipped := si_skipped s @ skipped (si_ib s) l lg\<rparr>)"
    (is "site_inv gz old m0 ?s'")
proof -
  from assms(1) have w: "worker_inv (si_ib s)" "conserves (si_sent s) (si_submitted s) (si_ib s)"
    and l: "loops_ok s" "log_ok s" and acc: "accounts gz old m0 s" by (simp_all add: site_inv_def)
  from l(1) assms(2) have ls: "xs = []" "ys = []" "si_loops s = [l]" and rw: "hb_rewriting (ib_hb (si_ib s))"
    by (auto simp: loops_ok_def)
  from assms(3) show ?thesis
  proof (cases rule: loop_step.cases)
    case (leave fb)
    with accounts_frame [OF acc, of "si_ib s" "[Leaving]"] w l ls rw show ?thesis
      by (simp add: site_inv_def loops_ok_def log_ok_def skipped_def)
  next
    case (stop fb)
    with accounts_frame [OF acc, of "si_ib s" "[]"] w l ls show ?thesis
      by (simp add: site_inv_def loops_ok_def log_ok_def skipped_def)
  next
    case (sleep fb)
    with accounts_frame [OF acc, of "si_ib s" "[LoopHead]"] w l ls rw show ?thesis
      by (simp add: site_inv_def loops_ok_def log_ok_def skipped_def)
  next
    case (go_on fb)
    have "accounts gz old m0 (s\<lparr>si_ib := si_ib s, si_loops := [Reading]\<rparr>)"
      by (rule accounts_frame [OF acc]) (use go_on ls IsData_pending in auto)
    with go_on w l ls rw show ?thesis
      by (simp add: site_inv_def loops_ok_def log_ok_def skipped_def)
  next
    case (read fb fb' res)
    from read_accounts [OF acc _ read(5,6)] read(1) ls(3)
    have "accounts gz old m0 (s\<lparr>si_ib := ib', si_loops := [case res of Inr (Some b) \<Rightarrow> Holding b | _ \<Rightarrow> LoopHead]\<rparr>)"
      unfolding read(2) by blast
    with w l ls rw read(1,2,3,4) show ?thesis by (simp add: site_inv_def loops_ok_def log_ok_def skipped_def)
  next
    case (resend env b err oc)
    from w(1) obtain fb where fb: "ib_fb (si_ib s) = Some fb" by (auto simp: worker_inv_def)
    from resend_frame [OF resend(4) fb] obtain hb fb' where
      f: "hb_rewriting hb = hb_rewriting (ib_hb (si_ib s))" "ib' = (si_ib s)\<lparr>ib_hb := hb, ib_fb := Some fb'\<rparr>" by blast
    have lg: "fst ` set lg \<subseteq> {Written, Dropped}"
      using resend(3) resend_oc [of env good_Rewrite "si_ib s" b ib' err] resend(4) by (cases oc) auto
    from resend_accounts [OF acc _ resend(4)] resend(1) ls(3)
    have "accounts gz old m0 (s\<lparr>si_ib := ib', si_loops := [LoopHead], si_log := si_log s @ lg,
        si_skipped := si_skipped s @ skipped (si_ib s) l lg\<rparr>)"
      unfolding resend(1,3) by blast
    with lg f w l ls rw resend(1,2) show ?thesis
      by (simp add: site_inv_def loops_ok_def log_ok_def image_Un)
  next
    case left
    with accounts_frame [OF acc, of ib' "[]"] w l ls show ?thesis
      by (simp add: site_inv_def loops_ok_def log_ok_def skipped_def)
  qed
qed

lemma site_step_inv: "site_step gz s s' \<Longrightarrow> site_inv gz old m0 s \<Longrightarrow> site_inv gz old m0 s'"
proof (induction rule: site_step.induct)
  case (worker s ev ib' ph' us)
  then show ?case by (intro worker_site_inv)
next
  case (task s xs t ys env ib' oc)
  then show ?case by (intro task_site_inv)
next
  case (loop s xs l ys ib' l' lg)
  then show ?case by (intro loop_site_inv)
next
  case (other hb s)
  then have "accounts gz old m0 (s\<lparr>si_ib := (si_ib s)\<lparr>ib_hb := hb\<rparr>, si_loops := si_loops s\<rparr>)"
    by (intro accounts_frame) (simp_all add: site_inv_def)
  with other show ?case by (simp add: site_inv_def loops_ok_def log_ok_def)
qed

lemma site_run_inv: "site_run gz s0 s \<Longrightarrow> site_inv gz old m0 s0 \<Longrightarrow> site_inv gz old m0 s"
  by (induction rule: site_run.induct) (auto intro: site_step_inv)

lemma new_site_inv:
  assumes "NewBackend cfg pxcfg (fb0, None) = Some ib0" "0 < pc_FlushSize pxcfg" "fb_inv fb0" "ahead fb0 = pending fb0"
    and "\<forall>b \<in> set (pending fb0). is_record b"
  shows "site_inv gz (pending fb0) (marked fb0) (new_site ib0)"
proof -
  have "ib_fb ib0 = Some fb0" using assms(1) by (simp add: NewBackend_Some)
  with assms(3-5) have "accounts_open gz (pending fb0) (marked fb0) (new_site ib0) fb0 []"
    by (simp add: accounts_open_def new_site_def claims_def places_def lost_def)
  then have "accounts gz (pending fb0) (marked fb0) (new_site ib0)" unfolding accounts_def by blast
  moreover have "loops_ok (new_site ib0)" "log_ok (new_site ib0)" by (simp_all add: loops_ok_def log_ok_def new_site_def)
  ultimately show ?thesis
    using NewBackend_inv [OF assms(1,2)] by (simp add: site_inv_def new_site_def)
qed


section \<open>Nothing is lost\<close>

lemma site_accounts:
  assumes "site_inv gz old m0 s"
  shows "(\<forall>db rp. task_bytes (si_submitted s) db rp @ content (ib_buffers (si_ib s)) db rp @
            lines_for (ib_chWrite (si_ib s)) db rp = lines_for (si_sent s) db rp) \<and>
         (\<exists>fb. ib_fb (si_ib s) = Some fb \<and>
            mset (map (record_of gz) (si_submitted s)) + mset old \<subseteq>#
              mset (map snd (si_log s)) + mset (map (record_of gz) (si_waiting s)) + mset (pending fb) + lost s fb \<and>
            (fb_producer fb \<noteq> None \<longrightarrow> mset (map (record_of gz) (si_submitted s)) + mset old =
              mset (map snd (si_log s)) + mset (map (record_of gz) (si_waiting s)) + mset (pending fb) + lost s fb) \<and>
            (m0 \<longrightarrow> marked fb \<and> si_skipped s = []) \<and>
            (fb_producer fb \<noteq> None \<and> \<not> marked fb \<longrightarrow> take (length (si_skipped s)) (pending fb) = si_skipped s) \<and>
            (fb_producer fb \<noteq> None \<and> marked fb \<and> si_loops s = [Reading] \<longrightarrow> ahead fb \<noteq> [])) \<and>
         fst ` set (si_log s) \<subseteq> {Written, Dropped} \<and> length (si_loops s) \<le> 1"
proof -
  from assms have inv: "conserves (si_sent s) (si_submitted s) (si_ib s)" "log_ok s" "loops_ok s"
    and acc: "accounts gz old m0 s" by (simp_all add: site_inv_def)
  from acc have "\<exists>fb. ib_fb (si_ib s) = Some fb \<and> claims gz old s \<subseteq># places gz s + mset (pending fb) + lost s fb \<and>
      (fb_producer fb \<noteq> None \<longrightarrow> claims gz old s = places gz s + mset (pending fb) + lost s fb) \<and>
      (m0 \<longrightarrow> marked fb \<and> si_skipped s = []) \<and>
      (fb_producer fb \<noteq> None \<and> \<not> marked fb \<longrightarrow> take (length (si_skipped s)) (pending fb) = si_skipped s) \<and>
      (fb_producer fb \<noteq> None \<and> marked fb \<and> si_loops s = [Reading] \<longrightarrow> ahead fb \<noteq> [])"
    unfolding accounts_def
  proof (elim disjE exE)
    fix fb passed
    assume "accounts_open gz old m0 s fb passed"
    then show ?thesis by (intro exI [of _ fb]) (auto simp: accounts_open_def)
  next
    fix fb
    assume "accounts_closed gz old m0 s fb"
    then show ?thesis by (intro exI [of _ fb]) (auto simp: accounts_closed_def)
  qed
  with inv show ?thesis
    unfolding conserves_def log_ok_def loops_ok_def claims_def places_def by blast
qed


text \<open>One line sent, buffered and flushed while the server is inactive.\<close>

definition sample_line :: LinePoint where
  "sample_line = \<lparr>lp_db = ''db'', lp_rp = ''rp'', lp_line = ''cpu v=1 1''\<rparr>"

definition sample_task :: task where
  "sample_task = (''db'', ''rp'', ''cpu v=1 1'' @ [CHR 0x0A])"

lemma sample_task_fits: "fb_fits empty_backlog (record_of id sample_task)"
  using empty_backlog_represents
  by (simp add: fb_fits_def storable_def represents_def record_of_def sample_task_def backlog_record_def QueryEscape_samples
      del: QueryEscape.simps)

text \<open>The worker alone, before the pool has run any task.\<close>

definition worker_at :: "(bytes \<Rightarrow> bytes) \<Rightarrow> Backend \<Rightarrow> LinePoint list \<Rightarrow> task list \<Rightarrow> Backend \<times> phase \<Rightarrow> bool" where
  "worker_at gz ib0 sent ts st \<longleftrightarrow>
     (\<exists>s. site_run gz (new_site ib0) s \<and> si_ib s = fst st \<and> si_phase s = snd st \<and> si_sent s = sent \<and>
          si_submitted s = ts \<and> si_waiting s = ts \<and> si_log s = [] \<and> si_loops s = [])"

lemma worker_at_start: "worker_at gz ib0 [] [] (ib0, AtHead)"
  unfolding worker_at_def by (rule exI [of _ "new_site ib0"]) (simp add: site_run.start, simp add: new_site_def)

lemma worker_at_step:
  assumes "worker_at gz ib0 sent ts st" "worker_step st ev st' us" "ev \<notin> {Finish, Ticker}" "\<And>pt. ev = Send pt \<Longrightarrow> lp_line pt \<noteq> []"
  shows "worker_at gz ib0 (sent @ (case ev of Send pt \<Rightarrow> [pt] | _ \<Rightarrow> [])) (ts @ us) st'"
proof -
  obtain ib' ph' where st': "st' = (ib', ph')" by (cases st')
  from assms(1) obtain s where s: "site_run gz (new_site ib0) s" "(si_ib s, si_phase s) = st" "si_sent s = sent"
    "si_submitted s = ts" "si_waiting s = ts" "si_log s = []" "si_loops s = []"
    by (auto simp: worker_at_def)
  from assms(3) have no: "started ev (si_ib s) ib' = []" by (simp add: started_def)
  from assms(2) have st: "worker_step (si_ib s, si_phase s) ev (ib', ph') us" by (simp add: s(2) st')
  from site_run.more [OF s(1) site_step.worker [OF st]] assms(3,4)
  have "site_run gz (new_site ib0) (s\<lparr>si_ib := ib', si_phase := ph', si_waiting := si_waiting s @ us,
      si_submitted := si_submitted s @ us, si_sent := si_sent s @ (case ev of Send pt \<Rightarrow> [pt] | _ \<Rightarrow> []),
      si_loops := started ev (si_ib s) ib' @ si_loops s\<rparr>)" by blast
  with s(3-7) st' no show ?thesis unfolding worker_at_def by (intro exI conjI) (assumption, simp_all)
qed

definition resting :: "Backend \<Rightarrow> bool" where
  "resting ib \<longleftrightarrow>
     ib_running ib \<and> ib_chWrite ib = [] \<and> \<not> IsRewriting (ib_hb ib) \<and> hb_client (ib_hb ib) \<noteq> None \<and>
     (\<forall>db rp cb. get_cb (ib_buffers ib) db rp = Some cb \<longrightarrow> cb = idle_cb)"

lemma sample_worker_at:
  "\<exists>ib. worker_at gz sample_ib [sample_line] [sample_task] (ib, AtHead) \<and> ib_fb ib = Some empty_backlog \<and> resting ib"
proof -
  define ib1 where "ib1 = sample_ib\<lparr>ib_chWrite := [sample_line]\<rparr>"
  define ib2 where "ib2 = sample_ib\<lparr>ib_chTimer := True,
    ib_buffers := set_cb [] ''db'' ''rp'' \<lparr>cb_Buffer = Some (''cpu v=1 1'' @ [CHR 0x0A]), cb_Counter = 1\<rparr>\<rparr>"
  define ib3 where "ib3 = sample_ib\<lparr>ib_buffers := set_cb [] ''db'' ''rp'' idle_cb\<rparr>"
  have ib: "ib_chWrite sample_ib = []" "ib_running sample_ib" "ib_buffers sample_ib = []" "\<not> ib_flushSize sample_ib \<le> 1"
    "ib_chTimer sample_ib = False" "ib_fb sample_ib = Some empty_backlog"
    by (simp_all add: sample_ib_def NewBackend_def sample_pxcfg_def setDefault_def default_int_def sample_config_def)
  have hb: "\<not> IsRewriting (ib_hb sample_ib)" "hb_client (ib_hb sample_ib) \<noteq> None"
    by (simp_all add: sample_ib_def NewBackend_def NewHttpBackend_def NewSimpleHttpBackend_def IsRewriting_def)
  have 1: "worker_step (sample_ib, AtHead) (Send sample_line) (ib1, AtHead) []"
    by (rule worker_step.send) (simp_all add: WritePoint_def ib ib1_def)
  have 2: "worker_step (ib1, AtHead) Look (ib1, AtSelect) []"
    using worker_step.look [of ib1] by (simp add: ib1_def ib)
  have 3: "worker_step (ib1, AtSelect) Receive (ib2, AtHead) []"
    by (rule worker_step.receive [of _ sample_line "[]"])
      (simp_all add: ib1_def ib2_def ib WriteBuffer_def get_cb_def Let_def end_line_def sample_line_def)
  have 4: "worker_step (ib2, AtHead) Look (ib2, AtSelect) []"
    using worker_step.look [of ib2] by (simp add: ib2_def ib)
  have "Flush ib2 = Some (ib3, [sample_task])"
    by (simp add: Flush_def Let_def ib2_def ib3_def buffer_keys_def FlushBuffer_def get_cb_def set_cb_def idle_cb_def
        sample_task_def ib)
  then have 5: "worker_step (ib2, AtSelect) Timer (ib3, AtHead) [sample_task]"
    using worker_step.timer [of ib2 ib3 "[sample_task]"] by (simp add: ib2_def ib3_def ib)
  note go = worker_at_step [OF worker_at_start 1] worker_at_step [OF _ 2] worker_at_step [OF _ 3] worker_at_step [OF _ 4]
    worker_at_step [OF _ 5]
  from go(1) have "worker_at gz sample_ib [sample_line] [] (ib1, AtHead)" by (simp add: sample_line_def)
  from go(2) [OF this] have "worker_at gz sample_ib [sample_line] [] (ib1, AtSelect)" by simp
  from go(3) [OF this] have "worker_at gz sample_ib [sample_line] [] (ib2, AtHead)" by simp
  from go(4) [OF this] have "worker_at gz sample_ib [sample_line] [] (ib2, AtSelect)" by simp
  from go(5) [OF this] have "worker_at gz sample_ib [sample_line] [sample_task] (ib3, AtHead)" by simp
  moreover have "resting ib3" using ib hb by (simp add: resting_def ib3_def) (simp add: get_cb_def)
  ultimately show ?thesis using ib(6) by (intro exI [of _ ib3]) (simp add: ib3_def)
qed

lemma sample_site_run:
  "\<exists>s fb. site_run id (new_site sample_ib) s \<and> si_phase s = AtHead \<and> si_waiting s = [] \<and> si_loops s = [] \<and>
     si_sent s = [sample_line] \<and> si_submitted s = [sample_task] \<and> si_log s = [] \<and> resting (si_ib s) \<and>
     ib_fb (si_ib s) = Some fb \<and> fb_inv fb \<and> marked fb = marked empty_backlog \<and>
     ahead fb = [record_of id sample_task] \<and> pending fb = [record_of id sample_task]"
proof -
  from sample_worker_at [of id] obtain s where s: "site_run id (new_site sample_ib) s" "ib_fb (si_ib s) = Some empty_backlog"
    "si_phase s = AtHead" "si_loops s = []" "si_sent s = [sample_line]" "si_submitted s = [sample_task]"
    "si_waiting s = [sample_task]" "si_log s = []" "resting (si_ib s)"
    by (auto simp: worker_at_def)
  define s1 where "s1 = s\<lparr>si_ib := (si_ib s)\<lparr>ib_hb := (ib_hb (si_ib s))\<lparr>hb_active := False\<rparr>\<rparr>\<rparr>"
  have r1: "site_run id (new_site sample_ib) s1"
    unfolding s1_def by (rule site_run.more [OF s(1)], rule site_step.other) simp_all
  from fb_Write_inv [OF empty_backlog_inv(1) sample_task_fits] obtain fb where
    fb: "fb_Write good_Write empty_backlog (record_of id sample_task) = (fb, None)" "fb_inv fb" "marked fb = marked empty_backlog"
      "ahead fb = [record_of id sample_task]" "pending fb = [record_of id sample_task]"
    using empty_backlog_inv by auto
  have gz: "Compress (answer 500) (snd (snd sample_task)) = (id (snd (snd sample_task)), None)"
    by (simp add: Compress_def answer_def sample_env_def)
  have run: "run_task (answer 500) good_Write (si_ib s1) sample_task = Some ((si_ib s1)\<lparr>ib_fb := Some fb\<rparr>, Backlogged)"
    using s(2) gz fb(1) by (simp add: run_task_def sample_task_def to_backlog_def s1_def IsActive_def record_of_def)
  have w: "si_waiting s1 = [] @ sample_task # []" "ib_fb (si_ib s1) = Some empty_backlog" using s by (simp_all add: s1_def)
  let ?s = "s1\<lparr>si_ib := (si_ib s1)\<lparr>ib_fb := Some fb\<rparr>, si_waiting := [], si_log := []\<rparr>"
  from site_run.more [OF r1 site_step.task [where gz = id, OF w(1) gz run]] w(2) sample_task_fits s(8)
  have "site_run id (new_site sample_ib) ?s" by (simp add: s1_def)
  moreover have "resting (si_ib ?s)" using s(9) by (simp add: resting_def s1_def IsRewriting_def)
  ultimately show ?thesis using s fb(2-5) by (intro exI [of _ ?s] exI [of _ fb]) (simp add: s1_def)
qed

lemma empty_unmarked: "\<not> marked empty_backlog"
  by (simp add: marked_def empty_backlog_def NewFileBackend_def good_Open_def RollbackMeta_def good_Rollback_def read_full_def Let_def)


end
