(* ===== verification/Progress.thy ===== *)
theory Progress
  imports Delivery
begin

text \<open>
  Progress of a backend as a whole, over the steps of \<open>Delivery\<close>: as long as it runs, no state it
  can reach is a dead end.
\<close>

section \<open>A running backend\<close>

text \<open>While a backend runs its worker is in its loop, its channel is open, and behind the rewriting
  flag there is a loop. It always has its client.\<close>

definition alive :: "site \<Rightarrow> bool" where
  "alive s \<longleftrightarrow>
     hb_client (ib_hb (si_ib s)) \<noteq> None \<and>
     (ib_running (si_ib s) \<longrightarrow>
        si_phase s \<in> {AtHead, AtSelect} \<and> \<not> ib_chClosed (si_ib s) \<and>
        (IsRewriting (ib_hb (si_ib s)) \<longrightarrow> si_loops s \<noteq> []))"

lemma worker_alive:
  assumes "worker_step (ib, ph) ev (ib', ph') us" "worker_inv ib"
  shows "hb_client (ib_hb ib') = hb_client (ib_hb ib) \<and>
    (ib_running ib' \<longrightarrow> ib_running ib \<and>
       (ph \<in> {AtHead, AtSelect} \<longrightarrow> \<not> ib_chClosed ib \<longrightarrow> ph' \<in> {AtHead, AtSelect} \<and> \<not> ib_chClosed ib') \<and>
       (IsRewriting (ib_hb ib') \<longrightarrow> IsRewriting (ib_hb ib) \<or> started ev ib ib' \<noteq> []))"
  using assms(1)
proof (cases rule: worker_step.cases)
  case (receive pt pts)
  with assms(2) WriteBuffer_spec [of "ib\<lparr>ib_chWrite := pts\<rparr>" pt] show ?thesis by (auto simp: worker_inv_def)
next
  case timer
  with assms(2) Flush_spec [of "ib_flushSize ib" ib] show ?thesis by (auto simp: worker_inv_def)
next
  case drain
  with assms(2) Flush_spec [of "ib_flushSize ib" ib] show ?thesis by (auto simp: worker_inv_def)
qed (auto simp: WritePoint_def ib_Close_def RewriteIdle_def IsRewriting_def SetRewriting_def started_def shut_down_def hb_Close_def
    split: if_splits option.splits)

lemma task_alive:
  assumes "run_task env good_Write ib t = Some (ib', oc)"
  shows "hb_client (ib_hb ib') = hb_client (ib_hb ib) \<and> hb_rewriting (ib_hb ib') = hb_rewriting (ib_hb ib) \<and>
    ib_running ib' = ib_running ib \<and> ib_chClosed ib' = ib_chClosed ib"
proof -
  obtain db rp p where t: "t = (db, rp, p)" by (cases t)
  have bl: "ib_hb ib2 = ib_hb ib1 \<and> ib_running ib2 = ib_running ib1 \<and> ib_chClosed ib2 = ib_chClosed ib1"
    if "to_backlog io ib1 db rp q = Some (ib2, oc)" for io ib1 ib2 q
    using that by (auto simp: to_backlog_def split: option.splits prod.splits)
  obtain z e where z: "Compress env p = (z, e)" by (cases "Compress env p")
  show ?thesis
  proof (cases "e = None \<and> IsActive (ib_hb ib)")
    case False
    with assms z have "ib' = ib \<or> (\<exists>q. to_backlog good_Write ib db rp q = Some (ib', oc))"
      by (auto simp: run_task_def t split: option.splits)
    with bl show ?thesis by auto
  next
    case True
    with assms z obtain hb err where w: "WriteCompressed env (ib_hb ib) db rp z = Some (hb, err)"
      by (cases "WriteCompressed env (ib_hb ib) db rp z") (auto simp: run_task_def t)
    with assms True z have "ib' = ib\<lparr>ib_hb := hb\<rparr> \<or> to_backlog good_Write (ib\<lparr>ib_hb := hb\<rparr>) db rp z = Some (ib', oc)"
      by (auto simp: run_task_def t Let_def split: if_splits)
    with bl [of good_Write "ib\<lparr>ib_hb := hb\<rparr>" z ib']
    have "ib_hb ib' = hb \<and> ib_running ib' = ib_running ib \<and> ib_chClosed ib' = ib_chClosed ib" by auto
    with WriteCompressed_rewriting [OF w] show ?thesis by simp
  qed
qed

lemma loop_alive:
  assumes "loop_step (ib, l) (ib', l', lg)" "ib_fb ib \<noteq> None"
  shows "hb_client (ib_hb ib') = hb_client (ib_hb ib) \<and> ib_running ib' = ib_running ib \<and> ib_chClosed ib' = ib_chClosed ib \<and>
    (ib_running ib \<longrightarrow> IsRewriting (ib_hb ib') \<longrightarrow> l' \<noteq> None)"
  using assms(1)
proof (cases rule: loop_step.cases)
  case (resend env b err oc)
  from assms(2) obtain fb where fb: "ib_fb ib = Some fb" by blast
  with resend resend_frame [of env ib b ib' err oc fb]
  have "\<exists>hb f. hb_client hb = hb_client (ib_hb ib) \<and> ib' = ib\<lparr>ib_hb := hb, ib_fb := f\<rparr>" by blast
  with resend show ?thesis by auto
qed (auto simp: IsRewriting_def SetRewriting_def)

lemma site_step_alive:
  assumes "site_step gz s s'" "site_inv gz old m0 s" "alive s"
  shows "alive s'"
  using assms(1)
proof (cases rule: site_step.cases)
  case (worker ev ib' ph' us)
  from assms(2) have "worker_inv (si_ib s)" by (simp add: site_inv_def)
  from worker_alive [OF worker(2) this] assms(3) worker(1) show ?thesis by (auto simp: alive_def)
next
  case (task xs t ys env ib' oc)
  from task_alive [OF task(4)] assms(3) task(1) show ?thesis by (auto simp: alive_def IsRewriting_def)
next
  case (loop xs l ys ib' l' lg)
  from assms(2) have "ib_fb (si_ib s) \<noteq> None" by (simp add: site_inv_def worker_inv_def)
  from loop_alive [OF loop(3) this] assms(3) loop(1,2) show ?thesis by (auto simp: alive_def)
next
  case (other hb)
  with assms(3) show ?thesis by (auto simp: alive_def IsRewriting_def)
qed

lemma site_run_alive: "site_run gz s0 s \<Longrightarrow> site_inv gz old m0 s0 \<Longrightarrow> alive s0 \<Longrightarrow> alive s"
  by (induction rule: site_run.induct) (auto intro: site_step_alive site_run_inv)

lemma new_site_alive: "NewBackend cfg pxcfg (fb0, None) = Some ib0 \<Longrightarrow> alive (new_site ib0)"
  by (simp add: NewBackend_Some alive_def new_site_def NewHttpBackend_def NewSimpleHttpBackend_def IsRewriting_def)

section \<open>Towards the end\<close>

lemma site_run_trans: "site_run gz s1 s2 \<Longrightarrow> site_run gz s0 s1 \<Longrightarrow> site_run gz s0 s2"
  by (induction rule: site_run.induct) (auto intro: site_run.more)

lemma site_run_step: "site_step gz s s' \<Longrightarrow> site_run gz s s'"
  by (rule site_run.more [OF site_run.start])

text \<open>What the worker leaves alone while it only takes lines and flushes.\<close>

definition kept :: "Backend \<Rightarrow> Backend \<Rightarrow> bool" where
  "kept ib ib' \<longleftrightarrow> ib_hb ib' = ib_hb ib \<and> ib_fb ib' = ib_fb ib \<and> ib_running ib' = ib_running ib \<and> worker_inv ib'"

definition worked :: "site \<Rightarrow> Backend \<Rightarrow> phase \<Rightarrow> task list \<Rightarrow> site" where
  "worked s ib ph us = s\<lparr>si_ib := ib, si_phase := ph, si_waiting := si_waiting s @ us, si_submitted := si_submitted s @ us\<rparr>"

lemma worked_simps [simp]:
  "si_ib (worked s ib ph us) = ib" "si_phase (worked s ib ph us) = ph" "si_waiting (worked s ib ph us) = si_waiting s @ us"
  "si_submitted (worked s ib ph us) = si_submitted s @ us" "si_loops (worked s ib ph us) = si_loops s"
  "si_sent (worked s ib ph us) = si_sent s" "si_log (worked s ib ph us) = si_log s"
  "worked (worked s ib ph us) ib' ph' us' = worked s ib' ph' (us @ us')"
  by (simp_all add: worked_def)

lemma worker_works:
  assumes "worker_step (si_ib s, si_phase s) ev (ib', ph') us" "ev \<in> {Look, Receive, Timer}"
  shows "site_run gz s (worked s ib' ph' us)"
proof -
  from assms(2) have "started ev (si_ib s) ib' = []" by (auto simp: started_def)
  with assms(2) site_run_step [OF site_step.worker [OF assms(1), of gz]] show ?thesis by (auto simp: worked_def)
qed

lemma look_works:
  assumes "si_phase s \<in> {AtHead, AtSelect}" "ib_running (si_ib s)"
  shows "site_run gz s (worked s (si_ib s) AtSelect [])"
proof (cases "si_phase s = AtSelect")
  case True
  then have "worked s (si_ib s) AtSelect [] = s" by (cases s) (simp add: worked_def)
  then show ?thesis by (simp add: site_run.start)
next
  case False
  with assms worker_step.look [of "si_ib s"] show ?thesis by (intro worker_works [where ev = Look]) auto
qed

lemma to_head_and_select:
  assumes "worker_step (si_ib s, si_phase s) ev (ib', AtHead) us" "ev \<in> {Receive, Timer}" "ib_running ib'"
  shows "site_run gz s (worked s ib' AtSelect us)"
proof -
  have "site_run gz s (worked s ib' AtHead us)" by (rule worker_works [OF assms(1)]) (use assms(2) in blast)
  from site_run_trans [OF look_works this] assms(3) show ?thesis by simp
qed

lemma channel_empties:
  assumes "worker_inv (si_ib s)" "si_phase s = AtSelect" "ib_running (si_ib s)" "ib_chWrite (si_ib s) = pts"
  shows "\<exists>ib us. site_run gz s (worked s ib AtSelect us) \<and> ib_chWrite ib = [] \<and> kept (si_ib s) ib"
  using assms
proof (induction pts arbitrary: s)
  case Nil
  then show ?case using look_works [of s gz]
    by (intro exI [of _ "si_ib s"] exI [of _ "[]"]) (simp add: kept_def)
next
  case (Cons pt pts)
  let ?ib = "(si_ib s)\<lparr>ib_chWrite := pts\<rparr>"
  from receive_inv [OF Cons.prems(1,4)] obtain bs t us where w:
    "WriteBuffer ?ib pt = Some (?ib\<lparr>ib_chTimer := t, ib_buffers := bs\<rparr>, us)" "worker_inv (?ib\<lparr>ib_chTimer := t, ib_buffers := bs\<rparr>)"
    by auto
  let ?ib' = "?ib\<lparr>ib_chTimer := t, ib_buffers := bs\<rparr>"
  have st: "worker_step (si_ib s, AtSelect) Receive (?ib', AtHead) us"
    by (rule worker_step.receive [OF Cons.prems(4) w(1)])
  have "site_run gz s (worked s ?ib' AtSelect us)"
    by (rule to_head_and_select [of _ Receive]) (use st Cons.prems in simp_all)
  moreover from Cons.IH [of "worked s ?ib' AtSelect us"] w(2) Cons.prems obtain ib us' where
    "site_run gz (worked s ?ib' AtSelect us) (worked s ib AtSelect (us @ us'))" "ib_chWrite ib = []" "kept ?ib' ib" by auto
  ultimately show ?case
    by (intro exI [of _ ib] exI [of _ "us @ us'"]) (auto intro: site_run_trans simp: kept_def)
qed

lemma buffers_empty:
  assumes "worker_inv (si_ib s)" "si_phase s = AtSelect" "ib_running (si_ib s)"
  shows "\<exists>ib us. site_run gz s (worked s ib AtSelect us) \<and> (\<forall>db rp. content (ib_buffers ib) db rp = []) \<and>
    ib_chWrite ib = ib_chWrite (si_ib s) \<and> kept (si_ib s) ib"
proof (cases "ib_chTimer (si_ib s)")
  case False
  with assms(1) have "\<forall>db rp cb. get_cb (ib_buffers (si_ib s)) db rp = Some cb \<longrightarrow> cb = idle_cb" by (simp add: worker_inv_def)
  with content_idle have "\<forall>db rp. content (ib_buffers (si_ib s)) db rp = []" by blast
  with assms look_works [of s gz] show ?thesis
    by (intro exI [of _ "si_ib s"] exI [of _ "[]"]) (simp add: kept_def)
next
  case True
  from assms(1) Flush_spec [of "ib_flushSize (si_ib s)" "si_ib s"] obtain bs us where
    f: "Flush (si_ib s) = Some ((si_ib s)\<lparr>ib_chTimer := False, ib_buffers := bs\<rparr>, us)"
      "buffers_ok (ib_flushSize (si_ib s)) bs" "\<forall>db rp cb. get_cb bs db rp = Some cb \<longrightarrow> cb = idle_cb"
    by (auto simp: worker_inv_def)
  let ?ib = "(si_ib s)\<lparr>ib_chTimer := False, ib_buffers := bs\<rparr>"
  have "worker_step (si_ib s, si_phase s) Timer (?ib, AtHead) us"
    using worker_step.timer [OF True f(1)] assms(2,3) by simp
  then have "site_run gz s (worked s ?ib AtSelect us)"
    by (rule to_head_and_select) (use assms(3) in simp_all)
  with f content_idle [OF f(3)] assms(1) show ?thesis
    by (intro exI [of _ ?ib] exI [of _ us]) (auto simp: kept_def worker_inv_def)
qed

lemma worker_drains:
  assumes "worker_inv (si_ib s)" "si_phase s \<in> {AtHead, AtSelect}" "ib_running (si_ib s)"
  shows "\<exists>ib us. site_run gz s (worked s ib AtSelect us) \<and> ib_chWrite ib = [] \<and> (\<forall>db rp. content (ib_buffers ib) db rp = []) \<and>
    kept (si_ib s) ib"
proof -
  let ?s1 = "worked s (si_ib s) AtSelect []"
  note r1 = look_works [OF assms(2,3), of gz]
  from channel_empties [of ?s1 "ib_chWrite (si_ib s)" gz] assms(1,3) obtain ib2 us2 where
    r2: "site_run gz ?s1 (worked s ib2 AtSelect us2)" "ib_chWrite ib2 = []" "kept (si_ib s) ib2" by auto
  from buffers_empty [of "worked s ib2 AtSelect us2" gz] r2(3) assms(3) obtain ib3 us3 where
    r3: "site_run gz (worked s ib2 AtSelect us2) (worked s ib3 AtSelect (us2 @ us3))"
      "\<forall>db rp. content (ib_buffers ib3) db rp = []" "ib_chWrite ib3 = ib_chWrite ib2" "kept ib2 ib3"
    by (auto simp: kept_def)
  have "site_run gz s (worked s ib3 AtSelect (us2 @ us3))"
    by (rule site_run_trans [OF r3(1) site_run_trans [OF r2(1) r1]])
  with r2 r3 show ?thesis by (intro exI [of _ ib3] exI [of _ "us2 @ us3"]) (auto simp: kept_def)
qed

section \<open>The pool and the loop\<close>

text \<open>A server that takes every write, with a compression that works as \<open>gz\<close>.\<close>

definition taking :: "(bytes \<Rightarrow> bytes) \<Rightarrow> http_env" where
  "taking gz = (answer 204)\<lparr>he_gzip := \<lambda>p. (gz p, length p, None)\<rparr>"

lemma taking: "accepting (taking gz)" "Compress (taking gz) p = (gz p, None)"
  by (simp_all add: taking_def accepting_def Compress_def answer_def sample_env_def)

definition writable :: "Backend \<Rightarrow> bool" where
  "writable ib \<longleftrightarrow> IsActive (ib_hb ib) \<and> hb_client (ib_hb ib) \<noteq> None"

lemma run_task_taking:
  assumes "writable ib"
  shows "run_task (taking gz) good_Write ib t = Some (ib, Written)"
proof -
  obtain db rp p where t: "t = (db, rp, p)" by (cases t)
  from assms WriteCompressed_accepting [OF taking(1), of "ib_hb ib" gz db rp "gz p"] show ?thesis
    by (simp add: run_task_def t taking(2) writable_def)
qed

definition logged :: "site \<Rightarrow> Backend \<Rightarrow> loop list \<Rightarrow> bytes list \<Rightarrow> site" where
  "logged s ib ls bs = s\<lparr>si_ib := ib, si_loops := ls, si_log := si_log s @ map (Pair Written) bs\<rparr>"

lemma logged_simps [simp]:
  "si_ib (logged s ib ls bs) = ib" "si_phase (logged s ib ls bs) = si_phase s" "si_waiting (logged s ib ls bs) = si_waiting s"
  "si_submitted (logged s ib ls bs) = si_submitted s" "si_loops (logged s ib ls bs) = ls"
  "si_sent (logged s ib ls bs) = si_sent s" "si_log (logged s ib ls bs) = si_log s @ map (Pair Written) bs"
  "logged (logged s ib ls bs) ib' ls' bs' = logged s ib' ls' (bs @ bs')"
  by (simp_all add: logged_def)

lemma pool_empties:
  assumes "writable (si_ib s)" "si_waiting s = ts"
  shows "site_run gz s (s\<lparr>si_waiting := [], si_log := si_log s @ map (Pair Written) (map (record_of gz) ts)\<rparr>)"
  using assms
proof (induction ts arbitrary: s)
  case Nil
  then have "s\<lparr>si_waiting := []\<rparr> = s" by (cases s) simp
  then show ?case by (simp add: site_run.start)
next
  case (Cons t ts)
  let ?s = "s\<lparr>si_waiting := ts, si_log := si_log s @ [(Written, record_of gz t)]\<rparr>"
  have z: "Compress (taking gz) (snd (snd t)) = (gz (snd (snd t)), None)" by (rule taking)
  from site_step.task [where gz = gz and xs = "[]" and ys = ts, OF _ z run_task_taking [OF Cons.prems(1)]] Cons.prems
  have "site_run gz s ?s" by (intro site_run_step) simp
  from site_run_trans [OF Cons.IH [of ?s] this] Cons.prems(1) show ?case by simp
qed

lemma loop_goes:
  assumes "si_loops s = [l]" "loop_step (si_ib s, l) (ib', l', map (Pair Written) bs)" "bs = [] \<Longrightarrow> held [l] = []"
  shows "site_run gz s (logged s ib' (case l' of None \<Rightarrow> [] | Some k \<Rightarrow> [k]) bs)"
proof -
  have "skipped (si_ib s) l (map (Pair Written) bs) = []" using assms(3) by (auto simp: skipped_def split: loop.splits)
  with site_run_step [OF site_step.loop [where gz = gz and xs = "[]" and ys = "[]", OF _ assms(2)]] assms(1)
  show ?thesis by (simp add: logged_def)
qed

lemma held_record_written:
  assumes "si_loops s = [Holding b]" "is_record b" "ib_fb (si_ib s) = Some fb" "fb_inv fb" "writable (si_ib s)"
  shows "\<exists>fb'. site_run gz s (logged s ((si_ib s)\<lparr>ib_fb := Some fb'\<rparr>) [LoopHead] [b]) \<and> fb_inv fb' \<and>
    pending fb' = ahead fb \<and> ahead fb' = ahead fb"
proof -
  from assms(2) obtain db rp z where b: "b = backlog_record db rp z" by (auto simp: is_record_def)
  from UpdateMeta_inv [OF assms(4)] obtain fb' where u: "UpdateMeta good_Update fb = (fb', None)" "fb_inv fb'"
    "pending fb' = ahead fb" "ahead fb' = ahead fb" by blast
  have "resend (taking gz) good_Rewrite (si_ib s) b = Some ((si_ib s)\<lparr>ib_fb := Some fb'\<rparr>, None, Some Written)"
    using WriteCompressed_accepting [OF taking(1), of "ib_hb (si_ib s)" gz db rp z] assms(3,5) u(1)
    by (simp add: b resend_record settle_def good_Rewrite_def verdict_def writable_def)
  from loop_goes [OF assms(1), of "(si_ib s)\<lparr>ib_fb := Some fb'\<rparr>" "Some LoopHead" "[b]"] loop_step.resend [OF this] u
  show ?thesis by auto
qed

lemma record_read:
  assumes "si_loops s = [Reading]" "ib_fb (si_ib s) = Some fb" "fb_inv fb" "ahead fb = b # rs"
  shows "\<exists>fb'. site_run gz s (logged s ((si_ib s)\<lparr>ib_fb := Some fb'\<rparr>) [Holding b] []) \<and> fb_inv fb' \<and>
    pending fb' = pending fb \<and> ahead fb' = rs \<and> (marked fb' \<longleftrightarrow> marked fb)"
proof -
  from fb_Read_inv [OF assms(3,4)] obtain fb' where r: "fb_Read (None, None) fb = (fb', Inr (Some b))" "fb_inv fb'"
    "ahead fb' = rs" "pending fb' = pending fb" "marked fb' \<longleftrightarrow> marked fb" by blast
  from loop_goes [OF assms(1), of "(si_ib s)\<lparr>ib_fb := Some fb'\<rparr>" "Some (Holding b)" "[]"]
    loop_step.read [OF assms(2) r(1)] r show ?thesis by auto
qed

text \<open>What is left when a loop has come to its end.\<close>

definition emptied :: "site \<Rightarrow> bytes list \<Rightarrow> site \<Rightarrow> bool" where
  "emptied s bs s' \<longleftrightarrow>
     (\<exists>hb fb. s' = logged s ((si_ib s)\<lparr>ib_hb := hb, ib_fb := Some fb\<rparr>) [] bs \<and> pending fb = [] \<and> fb_inv fb)"

lemma emptied_logged:
  assumes "site_run gz s (logged s ((si_ib s)\<lparr>ib_fb := Some fb1\<rparr>) ls bs)" "\<exists>s'. site_run gz (logged s ((si_ib s)\<lparr>ib_fb := Some fb1\<rparr>) ls bs) s' \<and>
    emptied (logged s ((si_ib s)\<lparr>ib_fb := Some fb1\<rparr>) ls bs) cs s'"
  shows "\<exists>s'. site_run gz s s' \<and> emptied s (bs @ cs) s'"
  using assms site_run_trans [OF _ assms(1)] by (force simp: emptied_def)

lemma head_drains:
  assumes "si_loops s = [LoopHead]" "ib_fb (si_ib s) = Some fb" "fb_inv fb" "ahead fb = pending fb" "pending fb = rs"
    and "\<forall>b \<in> set rs. is_record b" "ib_running (si_ib s)" "writable (si_ib s)"
  shows "\<exists>s'. site_run gz s s' \<and> emptied s rs s'"
  using assms
proof (induction rs arbitrary: s fb)
  case Nil
  then have "\<not> IsData fb" using IsData_pending [of fb] by simp
  from loop_goes [OF Nil(1), of "si_ib s" "Some Leaving" "[]" gz] loop_step.leave [OF Nil(2) this]
  have r1: "site_run gz s (logged s (si_ib s) [Leaving] [])" by simp
  let ?ib = "(si_ib s)\<lparr>ib_hb := SetRewriting (ib_hb (si_ib s)) False\<rparr>"
  from loop_goes [of "logged s (si_ib s) [Leaving] []" Leaving ?ib None "[]" gz] loop_step.left [of "si_ib s"]
  have "site_run gz (logged s (si_ib s) [Leaving] []) (logged s ?ib [] [])" by simp
  note r = site_run_trans [OF this r1]
  have "(si_ib s)\<lparr>ib_hb := ib_hb ?ib, ib_fb := Some fb\<rparr> = ?ib" using Nil(2) by (cases "si_ib s") simp
  then have "logged s ?ib [] [] = logged s ((si_ib s)\<lparr>ib_hb := ib_hb ?ib, ib_fb := Some fb\<rparr>) [] []" by simp
  with Nil(3,5) have "emptied s [] (logged s ?ib [] [])" unfolding emptied_def by blast
  with r show ?case by blast
next
  case (Cons b rs)
  then have "IsData fb" using IsData_pending [of fb] by simp
  from loop_goes [OF Cons.prems(1), of "si_ib s" "Some Reading" "[]" gz] loop_step.go_on [OF Cons.prems(2) this Cons.prems(7)] Cons.prems(8)
  have r1: "site_run gz s (logged s (si_ib s) [Reading] [])" by (simp add: writable_def)
  from record_read [of "logged s (si_ib s) [Reading] []" fb b rs gz] Cons.prems obtain fb1 where
    r2: "site_run gz (logged s (si_ib s) [Reading] []) (logged s ((si_ib s)\<lparr>ib_fb := Some fb1\<rparr>) [Holding b] [])"
      "fb_inv fb1" "ahead fb1 = rs" by auto
  let ?s2 = "logged s ((si_ib s)\<lparr>ib_fb := Some fb1\<rparr>) [Holding b] []"
  from held_record_written [of ?s2 b fb1 gz] r2(2,3) Cons.prems(6,8) obtain fb2 where
    r3: "site_run gz ?s2 (logged s ((si_ib s)\<lparr>ib_fb := Some fb2\<rparr>) [LoopHead] [b])" "fb_inv fb2" "pending fb2 = rs" "ahead fb2 = rs"
    by (auto simp: writable_def)
  have "site_run gz s (logged s ((si_ib s)\<lparr>ib_fb := Some fb2\<rparr>) [LoopHead] [b])"
    by (rule site_run_trans [OF r3(1) site_run_trans [OF r2(1) r1]])
  moreover have "\<exists>s'. site_run gz (logged s ((si_ib s)\<lparr>ib_fb := Some fb2\<rparr>) [LoopHead] [b]) s' \<and>
      emptied (logged s ((si_ib s)\<lparr>ib_fb := Some fb2\<rparr>) [LoopHead] [b]) rs s'"
    by (rule Cons.IH [of _ fb2]) (use Cons.prems r3 in \<open>auto simp: writable_def\<close>)
  ultimately have "\<exists>s'. site_run gz s s' \<and> emptied s ([b] @ rs) s'" by (rule emptied_logged)
  then show ?case by simp
qed

text \<open>With a record in the hand, or about to read one, the loop gets to its head.\<close>

lemma held_drains:
  assumes "si_loops s = [Holding b]" "ib_fb (si_ib s) = Some fb" "fb_inv fb" "is_record b" "\<forall>b \<in> set (ahead fb). is_record b"
    and "ib_running (si_ib s)" "writable (si_ib s)"
  shows "\<exists>s'. site_run gz s s' \<and> emptied s (b # ahead fb) s'"
proof -
  from held_record_written [OF assms(1,4,2,3,7)] obtain fb1 where
    r: "site_run gz s (logged s ((si_ib s)\<lparr>ib_fb := Some fb1\<rparr>) [LoopHead] [b])" "fb_inv fb1" "pending fb1 = ahead fb"
      "ahead fb1 = ahead fb" by blast
  have "\<exists>s'. site_run gz (logged s ((si_ib s)\<lparr>ib_fb := Some fb1\<rparr>) [LoopHead] [b]) s' \<and>
      emptied (logged s ((si_ib s)\<lparr>ib_fb := Some fb1\<rparr>) [LoopHead] [b]) (ahead fb) s'"
    by (rule head_drains [of _ fb1]) (use assms r in \<open>auto simp: writable_def\<close>)
  from emptied_logged [OF r(1) this] show ?thesis by simp
qed

lemma reading_drains:
  assumes "si_loops s = [Reading]" "ib_fb (si_ib s) = Some fb" "fb_inv fb" "ahead fb \<noteq> []" "\<forall>b \<in> set (ahead fb). is_record b"
    and "ib_running (si_ib s)" "writable (si_ib s)"
  shows "\<exists>s'. site_run gz s s' \<and> emptied s (ahead fb) s'"
proof -
  from assms(4) obtain b rs where ah: "ahead fb = b # rs" by (cases "ahead fb") auto
  from record_read [OF assms(1-3) ah] obtain fb1 where
    r: "site_run gz s (logged s ((si_ib s)\<lparr>ib_fb := Some fb1\<rparr>) [Holding b] [])" "fb_inv fb1" "ahead fb1 = rs" by blast
  have "\<exists>s'. site_run gz (logged s ((si_ib s)\<lparr>ib_fb := Some fb1\<rparr>) [Holding b] []) s' \<and>
      emptied (logged s ((si_ib s)\<lparr>ib_fb := Some fb1\<rparr>) [Holding b] []) (b # ahead fb1) s'"
    by (rule held_drains) (use assms r ah in \<open>auto simp: writable_def\<close>)
  from emptied_logged [OF r(1) this] ah r(3) show ?thesis by simp
qed

text \<open>Without a loop the ticker starts one when there is something to rewrite.\<close>

lemma ticker_starts:
  assumes "si_loops s = []" "si_phase s = AtSelect" "ib_fb (si_ib s) = Some fb" "IsData fb" "\<not> IsRewriting (ib_hb (si_ib s))"
  shows "site_run gz s (logged (s\<lparr>si_phase := AtHead\<rparr>) ((si_ib s)\<lparr>ib_hb := SetRewriting (ib_hb (si_ib s)) True\<rparr>) [LoopHead] [])"
proof -
  let ?ib = "(si_ib s)\<lparr>ib_hb := SetRewriting (ib_hb (si_ib s)) True\<rparr>"
  have "RewriteIdle (si_ib s) = Some ?ib" using assms(3-5) by (simp add: RewriteIdle_def)
  then have "worker_step (si_ib s, si_phase s) Ticker (?ib, AtHead) []" using assms(2) worker_step.ticker by simp
  from site_run_step [OF site_step.worker [where gz = gz, OF this]] assms(1,5) show ?thesis
    by (cases s) (simp add: logged_def started_def IsRewriting_def SetRewriting_def)
qed

lemma idle_drains:
  assumes "si_loops s = []" "si_phase s = AtSelect" "ib_fb (si_ib s) = Some fb" "fb_inv fb" "ahead fb = pending fb"
    and "\<forall>b \<in> set (pending fb). is_record b" "ib_running (si_ib s)" "writable (si_ib s)" "\<not> IsRewriting (ib_hb (si_ib s))"
  shows "\<exists>s' ph. site_run gz s s' \<and> emptied (s\<lparr>si_phase := ph\<rparr>) (pending fb) s'"
proof (cases "pending fb = []")
  case True
  have "logged (s\<lparr>si_phase := si_phase s\<rparr>) ((si_ib s)\<lparr>ib_hb := ib_hb (si_ib s), ib_fb := Some fb\<rparr>) [] [] = s"
    using assms(1,3) by (cases s; cases "si_ib s") (simp add: logged_def)
  with True assms(4) have "emptied (s\<lparr>si_phase := si_phase s\<rparr>) (pending fb) s" unfolding emptied_def
    by (intro exI [of _ "ib_hb (si_ib s)"] exI [of _ fb]) simp
  then show ?thesis using site_run.start by blast
next
  case False
  with assms(4) have "IsData fb" by (simp add: IsData_pending)
  let ?ib = "(si_ib s)\<lparr>ib_hb := SetRewriting (ib_hb (si_ib s)) True\<rparr>"
  let ?s = "logged (s\<lparr>si_phase := AtHead\<rparr>) ?ib [LoopHead] []"
  note r = ticker_starts [OF assms(1-3) \<open>IsData fb\<close> assms(9), of gz]
  have "\<exists>s'. site_run gz ?s s' \<and> emptied ?s (pending fb) s'"
    by (rule head_drains [of _ fb]) (use assms in \<open>auto simp: writable_def IsActive_def SetRewriting_def\<close>)
  then obtain s' where "site_run gz ?s s'" "emptied ?s (pending fb) s'" by blast
  with site_run_trans [OF _ r] show ?thesis by (force simp: emptied_def)
qed

lemma loops_drain:
  assumes "length (si_loops s) \<le> 1" "si_phase s = AtSelect" "ib_fb (si_ib s) = Some fb" "fb_inv fb"
    and "pending fb = held (si_loops s) @ ahead fb" "Reading \<in> set (si_loops s) \<longrightarrow> pending fb \<noteq> []"
    and "\<forall>b \<in> set (pending fb). is_record b" "ib_running (si_ib s)" "writable (si_ib s)"
    and "IsRewriting (ib_hb (si_ib s)) \<longrightarrow> si_loops s \<noteq> []"
  shows "\<exists>s' ph. site_run gz s s' \<and> emptied (s\<lparr>si_phase := ph\<rparr>) (pending fb) s'"
proof -
  have keep: ?thesis if "\<exists>s'. site_run gz s s' \<and> emptied s (pending fb) s'"
    using that by (metis site.surjective site.update_convs(2))
  show ?thesis
  proof (cases "si_loops s")
    case Nil
    with assms show ?thesis by (intro idle_drains) auto
  next
    case (Cons l ls)
    with assms(1) have l: "si_loops s = [l]" by simp
    show ?thesis
    proof (cases l)
      case LoopHead
      with head_drains [of s fb "pending fb" gz] assms l keep show ?thesis by simp
    next
      case Reading
      with reading_drains [of s fb gz] assms l keep show ?thesis by simp
    next
      case (Holding b)
      with held_drains [of s b fb gz] assms l keep show ?thesis by simp
    next
      case Leaving
      let ?ib = "(si_ib s)\<lparr>ib_hb := SetRewriting (ib_hb (si_ib s)) False\<rparr>"
      from loop_goes [of s Leaving ?ib None "[]" gz] loop_step.left [of "si_ib s"] l Leaving
      have r: "site_run gz s (logged s ?ib [] [])" by simp
      have "\<exists>s' ph. site_run gz (logged s ?ib [] []) s' \<and> emptied ((logged s ?ib [] [])\<lparr>si_phase := ph\<rparr>) (pending fb) s'"
        by (rule idle_drains) (use assms l Leaving in \<open>auto simp: writable_def IsActive_def SetRewriting_def IsRewriting_def\<close>)
      then obtain s' ph where "site_run gz (logged s ?ib [] []) s'" "emptied ((logged s ?ib [] [])\<lparr>si_phase := ph\<rparr>) (pending fb) s'"
        by blast
      with site_run_trans [OF _ r] show ?thesis by (fastforce simp: emptied_def logged_def)
    qed
  qed
qed

section \<open>No dead end\<close>

lemma site_delivers:
  assumes inv: "site_inv gz old m0 s" and al: "alive s"
    and "ib_running (si_ib s)" "ib_fb (si_ib s) = Some fb" "marked fb"
  shows "\<exists>s' us fb'. site_run gz s s' \<and> si_sent s' = si_sent s \<and> si_submitted s' = si_submitted s @ us \<and>
     (\<forall>db rp. task_bytes (si_submitted s') db rp = lines_for (si_sent s) db rp) \<and>
     si_waiting s' = [] \<and> si_loops s' = [] \<and> ib_running (si_ib s') \<and> ib_chWrite (si_ib s') = [] \<and>
     ib_fb (si_ib s') = Some fb' \<and> pending fb' = [] \<and>
     si_log s' = si_log s @ map (Pair Written) (map (record_of gz) (si_waiting s @ us) @ pending fb)"
proof -
  from inv al assms(3-5) have "accounts_open gz old m0 s fb []"
    by (auto simp: site_inv_def accounts_def accounts_open_def accounts_closed_def alive_def)
  then have o: "fb_inv fb" "pending fb = held (si_loops s) @ ahead fb" "Reading \<in> set (si_loops s) \<longrightarrow> pending fb \<noteq> []"
    "\<forall>b \<in> set (pending fb). is_record b" unfolding accounts_open_def by auto
  define ib1 where "ib1 = (si_ib s)\<lparr>ib_hb := (ib_hb (si_ib s))\<lparr>hb_active := True\<rparr>\<rparr>"
  let ?s1 = "s\<lparr>si_ib := ib1\<rparr>"
  have r1: "site_run gz s ?s1" unfolding ib1_def by (intro site_run_step site_step.other) simp_all
  have ib1: "worker_inv ib1" "ib_running ib1" "ib_fb ib1 = Some fb" "writable ib1" "IsRewriting (ib_hb ib1) \<longrightarrow> si_loops s \<noteq> []"
    "si_phase s \<in> {AtHead, AtSelect}"
    using inv al assms(3,4) by (simp_all add: ib1_def site_inv_def alive_def writable_def IsActive_def IsRewriting_def)
  from worker_drains [of ?s1 gz] ib1 obtain ib2 us where
    r2: "site_run gz ?s1 (worked ?s1 ib2 AtSelect us)" "ib_chWrite ib2 = []" "\<forall>db rp. content (ib_buffers ib2) db rp = []"
      "kept ib1 ib2" by auto
  let ?s2 = "worked ?s1 ib2 AtSelect us"
  have ib2: "ib_running ib2" "ib_fb ib2 = Some fb" "writable ib2" "IsRewriting (ib_hb ib2) \<longrightarrow> si_loops s \<noteq> []"
    using ib1 r2(4) by (simp_all add: kept_def writable_def)
  define s3 where "s3 = ?s2\<lparr>si_waiting := [], si_log := si_log ?s2 @ map (Pair Written) (map (record_of gz) (si_waiting s @ us))\<rparr>"
  have r3: "site_run gz ?s2 s3" unfolding s3_def by (rule pool_empties) (use ib2 in simp_all)
  have s3: "si_loops s3 = si_loops s" "si_phase s3 = AtSelect" "si_ib s3 = ib2" "si_waiting s3 = []"
    by (simp_all add: s3_def worked_def)
  have "length (si_loops s) \<le> 1" using inv by (simp add: site_inv_def loops_ok_def)
  with loops_drain [of s3 fb gz] s3 ib2 o obtain s4 ph where
    r4: "site_run gz s3 s4" "emptied (s3\<lparr>si_phase := ph\<rparr>) (pending fb) s4" by auto
  have run: "site_run gz s s4"
    by (rule site_run_trans [OF r4(1) site_run_trans [OF r3 site_run_trans [OF r2(1) r1]]])
  from r4(2) obtain hb fb' where s4: "s4 = logged (s3\<lparr>si_phase := ph\<rparr>) (ib2\<lparr>ib_hb := hb, ib_fb := Some fb'\<rparr>) [] (pending fb)"
    "pending fb' = []" using s3(3) by (auto simp: emptied_def)
  have "conserves (si_sent s4) (si_submitted s4) (si_ib s4)"
    using site_run_inv [OF run inv] by (simp add: site_inv_def)
  with r2(2,3) have tb: "\<forall>db rp. task_bytes (si_submitted s4) db rp = lines_for (si_sent s4) db rp"
    by (simp add: conserves_def s4(1))
  show ?thesis
    by (rule exI [of _ s4], rule exI [of _ us], rule exI [of _ fb'])
      (use run tb s4 s3 ib2(1) r2(2) in \<open>simp add: s3_def\<close>)
qed

text \<open>C4: no state of a running backend is a dead end. As long as the backend has not been closed
  and its backlog has a committed offset, every reachable state can go on, without new lines, to
  one where the channel, the buffers, the pool and the backlog are empty and no loop runs: the
  server has then taken every record that was waiting for the pool, those of the lines still
  buffered, and all of the backlog, each once and in this order. The lines sent have become
  tasks, in order, for every database and retention policy.\<close>

theorem everything_can_be_delivered:
  assumes "NewBackend cfg pxcfg (fb0, None) = Some ib0" "0 < pc_FlushSize pxcfg" "fb_inv fb0" "ahead fb0 = pending fb0"
    and "\<forall>b \<in> set (pending fb0). is_record b" and "site_run gz (new_site ib0) s"
    and "ib_running (si_ib s)" "ib_fb (si_ib s) = Some fb" "marked fb"
  shows "\<exists>s' us fb'. site_run gz s s' \<and> si_sent s' = si_sent s \<and> si_submitted s' = si_submitted s @ us \<and>
     (\<forall>db rp. task_bytes (si_submitted s') db rp = lines_for (si_sent s) db rp) \<and>
     si_waiting s' = [] \<and> si_loops s' = [] \<and> ib_fb (si_ib s') = Some fb' \<and> pending fb' = [] \<and>
     si_log s' = si_log s @ map (Pair Written) (map (record_of gz) (si_waiting s @ us) @ pending fb)"
proof -
  note start = new_site_inv [OF assms(1-5), of gz]
  from site_delivers [OF site_run_inv [OF assms(6) start] site_run_alive [OF assms(6) start new_site_alive [OF assms(1)]] assms(7-9)]
  show ?thesis by blast
qed

theorem everything_can_be_delivered_witness:
  "\<exists>ib s fb. NewBackend (hd (cc_Backends (hd (pc_Circles sample_config)))) sample_pxcfg (retried, None) = Some ib \<and>
     site_run id (new_site ib) s \<and> ib_fb (si_ib s) = Some fb \<and> pending fb = [] \<and>
     (Written, backlog_record ''db'' ''rp'' ''cpu v=1 1'') \<in> set (si_log s)"
proof -
  obtain ib where ib: "NewBackend (hd (cc_Backends (hd (pc_Circles sample_config)))) sample_pxcfg (retried, None) = Some ib"
    by (simp add: NewBackend_def)
  then have f: "ib_running (si_ib (new_site ib))" "ib_fb (si_ib (new_site ib)) = Some retried"
    by (simp_all add: NewBackend_Some new_site_def)
  have "ahead retried = pending retried" "\<forall>b \<in> set (pending retried). is_record b"
    using retried by (auto simp: is_record_def)
  from everything_can_be_delivered [OF ib sample_pxcfg_pos retried(1) this site_run.start [of id] f retried(2)]
  obtain s' us fb' where s': "site_run id (new_site ib) s'" "ib_fb (si_ib s') = Some fb'" "pending fb' = []"
    "si_log s' = map (Pair Written) (map (record_of id) us @ pending retried)"
    by (auto simp: new_site_def)
  with ib retried(3) show ?thesis by (intro exI [of _ ib] exI [of _ s'] exI [of _ fb']) simp
qed

section \<open>Without a committed offset\<close>

text \<open>The consumer stands behind all records, some of which are pending, no offset is committed, and
  nothing else is under way; or the files have been closed over such records.\<close>

definition stuck :: "bytes list \<Rightarrow> (outcome \<times> bytes) list \<Rightarrow> site \<Rightarrow> bool" where
  "stuck bs lg s \<longleftrightarrow>
     (\<exists>fb. ib_fb (si_ib s) = Some fb \<and> pending fb = bs \<and>
        (fb_inv fb \<and> \<not> marked fb \<and> ahead fb = [] \<or>
         fb_producer fb = None \<and> fb_consumer fb = None \<and> \<not> fb_meta fb)) \<and>
     held (si_loops s) = [] \<and> si_waiting s = [] \<and> si_log s = lg \<and> ib_chWrite (si_ib s) = [] \<and>
     (\<forall>db rp cb. get_cb (ib_buffers (si_ib s)) db rp = Some cb \<longrightarrow> cb = idle_cb)"

lemma flush_all_idle:
  assumes "\<forall>db rp cb. get_cb (ib_buffers ib) db rp = Some cb \<longrightarrow> cb = idle_cb" "flush_all ks ib = Some (ib', us)"
  shows "ib' = ib \<and> us = []"
  using assms(2)
proof (induction ks)
  case (Cons k ks)
  obtain db rp where k: "k = (db, rp)" by (cases k)
  with Cons.prems obtain cb where cb: "get_cb (ib_buffers ib) db rp = Some cb" by (auto split: option.splits)
  with assms(1) have "cb = idle_cb" by blast
  with cb k Cons.prems have "flush_all ks ib = Some (ib', us)" by (simp add: idle_cb_def)
  then show ?case by (rule Cons.IH)
qed simp

lemma Flush_idle:
  assumes "\<forall>db rp cb. get_cb (ib_buffers ib) db rp = Some cb \<longrightarrow> cb = idle_cb" "Flush ib = Some (ib', us)"
  shows "ib' = ib\<lparr>ib_chTimer := False\<rparr> \<and> us = []"
  using flush_all_idle [of "ib\<lparr>ib_chTimer := False\<rparr>"] assms by (simp add: Flush_def Let_def)

lemma site_step_sent: "site_step gz s s' \<Longrightarrow> \<exists>pts. si_sent s' = si_sent s @ pts"
  by (cases rule: site_step.cases) auto

lemma site_run_sent: "site_run gz s s' \<Longrightarrow> \<exists>pts. si_sent s' = si_sent s @ pts"
proof (induction rule: site_run.induct)
  case (more s1 s2)
  then show ?case using site_step_sent [OF more(2)] by auto
qed simp

lemma worker_stuck:
  assumes "stuck bs lg s" "worker_step (si_ib s, si_phase s) ev (ib', ph') us" "\<And>pt. ev \<noteq> Send pt"
  shows "us = [] \<and> ib_chWrite ib' = [] \<and> ib_buffers ib' = ib_buffers (si_ib s) \<and>
    (ib_fb ib' = ib_fb (si_ib s) \<or> ib_fb ib' = map_option fb_Close (ib_fb (si_ib s)))"
  using assms(2)
proof (cases rule: worker_step.cases)
  case timer
  with assms(1) Flush_idle [of "si_ib s" ib' us] show ?thesis by (simp add: stuck_def)
next
  case drain
  with assms(1) Flush_idle [of "si_ib s" ib' us] show ?thesis by (simp add: stuck_def)
qed (use assms in \<open>auto simp: stuck_def ib_Close_def RewriteIdle_def shut_down_def split: if_splits option.splits\<close>)

lemma loop_stuck:
  assumes "stuck bs lg s" "si_loops s = xs @ l # ys" "loop_step (si_ib s, l) (ib', l', lg')"
  shows "\<exists>hb. ib' = (si_ib s)\<lparr>ib_hb := hb\<rparr> \<and> lg' = [] \<and> held (case l' of None \<Rightarrow> [] | Some k \<Rightarrow> [k]) = []"
  using assms(3)
proof (cases rule: loop_step.cases)
  case (read fb fb' res)
  with assms(1) have "fb' = fb \<and> (\<forall>b. res \<noteq> Inr (Some b))"
    using fb_Read_none [of fb] loop_files_closed(3) [of fb fb' res] by (auto simp: stuck_def split: if_splits)
  with read show ?thesis by (intro exI [of _ "ib_hb (si_ib s)"]) (auto split: sum.split option.split)
next
  case (resend env b err oc)
  with assms(1,2) show ?thesis by (simp add: stuck_def held_def)
next
  case left
  then show ?thesis by auto
qed (auto intro: exI [of _ "ib_hb (si_ib s)"])

lemma site_step_stuck:
  assumes "site_step gz s s'" "stuck bs lg s" "si_sent s' = si_sent s"
  shows "stuck bs lg s'"
  using assms(1)
proof (cases rule: site_step.cases)
  case (worker ev ib' ph' us)
  with assms(3) have "\<And>pt. ev \<noteq> Send pt" by auto
  from worker_stuck [OF assms(2) worker(2) this] assms(2) pending_Close worker(1) show ?thesis
    by (auto simp: stuck_def started_def fb_Close_def)
next
  case (task xs t ys env ib' oc)
  with assms(2) show ?thesis by (simp add: stuck_def)
next
  case (loop xs l ys ib' l' lg')
  from loop_stuck [OF assms(2) loop(2,3)] assms(2) loop(1,2) show ?thesis by (auto simp: stuck_def held_def)
next
  case (other hb)
  with assms(2) show ?thesis by (simp add: stuck_def)
qed

lemma site_run_stuck: "site_run gz s s' \<Longrightarrow> stuck bs lg s \<Longrightarrow> si_sent s' = si_sent s \<Longrightarrow> stuck bs lg s'"
proof (induction rule: site_run.induct)
  case (more s1 s2)
  from site_run_sent [OF more(1)] obtain ps where ps: "si_sent s1 = si_sent s @ ps" by blast
  from site_step_sent [OF more(2)] obtain qs where qs: "si_sent s2 = si_sent s1 @ qs" by blast
  have "si_sent s @ ps @ qs = si_sent s" using ps qs more.prems(2) by (metis append_assoc)
  then have sent: "si_sent s1 = si_sent s" "si_sent s2 = si_sent s1" using ps qs by simp_all
  from more.IH [OF more.prems(1) sent(1)] show ?case by (rule site_step_stuck [OF more(2) _ sent(2)])
qed simp

lemma sample_refused:
  assumes "ib_fb ib = Some fb" "fb_inv fb" "\<not> marked fb" "hb_client (ib_hb ib) \<noteq> None"
  shows "\<exists>err. resend (answer 500) good_Rewrite ib (record_of id sample_task) = Some (ib, err, Some Backlogged)"
proof -
  have w: "WriteCompressed (answer 500) (ib_hb ib) db rp p = Some (ib_hb ib, Some ErrInternal)" for db rp p
    using assms(4) by (simp add: WriteCompressed_def WriteStream_def answer_def sample_env_def write_error_def)
  have "fb_meta fb" using assms(2) by (auto simp: fb_inv_def represents_def)
  with RollbackMeta_unmarked [of fb] assms(3) have r: "fst (RollbackMeta good_Rollback fb) = fb" by simp
  obtain err where "settle good_Rewrite ib (Some ErrInternal) = Some (ib\<lparr>ib_fb := Some (fst (RollbackMeta good_Rollback fb))\<rparr>, err)"
    using assms(1) by (cases "RollbackMeta good_Rollback fb") (simp add: settle_def good_Rewrite_def)
  moreover have "ib\<lparr>ib_fb := Some fb\<rparr> = ib" using assms(1) by (cases ib) simp
  ultimately show ?thesis
    using w r by (simp add: record_of_def sample_task_def resend_record verdict_def)
qed

text \<open>The first failure of a new backend is a dead end. The backlog is empty, no offset has ever
  been committed; a line is sent, its flush fails and so does the first attempt to rewrite it. From
  then on, whatever the goroutines do and whatever the server answers, the record stays in the
  backlog unwritten until another line is sent (which makes it lost, \<open>first_record_lost\<close>).\<close>

theorem first_failure_is_a_dead_end:
  "\<exists>s. site_run id (new_site sample_ib) s \<and> ib_running (si_ib s) \<and>
     (\<forall>s'. site_run id s s' \<longrightarrow> si_sent s' = si_sent s \<longrightarrow>
        si_log s' = [] \<and> (\<exists>fb. ib_fb (si_ib s') = Some fb \<and> pending fb = [record_of id sample_task]))"
proof -
  let ?r = "record_of id sample_task"
  from sample_site_run obtain s0 fb where s0: "site_run id (new_site sample_ib) s0" "si_phase s0 = AtHead" "si_waiting s0 = []"
    "si_loops s0 = []" "si_log s0 = []" "resting (si_ib s0)" "ib_fb (si_ib s0) = Some fb" "fb_inv fb" "\<not> marked fb"
    "ahead fb = [?r]" "pending fb = [?r]" using empty_unmarked by auto
  define ib where "ib = (si_ib s0)\<lparr>ib_hb := (ib_hb (si_ib s0))\<lparr>hb_active := True\<rparr>\<rparr>"
  have ib: "ib_running ib" "\<not> IsRewriting (ib_hb ib)" "ib_fb ib = Some fb" "writable ib" "ib_chWrite ib = []"
    "\<forall>db rp cb. get_cb (ib_buffers ib) db rp = Some cb \<longrightarrow> cb = idle_cb"
    using s0(6,7) by (simp_all add: ib_def resting_def writable_def IsActive_def IsRewriting_def)
  have "site_run id s0 (s0\<lparr>si_ib := ib\<rparr>)" unfolding ib_def by (intro site_run_step site_step.other) simp_all
  note r1 = site_run_trans [OF this s0(1)]
  let ?s2 = "worked (s0\<lparr>si_ib := ib\<rparr>) ib AtSelect []"
  have "site_run id (s0\<lparr>si_ib := ib\<rparr>) ?s2" using look_works [of "s0\<lparr>si_ib := ib\<rparr>" id] s0(2) ib(1) by simp
  note r2 = site_run_trans [OF this r1]
  let ?ib = "ib\<lparr>ib_hb := SetRewriting (ib_hb ib) True\<rparr>" and ?s = "?s2\<lparr>si_phase := AtHead\<rparr>"
  have "IsData fb" using s0(8,11) by (simp add: IsData_pending)
  then have "site_run id ?s2 (logged ?s ?ib [LoopHead] [])"
    using ticker_starts [of ?s2 fb id] s0(4) ib by simp
  note r3 = site_run_trans [OF this r2]
  have "site_run id (logged ?s ?ib [LoopHead] []) (logged ?s ?ib [Reading] [])"
    using loop_goes [of "logged ?s ?ib [LoopHead] []" LoopHead ?ib "Some Reading" "[]" id] loop_step.go_on [of ?ib fb] ib \<open>IsData fb\<close>
    by (simp add: writable_def SetRewriting_def IsActive_def)
  note r4 = site_run_trans [OF this r3]
  from record_read [of "logged ?s ?ib [Reading] []" fb ?r "[]" id] ib(3) s0(8-10) obtain fb1 where
    "site_run id (logged ?s ?ib [Reading] []) (logged ?s (?ib\<lparr>ib_fb := Some fb1\<rparr>) [Holding ?r] [])" "fb_inv fb1"
    "pending fb1 = pending fb" "ahead fb1 = []" "\<not> marked fb1" by auto
  note r5 = site_run_trans [OF this(1) r4] and fb1 = this(2-)
  let ?ib1 = "?ib\<lparr>ib_fb := Some fb1\<rparr>"
  obtain err where "resend (answer 500) good_Rewrite ?ib1 ?r = Some (?ib1, err, Some Backlogged)"
    using sample_refused [of ?ib1 fb1] fb1(1,4) ib(4) by (auto simp: writable_def SetRewriting_def)
  from loop_step.resend [OF this] have fails: "loop_step (?ib1, Holding ?r) (?ib1, Some LoopHead, [])" by simp
  let ?s6 = "(logged ?s ?ib1 [LoopHead] [])\<lparr>si_skipped := si_skipped s0 @ [?r]\<rparr>"
  from fb1(4) have "skipped ?ib1 (Holding ?r) [] = [?r]" by (simp add: skipped_def)
  with site_run_step [OF site_step.loop [where gz = id and xs = "[]" and ys = "[]" and s = "logged ?s ?ib1 [Holding ?r] []"
      and l = "Holding ?r" and ib' = ?ib1 and l' = "Some LoopHead" and lg = "[]"]] fails
  have "site_run id (logged ?s ?ib1 [Holding ?r] []) ?s6" by (simp add: logged_def worked_def)
  note r6 = site_run_trans [OF this r5]
  have "stuck [?r] [] ?s6"
    using fb1 s0(3,5,11) ib by (simp add: stuck_def)
  note dead = site_run_stuck [OF _ this]
  show ?thesis
  proof (intro exI [of _ "?s6"] conjI allI impI)
    fix s'
    assume "site_run id ?s6 s'" "si_sent s' = si_sent ?s6"
    from dead [OF this] show "si_log s' = []" "\<exists>fb. ib_fb (si_ib s') = Some fb \<and> pending fb = [?r]"
      unfolding stuck_def by blast+
  qed (use r6 ib(1) in simp_all)
qed

end
