(* ===== verification/Ingest.thy ===== *)
theory Ingest
  imports Progress Proxy
begin

text \<open>
  The way of the lines through the whole proxy: taken from the bodies of write requests, routed to
  one backend of every circle, and from there followed by \<open>Delivery\<close>. Any number of requests and
  all backends work at the same time.
\<close>

section \<open>Taking a line\<close>

text \<open>What \<^verbatim>\<open>WriteRow\<close> does before it hands out a line: the key and the point, nothing for a line
  that is refused.\<close>

definition row_point :: "write_env \<Rightarrow> int \<Rightarrow> bytes \<Rightarrow> string \<Rightarrow> string \<Rightarrow> string \<Rightarrow> (string \<times> LinePoint) option" where
  "row_point env now line db rp precision =
     (let nanoLine = AppendNano (we_multiplier env) now line precision in
      case ScanKey nanoLine of
        Some (Inr meas) \<Rightarrow>
          if RapidCheck (drop (length meas) nanoLine) = Some True
          then Some (GetKey (we_measureOnly env) db meas, \<lparr>lp_db = db, lp_rp = rp, lp_line = nanoLine\<rparr>)
          else None
      | _ \<Rightarrow> None)"

lemma WriteRow_parts:
  "WriteRow env now ip line db rp precision =
     (case row_point env now line db rp precision of
        None \<Rightarrow> Some ip
      | Some (key, pt) \<Rightarrow>
          (case GetBackends (we_lookup env) ip key of
             (ip', bes) \<Rightarrow> map_option fst (write_all bes pt None ip')))"
proof -
  let ?n = "AppendNano (we_multiplier env) now line precision"
  note stamped = stamped_line_scans [of "we_multiplier env" now line precision]
  from stamped consider (err) e where "ScanKey ?n = Some (Inl e)" | (meas) meas where "ScanKey ?n = Some (Inr meas)"
    by (metis option.exhaust sum.exhaust)
  then show ?thesis
  proof cases
    case err
    then show ?thesis by (simp add: WriteRow_def row_point_def Let_def)
  next
    case meas
    from row_checks [OF meas] obtain v where v: "length meas \<le> length ?n" "RapidCheck (drop (length meas) ?n) = Some v" by blast
    then have s: "slice_from ?n (length meas) = Some (drop (length meas) ?n)" by simp
    obtain ip' bes where g: "GetBackends (we_lookup env) ip (GetKey (we_measureOnly env) db meas) = (ip', bes)" by force
    from meas v s g show ?thesis
      by (cases v; cases "bes = []") (simp_all add: WriteRow_def row_point_def Let_def)
  qed
qed

lemma row_point_line: "row_point env now line db rp precision = Some (key, pt) \<Longrightarrow> lp_line pt \<noteq> []"
  using AppendNano_last [of "we_multiplier env" now line precision]
  by (auto simp: row_point_def Let_def split: option.splits sum.splits if_splits)

text \<open>A request body is written as a sequence of lines.\<close>

lemma ip_Write_is_rows:
  "ip_Write env clock ip p db rp precision = Some ip' \<Longrightarrow> \<exists>rows. write_rows env clock db rp precision 0 rows ip = Some ip'"
proof -
  have "\<exists>rows. write_rows env clock db rp precision n rows ip = Some ip'"
    if "write_loop env clock p db rp precision pos n ip = Some ip'" for pos n ip
    using that
  proof (induction env clock p db rp precision pos n ip rule: write_loop.induct)
    case (1 env clock p db rp precision pos n ip)
    show ?case
    proof (cases "pos < length p")
      case False
      with "1.prems" show ?thesis by (intro exI [of _ "[]"]) (simp add: write_loop.simps)
    next
      case True
      with "1.prems" obtain i block where scan: "ScanLine p pos = Some (i, block)"
        by (subst (asm) write_loop.simps) (auto split: option.splits)
      show ?thesis
      proof (cases "row_of_block block")
        case None
        with "1.prems" True scan have "write_loop env clock p db rp precision (i + 1) n ip = Some ip'"
          by (subst (asm) write_loop.simps) simp
        with "1.IH"(1) [OF True scan refl None] show ?thesis by blast
      next
        case (Some line)
        with "1.prems" True scan obtain ip1 where w: "WriteRow env (clock n) ip line db rp precision = Some ip1"
          "write_loop env clock p db rp precision (i + 1) (Suc n) ip1 = Some ip'"
          by (subst (asm) write_loop.simps) (auto split: option.splits)
        from "1.IH"(2) [OF True scan refl Some w] obtain rows where
          "write_rows env clock db rp precision (Suc n) rows ip1 = Some ip'" by blast
        with w(1) show ?thesis by (intro exI [of _ "line # rows"]) simp
      qed
    qed
  qed
  then show "ip_Write env clock ip p db rp precision = Some ip' \<Longrightarrow> \<exists>rows. write_rows env clock db rp precision 0 rows ip = Some ip'"
    by (simp add: ip_Write_def)
qed

section \<open>The proxy at work\<close>

text \<open>The proxy, its backends as a whole, the lines that are being handed out, each with the backends
  still to come, and what has been taken, with its key, and refused by closed backends so far.\<close>

record grid =
  gd_ip :: Proxy
  gd_sites :: "be_ptr \<Rightarrow> site"
  gd_flights :: "(be_ptr option list \<times> LinePoint) list"
  gd_taken :: "(string \<times> LinePoint) list"
  gd_refused :: "(be_ptr \<times> LinePoint) list"

definition new_grid :: "Proxy \<Rightarrow> grid" where
  "new_grid ip = \<lparr>gd_ip = ip, gd_sites = (\<lambda>p. new_site (get_be ip p)), gd_flights = [], gd_taken = [], gd_refused = []\<rparr>"

definition sent :: "site \<Rightarrow> Backend \<Rightarrow> LinePoint \<Rightarrow> site" where
  "sent s ib pt = s\<lparr>si_ib := ib, si_sent := si_sent s @ [pt]\<rparr>"

text \<open>A line comes in with its key as a row of the line protocol or as a point of \<^verbatim>\<open>WritePoints\<close>, which
  is never printed as nothing.\<close>

inductive comes_in :: "write_env \<Rightarrow> string \<Rightarrow> LinePoint \<Rightarrow> bool" for env where
  row: "row_point env now line db rp precision = Some (key, pt) \<Longrightarrow> comes_in env key pt"
| point: "line \<noteq> [] \<Longrightarrow> comes_in env (GetKey (we_measureOnly env) db meas) \<lparr>lp_db = db, lp_rp = rp, lp_line = line\<rparr>"

lemma comes_in_line: "comes_in env key pt \<Longrightarrow> lp_line pt \<noteq> []"
  by (induction rule: comes_in.induct) (auto dest: row_point_line)

text \<open>A request takes a line and looks up its backends; it gives the line to the next of them, which
  refuses it when it has been closed and makes it wait when its channel is full; and a backend goes
  on.\<close>

inductive grid_step :: "write_env \<Rightarrow> (bytes \<Rightarrow> bytes) \<Rightarrow> grid \<Rightarrow> grid \<Rightarrow> bool" for env gz where
  take: "comes_in env key pt \<Longrightarrow>
    GetBackends (we_lookup env) (gd_ip g) key = (ip', bes) \<Longrightarrow>
    grid_step env gz g (g\<lparr>gd_ip := ip', gd_flights := gd_flights g @ [(bes, pt)], gd_taken := gd_taken g @ [(key, pt)]\<rparr>)"
| hand: "gd_flights g = xs @ (Some p # bes, pt) # ys \<Longrightarrow> WritePoint (get_be (gd_ip g) p) pt = (ib', None) \<Longrightarrow>
    length (ib_chWrite (get_be (gd_ip g) p)) < 16 \<Longrightarrow>
    grid_step env gz g (g\<lparr>gd_ip := set_be (gd_ip g) p ib', gd_sites := (gd_sites g)(p := sent (gd_sites g p) ib' pt),
      gd_flights := xs @ (bes, pt) # ys\<rparr>)"
| refuse: "gd_flights g = xs @ (Some p # bes, pt) # ys \<Longrightarrow> WritePoint (get_be (gd_ip g) p) pt = (ib', Some e) \<Longrightarrow>
    grid_step env gz g (g\<lparr>gd_flights := xs @ (bes, pt) # ys, gd_refused := gd_refused g @ [(p, pt)]\<rparr>)"
| work: "valid_ptr (gd_ip g) p \<Longrightarrow> site_step gz (gd_sites g p) s \<Longrightarrow> si_sent s = si_sent (gd_sites g p) \<Longrightarrow>
    grid_step env gz g (g\<lparr>gd_ip := set_be (gd_ip g) p (si_ib s), gd_sites := (gd_sites g)(p := s)\<rparr>)"

inductive grid_run :: "write_env \<Rightarrow> (bytes \<Rightarrow> bytes) \<Rightarrow> grid \<Rightarrow> grid \<Rightarrow> bool" for env gz g0 where
  start: "grid_run env gz g0 g0"
| more: "grid_run env gz g0 g \<Longrightarrow> grid_step env gz g g' \<Longrightarrow> grid_run env gz g0 g'"

text \<open>Undisturbed, taking a line and giving it to its backends is \<^verbatim>\<open>WriteRow\<close>.\<close>

lemma grid_run_trans: "grid_run env gz g1 g2 \<Longrightarrow> grid_run env gz g0 g1 \<Longrightarrow> grid_run env gz g0 g2"
  by (induction rule: grid_run.induct) (auto intro: grid_run.more)

lemma hands_in_steps:
  assumes "gd_flights g = xs @ [(map Some ps, pt)]" "write_all (map Some ps) pt err (gd_ip g) = Some (ip', err')"
    and "\<forall>p \<in> set ps. valid_ptr (gd_ip g) p \<and> length (ib_chWrite (get_be (gd_ip g) p)) < 16" "distinct ps"
  shows "\<exists>g'. grid_run env gz g g' \<and> gd_ip g' = ip' \<and> gd_flights g' = xs @ [([], pt)]"
  using assms
proof (induction ps arbitrary: g err)
  case Nil
  then show ?case using grid_run.start by fastforce
next
  case (Cons p ps)
  obtain ib e where w: "WritePoint (get_be (gd_ip g) p) pt = (ib, e)" by (cases "WritePoint (get_be (gd_ip g) p) pt")
  with Cons.prems(2) have rest: "write_all (map Some ps) pt e (set_be (gd_ip g) p ib) = Some (ip', err')" by simp
  define g1 where "g1 = (if e = None then g\<lparr>gd_ip := set_be (gd_ip g) p ib, gd_sites := (gd_sites g)(p := sent (gd_sites g p) ib pt),
      gd_flights := xs @ (map Some ps, pt) # []\<rparr>
    else g\<lparr>gd_flights := xs @ (map Some ps, pt) # [], gd_refused := gd_refused g @ [(p, pt)]\<rparr>)"
  have same: "set_be (gd_ip g) p ib = gd_ip g" if "e \<noteq> None"
    using w that by (auto simp: WritePoint_def set_be_def get_be_def Let_def split: if_splits)
  have "grid_step env gz g g1"
  proof (cases e)
    case None
    with Cons.prems w show ?thesis unfolding g1_def by (auto intro!: grid_step.hand)
  next
    case (Some e')
    with Cons.prems w show ?thesis unfolding g1_def by (auto intro!: grid_step.refuse)
  qed
  then have r1: "grid_run env gz g g1" by (rule grid_run.more [OF grid_run.start])
  have g1: "gd_ip g1 = set_be (gd_ip g) p ib" "gd_flights g1 = xs @ [(map Some ps, pt)]"
    using same by (simp_all add: g1_def)
  have "\<exists>g'. grid_run env gz g1 g' \<and> gd_ip g' = ip' \<and> gd_flights g' = xs @ [([], pt)]"
    by (rule Cons.IH [of _ e]) (use g1 rest Cons.prems(3,4) in auto)
  with r1 grid_run_trans show ?case by blast
qed

lemma WriteRow_in_steps:
  assumes "proxy_inv (we_lookup env) (gd_ip g)" "WriteRow env now (gd_ip g) line db rp precision = Some ip'"
    and "\<forall>p. valid_ptr (gd_ip g) p \<longrightarrow> length (ib_chWrite (get_be (gd_ip g) p)) < 16"
  shows "\<exists>g'. grid_run env gz g g' \<and> gd_ip g' = ip'"
proof (cases "row_point env now line db rp precision")
  case None
  with assms(2) show ?thesis by (intro exI [of _ g]) (simp add: WriteRow_parts grid_run.start)
next
  case (Some kp)
  obtain key pt where kp: "kp = (key, pt)" by (cases kp)
  let ?ps = "targets (we_lookup env) key 0 (ip_Circles (gd_ip g))"
  from GetBackends_spec [OF assms(1), of key] obtain ics where
    g: "GetBackends (we_lookup env) (gd_ip g) key = ((gd_ip g)\<lparr>ip_Circles := ics\<rparr>, map Some ?ps)"
      "list_all2 (same_routing (we_lookup env)) (ip_Circles (gd_ip g)) ics" by blast
  let ?ip = "(gd_ip g)\<lparr>ip_Circles := ics\<rparr>"
  define g1 where "g1 = g\<lparr>gd_ip := ?ip, gd_flights := gd_flights g @ [(map Some ?ps, pt)], gd_taken := gd_taken g @ [(key, pt)]\<rparr>"
  have r1: "grid_run env gz g g1"
    unfolding g1_def by (rule grid_run.more [OF grid_run.start grid_step.take]) (use Some kp g(1) in \<open>auto intro: comes_in.row\<close>)
  from assms(2) Some kp g(1) obtain err where w: "write_all (map Some ?ps) pt None ?ip = Some (ip', err)"
    by (auto simp: WriteRow_parts)
  have same: "valid_ptr ?ip p \<longleftrightarrow> valid_ptr (gd_ip g) p" "valid_ptr (gd_ip g) p \<Longrightarrow> get_be ?ip p = get_be (gd_ip g) p" for p
    using g(2) by (auto simp: valid_ptr_def get_be_def list_all2_conv_all_nth same_routing_def)
  have "\<exists>g'. grid_run env gz g1 g' \<and> gd_ip g' = ip' \<and> gd_flights g' = gd_flights g @ [([], pt)]"
  proof (rule hands_in_steps)
    show "gd_flights g1 = gd_flights g @ [(map Some ?ps, pt)]" by (simp add: g1_def)
    show "write_all (map Some ?ps) pt None (gd_ip g1) = Some (ip', err)" using w by (simp add: g1_def)
    show "\<forall>p \<in> set ?ps. valid_ptr (gd_ip g1) p \<and> length (ib_chWrite (get_be (gd_ip g1) p)) < 16"
    proof
      fix p assume "p \<in> set ?ps"
      with targets_valid [OF assms(1)] have v: "valid_ptr (gd_ip g) p" .
      with assms(3) have "length (ib_chWrite (get_be (gd_ip g) p)) < 16" by blast
      with same v show "valid_ptr (gd_ip g1) p \<and> length (ib_chWrite (get_be (gd_ip g1) p)) < 16" by (simp add: g1_def)
    qed
    show "distinct ?ps" by (rule targets_distinct)
  qed
  with r1 grid_run_trans show ?thesis by blast
qed

section \<open>The accounts of the lines\<close>

definition in_flight :: "be_ptr \<Rightarrow> (be_ptr option list \<times> LinePoint) list \<Rightarrow> LinePoint list" where
  "in_flight p fs = concat (map (\<lambda>(bes, pt). replicate (count_list bes (Some p)) pt) fs)"

definition refused_by :: "be_ptr \<Rightarrow> (be_ptr \<times> LinePoint) list \<Rightarrow> LinePoint list" where
  "refused_by p rs = map snd (filter (\<lambda>(q, pt). q = p) rs)"

text \<open>The lines that a backend has to get: those whose key its circle routes to it.\<close>

definition routed :: "router \<Rightarrow> Proxy \<Rightarrow> be_ptr \<Rightarrow> (string \<times> LinePoint) list \<Rightarrow> LinePoint list" where
  "routed lookup ip p taken = map snd (filter (\<lambda>(key, pt). p \<in> set (targets lookup key 0 (ip_Circles ip))) taken)"

lemma in_flight_simps [simp]:
  "in_flight p [] = []" "in_flight p (f # fs) = replicate (count_list (fst f) (Some p)) (snd f) @ in_flight p fs"
  "in_flight p (fs @ gs) = in_flight p fs @ in_flight p gs"
  by (simp_all add: in_flight_def case_prod_beta)

lemma refused_by_simps [simp]:
  "refused_by p [] = []" "refused_by p (rs @ [(q, pt)]) = refused_by p rs @ (if q = p then [pt] else [])"
  by (simp_all add: refused_by_def)

lemma routed_simps [simp]:
  "routed lookup ip p [] = []"
  "routed lookup ip p (ts @ [(key, pt)]) =
     routed lookup ip p ts @ (if p \<in> set (targets lookup key 0 (ip_Circles ip)) then [pt] else [])"
  by (simp_all add: routed_def)

lemma count_targets: "count_list (map Some (targets lookup key i ics)) (Some p) = (if p \<in> set (targets lookup key i ics) then 1 else 0)"
proof -
  have d: "distinct (map Some (targets lookup key i ics))" using targets_distinct by (simp add: distinct_map)
  have "count_list xs x = (if x \<in> set xs then 1 else 0)" if "distinct xs" for xs :: "be_ptr option list" and x
    using that by (induction xs) (auto simp: count_list_0_iff)
  from this [OF d] show ?thesis by auto
qed

text \<open>Lookups and what happens to the backends do not change where a key belongs.\<close>

lemma targets_same:
  assumes "list_all2 (same_routing lookup) ics ics'"
  shows "targets lookup key i ics' = targets lookup key i ics"
  using assms by (induction ics ics' arbitrary: i rule: list_all2_induct) (auto simp: same_routing_def)

lemma targets_set_be: "targets lookup key 0 (ip_Circles (set_be ip p be)) = targets lookup key 0 (ip_Circles ip)"
proof (cases "fst p < length (ip_Circles ip)")
  case True
  have "route lookup (ic\<lparr>ic_Backends := bs\<rparr>) = route lookup ic" for ic bs
    by (intro ext) (simp add: route_def)
  with True show ?thesis
    by (intro nth_equalityI) (auto simp: set_be_def Let_def targets_nth nth_list_update)
qed (simp add: set_be_def Let_def list_update_beyond not_less)

text \<open>What holds at every moment: the circles route as at the start; every backend has got where it
  is by steps of its own; a line in flight is not empty and goes to backends that exist; what a backend
  has been sent, what is on its way to it and what it has refused is what was routed to it; and only a
  closed backend has refused a line.\<close>

definition routing_kept :: "write_env \<Rightarrow> Proxy \<Rightarrow> grid \<Rightarrow> bool" where
  "routing_kept env ip0 g \<longleftrightarrow>
     proxy_inv (we_lookup env) (gd_ip g) \<and> (\<forall>p. valid_ptr (gd_ip g) p \<longleftrightarrow> valid_ptr ip0 p) \<and>
     (\<forall>key. targets (we_lookup env) key 0 (ip_Circles (gd_ip g)) = targets (we_lookup env) key 0 (ip_Circles ip0))"

definition sites_kept :: "(bytes \<Rightarrow> bytes) \<Rightarrow> Proxy \<Rightarrow> grid \<Rightarrow> bool" where
  "sites_kept gz ip0 g \<longleftrightarrow>
     (\<forall>p. valid_ptr ip0 p \<longrightarrow> get_be (gd_ip g) p = si_ib (gd_sites g p) \<and>
        site_run gz (new_site (get_be ip0 p)) (gd_sites g p))"

definition flights_ok :: "Proxy \<Rightarrow> grid \<Rightarrow> bool" where
  "flights_ok ip0 g \<longleftrightarrow>
     (\<forall>f \<in> set (gd_flights g). lp_line (snd f) \<noteq> [] \<and> None \<notin> set (fst f) \<and> (\<forall>p. Some p \<in> set (fst f) \<longrightarrow> valid_ptr ip0 p))"

definition balanced :: "write_env \<Rightarrow> Proxy \<Rightarrow> grid \<Rightarrow> bool" where
  "balanced env ip0 g \<longleftrightarrow>
     (\<forall>p. mset (si_sent (gd_sites g p)) + mset (in_flight p (gd_flights g)) + mset (refused_by p (gd_refused g)) =
        mset (routed (we_lookup env) ip0 p (gd_taken g)))"

definition refusals_ok :: "Proxy \<Rightarrow> grid \<Rightarrow> bool" where
  "refusals_ok ip0 g \<longleftrightarrow>
     (\<forall>p. valid_ptr ip0 p \<longrightarrow> ib_running (get_be (gd_ip g) p) \<longrightarrow> refused_by p (gd_refused g) = [])"

definition grid_inv :: "write_env \<Rightarrow> (bytes \<Rightarrow> bytes) \<Rightarrow> Proxy \<Rightarrow> grid \<Rightarrow> bool" where
  "grid_inv env gz ip0 g \<longleftrightarrow>
     routing_kept env ip0 g \<and> sites_kept gz ip0 g \<and> flights_ok ip0 g \<and> balanced env ip0 g \<and> refusals_ok ip0 g"

lemma new_grid_inv: "proxy_inv (we_lookup env) ip \<Longrightarrow> grid_inv env gz ip (new_grid ip)"
  by (simp add: grid_inv_def new_grid_def routing_kept_def sites_kept_def flights_ok_def balanced_def refusals_ok_def site_run.start)
    (simp add: new_site_def)

text \<open>A change of one backend, with its site.\<close>

lemma set_be_kept:
  assumes "routing_kept env ip0 g" "sites_kept gz ip0 g" "valid_ptr ip0 p" "site_run gz (new_site (get_be ip0 p)) s"
    and "gd_ip g' = set_be (gd_ip g) p (si_ib s)" "gd_sites g' = (gd_sites g)(p := s)"
  shows "routing_kept env ip0 g'" "sites_kept gz ip0 g'" "get_be (gd_ip g') q = (if q = p then si_ib s else get_be (gd_ip g) q)"
proof -
  from assms(1,3) have v: "valid_ptr (gd_ip g) p" by (simp add: routing_kept_def del: split_paired_All)
  show get: "get_be (gd_ip g') q = (if q = p then si_ib s else get_be (gd_ip g) q)" for q
    using v by (simp add: assms(5))
  show "routing_kept env ip0 g'"
    using assms(1) v by (simp add: routing_kept_def assms(5) targets_set_be proxy_inv_set_be)
  show "sites_kept gz ip0 g'"
    using assms(2,4) get by (simp add: sites_kept_def assms(6) del: split_paired_All)
qed

lemma sent_in_site:
  assumes "WritePoint (si_ib s) pt = (ib', None)" "length (ib_chWrite (si_ib s)) < 16" "lp_line pt \<noteq> []"
  shows "site_step gz s (sent s ib' pt)"
proof -
  from worker_step.send [OF assms(1,2)] have "worker_step (si_ib s, si_phase s) (Send pt) (ib', si_phase s) []" .
  from site_step.worker [OF this, of gz] assms(3) show ?thesis by (cases s) (simp add: sent_def started_def)
qed

lemma site_step_running:
  assumes "site_step gz s s'" "site_inv gz old m0 s" "ib_running (si_ib s')"
  shows "ib_running (si_ib s)"
  using assms(1)
proof (cases rule: site_step.cases)
  case (worker ev ib' ph' us)
  from assms(2) have "worker_inv (si_ib s)" by (simp add: site_inv_def)
  from worker_alive [OF worker(2) this] assms(3) worker(1) show ?thesis by simp
next
  case (task xs t ys env ib' oc)
  from task_alive [OF task(4)] assms(3) task(1) show ?thesis by simp
next
  case (loop xs l ys ib' l' lg)
  from assms(2) have "ib_fb (si_ib s) \<noteq> None" by (simp add: site_inv_def worker_inv_def)
  from loop_alive [OF loop(3) this] assms(3) loop(1) show ?thesis by simp
next
  case (other hb)
  with assms(3) show ?thesis by simp
qed

lemma grid_inv_parts:
  assumes "grid_inv env gz ip0 g"
  shows "routing_kept env ip0 g" "sites_kept gz ip0 g" "flights_ok ip0 g" "balanced env ip0 g" "refusals_ok ip0 g"
  using assms by (simp_all add: grid_inv_def)

lemma take_inv:
  assumes inv: "grid_inv env gz ip0 g"
    and take: "g' = g\<lparr>gd_ip := ip', gd_flights := gd_flights g @ [(bes, pt)], gd_taken := gd_taken g @ [(key, pt)]\<rparr>"
    "comes_in env key pt" "GetBackends (we_lookup env) (gd_ip g) key = (ip', bes)"
  shows "grid_inv env gz ip0 g'"
proof -
  note inv = grid_inv_parts [OF inv]
  note defs = flights_ok_def balanced_def refusals_ok_def
  from inv(1) have px: "proxy_inv (we_lookup env) (gd_ip g)" by (simp add: routing_kept_def)
  from GetBackends_spec [OF px, of key] take(3) obtain ics where
    g: "ip' = (gd_ip g)\<lparr>ip_Circles := ics\<rparr>" "bes = map Some (targets (we_lookup env) key 0 (ip_Circles (gd_ip g)))"
      "list_all2 (same_routing (we_lookup env)) (ip_Circles (gd_ip g)) ics" by auto
  have same: "valid_ptr ip' p \<longleftrightarrow> valid_ptr (gd_ip g) p" "valid_ptr (gd_ip g) p \<Longrightarrow> get_be ip' p = get_be (gd_ip g) p" for p
    using g(3) by (auto simp: g(1) valid_ptr_def get_be_def list_all2_conv_all_nth same_routing_def)
  have k: "targets (we_lookup env) k 0 (ip_Circles (gd_ip g)) = targets (we_lookup env) k 0 (ip_Circles ip0)"
    "valid_ptr (gd_ip g) p \<longleftrightarrow> valid_ptr ip0 p" for k p
    using inv(1) by (simp_all add: routing_kept_def del: split_paired_All)
  have "routing_kept env ip0 g'"
    using same_routing_proxy_inv [OF g(3) px] targets_same [OF g(3)] same(1) k
    by (simp add: routing_kept_def take(1) g(1) del: split_paired_All)
  moreover have "sites_kept gz ip0 g'" using inv(2) same(2) k(2) by (simp add: sites_kept_def take(1) del: split_paired_All)
  moreover have "flights_ok ip0 g'"
    using inv(3) comes_in_line [OF take(2)] targets_valid [OF px] k(2) g(2) by (auto simp: defs take(1) simp del: split_paired_All)
  moreover have "balanced env ip0 g'"
    using inv(4) by (simp add: defs take(1) g(2) k(1) count_targets del: split_paired_All)
  moreover have "refusals_ok ip0 g'" using inv(5) same(2) k(2) by (simp add: defs take(1) del: split_paired_All)
  ultimately show ?thesis by (simp add: grid_inv_def)
qed

lemma hand_inv:
  assumes inv: "grid_inv env gz ip0 g"
    and hand: "g' = g\<lparr>gd_ip := set_be (gd_ip g) p ib', gd_sites := (gd_sites g)(p := sent (gd_sites g p) ib' pt),
      gd_flights := xs @ (bes, pt) # ys\<rparr>"
    "gd_flights g = xs @ (Some p # bes, pt) # ys" "WritePoint (get_be (gd_ip g) p) pt = (ib', None)"
    "length (ib_chWrite (get_be (gd_ip g) p)) < 16"
  shows "grid_inv env gz ip0 g'"
proof -
  note inv = grid_inv_parts [OF inv]
  from inv(3) hand(2) have f: "lp_line pt \<noteq> []" "valid_ptr ip0 p" by (simp_all add: flights_ok_def del: split_paired_All)
  with inv(2) have "get_be (gd_ip g) p = si_ib (gd_sites g p)" "site_run gz (new_site (get_be ip0 p)) (gd_sites g p)"
    by (simp_all add: sites_kept_def del: split_paired_All)
  with sent_in_site [of "gd_sites g p" pt ib' gz] hand(3,4) f(1) have
    "site_run gz (new_site (get_be ip0 p)) (sent (gd_sites g p) ib' pt)" by (auto intro: site_run.more)
  from set_be_kept [OF inv(1,2) f(2) this, of g'] have
    "routing_kept env ip0 g'" "sites_kept gz ip0 g'" "get_be (gd_ip g') q = (if q = p then ib' else get_be (gd_ip g) q)" for q
    by (simp_all add: hand(1) sent_def)
  moreover have "flights_ok ip0 g'" using inv(3) by (simp add: flights_ok_def hand(1,2) del: split_paired_All)
  moreover have "balanced env ip0 g'"
    unfolding balanced_def
  proof
    fix q
    from inv(4) have "mset (si_sent (gd_sites g q)) + mset (in_flight q (gd_flights g)) + mset (refused_by q (gd_refused g)) =
        mset (routed (we_lookup env) ip0 q (gd_taken g))" by (simp add: balanced_def del: split_paired_All)
    then show "mset (si_sent (gd_sites g' q)) + mset (in_flight q (gd_flights g')) + mset (refused_by q (gd_refused g')) =
        mset (routed (we_lookup env) ip0 q (gd_taken g'))"
      by (cases "q = p") (simp_all add: hand(1,2) sent_def algebra_simps)
  qed
  moreover have "ib_running ib' = ib_running (get_be (gd_ip g) p)"
    using hand(3) by (auto simp: WritePoint_def split: if_splits)
  then have "refusals_ok ip0 g'" using inv(5) f(2) calculation(3) by (simp add: refusals_ok_def hand(1) del: split_paired_All)
  ultimately show ?thesis by (simp add: grid_inv_def)
qed

lemma refuse_inv:
  assumes inv: "grid_inv env gz ip0 g"
    and refuse: "g' = g\<lparr>gd_flights := xs @ (bes, pt) # ys, gd_refused := gd_refused g @ [(p, pt)]\<rparr>"
    "gd_flights g = xs @ (Some p # bes, pt) # ys" "WritePoint (get_be (gd_ip g) p) pt = (ib', Some e)"
  shows "grid_inv env gz ip0 g'"
proof -
  note inv = grid_inv_parts [OF inv]
  from inv(3) refuse(2) have "valid_ptr ip0 p" by (simp add: flights_ok_def del: split_paired_All)
  have r: "\<not> ib_running (get_be (gd_ip g) p)" using refuse(3) by (auto simp: WritePoint_def split: if_splits)
  have "routing_kept env ip0 g'" "sites_kept gz ip0 g'" using inv(1,2) by (simp_all add: routing_kept_def sites_kept_def refuse(1))
  moreover have "flights_ok ip0 g'" using inv(3) by (simp add: flights_ok_def refuse(1,2) del: split_paired_All)
  moreover have "balanced env ip0 g'"
    unfolding balanced_def
  proof
    fix q
    from inv(4) have "mset (si_sent (gd_sites g q)) + mset (in_flight q (gd_flights g)) + mset (refused_by q (gd_refused g)) =
        mset (routed (we_lookup env) ip0 q (gd_taken g))" by (simp add: balanced_def del: split_paired_All)
    then show "mset (si_sent (gd_sites g' q)) + mset (in_flight q (gd_flights g')) + mset (refused_by q (gd_refused g')) =
        mset (routed (we_lookup env) ip0 q (gd_taken g'))"
      by (cases "q = p") (simp_all add: refuse(1,2) algebra_simps)
  qed
  moreover have "refusals_ok ip0 g'" using inv(5) r by (auto simp: refusals_ok_def refuse(1) simp del: split_paired_All)
  ultimately show ?thesis by (simp add: grid_inv_def)
qed

lemma work_inv:
  assumes inv: "grid_inv env gz ip0 g"
    and work: "g' = g\<lparr>gd_ip := set_be (gd_ip g) p (si_ib s), gd_sites := (gd_sites g)(p := s)\<rparr>"
    "valid_ptr (gd_ip g) p" "site_step gz (gd_sites g p) s" "si_sent s = si_sent (gd_sites g p)"
    and started: "\<forall>p. valid_ptr ip0 p \<longrightarrow> (\<exists>old m0. site_inv gz old m0 (new_site (get_be ip0 p)))"
  shows "grid_inv env gz ip0 g'"
proof -
  note inv = grid_inv_parts [OF inv]
  from inv(1) work(2) have v: "valid_ptr ip0 p" by (simp add: routing_kept_def del: split_paired_All)
  with inv(2) have f: "get_be (gd_ip g) p = si_ib (gd_sites g p)" "site_run gz (new_site (get_be ip0 p)) (gd_sites g p)"
    by (simp_all add: sites_kept_def del: split_paired_All)
  from started v obtain old m0 where "site_inv gz old m0 (new_site (get_be ip0 p))" by blast
  from site_step_running [OF work(3) site_run_inv [OF f(2) this]] f(1)
  have run: "ib_running (si_ib s) \<Longrightarrow> ib_running (get_be (gd_ip g) p)" by simp
  from f(2) work(3) have "site_run gz (new_site (get_be ip0 p)) s" by (rule site_run.more)
  from set_be_kept [OF inv(1,2) v this, of g'] have kept: "routing_kept env ip0 g'" "sites_kept gz ip0 g'"
    "get_be (gd_ip g') q = (if q = p then si_ib s else get_be (gd_ip g) q)" for q
    by (simp_all add: work(1))
  moreover have "flights_ok ip0 g'" "balanced env ip0 g'"
    using inv(3,4) work(4) by (simp_all add: flights_ok_def balanced_def work(1) del: split_paired_All)
  moreover have "refusals_ok ip0 g'"
    using inv(5) run kept(3) by (simp add: refusals_ok_def work(1) del: split_paired_All)
  ultimately show ?thesis by (simp add: grid_inv_def)
qed

lemma grid_step_inv:
  assumes "grid_step env gz g g'" "grid_inv env gz ip0 g"
    and "\<forall>p. valid_ptr ip0 p \<longrightarrow> (\<exists>old m0. site_inv gz old m0 (new_site (get_be ip0 p)))"
  shows "grid_inv env gz ip0 g'"
  using assms(1)
proof (cases rule: grid_step.cases)
  case take
  from take_inv [OF assms(2) take] show ?thesis .
next
  case hand
  from hand_inv [OF assms(2) hand] show ?thesis .
next
  case refuse
  from refuse_inv [OF assms(2) refuse] show ?thesis .
next
  case work
  from work_inv [OF assms(2) work assms(3)] show ?thesis .
qed

lemma grid_run_inv:
  assumes "grid_run env gz g0 g" "grid_inv env gz ip0 g0"
    and "\<forall>p. valid_ptr ip0 p \<longrightarrow> (\<exists>old m0. site_inv gz old m0 (new_site (get_be ip0 p)))"
  shows "grid_inv env gz ip0 g"
  using assms by (induction rule: grid_run.induct) (auto intro: grid_step_inv simp del: split_paired_All)

section \<open>A backend at work in the proxy\<close>

text \<open>What a backend can do for itself, without new lines, it can do in the proxy.\<close>

lemma set_be_same: "set_be ip p (get_be ip p) = ip"
  by (simp add: set_be_def get_be_def Let_def)

lemma set_be_twice: "set_be (set_be ip p a) p b = set_be ip p b"
  by (cases "fst p < length (ip_Circles ip)") (simp_all add: set_be_def Let_def list_update_beyond not_less)

lemma work_in_grid:
  assumes "site_run gz s0 s" "s0 = gd_sites g p" "si_sent s = si_sent s0" "valid_ptr (gd_ip g) p" "get_be (gd_ip g) p = si_ib s0"
  shows "grid_run env gz g (g\<lparr>gd_ip := set_be (gd_ip g) p (si_ib s), gd_sites := (gd_sites g)(p := s)\<rparr>)"
  using assms(1,3)
proof (induction rule: site_run.induct)
  case start
  have "g\<lparr>gd_ip := set_be (gd_ip g) p (si_ib s0), gd_sites := (gd_sites g)(p := s0)\<rparr> = g"
    using assms(2,5) set_be_same [of "gd_ip g" p] by simp
  with grid_run.start [of env gz g] show ?case by metis
next
  case (more s s')
  from site_run_sent [OF more.hyps(1)] obtain xs where xs: "si_sent s = si_sent s0 @ xs" by blast
  from site_step_sent [OF more.hyps(2)] obtain ys where "si_sent s' = si_sent s @ ys" by blast
  with xs more.prems have "xs = []" "ys = []" by simp_all
  with xs \<open>si_sent s' = si_sent s @ ys\<close> have sent: "si_sent s = si_sent s0" "si_sent s' = si_sent s" by simp_all
  let ?g = "g\<lparr>gd_ip := set_be (gd_ip g) p (si_ib s), gd_sites := (gd_sites g)(p := s)\<rparr>"
  have "grid_step env gz ?g (?g\<lparr>gd_ip := set_be (gd_ip ?g) p (si_ib s'), gd_sites := (gd_sites ?g)(p := s')\<rparr>)"
    by (rule grid_step.work) (use more.hyps(2) sent assms(4) in simp_all)
  then have "grid_step env gz ?g (g\<lparr>gd_ip := set_be (gd_ip g) p (si_ib s'), gd_sites := (gd_sites g)(p := s')\<rparr>)"
    by (simp add: set_be_twice)
  with more.IH [OF sent(1)] show ?case by (rule grid_run.more)
qed

text \<open>The proxy as it can be found while no backend is closed, all backlogs having had a committed offset.\<close>

definition lively :: "write_env \<Rightarrow> (bytes \<Rightarrow> bytes) \<Rightarrow> Proxy \<Rightarrow> grid \<Rightarrow> bool" where
  "lively env gz ip0 g \<longleftrightarrow>
     grid_inv env gz ip0 g \<and>
     (\<forall>p. valid_ptr ip0 p \<longrightarrow> ib_running (get_be (gd_ip g) p) \<and> alive (new_site (get_be ip0 p)) \<and>
        site_inv gz (pending (the (ib_fb (get_be ip0 p)))) True (new_site (get_be ip0 p)))"

lemma lively_backend:
  assumes "lively env gz ip0 g" "valid_ptr ip0 p"
  shows "valid_ptr (gd_ip g) p" "get_be (gd_ip g) p = si_ib (gd_sites g p)" "ib_running (get_be (gd_ip g) p)"
    "site_run gz (new_site (get_be ip0 p)) (gd_sites g p)"
proof -
  from assms have "routing_kept env ip0 g" "sites_kept gz ip0 g" by (simp_all add: lively_def grid_inv_def)
  with assms(2) show "valid_ptr (gd_ip g) p" "get_be (gd_ip g) p = si_ib (gd_sites g p)"
    "site_run gz (new_site (get_be ip0 p)) (gd_sites g p)" unfolding routing_kept_def sites_kept_def by blast+
  from assms show "ib_running (get_be (gd_ip g) p)" unfolding lively_def by blast
qed

lemma lively_site:
  assumes "lively env gz ip0 g" "valid_ptr ip0 p"
  obtains fb where "site_inv gz (pending (the (ib_fb (get_be ip0 p)))) True (gd_sites g p)" "alive (gd_sites g p)"
    "ib_running (si_ib (gd_sites g p))" "ib_fb (si_ib (gd_sites g p)) = Some fb" "marked fb" "fb_producer fb \<noteq> None"
proof -
  let ?old = "pending (the (ib_fb (get_be ip0 p)))"
  note b = lively_backend [OF assms]
  from assms have s: "alive (new_site (get_be ip0 p))" "site_inv gz ?old True (new_site (get_be ip0 p))"
    unfolding lively_def by blast+
  note inv = site_run_inv [OF b(4) s(2)] and al = site_run_alive [OF b(4) s(2,1)]
  from b(2,3) have run: "ib_running (si_ib (gd_sites g p))" by simp
  with inv al obtain fb passed where o: "accounts_open gz ?old True (gd_sites g p) fb passed"
    by (auto simp: site_inv_def accounts_def accounts_closed_def alive_def)
  then have "ib_fb (si_ib (gd_sites g p)) = Some fb" "marked fb" "fb_inv fb" by (simp_all add: accounts_open_def)
  moreover from this have "fb_producer fb \<noteq> None" by (auto simp: fb_inv_def represents_def)
  ultimately show thesis using that inv al run by blast
qed

lemma grid_run_lively:
  assumes "grid_run env gz g g'" "lively env gz ip0 g" "\<forall>p. valid_ptr ip0 p \<longrightarrow> ib_running (get_be (gd_ip g') p)"
  shows "lively env gz ip0 g'"
proof -
  from assms(2) have "grid_inv env gz ip0 g" "\<forall>p. valid_ptr ip0 p \<longrightarrow> (\<exists>old m0. site_inv gz old m0 (new_site (get_be ip0 p)))"
    unfolding lively_def by blast+
  from grid_run_inv [OF assms(1) this] assms(2,3) show ?thesis unfolding lively_def by blast
qed

text \<open>A backend that has nothing left to do.\<close>

definition at_rest :: "site \<Rightarrow> bool" where
  "at_rest s \<longleftrightarrow> ib_chWrite (si_ib s) = [] \<and> si_waiting s = [] \<and> si_loops s = [] \<and>
     (\<exists>fb. ib_fb (si_ib s) = Some fb \<and> pending fb = []) \<and>
     (\<forall>db rp. task_bytes (si_submitted s) db rp = lines_for (si_sent s) db rp)"

lemma backend_settles:
  assumes "lively env gz ip0 g" "valid_ptr ip0 p"
  shows "\<exists>g'. grid_run env gz g g' \<and> lively env gz ip0 g' \<and> gd_taken g' = gd_taken g \<and> gd_flights g' = gd_flights g \<and>
    at_rest (gd_sites g' p) \<and> (\<forall>q. q \<noteq> p \<longrightarrow> gd_sites g' q = gd_sites g q)"
proof -
  from lively_site [OF assms] obtain fb where s: "site_inv gz (pending (the (ib_fb (get_be ip0 p)))) True (gd_sites g p)"
    "alive (gd_sites g p)" "ib_running (si_ib (gd_sites g p))" "ib_fb (si_ib (gd_sites g p)) = Some fb" "marked fb" by blast
  from site_delivers [OF s] obtain s' where s': "site_run gz (gd_sites g p) s'" "si_sent s' = si_sent (gd_sites g p)"
    "ib_running (si_ib s')" "at_rest s'" unfolding at_rest_def by metis
  let ?g = "g\<lparr>gd_ip := set_be (gd_ip g) p (si_ib s'), gd_sites := (gd_sites g)(p := s')\<rparr>"
  note v = lively_backend(1,2) [OF assms]
  from work_in_grid [OF s'(1) refl s'(2) v] have r: "grid_run env gz g ?g" .
  have "\<forall>q. valid_ptr ip0 q \<longrightarrow> ib_running (get_be (gd_ip ?g) q)"
    using assms(1) v s'(3) by (simp add: lively_def del: split_paired_All)
  from grid_run_lively [OF r assms(1) this] r s'(4) show ?thesis
    by (intro exI [of _ ?g]) (simp del: split_paired_All)
qed

lemma backends_settle:
  assumes "lively env gz ip0 g" "\<forall>p \<in> set ps. valid_ptr ip0 p"
  shows "\<exists>g'. grid_run env gz g g' \<and> lively env gz ip0 g' \<and> gd_taken g' = gd_taken g \<and> gd_flights g' = gd_flights g \<and>
    (\<forall>p \<in> set ps. at_rest (gd_sites g' p))"
  using assms
proof (induction ps arbitrary: g rule: rev_induct)
  case Nil
  then show ?case using grid_run.start by fastforce
next
  case (snoc p ps)
  from snoc.prems(2) have "valid_ptr ip0 p" "\<forall>q \<in> set ps. valid_ptr ip0 q" by simp_all
  from snoc.IH [OF snoc.prems(1) this(2)] obtain g1 where g1: "grid_run env gz g g1" "lively env gz ip0 g1" "gd_taken g1 = gd_taken g"
    "gd_flights g1 = gd_flights g" "\<forall>p \<in> set ps. at_rest (gd_sites g1 p)" by blast
  from backend_settles [OF g1(2) \<open>valid_ptr ip0 p\<close>] obtain g2 where g2: "grid_run env gz g1 g2" "lively env gz ip0 g2" "gd_taken g2 = gd_taken g1"
    "gd_flights g2 = gd_flights g1" "at_rest (gd_sites g2 p)" "\<forall>q. q \<noteq> p \<longrightarrow> gd_sites g2 q = gd_sites g1 q" by blast
  have "at_rest (gd_sites g2 q)" if "q \<in> set (ps @ [p])" for q using g1(5) g2(5,6) that by (cases "q = p") (auto simp del: split_paired_All)
  with grid_run_trans [OF g2(1) g1(1)] g1(3,4) g2(2-4) show ?case by (intro exI [of _ g2]) simp
qed

text \<open>Every line on its way reaches its backends: each settles first, so that its channel has room.\<close>

lemma flights_land:
  assumes "lively env gz ip0 g"
  shows "\<exists>g'. grid_run env gz g g' \<and> lively env gz ip0 g' \<and> gd_taken g' = gd_taken g \<and> (\<forall>f \<in> set (gd_flights g'). fst f = [])"
  using assms
proof (induction "sum_list (map (\<lambda>f. length (fst f)) (gd_flights g))" arbitrary: g rule: less_induct)
  case less
  show ?case
  proof (cases "\<forall>f \<in> set (gd_flights g). fst f = []")
    case True
    with less.prems grid_run.start show ?thesis by blast
  next
    case False
    then obtain f where f: "f \<in> set (gd_flights g)" "fst f \<noteq> []" by blast
    from less.prems f(1) have ok: "None \<notin> set (fst f)" "Some p \<in> set (fst f) \<Longrightarrow> valid_ptr ip0 p" for p
      by (simp_all add: lively_def grid_inv_def flights_ok_def del: split_paired_All)
    from f(2) ok obtain p bes pt where fp: "f = (Some p # bes, pt)" "valid_ptr ip0 p"
      by (cases f; cases "fst f"; cases "hd (fst f)") (auto simp del: split_paired_All)
    from f(1) obtain xs ys where fl: "gd_flights g = xs @ (Some p # bes, pt) # ys" unfolding fp(1) by (meson split_list)
    from backend_settles [OF less.prems fp(2)] obtain g1 where g1: "grid_run env gz g g1" "lively env gz ip0 g1"
      "gd_taken g1 = gd_taken g" "gd_flights g1 = gd_flights g" "at_rest (gd_sites g1 p)" by blast
    then have be: "ib_running (get_be (gd_ip g1) p)" "ib_chWrite (get_be (gd_ip g1) p) = []" "valid_ptr (gd_ip g1) p"
      using lively_backend [OF g1(2) fp(2)] by (simp_all add: at_rest_def)
    let ?ib = "get_be (gd_ip g1) p\<lparr>ib_chWrite := [pt]\<rparr>"
    let ?g = "g1\<lparr>gd_ip := set_be (gd_ip g1) p ?ib, gd_sites := (gd_sites g1)(p := sent (gd_sites g1 p) ?ib pt),
      gd_flights := xs @ (bes, pt) # ys\<rparr>"
    have "grid_step env gz g1 ?g"
      by (rule grid_step.hand) (use be fl g1(4) in \<open>simp_all add: WritePoint_def\<close>)
    with g1(1) have r: "grid_run env gz g ?g" by (rule grid_run.more)
    have "\<forall>q. valid_ptr ip0 q \<longrightarrow> ib_running (get_be (gd_ip ?g) q)"
      using g1(2) be by (simp add: lively_def del: split_paired_All)
    from grid_run_lively [OF r less.prems this] have "lively env gz ip0 ?g" .
    moreover have "sum_list (map (\<lambda>f. length (fst f)) (gd_flights ?g)) < sum_list (map (\<lambda>f. length (fst f)) (gd_flights g))"
      by (simp add: fl)
    ultimately obtain g' where "grid_run env gz ?g g'" "lively env gz ip0 g'" "gd_taken g' = gd_taken ?g"
      "\<forall>f \<in> set (gd_flights g'). fst f = []" using less.hyps [of ?g] by blast
    with grid_run_trans [OF _ r] g1(3) show ?thesis by (intro exI [of _ g']) simp
  qed
qed

section \<open>From the configuration on\<close>

text \<open>A backlog as it is found or made at the start: nothing read yet behind the committed offset.\<close>

definition fresh_backlog :: "FileBackend \<Rightarrow> bool" where
  "fresh_backlog fb \<longleftrightarrow> fb_inv fb \<and> ahead fb = pending fb \<and> (\<forall>b \<in> set (pending fb). is_record b)"

lemma add_backends_made:
  assumes "add_backends cfg opened i bcs ic = Some ic'" "be \<in> set (ic_Backends ic')"
  shows "be \<in> set (ic_Backends ic) \<or> (\<exists>bc. NewBackend bc cfg (opened bc) = Some be)"
  using assms
  by (induction cfg opened i bcs ic rule: add_backends.induct)
    (auto simp: addRouter_def Let_def split: option.splits)

lemma new_circles_made:
  assumes "new_circles opened cfg i cs = Some ics" "ic \<in> set ics" "be \<in> set (ic_Backends ic)"
  shows "\<exists>bc. NewBackend bc cfg (opened bc) = Some be"
  using assms
proof (induction cs arbitrary: i ics)
  case (Cons c cs)
  from Cons.prems(1) obtain ic1 ics' where c: "NewCircle opened c cfg i = Some ic1" "new_circles opened cfg (Suc i) cs = Some ics'"
    "ics = ic1 # ics'" by (auto simp: bind_eq_Some_conv)
  from Cons.prems(2) c(3) consider "ic = ic1" | "ic \<in> set ics'" by auto
  then show ?case
  proof cases
    case 1
    with add_backends_made [OF c(1) [unfolded NewCircle_def], of be] Cons.prems(3) show ?thesis by simp
  next
    case 2
    with Cons.IH [OF c(2) _ Cons.prems(3)] show ?thesis by blast
  qed
qed simp

lemma new_proxy_backend:
  assumes "NewProxy mkdir opened cfg mo = Some (ip, mo')" "valid_ptr ip p"
  shows "\<exists>bc. NewBackend bc cfg (opened bc) = Some (get_be ip p)"
proof -
  from assms(1) have c: "new_circles opened cfg 0 (pc_Circles cfg) = Some (ip_Circles ip)"
    by (auto simp: NewProxy_def bind_eq_Some_conv split: if_splits)
  have "ip_Circles ip ! fst p \<in> set (ip_Circles ip)" "get_be ip p \<in> set (ic_Backends (ip_Circles ip ! fst p))"
    using assms(2) by (simp_all add: valid_ptr_def get_be_def)
  from new_circles_made [OF c this] show ?thesis .
qed

lemma new_proxy_site_inv:
  assumes "NewProxy mkdir opened cfg mo = Some (ip, mo')" "0 < pc_FlushSize cfg"
    and "\<forall>bc fb. opened bc = (fb, None) \<longrightarrow> fresh_backlog fb" "valid_ptr ip p"
  shows "\<exists>fb0. ib_fb (get_be ip p) = Some fb0 \<and> site_inv gz (pending fb0) (marked fb0) (new_site (get_be ip p))"
proof -
  from new_proxy_backend [OF assms(1,4)] obtain bc where bc: "NewBackend bc cfg (opened bc) = Some (get_be ip p)" by blast
  then have "snd (opened bc) = None" "ib_fb (get_be ip p) = Some (fst (opened bc))" by (simp_all add: NewBackend_Some)
  then obtain fb0 where o: "opened bc = (fb0, None)" "ib_fb (get_be ip p) = Some fb0" by (cases "opened bc") auto
  with assms(3) have "fresh_backlog fb0" by blast
  with new_site_inv [OF bc [unfolded o(1)] assms(2)] o(2) show ?thesis by (simp add: fresh_backlog_def)
qed

text \<open>Every line taken is routed to one backend of a circle.\<close>

lemma routed_partition:
  assumes "proxy_inv lookup ip" "i < length (ip_Circles ip)"
  shows "(\<Sum>j < length (ic_Backends (ip_Circles ip ! i)). mset (routed lookup ip (i, j) taken)) = mset (map snd taken)"
proof (induction taken rule: rev_induct)
  case (snoc kp taken)
  obtain key pt where kp: "kp = (key, pt)" by (cases kp)
  let ?ic = "ip_Circles ip ! i"
  from assms have "circle_routes lookup ?ic" by (simp add: proxy_inv_def list_all_length)
  then obtain k where k: "k < length (ic_Backends ?ic)" "route lookup ?ic key = Some k" by (auto simp: circle_routes_def)
  have t: "(i, j) \<in> set (targets lookup key 0 (ip_Circles ip)) \<longleftrightarrow> j = k" for j
    using assms(2) k(2) by (auto simp: in_set_conv_nth targets_nth)
  have "mset (routed lookup ip (i, j) (taken @ [kp])) = mset (routed lookup ip (i, j) taken) + (if j = k then {#pt#} else {#})" for j
    by (simp add: kp t)
  with snoc k(1) show ?case by (simp add: kp sum.distrib)
qed simp

section \<open>Every accepted line is accounted for\<close>


text \<open>One row of a request, taken and handed to its backend.\<close>

definition sample_row :: LinePoint where
  "sample_row = \<lparr>lp_db = ''db'', lp_rp = '''', lp_line = ''cpu v=1 5''\<rparr>"

lemma sample_row_point: "row_point sample_we 7 ''cpu v=1 5'' ''db'' '''' ''ns'' = Some (GetKey False ''db'' ''cpu'', sample_row)"
  by (simp add: row_point_def sample_we_def AppendNano_sample ScanKey_def RapidCheck_sample sample_row_def)

lemma sample_circles:
  assumes "NewProxy mkdir opened sample_pxcfg mo = Some (ip, mo')"
  shows "\<exists>ic. ip_Circles ip = [ic]"
proof -
  have "pc_Circles sample_pxcfg = [hd (pc_Circles sample_config)]"
    by (simp add: sample_pxcfg_def setDefault_def sample_config_def)
  with assms show ?thesis by (auto simp: NewProxy_def bind_eq_Some_conv split: if_splits)
qed

lemma sample_we_picks: "picks_member (we_lookup sample_we)"
  by (simp add: sample_we_def picks_member_first)

lemma sample_grid_run:
  assumes "NewProxy mkdir opened sample_pxcfg mo = Some (ip, mo')"
  shows "\<exists>g p. grid_run sample_we id (new_grid ip) g \<and> valid_ptr ip p \<and>
     gd_taken g = [(GetKey False ''db'' ''cpu'', sample_row)] \<and> gd_flights g = [([], sample_row)] \<and>
     si_sent (gd_sites g p) = [sample_row] \<and> (\<forall>q. valid_ptr ip q \<longrightarrow> ib_running (get_be (gd_ip g) q))"
proof -
  let ?key = "GetKey False ''db'' ''cpu''"
  note px = NewProxy_routes [OF assms sample_pxcfg_ok sample_we_picks]
  from sample_circles [OF assms] obtain ic where ic: "ip_Circles ip = [ic]" by blast
  define p where "p = (0 :: nat, the (route (we_lookup sample_we) ic ?key))"
  have t: "targets (we_lookup sample_we) ?key 0 (ip_Circles ip) = [p]" by (simp add: ic p_def)
  from GetBackends_spec [OF px, of ?key] t obtain ics where
    g: "GetBackends (we_lookup sample_we) ip ?key = (ip\<lparr>ip_Circles := ics\<rparr>, [Some p])"
      "list_all2 (same_routing (we_lookup sample_we)) (ip_Circles ip) ics" by auto
  from targets_valid [OF px, of p ?key] t have v: "valid_ptr ip p" by simp
  let ?ip = "ip\<lparr>ip_Circles := ics\<rparr>"
  have same: "valid_ptr ?ip q \<longleftrightarrow> valid_ptr ip q" "valid_ptr ip q \<Longrightarrow> get_be ?ip q = get_be ip q" for q
    using g(2) by (auto simp: valid_ptr_def get_be_def list_all2_conv_all_nth same_routing_def)
  have be: "ib_running (get_be ip q) \<and> ib_chWrite (get_be ip q) = []" if "valid_ptr ip q" for q
    using new_proxy_backend [OF assms that] by (auto simp: NewBackend_Some)
  define g1 where "g1 = (new_grid ip)\<lparr>gd_ip := ?ip, gd_flights := [([Some p], sample_row)], gd_taken := [(?key, sample_row)]\<rparr>"
  have r1: "grid_run sample_we id (new_grid ip) g1"
  proof (rule grid_run.more [OF grid_run.start])
    have "comes_in sample_we ?key sample_row" by (rule comes_in.row [OF sample_row_point])
    from grid_step.take [OF this, of "new_grid ip"] g(1)
    show "grid_step sample_we id (new_grid ip) g1" by (simp add: new_grid_def g1_def)
  qed
  let ?ib = "get_be ip p\<lparr>ib_chWrite := [sample_row]\<rparr>"
  have w: "WritePoint (get_be (gd_ip g1) p) sample_row = (?ib, None)"
    "length (ib_chWrite (get_be (gd_ip g1) p)) < 16" "gd_flights g1 = [] @ (Some p # [], sample_row) # []"
    using same v be [OF v] by (simp_all add: g1_def WritePoint_def)
  note r2 = grid_run.more [OF r1 grid_step.hand [OF w(3,1,2)]]
  have "\<forall>q. valid_ptr ip q \<longrightarrow> ib_running (get_be (set_be ?ip p ?ib) q)"
    using same v be by (simp del: split_paired_All)
  with v show ?thesis
    by - (rule exI, rule exI [of _ p], rule conjI, rule r2,
      simp add: g1_def new_grid_def new_site_def sent_def del: split_paired_All)
qed


section \<open>Every line can arrive\<close>

lemma in_flight_landed: "\<forall>f \<in> set fs. fst f = [] \<Longrightarrow> in_flight p fs = []"
  by (induction fs) simp_all

lemma new_grid_lively:
  assumes "NewProxy mkdir opened cfg mo = Some (ip, mo')" "checkConfig cfg = None" "picks_member (we_lookup env)"
    and "0 < pc_FlushSize cfg" "\<forall>bc fb. opened bc = (fb, None) \<longrightarrow> fresh_backlog fb \<and> marked fb"
  shows "lively env gz ip (new_grid ip)"
  unfolding lively_def
proof (intro conjI allI impI)
  show "grid_inv env gz ip (new_grid ip)" by (rule new_grid_inv [OF NewProxy_routes [OF assms(1-3)]])
next
  fix p assume v: "valid_ptr ip p"
  from new_proxy_backend [OF assms(1) v] obtain bc where bc: "NewBackend bc cfg (opened bc) = Some (get_be ip p)" by blast
  then obtain fb where fb: "opened bc = (fb, None)" "ib_fb (get_be ip p) = Some fb"
    by (cases "opened bc") (auto simp: NewBackend_Some)
  have "\<forall>bc fb. opened bc = (fb, None) \<longrightarrow> fresh_backlog fb" using assms(5) by blast
  from new_proxy_site_inv [OF assms(1,4) this v] fb assms(5)
  show "site_inv gz (pending (the (ib_fb (get_be ip p)))) True (new_site (get_be ip p))" by auto
  show "alive (new_site (get_be ip p))" by (rule new_site_alive [OF bc [unfolded fb(1)]])
  show "ib_running (get_be (gd_ip (new_grid ip)) p)" using bc by (simp add: NewBackend_Some new_grid_def)
qed

text \<open>C6: every line taken can arrive in every circle. With backlogs that have had a committed offset,
  and as long as no backend has been closed, every reachable state of the proxy can go on, without
  further lines, to one where nothing is on its way any more: in every circle the backends have
  together been sent exactly the lines taken, each those routed to it; these have become tasks, in
  order, for every database and retention policy; and the records of all tasks and those of the
  old backlog have been settled by the server, each exactly once.\<close>

theorem every_line_can_arrive:
  assumes "NewProxy mkdir opened cfg mo = Some (ip0, mo')" "checkConfig cfg = None" "picks_member (we_lookup env)"
    and "0 < pc_FlushSize cfg" "\<forall>bc fb. opened bc = (fb, None) \<longrightarrow> fresh_backlog fb \<and> marked fb"
    and "grid_run env gz (new_grid ip0) g" "\<forall>p. valid_ptr ip0 p \<longrightarrow> ib_running (get_be (gd_ip g) p)"
  shows "\<exists>g'. grid_run env gz g g' \<and> gd_taken g' = gd_taken g \<and>
    (\<forall>i < length (ip_Circles ip0).
       (\<Sum>j < length (ic_Backends (ip_Circles ip0 ! i)). mset (si_sent (gd_sites g' (i, j)))) = mset (map snd (gd_taken g))) \<and>
    (\<forall>p. valid_ptr ip0 p \<longrightarrow> (\<exists>s fb0. s = gd_sites g' p \<and> ib_fb (get_be ip0 p) = Some fb0 \<and>
       mset (si_sent s) = mset (routed (we_lookup env) ip0 p (gd_taken g)) \<and>
       (\<forall>db rp. task_bytes (si_submitted s) db rp = lines_for (si_sent s) db rp) \<and>
       mset (map snd (si_log s)) = mset (map (record_of gz) (si_submitted s)) + mset (pending fb0) \<and>
       fst ` set (si_log s) \<subseteq> {Written, Dropped}))"
proof -
  have px: "proxy_inv (we_lookup env) ip0" by (rule NewProxy_routes [OF assms(1-3)])
  have "lively env gz ip0 g" by (rule grid_run_lively [OF assms(6) new_grid_lively [OF assms(1-5)] assms(7)])
  from flights_land [OF this] obtain g1 where g1: "grid_run env gz g g1" "lively env gz ip0 g1" "gd_taken g1 = gd_taken g"
    "\<forall>f \<in> set (gd_flights g1). fst f = []" by blast
  define ps where "ps = concat (map (\<lambda>i. map (Pair i) [0..<length (ic_Backends (ip_Circles ip0 ! i))]) [0..<length (ip_Circles ip0)])"
  have ps: "p \<in> set ps \<longleftrightarrow> valid_ptr ip0 p" for p by (cases p) (auto simp: ps_def valid_ptr_def image_iff)
  then have "\<forall>p \<in> set ps. valid_ptr ip0 p" by blast
  from backends_settle [OF g1(2) this] obtain g2 where g2: "grid_run env gz g1 g2" "lively env gz ip0 g2" "gd_taken g2 = gd_taken g1"
    "gd_flights g2 = gd_flights g1" "\<forall>p \<in> set ps. at_rest (gd_sites g2 p)" by blast
  have sent: "mset (si_sent (gd_sites g2 p)) = mset (routed (we_lookup env) ip0 p (gd_taken g))" if v: "valid_ptr ip0 p" for p
  proof -
    from g2(2) have "balanced env ip0 g2" "refusals_ok ip0 g2" unfolding lively_def grid_inv_def by blast+
    then have "mset (si_sent (gd_sites g2 p)) + mset (in_flight p (gd_flights g2)) + mset (refused_by p (gd_refused g2)) =
        mset (routed (we_lookup env) ip0 p (gd_taken g2))" "refused_by p (gd_refused g2) = []"
      using lively_backend(3) [OF g2(2) v] v unfolding balanced_def refusals_ok_def by blast+
    with in_flight_landed [OF g1(4), of p] g1(3) g2(3,4) show ?thesis by simp
  qed
  have "(\<Sum>j < length (ic_Backends (ip_Circles ip0 ! i)). mset (si_sent (gd_sites g2 (i, j)))) = mset (map snd (gd_taken g))"
    if i: "i < length (ip_Circles ip0)" for i
    using routed_partition [OF px i, of "gd_taken g"] sent i by (simp add: valid_ptr_def)
  moreover have "\<exists>s fb0. s = gd_sites g2 p \<and> ib_fb (get_be ip0 p) = Some fb0 \<and>
       mset (si_sent s) = mset (routed (we_lookup env) ip0 p (gd_taken g)) \<and>
       (\<forall>db rp. task_bytes (si_submitted s) db rp = lines_for (si_sent s) db rp) \<and>
       mset (map snd (si_log s)) = mset (map (record_of gz) (si_submitted s)) + mset (pending fb0) \<and>
       fst ` set (si_log s) \<subseteq> {Written, Dropped}" if v: "valid_ptr ip0 p" for p
  proof -
    have "\<forall>bc fb. opened bc = (fb, None) \<longrightarrow> fresh_backlog fb" using assms(5) by blast
    from new_proxy_site_inv [OF assms(1,4) this v] obtain fb0 where fb0: "ib_fb (get_be ip0 p) = Some fb0" by blast
    from lively_site [OF g2(2) v] obtain fb where fb: "site_inv gz (pending (the (ib_fb (get_be ip0 p)))) True (gd_sites g2 p)"
      "ib_fb (si_ib (gd_sites g2 p)) = Some fb" "fb_producer fb \<noteq> None" by blast
    from g2(5) ps v have "at_rest (gd_sites g2 p)" by blast
    with site_accounts [OF fb(1)] fb(2,3) fb0 sent [OF v] show ?thesis
      by (intro exI [of _ "gd_sites g2 p"] exI [of _ fb0]) (auto simp: at_rest_def lost_def)
  qed
  ultimately show ?thesis using grid_run_trans [OF g2(1) g1(1)] g1(3) g2(3) by (intro exI [of _ g2]) (simp del: split_paired_All)
qed

text \<open>The backlogs of the proxy hold a record from before, and a request brings a line.\<close>

theorem every_line_can_arrive_witness:
  "\<exists>ip g p. NewProxy (Exists, None) (\<lambda>_. (retried, None)) sample_pxcfg False = Some (ip, False) \<and>
     grid_run sample_we id (new_grid ip) g \<and> valid_ptr ip p \<and> map snd (gd_taken g) = [sample_row] \<and>
     mset (map snd (si_log (gd_sites g p))) =
       mset (map (record_of id) (si_submitted (gd_sites g p))) + {#backlog_record ''db'' ''rp'' ''cpu v=1 1''#}"
proof -
  have "\<not> pc_HashKeyMeasureOnly sample_pxcfg" "pc_Circles sample_pxcfg = [hd (pc_Circles sample_config)]"
    by (simp_all add: sample_pxcfg_def setDefault_def sample_config_def)
  then obtain ip where ip: "NewProxy (Exists, None) (\<lambda>_. (retried, None)) sample_pxcfg False = Some (ip, False)"
    by (simp add: NewProxy_def MakeDir_ok NewCircle_def sample_config_def NewBackend_def)
  from sample_grid_run [OF ip] obtain g p where g: "grid_run sample_we id (new_grid ip) g" "valid_ptr ip p"
    "gd_taken g = [(GetKey False ''db'' ''cpu'', sample_row)]" "\<forall>q. valid_ptr ip q \<longrightarrow> ib_running (get_be (gd_ip g) q)" by blast
  have "\<forall>bc fb. (retried, None) = (fb, None) \<longrightarrow> fresh_backlog fb \<and> marked fb"
    using retried by (auto simp: fresh_backlog_def is_record_def)
  from every_line_can_arrive [OF ip sample_pxcfg_ok sample_we_picks sample_pxcfg_pos this g(1,4)] g(2)
  obtain g' fb0 where g': "grid_run sample_we id g g'" "gd_taken g' = gd_taken g" "ib_fb (get_be ip p) = Some fb0"
    "mset (map snd (si_log (gd_sites g' p))) = mset (map (record_of id) (si_submitted (gd_sites g' p))) + mset (pending fb0)"
    by blast
  from new_proxy_backend [OF ip g(2)] g'(3) have "fb0 = retried" by (auto simp: NewBackend_Some)
  with ip g g' grid_run_trans [OF g'(1) g(1)] retried(3) show ?thesis
    by (intro exI [of _ ip] exI [of _ g'] exI [of _ p]) simp
qed

end
