(* ===== verification/Readback.thy ===== *)
theory Readback
  imports Ingest Executor
begin

text \<open>
  Reading what has been written: the backends that a query may ask, against what the requests
  before it have handed out.
\<close>

section \<open>What a backend has been sent\<close>

text \<open>The lines taken under a key.\<close>

definition written_under :: "string \<Rightarrow> (string \<times> LinePoint) list \<Rightarrow> LinePoint list" where
  "written_under key taken = map snd (filter (\<lambda>kp. fst kp = key) taken)"

lemma written_under_routed:
  assumes "p \<in> set (targets lookup key 0 (ip_Circles ip))"
  shows "mset (written_under key taken) \<subseteq># mset (routed lookup ip p taken)"
proof (induction taken)
  case (Cons kp taken)
  obtain k pt where kp: "kp = (k, pt)" by (cases kp)
  with Cons assms show ?case
    by (auto simp: written_under_def routed_def intro: subset_mset.order_trans)
qed (simp add: written_under_def routed_def)

text \<open>Where nothing is on its way and the backend has refused nothing, it has been sent all of them.\<close>

lemma target_has_been_sent:
  assumes "grid_inv env gz ip0 g" "\<forall>f \<in> set (gd_flights g). fst f = []" "ib_running (get_be (gd_ip g) p)"
    and "p \<in> set (targets (we_lookup env) key 0 (ip_Circles (gd_ip g)))"
  shows "valid_ptr ip0 p" "get_be (gd_ip g) p = si_ib (gd_sites g p)"
    "mset (written_under key (gd_taken g)) \<subseteq># mset (si_sent (gd_sites g p))"
proof -
  from assms(1) have inv: "routing_kept env ip0 g" "sites_kept gz ip0 g" "balanced env ip0 g" "refusals_ok ip0 g"
    unfolding grid_inv_def by blast+
  then have px: "proxy_inv (we_lookup env) (gd_ip g)" unfolding routing_kept_def by blast
  with inv(1) targets_valid [OF px assms(4)] show v: "valid_ptr ip0 p" unfolding routing_kept_def by blast
  with inv(2) show "get_be (gd_ip g) p = si_ib (gd_sites g p)" unfolding sites_kept_def by blast
  from inv(1) assms(4) have t: "p \<in> set (targets (we_lookup env) key 0 (ip_Circles ip0))"
    unfolding routing_kept_def by simp
  have "refused_by p (gd_refused g) = []" using inv(4) v assms(3) unfolding refusals_ok_def by blast
  with inv(3) in_flight_landed [OF assms(2), of p]
  have "mset (si_sent (gd_sites g p)) = mset (routed (we_lookup env) ip0 p (gd_taken g))"
    unfolding balanced_def by (metis add.right_neutral mset.simps(1))
  with written_under_routed [OF t] show "mset (written_under key (gd_taken g)) \<subseteq># mset (si_sent (gd_sites g p))" by simp
qed

lemma candidates_targets:
  assumes "hb \<in> set (candidates lookup ip key perms)" "\<forall>i \<in> set perms. i < length (ip_Circles ip)"
  shows "\<exists>p \<in> set (targets lookup key 0 (ip_Circles ip)). hb = ib_hb (get_be ip p) \<and> IsActive hb"
proof -
  from assms obtain i where i: "i < length (ip_Circles ip)" "hb = target_hb lookup ip key i" "IsActive hb"
    by (auto simp: candidates_filters readable_def fallback_def)
  then have "(i, the (route lookup (ip_Circles ip ! i) key)) \<in> set (targets lookup key 0 (ip_Circles ip))"
    by (auto simp: in_set_conv_nth targets_nth intro: exI [of _ i])
  with i show ?thesis unfolding target_hb_def by blast
qed

section \<open>A query asks who has it\<close>

text \<open>C7: a query asks only backends that have been sent all there is. A proxy made from an accepted
  configuration has taken any number of lines, its backends working in between; every line has been
  handed out and no backend has been closed. Then a query on a key is answered by the first of
  its candidates that answers, for every order in which the circles are tried, and each
  candidate, in whichever circle, is an active backend that has been sent every line taken under that key:
  the answer does not depend on which circle gives it, beyond what is still in the buffers or in
  the backlog of the backend asked.\<close>

theorem query_asks_who_has_it:
  assumes "NewProxy mkdir opened cfg mo = Some (ip0, mo')" "checkConfig cfg = None" "picks_member (we_lookup env)"
    and "0 < pc_FlushSize cfg" "\<forall>bc fb. opened bc = (fb, None) \<longrightarrow> fresh_backlog fb"
    and "grid_run env gz (new_grid ip0) g" "\<forall>f \<in> set (gd_flights g). fst f = []"
    and "\<forall>p. valid_ptr ip0 p \<longrightarrow> ib_running (get_be (gd_ip g) p)" "\<forall>i \<in> set perms. i < length (ip_Circles ip0)"
  shows "\<exists>ics. query (we_lookup env) perms fn (gd_ip g) key req w =
      Some ((gd_ip g)\<lparr>ip_Circles := ics\<rparr>,
        try_in_order fn (candidates (we_lookup env) (gd_ip g) key perms) req w None) \<and>
    (\<forall>hb \<in> set (candidates (we_lookup env) (gd_ip g) key perms). \<exists>p. valid_ptr ip0 p \<and> IsActive hb \<and>
       hb = ib_hb (si_ib (gd_sites g p)) \<and> mset (written_under key (gd_taken g)) \<subseteq># mset (si_sent (gd_sites g p)))"
proof -
  have px0: "proxy_inv (we_lookup env) ip0" by (rule NewProxy_routes [OF assms(1-3)])
  have "\<forall>p. valid_ptr ip0 p \<longrightarrow> (\<exists>old m0. site_inv gz old m0 (new_site (get_be ip0 p)))"
    using new_proxy_site_inv [OF assms(1,4,5)] by blast
  from grid_run_inv [OF assms(6) new_grid_inv [OF px0] this] have inv: "grid_inv env gz ip0 g" .
  then have px: "proxy_inv (we_lookup env) (gd_ip g)" "valid_ptr (gd_ip g) p \<longleftrightarrow> valid_ptr ip0 p"
    "targets (we_lookup env) k 0 (ip_Circles (gd_ip g)) = targets (we_lookup env) k 0 (ip_Circles ip0)" for p k
    unfolding grid_inv_def routing_kept_def by blast+
  from arg_cong [OF px(3) [of key], of length] assms(9) have perms: "\<forall>i \<in> set perms. i < length (ip_Circles (gd_ip g))" by simp
  have "\<exists>p. valid_ptr ip0 p \<and> IsActive hb \<and> hb = ib_hb (si_ib (gd_sites g p)) \<and>
      mset (written_under key (gd_taken g)) \<subseteq># mset (si_sent (gd_sites g p))"
    if hb: "hb \<in> set (candidates (we_lookup env) (gd_ip g) key perms)" for hb
  proof -
    from candidates_targets [OF hb perms] obtain p where
      p: "p \<in> set (targets (we_lookup env) key 0 (ip_Circles (gd_ip g)))" "hb = ib_hb (get_be (gd_ip g) p)" "IsActive hb" by blast
    from targets_valid [OF px(1) p(1)] px(2) assms(8) have "ib_running (get_be (gd_ip g) p)" by blast
    from target_has_been_sent [OF inv assms(7) this p(1)] p(2,3) show ?thesis by (intro exI [of _ p]) simp
  qed
  with query_tries [OF px(1) perms, of fn key req w] show ?thesis by blast
qed

theorem query_asks_who_has_it_witness:
  "\<exists>g ics ans. grid_run sample_we id (new_grid sample_px) g \<and> written_under (GetKey False ''db'' ''cpu'') (gd_taken g) = [sample_row] \<and>
     query (we_lookup sample_we) [0] always (gd_ip g) (GetKey False ''db'' ''cpu'') show_request new_writer =
       Some ((gd_ip g)\<lparr>ip_Circles := ics\<rparr>, ans)"
proof -
  from sample_grid_run [OF NewProxy_sample] obtain g where g: "grid_run sample_we id (new_grid sample_px) g"
    "gd_taken g = [(GetKey False ''db'' ''cpu'', sample_row)]" "gd_flights g = [([], sample_row)]"
    "\<forall>q. valid_ptr sample_px q \<longrightarrow> ib_running (get_be (gd_ip g) q)" by blast
  have "\<forall>bc fb. (empty_backlog, None) = (fb, None) \<longrightarrow> fresh_backlog fb"
    using empty_backlog_inv by (simp add: fresh_backlog_def)
  note q = query_asks_who_has_it [OF NewProxy_sample sample_pxcfg_ok sample_we_picks sample_pxcfg_pos this g(1) _ g(4),
    of "[0]" always "GetKey False ''db'' ''cpu''" show_request new_writer]
  have "\<forall>f \<in> set (gd_flights g). fst f = []" "\<forall>i \<in> set [0]. i < length (ip_Circles sample_px)"
    using g(3) by (simp_all add: sample_px_def)
  from q [OF this] obtain ics ans where
    "query (we_lookup sample_we) [0] always (gd_ip g) (GetKey False ''db'' ''cpu'') show_request new_writer =
       Some ((gd_ip g)\<lparr>ip_Circles := ics\<rparr>, ans)" by blast
  moreover have "written_under (GetKey False ''db'' ''cpu'') (gd_taken g) = [sample_row]"
    by (simp add: written_under_def g(2))
  ultimately show ?thesis using g(1) by blast
qed

end
