(* ===== verification/Relocation.thy ===== *)
theory Relocation
  imports Transfers
begin

text \<open>
  What rebalancing and cleaning up come to together. The operations are those of
  \<open>Transfers\<close>; here they are followed to the rows that the servers hold, from before the
  rebalancing to after the cleanup, with clients writing in between. \<open>copied\<close> and \<open>dropped\<close>
  say that the tasks of a run have succeeded: a hypothesis of the theorems, which the code
  itself does not check.
\<close>

section \<open>What the servers hold\<close>

text \<open>For the address of a server, a database, a retention policy and a measurement: the rows.\<close>

type_synonym 'row holdings = "string \<Rightarrow> string \<Rightarrow> string \<Rightarrow> string \<Rightarrow> 'row set"

text \<open>A server names what it holds: every measurement with rows is in the lists that it answers.\<close>

definition shown :: "tx_env \<Rightarrow> 'row holdings \<Rightarrow> string list \<Rightarrow> HttpBackend \<Rightarrow> bool" where
  "shown env H dbs be \<longleftrightarrow>
     (\<forall>db rp meas. H (hb_Url be) db rp meas \<noteq> {} \<longrightarrow>
        db \<in> set dbs \<and> meas \<in> set (listed env be db) \<and> rp \<in> set (the (GetRetentionPolicies (te_http env) be db)))"

text \<open>Copies have succeeded: what was there is still there, and every copy has brought the
  rows of its source to its destinations, those from its time on if it has one. This is a
  condition on the run, for the code of a copy, \<open>run_job\<close>, does not ensure it: \<^verbatim>\<open>tx.write\<close>
  only logs the last error of a batch (theorem \<open>transfer_hides_failed_writes\<close> is about
  that), a read error ends a copy early, and what a server does with an accepted write is its
  own. That a copy reads all rows and hands all of them to the writers is the theorem
  \<open>transfer_copies_all\<close>. The time stamp of a row is in nanoseconds, the time of a copy in
  seconds.\<close>

definition recent :: "('row \<Rightarrow> int) \<Rightarrow> int \<Rightarrow> 'row set \<Rightarrow> 'row set" where
  "recent stamp tick rows = (if 0 < tick then {r \<in> rows. tick * 10 ^ 9 \<le> stamp r} else rows)"

definition copied :: "('row \<Rightarrow> int) \<Rightarrow> Circle list \<Rightarrow> job set \<Rightarrow> 'row holdings \<Rightarrow> 'row holdings \<Rightarrow> bool" where
  "copied stamp ics jobs H H' \<longleftrightarrow>
     (\<forall>url db rp meas. H url db rp meas \<subseteq> H' url db rp meas) \<and>
     (\<forall>src dsts db rp meas tick d. CopyJob src dsts db rp meas tick \<in> jobs \<longrightarrow> Some d \<in> set dsts \<longrightarrow>
        recent stamp tick (H (hb_Url src) db rp meas) \<subseteq> H' (hb_Url (hb_at ics d)) db rp meas)"

lemma copiedD:
  assumes "copied stamp ics jobs H H'"
  shows "H url db rp meas \<subseteq> H' url db rp meas"
    and "CopyJob src dsts db rp meas tick \<in> jobs \<Longrightarrow> Some d \<in> set dsts \<Longrightarrow>
      recent stamp tick (H (hb_Url src) db rp meas) \<subseteq> H' (hb_Url (hb_at ics d)) db rp meas"
  using assms unfolding copied_def by blast+

lemma recent_0 [simp]: "recent stamp 0 rows = rows"
  by (simp add: recent_def)

lemma recent_subset: "recent stamp tick rows \<subseteq> rows"
  by (auto simp: recent_def)

text \<open>The tasks of a cleanup have been carried out: a measurement that was dropped at a server has
  no rows there and any other has kept its rows; rows have only appeared where there were rows
  of the measurement, or where clients write it.\<close>

definition dropped :: "(string \<Rightarrow> string \<Rightarrow> string \<Rightarrow> bool) \<Rightarrow> job set \<Rightarrow> 'row holdings \<Rightarrow> 'row holdings \<Rightarrow> bool" where
  "dropped writes jobs H H' \<longleftrightarrow>
     (\<forall>be db rp meas. DropJob be db meas \<in> jobs \<longrightarrow> H' (hb_Url be) db rp meas = {}) \<and>
     (\<forall>url db rp meas. (\<forall>be. DropJob be db meas \<in> jobs \<longrightarrow> hb_Url be \<noteq> url) \<longrightarrow>
        H url db rp meas \<subseteq> H' url db rp meas) \<and>
     (\<forall>url db rp meas. H' url db rp meas \<noteq> {} \<longrightarrow> H url db rp meas \<noteq> {} \<or> writes url db meas)"

abbreviation submitted :: "effect list \<Rightarrow> job set" where
  "submitted effs \<equiv> {j. Submitted j \<in> set effs}"

text \<open>The address of the server where clients write a measurement and queries look for it.\<close>

definition home_url :: "tx_env \<Rightarrow> Circle list \<Rightarrow> nat \<Rightarrow> string \<Rightarrow> string \<Rightarrow> string" where
  "home_url env ics cid db meas = hb_Url (hb_at ics (home env ics cid db meas))"

section \<open>Rebalancing\<close>

lemma misplaced_iff:
  "routable env ics \<Longrightarrow> cid < length ics \<Longrightarrow> misplaced env cid ics be db meas \<longleftrightarrow> home_url env ics cid db meas \<noteq> hb_Url be"
  using misplaced_home [of env cid ics ics be db meas] same_places_refl [of "te_lookup env" ics]
  by (simp add: good_def home_url_def)

text \<open>After the rebalancing everything that an active backend held is at its home as well.\<close>

lemma rebalanced:
  assumes "routable env ics" "cid < length ics" "cid < length (tx_CircleStates tx)" "posts_ok env tx"
    and "prepare env dbs0 (tx, ics) = Some (dbs, es, True)"
    and "\<forall>be \<in> set bes. IsActive be \<longrightarrow> source_ok env (tx_CircleStates tx ! cid) dbs be"
    and "Rebalance env cid bes dbs0 (tx, ics) = Some (tx', ics', effs)"
    and "copied stamp ics (submitted effs) H H'"
    and "be \<in> set bes" "IsActive be" "shown env H dbs be"
  shows "H (hb_Url be) db rp meas \<subseteq> H' (home_url env ics cid db meas) db rp meas"
proof (cases "H (hb_Url be) db rp meas = {}")
  case False
  with assms(11) have l: "db \<in> set dbs" "meas \<in> set (listed env be db)" "rp \<in> set (the (GetRetentionPolicies (te_http env) be db))"
    unfolding shown_def by blast+
  show ?thesis
  proof (cases "misplaced env cid ics be db meas")
    case True
    let ?j = "CopyJob be [Some (home env ics cid db meas)] db rp meas 0"
    from True l assms(9,10) have j: "?j \<in> set (rebalance.backends_plan env cid ics env dbs bes)"
      unfolding rebalance_jobs by blast
    from Rebalance_run [OF assms(1-6)] assms(7) obtain p q where
      "effs = es @ map Posted p @ map Submitted (rebalance.backends_plan env cid ics env dbs bes) @ map Posted q" by force
    with j have "?j \<in> submitted effs" by simp
    from copiedD(2) [OF assms(8) this] show ?thesis by (simp add: home_url_def)
  next
    case False
    with misplaced_iff [OF assms(1,2)] have "home_url env ics cid db meas = hb_Url be" by blast
    with assms(8) show ?thesis by (simp add: copied_def)
  qed
qed simp

section \<open>Recovering a circle\<close>

lemma Recovery_run:
  assumes "routable env ics" "fid < length ics" "tid < length ics" "fid \<noteq> tid"
    and "fid < length (tx_CircleStates tx)" "tid < length (tx_CircleStates tx)" "posts_ok env tx"
    and "prepare env dbs0 (tx, ics) = Some (dbs, es, True)"
    and "\<forall>be \<in> set (circle_hbs (ics ! fid)). IsActive be \<longrightarrow> source_ok env (tx_CircleStates tx ! fid) dbs be"
  shows "\<exists>tx' ics' p q. Recovery env fid tid backendUrls dbs0 (tx, ics) = Some (tx', ics', es @ map Posted p @
      map Submitted (recovery.backends_plan env tid ics (to_recover (ics ! tid) backendUrls) env dbs (circle_hbs (ics ! fid))) @
      map Posted q) \<and> announced tx (ic_CircleId (ics ! tid)) True p \<and> announced tx (ic_CircleId (ics ! tid)) False q \<and>
    settled_down tid tx' ics' \<and> good env tid ics ics'"
proof -
  let ?tx = "mark tid True (resetCircleStates tx)" and ?ics = "ics[tid := ic_SetTransferIn (ics ! tid) True]"
  let ?urls = "to_recover (ics ! tid) backendUrls" and ?bes = "circle_hbs (ics ! fid)"
  let ?jobs = "recovery.backends_plan env tid ics ?urls env dbs ?bes"
  have "tid < length (tx_CircleStates (resetCircleStates tx))" using assms(6) by (simp add: resetCircleStates_def)
  from broadcastTransferring_ok [OF posts_ok_marked(1) [THEN iffD2, OF assms(7)] this assms(3), of True es] obtain p where
    p: "broadcastTransferring env tid True (resetCircleStates tx, ics, es) = Some (?tx, ?ics, es @ map Posted p)"
    "announced tx (ic_CircleId (ics ! tid)) True p"
    by (auto simp: announced_def resetCircleStates_def peer_url_def)
  have len: "fid < length (tx_CircleStates ?tx)" "tid < length (tx_CircleStates ?tx)"
    using mark_reset(1) [OF assms(6)] assms(5,6) by simp_all
  have src: "\<forall>be \<in> set ?bes. IsActive be \<longrightarrow> decodes env be \<and> lists_ok env be dbs \<and>
      hb_Url be \<in> dom (map_get (cs_Stats (tx_CircleStates ?tx ! fid)))"
    using assms(9) mark_reset(2) [OF assms(6,5)] by (simp add: source_ok_def)
  from recovery.run_circle_plan [OF good_marked [OF assms(1,3)] len(1) src, where es = "es @ map Posted p" and urls = ?urls]
  obtain cs' s' where
    r: "good env tid ics s'" "run_circle env (runRecovery env tid ?urls) fid ?bes dbs (?tx, ?ics, es @ map Posted p) =
      Some (?tx\<lparr>tx_CircleStates := (tx_CircleStates ?tx)[fid := cs']\<rparr>, s', (es @ map Posted p) @ map Submitted ?jobs)"
      (is "_ = Some (?tx2, _, ?es)")
    by blast
  have ics: "byte_at ?ics fid = Some (ics ! fid)" "byte_at ?ics tid = Some (ic_SetTransferIn (ics ! tid) True)"
    using assms(2-4) by (simp_all add: byte_at_def)
  have urls: "to_recover (ic_SetTransferIn (ics ! tid) True) backendUrls = ?urls"
    by (simp add: to_recover_def ic_SetTransferIn_def SetTransferIn_def comp_def)
  have "posts_ok env ?tx2" "tid < length (tx_CircleStates ?tx2)" using assms(7) len by (simp_all add: posts_ok_marked)
  from settled_after [OF this(1) r(1) this(2), of ?es] obtain tx' ics' q where
    q: "broadcastTransferring env tid False (resetBasicParam ?tx2, s', ?es) = Some (tx', ics', ?es @ map Posted q)"
    "settled_down tid tx' ics'" "good env tid ics ics'" "announced ?tx2 (ic_CircleId (ics ! tid)) False q" by blast
  have f: "announced tx (ic_CircleId (ics ! tid)) False q"
    using q(4) by (simp add: announced_def peer_url_def mark_def resetCircleStates_def)
  have "Recovery env fid tid backendUrls dbs0 (tx, ics) = Some (tx', ics', ?es @ map Posted q)"
    using assms(8) p(1) r(2) q(1) by (simp add: Recovery_def ics urls Let_def del: append_assoc)
  then show ?thesis using p(2) q(2,3) f by (intro exI [of _ tx'] exI [of _ ics'] exI [of _ p] exI [of _ q]) simp
qed

lemma recovery_jobs:
  "j \<in> set (recovery.backends_plan env tid ics urls env dbs bes) \<longleftrightarrow>
     (\<exists>be db meas rp. be \<in> set bes \<and> IsActive be \<and> db \<in> set dbs \<and> meas \<in> set (listed env be db) \<and>
        Has urls (home_url env ics tid db meas) \<and> rp \<in> set (the (GetRetentionPolicies (te_http env) be db)) \<and>
        j = CopyJob be [Some (home env ics tid db meas)] db rp meas 0)"
  unfolding recovery.in_backends_plan
  by (auto simp: recovery_plan_def copies_def wanted_def home_url_def split: if_splits)

section \<open>Resynchronising all circles\<close>

lemma resync_jobs:
  "j \<in> set (resync.backends_plan env cid tick ics env dbs bes) \<longleftrightarrow>
     (\<exists>be db meas rp. be \<in> set bes \<and> IsActive be \<and> db \<in> set dbs \<and> meas \<in> set (listed env be db) \<and>
        others ics cid \<noteq> [] \<and> rp \<in> set (the (GetRetentionPolicies (te_http env) be db)) \<and>
        j = CopyJob be (map (\<lambda>t. Some (home env ics t db meas)) (others ics cid)) db rp meas tick)"
  unfolding resync.in_backends_plan by (auto simp: resync_plan_def copies_def split: if_splits)

lemma resync_circles_run:
  assumes "untouched env cid0 ics s" "\<forall>cid \<in> set cids. cid < length ics \<and> cid < length (tx_CircleStates tx)" "distinct cids"
    and "\<forall>cid \<in> set cids. \<forall>be \<in> set (circle_hbs (ics ! cid)). IsActive be \<longrightarrow> source_ok env (tx_CircleStates tx ! cid) dbs be"
  shows "\<exists>tx' s'. untouched env cid0 ics s' \<and> resync_circles env tick dbs cids (tx, s, es) =
    Some (tx', s', es @ map Submitted (concat (map (\<lambda>cid. resync.backends_plan env cid tick ics env dbs (circle_hbs (ics ! cid))) cids))) \<and>
    tx_HaAddrs tx' = tx_HaAddrs tx \<and> tx_httpsEnabled tx' = tx_httpsEnabled tx"
  using assms
proof (induction cids arbitrary: tx s es)
  case (Cons cid cids)
  let ?jobs = "resync.backends_plan env cid tick ics env dbs (circle_hbs (ics ! cid))"
  from Cons.prems have len: "length s = length ics" and u: "untouched env cid ics s"
    by (auto simp: untouched_def good_def dest: list_all2_lengthD)
  have "map ic_Backends s ! cid = map ic_Backends ics ! cid" using Cons.prems(1) by (simp add: untouched_def)
  then have ic: "byte_at s cid = Some (s ! cid)" "circle_hbs (s ! cid) = circle_hbs (ics ! cid)"
    using Cons.prems(2) len by (simp_all add: byte_at_def circle_hbs_def)
  have "\<forall>be \<in> set (circle_hbs (ics ! cid)). IsActive be \<longrightarrow> decodes env be \<and> lists_ok env be dbs \<and>
      hb_Url be \<in> dom (map_get (cs_Stats (tx_CircleStates tx ! cid)))"
    using Cons.prems(4) by (simp add: source_ok_def)
  from resync.run_circle_plan [OF u _ this, where es = es and tick = tick] Cons.prems(2) obtain cs' s1 where
    r: "untouched env cid ics s1" "run_circle env (runResync env cid tick) cid (circle_hbs (ics ! cid)) dbs (tx, s, es) =
      Some (tx\<lparr>tx_CircleStates := (tx_CircleStates tx)[cid := cs']\<rparr>, s1, es @ map Submitted ?jobs)" (is "_ = Some (?tx1, _, _)")
    by auto
  have "untouched env cid0 ics s1" using r(1) Cons.prems(1) by (simp add: untouched_def good_def)
  from Cons.IH [OF this, of ?tx1 "es @ map Submitted ?jobs"] Cons.prems r(2) ic show ?case by (auto simp: nth_list_update)
qed simp

definition told_resyncing :: "Transfer \<Rightarrow> bool \<Rightarrow> Request list \<Rightarrow> bool" where
  "told_resyncing tx b posts \<longleftrightarrow> map rq_URL posts = map (\<lambda>a. peer_url tx (resyncing_url a b)) (tx_HaAddrs tx)"

lemma Resync_run:
  assumes "routable env ics" "length (tx_CircleStates tx) = length ics" "posts_ok env tx" "0 < length ics"
    and "prepare env dbs0 (tx, ics) = Some (dbs, es, True)"
    and "\<forall>cid < length ics. \<forall>be \<in> set (circle_hbs (ics ! cid)). IsActive be \<longrightarrow> source_ok env (tx_CircleStates tx ! cid) dbs be"
  shows "\<exists>tx' ics' p q. Resync env dbs0 tick (tx, ics) = Some (tx', ics', es @ map Posted p @
      map Submitted (concat (map (\<lambda>cid. resync.backends_plan env cid tick ics env dbs (circle_hbs (ics ! cid))) [0..<length ics])) @
      map Posted q) \<and> told_resyncing tx True p \<and> told_resyncing tx False q \<and>
    untouched env 0 ics ics' \<and> \<not> tx_Resyncing tx'"
proof -
  let ?jobs = "concat (map (\<lambda>cid. resync.backends_plan env cid tick ics env dbs (circle_hbs (ics ! cid))) [0..<length ics])"
  let ?tx = "resetCircleStates tx\<lparr>tx_Resyncing := True\<rparr>"
  have bc: "\<exists>p. broadcastResyncing env b t = Some (t\<lparr>tx_Resyncing := b\<rparr>, map Posted p) \<and> told_resyncing tx b p"
    if t: "tx_HaAddrs t = tx_HaAddrs tx" "tx_httpsEnabled t = tx_httpsEnabled tx" for b t
  proof -
    have peer: "peer_url t = peer_url tx" by (intro ext) (simp add: peer_url_def t)
    have "\<forall>a \<in> set (tx_HaAddrs t). he_parse (te_http env) (peer_url t (resyncing_url a b)) = None"
      using assms(3) by (simp add: posts_ok_def t peer)
    from posts_all [OF this] show ?thesis by (auto simp: broadcastResyncing_def told_resyncing_def t peer)
  qed
  from bc [of "resetCircleStates tx" True] obtain p where
    p: "broadcastResyncing env True (resetCircleStates tx) = Some (?tx, map Posted p)" "told_resyncing tx True p"
    by (auto simp: resetCircleStates_def)
  have u: "untouched env 0 ics ics" using assms(1,4) same_places_refl by (simp add: untouched_def good_def)
  have "\<forall>cid \<in> set [0..<length ics]. cid < length ics \<and> cid < length (tx_CircleStates ?tx)"
    using assms(2) by (simp add: resetCircleStates_def)
  moreover have "\<forall>cid \<in> set [0..<length ics]. \<forall>be \<in> set (circle_hbs (ics ! cid)). IsActive be \<longrightarrow>
      source_ok env (tx_CircleStates ?tx ! cid) dbs be"
    using assms(2,6) by (simp add: resetCircleStates_def source_ok_def)
  ultimately obtain tx1 s1 where r: "untouched env 0 ics s1"
    "resync_circles env tick dbs [0..<length ics] (?tx, ics, es @ map Posted p) = Some (tx1, s1, (es @ map Posted p) @ map Submitted ?jobs)"
    "tx_HaAddrs tx1 = tx_HaAddrs ?tx" "tx_httpsEnabled tx1 = tx_httpsEnabled ?tx"
    using resync_circles_run [OF u, of "[0..<length ics]" ?tx dbs tick "es @ map Posted p"] by auto
  from bc [of "resetBasicParam tx1" False] r(3,4) obtain q where
    q: "broadcastResyncing env False (resetBasicParam tx1) = Some ((resetBasicParam tx1)\<lparr>tx_Resyncing := False\<rparr>, map Posted q)"
    "told_resyncing tx False q"
    by (auto simp: resetCircleStates_def resetBasicParam_def)
  have "length (tx_CircleStates ?tx) = length ics" using assms(2) by (simp add: resetCircleStates_def)
  with assms(5) p(1) r(2) q(1) have "Resync env dbs0 tick (tx, ics) =
      Some ((resetBasicParam tx1)\<lparr>tx_Resyncing := False\<rparr>, s1, ((es @ map Posted p) @ map Submitted ?jobs) @ map Posted q)"
    by (simp add: Resync_def del: append_assoc)
  then show ?thesis using r(1) p(2) q(2) by (intro exI [of _ "(resetBasicParam tx1)\<lparr>tx_Resyncing := False\<rparr>"] exI [of _ s1]
      exI [of _ p] exI [of _ q]) simp
qed

section \<open>Cleaning up\<close>

text \<open>What a cleanup needs of a backend of its circle.\<close>

definition cleanable :: "tx_env \<Rightarrow> CircleState \<Rightarrow> HttpBackend \<Rightarrow> bool" where
  "cleanable env cs be \<longleftrightarrow>
     GetDatabases (te_http env) be \<noteq> None \<and> lists_ok env be (the (GetDatabases (te_http env) be)) \<and>
     hb_Url be \<in> dom (map_get (cs_Stats cs))"

lemma cleaned:
  assumes "routable env ics" "cid < length ics" "cid < length (tx_CircleStates tx)" "posts_ok env tx"
    and "te_NewPool env (tx_Worker tx) = None"
    and "\<forall>be \<in> set (circle_hbs (ics ! cid)). cleanable env (tx_CircleStates tx ! cid) be"
    and "Cleanup env cid (tx, ics) = Some (tx', ics', effs)"
    and "dropped (\<lambda>url db meas. url = home_url env ics cid db meas) (submitted effs) H H'"
  shows "H (home_url env ics cid db meas) db rp meas \<subseteq> H' (home_url env ics cid db meas) db rp meas"
    and "be \<in> set (circle_hbs (ics ! cid)) \<Longrightarrow> IsActive be \<Longrightarrow> shown env H (the (GetDatabases (te_http env) be)) be \<Longrightarrow>
      H' (hb_Url be) db rp meas \<noteq> {} \<Longrightarrow> hb_Url be = home_url env ics cid db meas"
    and "good env cid ics ics'"
proof -
  from assms(6) have c: "\<forall>be \<in> set (circle_hbs (ics ! cid)). GetDatabases (te_http env) be \<noteq> None \<and>
      (IsActive be \<longrightarrow> lists_ok env be (the (GetDatabases (te_http env) be)) \<and>
         hb_Url be \<in> dom (map_get (cs_Stats (tx_CircleStates tx ! cid))))" unfolding cleanable_def by blast
  note jobs = Cleanup_run [OF assms(1-5) c] 
  from jobs assms(7) show "good env cid ics ics'" by auto
  from jobs assms(7) have j: "j \<in> submitted effs \<longleftrightarrow> (\<exists>be db meas. be \<in> set (circle_hbs (ics ! cid)) \<and> IsActive be \<and>
      db \<in> set (the (GetDatabases (te_http env) be)) \<and> meas \<in> set (listed env be db) \<and>
      misplaced env cid ics be db meas \<and> j = DropJob (SetTransferIn be True) db meas)" for j by auto
  have "hb_Url be \<noteq> home_url env ics cid db meas" if "DropJob be db meas \<in> submitted effs" for be
    using that misplaced_iff [OF assms(1,2)] unfolding j by auto
  with assms(8) show "H (home_url env ics cid db meas) db rp meas \<subseteq> H' (home_url env ics cid db meas) db rp meas"
    unfolding dropped_def by blast
  assume b: "be \<in> set (circle_hbs (ics ! cid))" "IsActive be" "shown env H (the (GetDatabases (te_http env) be)) be"
    and ne: "H' (hb_Url be) db rp meas \<noteq> {}"
  show "hb_Url be = home_url env ics cid db meas"
  proof (rule ccontr)
    assume n: "hb_Url be \<noteq> home_url env ics cid db meas"
    with ne assms(8) have "H (hb_Url be) db rp meas \<noteq> {}" unfolding dropped_def by blast
    with b(3) have "db \<in> set (the (GetDatabases (te_http env) be))" "meas \<in> set (listed env be db)"
      unfolding shown_def by blast+
    with b n misplaced_iff [OF assms(1,2), of be db meas] have "DropJob (SetTransferIn be True) db meas \<in> submitted effs"
      unfolding j by auto
    with assms(8) have "H' (hb_Url (SetTransferIn be True)) db rp meas = {}" unfolding dropped_def by blast
    with ne show False by simp
  qed
qed


section \<open>From one to the other\<close>

lemma same_places_routable:
  assumes "list_all (circle_routes lookup) ics" "same_places lookup ics ics'"
  shows "list_all (circle_routes lookup) ics'"
  unfolding list_all_length
proof (intro allI impI)
  fix i
  assume "i < length ics'"
  with assms have r: "circle_routes lookup (ics ! i)" and s: "same_place lookup (ics ! i) (ics' ! i)"
    by (auto simp: list_all_length list_all2_conv_all_nth)
  from s have "length (ic_Backends (ics' ! i)) = length (ic_Backends (ics ! i))"
    unfolding same_place_def by (metis length_map)
  with r s show "circle_routes lookup (ics' ! i)" by (simp add: circle_routes_def same_place_def)
qed

lemma home_url_same:
  assumes "routable env ics" "same_places (te_lookup env) ics ics'" "cid < length ics"
    and "te_lookup env' = te_lookup env" "te_measureOnly env' = te_measureOnly env"
  shows "home_url env' ics' cid db meas = home_url env ics cid db meas"
proof -
  from assms(2,3) have "same_place (te_lookup env) (ics ! cid) (ics' ! cid)" by (auto simp: list_all2_conv_all_nth)
  then have h: "home env' ics' cid db meas = home env ics cid db meas"
    by (simp add: home_def same_place_def assms(4,5))
  from assms(1,3) obtain i where "i < length (ic_Backends (ics ! cid))"
    "route (te_lookup env) (ics ! cid) (GetKey (te_measureOnly env) db meas) = Some i"
    unfolding list_all_length circle_routes_def by blast
  with Transfers.home_url [OF assms(2,3)] show ?thesis by (simp add: home_url_def h) (simp add: home_def)
qed

lemma same_places_urls:
  assumes "same_places lookup ics ics'" "cid < length ics" "ib \<in> set (ic_Backends (ics' ! cid))"
  shows "\<exists>be \<in> set (circle_hbs (ics ! cid)). hb_Url be = hb_Url (ib_hb ib)"
proof -
  from assms(1,2) have "map (hb_Url \<circ> ib_hb) (ic_Backends (ics' ! cid)) = map (hb_Url \<circ> ib_hb) (ic_Backends (ics ! cid))"
    by (auto simp: list_all2_conv_all_nth same_place_def)
  then have "(hb_Url \<circ> ib_hb) ` set (ic_Backends (ics' ! cid)) = (hb_Url \<circ> ib_hb) ` set (ic_Backends (ics ! cid))"
    by (metis set_map)
  moreover from assms(3) have "hb_Url (ib_hb ib) \<in> (hb_Url \<circ> ib_hb) ` set (ic_Backends (ics' ! cid))" by force
  ultimately have "hb_Url (ib_hb ib) \<in> (hb_Url \<circ> ib_hb) ` set (ic_Backends (ics ! cid))" by simp
  then show ?thesis by (auto simp: circle_hbs_def)
qed

text \<open>C8: rebalancing and cleaning up lose nothing and leave a healthy circle. Let the tasks of a
  rebalancing be carried out, then those of a cleanup, with clients writing in between, where
  the routing stays what it is. Then the rows that an active backend given to the rebalancing held
  before it are, in the end, at the server where queries look for their measurement. If the
  backends of the circle are active when it is cleaned up, each of them is reported as healthy.\<close>

theorem rebalance_then_cleanup:
  assumes "routable env ics" "cid < length ics" "cid < length (tx_CircleStates tx)" "posts_ok env tx"
    and "prepare env dbs0 (tx, ics) = Some (dbs, es, True)"
    and "\<forall>be \<in> set bes. IsActive be \<longrightarrow> source_ok env (tx_CircleStates tx ! cid) dbs be"
    and "Rebalance env cid bes dbs0 (tx, ics) = Some (tx1, ics1, effs)" "copied stamp ics (submitted effs) H0 H1"
    and "same_places (te_lookup env) ics1 ics2" "te_lookup env' = te_lookup env" "te_measureOnly env' = te_measureOnly env"
    and "cid < length (tx_CircleStates tx2)" "posts_ok env' tx2" "te_NewPool env' (tx_Worker tx2) = None"
    and "\<forall>be \<in> set (circle_hbs (ics2 ! cid)). cleanable env' (tx_CircleStates tx2 ! cid) be"
    and "Cleanup env' cid (tx2, ics2) = Some (tx3, ics3, effs')"
    and "dropped (\<lambda>url db meas. url = home_url env ics cid db meas) (submitted effs') H1 H2"
  shows "(\<forall>be \<in> set bes. IsActive be \<and> shown env H0 dbs be \<longrightarrow>
            (\<forall>db rp meas. H0 (hb_Url be) db rp meas \<subseteq> H2 (home_url env ics cid db meas) db rp meas)) \<and>
         ((\<forall>be \<in> set (circle_hbs (ics2 ! cid)). IsActive be \<and> shown env' H1 (the (GetDatabases (te_http env') be)) be) \<longrightarrow>
            (\<forall>ib \<in> set (ic_Backends (ics3 ! cid)). \<forall>net names ms. ib_fb ib \<noteq> None \<and> GetDatabases net (ib_hb ib) = Some names \<and>
               (\<forall>db \<in> set names. GetMeasurements net (ib_hb ib) db = Some (ms db) \<and>
                  (\<forall>meas \<in> set (ms db). \<exists>rp. H2 (hb_Url (ib_hb ib)) db rp meas \<noteq> {})) \<longrightarrow>
               (\<exists>ic h. ib_GetHealth net (te_lookup env) (te_measureOnly env) ib (ics3 ! cid) True = Some (ic, h) \<and> he_Healthy h)))"
proof (intro conjI ballI impI allI)
  let ?home = "home_url env ics cid"
  from Rebalance_run [OF assms(1-6)] assms(7) have "good env cid ics ics1" by auto
  with assms(9) have s2: "same_places (te_lookup env) ics ics2" by (auto simp: good_def intro: same_places_trans)
  then have len2: "cid < length ics2" using assms(2) by (simp add: list_all2_lengthD)
  have r2: "routable env' ics2" using same_places_routable [OF assms(1) s2] by (simp add: assms(10))
  have h2: "home_url env' ics2 cid db meas = ?home db meas" for db meas
    by (rule home_url_same [OF assms(1) s2 assms(2,10,11)])
  have "dropped (\<lambda>url db meas. url = home_url env' ics2 cid db meas) (submitted effs') H1 H2"
    using assms(17) by (simp add: h2)
  note clean = cleaned [OF r2 len2 assms(12-16) this, unfolded h2]
  show "H0 (hb_Url be) db rp meas \<subseteq> H2 (?home db meas) db rp meas"
    if "be \<in> set bes" "IsActive be \<and> shown env H0 dbs be" for be db rp meas
    using rebalanced [OF assms(1-8)] that clean(1) by blast
  fix ib net names ms
  assume act: "\<forall>be \<in> set (circle_hbs (ics2 ! cid)). IsActive be \<and> shown env' H1 (the (GetDatabases (te_http env') be)) be"
    and ib: "ib \<in> set (ic_Backends (ics3 ! cid))"
    and net: "ib_fb ib \<noteq> None \<and> GetDatabases net (ib_hb ib) = Some names \<and>
      (\<forall>db \<in> set names. GetMeasurements net (ib_hb ib) db = Some (ms db) \<and>
         (\<forall>meas \<in> set (ms db). \<exists>rp. H2 (hb_Url (ib_hb ib)) db rp meas \<noteq> {}))"
  from clean(3) have "same_places (te_lookup env) ics2 ics3" by (simp add: good_def assms(10))
  with s2 have s3: "same_places (te_lookup env) ics2 ics3" "same_places (te_lookup env) ics ics3"
    by (auto intro: same_places_trans)
  from same_places_routable [OF assms(1) s3(2)] s3(2) assms(2) have r3: "circle_routes (te_lookup env) (ics3 ! cid)"
    by (simp add: list_all_length list_all2_lengthD)
  from same_places_urls [OF s3(1) len2 ib] obtain be where
    be: "be \<in> set (circle_hbs (ics2 ! cid))" "hb_Url be = hb_Url (ib_hb ib)" ..
  have "in_place (te_lookup env) (te_measureOnly env) (ics3 ! cid) (hb_Url (ib_hb ib)) db meas"
    if m: "db \<in> set names" "meas \<in> set (ms db)" for db meas
  proof -
    from net m obtain rp where "H2 (hb_Url be) db rp meas \<noteq> {}" unfolding be(2) by blast
    with clean(2) [OF be(1)] act be(1) have "hb_Url be = ?home db meas" by blast
    then show ?thesis
      using in_place_home [OF r3] home_url_same [OF assms(1) s3(2) assms(2) refl refl, of db meas]
      by (simp add: home_url_def be(2))
  qed
  moreover from r3 have "cache_ok (te_lookup env) (ics3 ! cid)" "\<And>key. route (te_lookup env) (ics3 ! cid) key \<noteq> None"
    by (auto simp: circle_routes_def)
  note v = GetHealth_verdict [OF this, of ib net names ms "te_measureOnly env"]
  ultimately show "\<exists>ic h. ib_GetHealth net (te_lookup env) (te_measureOnly env) ib (ics3 ! cid) True = Some (ic, h) \<and> he_Healthy h"
    using v net by (auto simp: list_all_iff)
qed


section \<open>What recovery and resynchronisation achieve\<close>

lemma in_to_recover:
  assumes "routable env ics" "tid < length ics"
  shows "Has (to_recover (ics ! tid) backendUrls) (home_url env ics tid db meas) \<longleftrightarrow>
    backendUrls = [] \<or> home_url env ics tid db meas \<in> set backendUrls"
proof -
  from assms obtain i where "i < length (ic_Backends (ics ! tid))"
    "route (te_lookup env) (ics ! tid) (GetKey (te_measureOnly env) db meas) = Some i"
    unfolding list_all_length circle_routes_def by blast
  then have "home_url env ics tid db meas \<in> set (map (hb_Url \<circ> ib_hb) (ic_Backends (ics ! tid)))"
    by (auto simp: home_url_def home_def hb_at_def)
  then show ?thesis by (auto simp: to_recover_def NewSetFromSlice_def)
qed

lemma shownD:
  assumes "shown env H dbs be" "r \<in> H (hb_Url be) db rp meas"
  shows "db \<in> set dbs" "meas \<in> set (listed env be db)" "rp \<in> set (the (GetRetentionPolicies (te_http env) be db))"
  using assms unfolding shown_def by blast+

text \<open>C18: recovering brings back what the other circle has. When the tasks of a recovery are
  carried out, every row that an active backend of the source circle held is at the server of the
  target circle where queries look for its measurement, if this is one of the servers to be
  recovered, or none was named; nothing is copied to any other server.\<close>

theorem recovery_restores:
  assumes "routable env ics" "fid < length ics" "tid < length ics" "fid \<noteq> tid"
    and "fid < length (tx_CircleStates tx)" "tid < length (tx_CircleStates tx)" "posts_ok env tx"
    and "prepare env dbs0 (tx, ics) = Some (dbs, es, True)"
    and "\<forall>be \<in> set (circle_hbs (ics ! fid)). IsActive be \<longrightarrow> source_ok env (tx_CircleStates tx ! fid) dbs be"
    and "Recovery env fid tid backendUrls dbs0 (tx, ics) = Some (tx', ics', effs)" "copied stamp ics (submitted effs) H H'"
  shows "(\<forall>be \<in> set (circle_hbs (ics ! fid)). IsActive be \<and> shown env H dbs be \<longrightarrow>
            (\<forall>db rp meas. backendUrls = [] \<or> home_url env ics tid db meas \<in> set backendUrls \<longrightarrow>
               H (hb_Url be) db rp meas \<subseteq> H' (home_url env ics tid db meas) db rp meas)) \<and>
         (\<forall>j \<in> submitted effs. \<exists>be db rp meas. be \<in> set (circle_hbs (ics ! fid)) \<and> j = CopyJob be [Some (home env ics tid db meas)] db rp meas 0 \<and>
            (backendUrls = [] \<or> home_url env ics tid db meas \<in> set backendUrls))"
proof -
  let ?urls = "to_recover (ics ! tid) backendUrls"
  from Recovery_run [OF assms(1-9), of backendUrls] obtain tx1 ics1 p q where
    "Recovery env fid tid backendUrls dbs0 (tx, ics) = Some (tx1, ics1, es @ map Posted p @
       map Submitted (recovery.backends_plan env tid ics ?urls env dbs (circle_hbs (ics ! fid))) @ map Posted q)" by blast
  with assms(10) have
    effs: "effs = es @ map Posted p @ map Submitted (recovery.backends_plan env tid ics ?urls env dbs (circle_hbs (ics ! fid))) @ map Posted q"
    by simp
  have j: "j \<in> submitted effs \<longleftrightarrow> j \<in> set (recovery.backends_plan env tid ics ?urls env dbs (circle_hbs (ics ! fid)))" for j
    using prepare_statements [OF assms(8), of j] by (auto simp: effs)
  note has = in_to_recover [OF assms(1,3), of backendUrls]
  have "r \<in> H' (home_url env ics tid db meas) db rp meas"
    if "be \<in> set (circle_hbs (ics ! fid))" "IsActive be" "shown env H dbs be" "backendUrls = [] \<or> home_url env ics tid db meas \<in> set backendUrls"
      "r \<in> H (hb_Url be) db rp meas" for be db rp meas r
  proof -
    from that shownD [OF that(3,5)] have "CopyJob be [Some (home env ics tid db meas)] db rp meas 0 \<in> submitted effs"
      unfolding j recovery_jobs has by blast
    from copiedD(2) [OF assms(11) this, of "home env ics tid db meas"] that(5) show ?thesis by (auto simp: home_url_def)
  qed
  moreover have "\<exists>be db rp meas. be \<in> set (circle_hbs (ics ! fid)) \<and> j = CopyJob be [Some (home env ics tid db meas)] db rp meas 0 \<and>
      (backendUrls = [] \<or> home_url env ics tid db meas \<in> set backendUrls)" if "j \<in> submitted effs" for j
    using that unfolding j recovery_jobs has by blast
  ultimately show ?thesis by blast
qed

text \<open>C19: resynchronising brings the circles together. When the tasks of a resynchronisation are
  carried out, every row that an active backend of any circle held, from the given time on, is in
  every circle with another number, at the server where queries look for its measurement.\<close>

theorem resync_brings_together:
  assumes "routable env ics" "length (tx_CircleStates tx) = length ics" "posts_ok env tx" "0 < length ics"
    and "prepare env dbs0 (tx, ics) = Some (dbs, es, True)"
    and "\<forall>cid < length ics. \<forall>be \<in> set (circle_hbs (ics ! cid)). IsActive be \<longrightarrow> source_ok env (tx_CircleStates tx ! cid) dbs be"
    and "Resync env dbs0 tick (tx, ics) = Some (tx', ics', effs)" "copied stamp ics (submitted effs) H H'"
    and "cid < length ics" "t < length ics" "ic_CircleId (ics ! t) \<noteq> ic_CircleId (ics ! cid)"
    and "be \<in> set (circle_hbs (ics ! cid))" "IsActive be" "shown env H dbs be"
  shows "recent stamp tick (H (hb_Url be) db rp meas) \<subseteq> H' (home_url env ics t db meas) db rp meas"
proof
  fix r
  assume r: "r \<in> recent stamp tick (H (hb_Url be) db rp meas)"
  then have h: "r \<in> H (hb_Url be) db rp meas" by (rule subsetD [OF recent_subset])
  let ?jobs = "concat (map (\<lambda>cid. resync.backends_plan env cid tick ics env dbs (circle_hbs (ics ! cid))) [0..<length ics])"
  from Resync_run [OF assms(1-6), of tick] obtain tx1 ics1 p q where
    "Resync env dbs0 tick (tx, ics) = Some (tx1, ics1, es @ map Posted p @ map Submitted ?jobs @ map Posted q)" by blast
  with assms(7) have effs: "effs = es @ map Posted p @ map Submitted ?jobs @ map Posted q" by simp
  let ?dsts = "map (\<lambda>t. Some (home env ics t db meas)) (others ics cid)"
  have t: "t \<in> set (others ics cid)" using assms(10,11) by (simp add: others_def)
  then have "others ics cid \<noteq> []" by auto
  with assms(12,13) shownD [OF assms(14) h]
  have "CopyJob be ?dsts db rp meas tick \<in> set (resync.backends_plan env cid tick ics env dbs (circle_hbs (ics ! cid)))"
    unfolding resync_jobs by blast
  then have "CopyJob be ?dsts db rp meas tick \<in> set ?jobs" using assms(9) by auto
  then have "CopyJob be ?dsts db rp meas tick \<in> submitted effs" unfolding effs by simp
  from copiedD(2) [OF assms(8) this, of "home env ics t db meas"] t r
  show "r \<in> H' (home_url env ics t db meas) db rp meas" by (auto simp: home_url_def)
qed

section \<open>An example\<close>

text \<open>One row at a server that has left the circle, and its copy.\<close>

definition sample_rows_at :: "string set \<Rightarrow> nat holdings" where
  "sample_rows_at urls url db rp meas =
     (if url \<in> urls \<and> db = ''db'' \<and> rp = ''autogen'' \<and> meas = ''cpu'' then {1} else {})"

lemma sample_home: "home_url sample_tx_env (ip_Circles sample_px) 0 db meas = ''http://127.0.0.1:8086''"
  by (simp add: home_url_def home_def hb_at_def sample_px_def sample_circle_def NewCircle_def sample_config_def NewBackend_def
      addRouter_def Let_def route_def first_member_def NewHttpBackend_def NewSimpleHttpBackend_def sample_tx_env_def)

theorem rebalance_then_cleanup_witness:
  "\<exists>tx1 ics1 effs tx3 ics3 effs'.
     Rebalance sample_tx_env 0 [old_backend] [''db''] (sample_tx, ip_Circles sample_px) = Some (tx1, ics1, effs) \<and>
     Cleanup sample_tx_env 0 (sample_tx, ics1) = Some (tx3, ics3, effs') \<and>
     sample_rows_at {hb_Url old_backend} (hb_Url old_backend) ''db'' ''autogen'' ''cpu'' \<noteq> {} \<and>
     sample_rows_at {hb_Url old_backend} (hb_Url old_backend) ''db'' ''autogen'' ''cpu'' \<subseteq>
       sample_rows_at {hb_Url old_backend, ''http://127.0.0.1:8086''}
         (home_url sample_tx_env (ip_Circles sample_px) 0 ''db'' ''cpu'') ''db'' ''autogen'' ''cpu''"
proof -
  let ?env = sample_tx_env and ?ics = "ip_Circles sample_px"
  let ?H0 = "sample_rows_at {hb_Url old_backend}" and ?H1 = "sample_rows_at {hb_Url old_backend, ''http://127.0.0.1:8086''}"
  have b: "0 < length ?ics" "0 < length (tx_CircleStates sample_tx)" by (simp_all add: sample_routable(2) sample_tx_simps)
  from sample_prepare obtain es where p: "prepare ?env [''db''] (sample_tx, ?ics) = Some ([''db''], es, True)" ..
  have src: "\<forall>be \<in> set [old_backend]. IsActive be \<longrightarrow> source_ok ?env (tx_CircleStates sample_tx ! 0) [''db''] be"
    using sample_source by simp
  from Rebalance_run [OF sample_routable(1) b sample_posts p src] obtain tx1 ics1 effs where
    r: "Rebalance ?env 0 [old_backend] [''db''] (sample_tx, ?ics) = Some (tx1, ics1, effs)" "good ?env 0 ?ics ics1"
    "\<And>j. j \<in> submitted effs \<longleftrightarrow> j \<in> set (rebalance.backends_plan ?env 0 ?ics ?env [''db''] [old_backend])"
    by atomize_elim (use prepare_statements [OF p] in auto)
  have same: "same_places (te_lookup ?env) ?ics ics1" using r(2) by (simp add: good_def)
  note r1 = same_places_routable [OF sample_routable(1) same]
  have len1: "0 < length ics1" using same b(1) by (simp add: list_all2_lengthD)
  have url1: "hb_Url be = ''http://127.0.0.1:8086''" if "be \<in> set (circle_hbs (ics1 ! 0))" for be
  proof -
    from that obtain ib where "ib \<in> set (ic_Backends (ics1 ! 0))" "be = ib_hb ib" by (auto simp: circle_hbs_def)
    with same_places_urls [OF same b(1)] sample_hbs show ?thesis by metis
  qed
  have home1: "home_url ?env ics1 0 db meas = ''http://127.0.0.1:8086''" for db meas
    using home_url_same [OF sample_routable(1) same b(1) refl refl] by (simp add: sample_home)
  have c: "\<forall>be \<in> set (circle_hbs (ics1 ! 0)). cleanable ?env (tx_CircleStates sample_tx ! 0) be"
    using url1 by (simp add: cleanable_def sample_names lists_ok_def list_all_iff) (simp add: sample_tx_def)
  have pool: "te_NewPool ?env (tx_Worker sample_tx) = None" by (simp add: sample_tx_env_def)
  from Cleanup_run [OF r1 len1 b(2) sample_posts pool] c obtain tx3 ics3 effs' where
    cl: "Cleanup ?env 0 (sample_tx, ics1) = Some (tx3, ics3, effs')"
      "\<And>j. j \<in> submitted effs' \<Longrightarrow> \<exists>be db meas. be \<in> set (circle_hbs (ics1 ! 0)) \<and> misplaced ?env 0 ics1 be db meas"
    unfolding cleanable_def by atomize_elim (auto, blast)
  have none: "submitted effs' = {}" using cl(2) misplaced_iff [OF r1 len1] url1 home1 by force
  have copied: "copied int ?ics (submitted effs) ?H0 ?H1"
    unfolding copied_def
  proof (intro conjI allI impI)
    show "?H0 url db rp meas \<subseteq> ?H1 url db rp meas" for url db rp meas by (simp add: sample_rows_at_def)
    fix src dsts db rp meas tick d
    assume "CopyJob src dsts db rp meas tick \<in> submitted effs" "Some d \<in> set dsts"
    then have "d = home ?env ?ics 0 db meas" unfolding r(3) rebalance_jobs by auto
    with sample_home [of db meas] show "recent int tick (?H0 (hb_Url src) db rp meas) \<subseteq> ?H1 (hb_Url (hb_at ?ics d)) db rp meas"
      by (intro order.trans [OF recent_subset]) (simp add: home_url_def sample_rows_at_def)
  qed
  have dropped: "dropped (\<lambda>url db meas. url = home_url ?env ?ics 0 db meas) (submitted effs') ?H1 ?H1"
    by (simp add: dropped_def none)
  have shown: "IsActive old_backend \<and> shown ?env ?H0 [''db''] old_backend"
    by (simp add: sample_tx_simps shown_def sample_rows_at_def listed_def sample_names)
  from rebalance_then_cleanup [OF sample_routable(1) b sample_posts p src r(1) copied same_places_refl [OF r1] refl refl b(2)
      sample_posts pool c cl(1) dropped, THEN conjunct1] shown
  have "?H0 (hb_Url old_backend) ''db'' ''autogen'' ''cpu'' \<subseteq> ?H1 (home_url ?env ?ics 0 ''db'' ''cpu'') ''db'' ''autogen'' ''cpu''"
    by (simp only: list.set) blast
  moreover have "?H0 (hb_Url old_backend) ''db'' ''autogen'' ''cpu'' \<noteq> {}" by (simp add: sample_rows_at_def)
  ultimately show ?thesis using r(1) cl(1) by blast
qed


text \<open>Two circles of one server each.\<close>

definition sample_second :: Circle where
  "sample_second = sample_circle\<lparr>ic_CircleId := 1,
     ic_Backends := map (\<lambda>ib. ib\<lparr>ib_hb := (ib_hb ib)\<lparr>hb_Url := ''http://127.0.0.1:9999''\<rparr>\<rparr>) (ic_Backends sample_circle)\<rparr>"

definition sample_ring :: "Circle list" where
  "sample_ring = [sample_circle, sample_second]"

definition sample_tx2 :: Transfer where
  "sample_tx2 = sample_tx\<lparr>tx_CircleStates := [tx_CircleStates sample_tx ! 0, tx_CircleStates sample_tx ! 0]\<rparr>"

lemma sample_ring_routable: "routable sample_tx_env sample_ring" "length sample_ring = 2"
    "length (tx_CircleStates sample_tx2) = 2"
proof -
  have "circle_routes first_member sample_circle" using sample_px_inv by (simp add: proxy_inv_def sample_px_def)
  moreover from this have "circle_routes first_member sample_second"
    by (simp add: circle_routes_def cache_ok_def sample_second_def route_def)
  ultimately show "routable sample_tx_env sample_ring" by (simp add: sample_ring_def sample_tx_env_def)
qed (simp_all add: sample_ring_def sample_tx2_def)

lemma sample_ring_hbs:
  "be \<in> set (circle_hbs (sample_ring ! 0)) \<longleftrightarrow> be = ib_hb (ic_Backends sample_circle ! 0)"
  "be \<in> set (circle_hbs (sample_ring ! 1)) \<longleftrightarrow> be = (ib_hb (ic_Backends sample_circle ! 0))\<lparr>hb_Url := ''http://127.0.0.1:9999''\<rparr>"
  "hb_Url (ib_hb (ic_Backends sample_circle ! 0)) = ''http://127.0.0.1:8086''" "IsActive (ib_hb (ic_Backends sample_circle ! 0))"
  "ic_CircleId sample_circle = 0"
  by (auto simp: circle_hbs_def sample_ring_def sample_second_def sample_circle_def NewCircle_def sample_config_def NewBackend_def
      addRouter_def Let_def NewHttpBackend_def NewSimpleHttpBackend_def IsActive_def)

lemma sample_ring_home:
  "home_url sample_tx_env sample_ring 0 db meas = ''http://127.0.0.1:8086''"
  "home_url sample_tx_env sample_ring 1 db meas = ''http://127.0.0.1:9999''"
  by (simp_all add: home_url_def home_def hb_at_def sample_ring_def sample_second_def sample_circle_def NewCircle_def
      sample_config_def NewBackend_def addRouter_def Let_def route_def first_member_def NewHttpBackend_def
      NewSimpleHttpBackend_def sample_tx_env_def)

lemma sample_ring_sources:
  "\<forall>cid < length sample_ring. \<forall>be \<in> set (circle_hbs (sample_ring ! cid)). IsActive be \<longrightarrow>
     source_ok sample_tx_env (tx_CircleStates sample_tx2 ! cid) [''db''] be"
proof -
  have u: "hb_Url be \<in> {''http://127.0.0.1:8086'', ''http://127.0.0.1:9999''}"
    if "cid < 2" "be \<in> set (circle_hbs (sample_ring ! cid))" for cid be
    using that sample_ring_hbs by (auto simp: less_2_cases_iff)
  have "tx_CircleStates sample_tx2 ! cid = tx_CircleStates sample_tx ! 0" if "cid < 2" for cid
    using that by (auto simp: sample_tx2_def less_2_cases_iff)
  with u show ?thesis
    by (auto simp: sample_ring_routable(2) source_ok_def decodes_def lists_ok_def sample_names list_all_iff)
      (auto simp: sample_tx_def)
qed

lemma sample_shown: "shown sample_tx_env (sample_rows_at urls) [''db''] be"
  by (auto simp: shown_def sample_rows_at_def listed_def sample_names)

text \<open>Whatever is copied between the two servers leaves them with the same row.\<close>

lemma sample_copied:
  assumes "\<And>src dsts db rp meas tick d. CopyJob src dsts db rp meas tick \<in> jobs \<Longrightarrow> Some d \<in> set dsts \<Longrightarrow>
    d \<in> {home sample_tx_env sample_ring 0 db meas, home sample_tx_env sample_ring 1 db meas}"
  shows "copied (\<lambda>r. int r * 2 * 10 ^ 9) sample_ring jobs (sample_rows_at {''http://127.0.0.1:8086''})
    (sample_rows_at {''http://127.0.0.1:8086'', ''http://127.0.0.1:9999''})"
  unfolding copied_def
proof (intro conjI allI impI)
  fix url db rp meas
  show "sample_rows_at {''http://127.0.0.1:8086''} url db rp meas \<subseteq>
      sample_rows_at {''http://127.0.0.1:8086'', ''http://127.0.0.1:9999''} url db rp meas" by (simp add: sample_rows_at_def)
next
  fix src dsts db rp meas tick d
  assume "CopyJob src dsts db rp meas tick \<in> jobs" "Some d \<in> set dsts"
  from assms [OF this] sample_ring_home [of db meas]
  have "hb_Url (hb_at sample_ring d) \<in> {''http://127.0.0.1:8086'', ''http://127.0.0.1:9999''}"
    unfolding home_url_def by auto
  then show "recent (\<lambda>r. int r * 2 * 10 ^ 9) tick (sample_rows_at {''http://127.0.0.1:8086''} (hb_Url src) db rp meas) \<subseteq>
      sample_rows_at {''http://127.0.0.1:8086'', ''http://127.0.0.1:9999''} (hb_Url (hb_at sample_ring d)) db rp meas"
    by (intro order.trans [OF recent_subset]) (auto simp: sample_rows_at_def)
qed


theorem recovery_restores_witness:
  "\<exists>tx' ics' effs. Recovery sample_tx_env 0 1 [] [''db''] (sample_tx2, sample_ring) = Some (tx', ics', effs) \<and>
     sample_rows_at {''http://127.0.0.1:8086''} ''http://127.0.0.1:8086'' ''db'' ''autogen'' ''cpu'' = {1} \<and>
     {1} \<subseteq> sample_rows_at {''http://127.0.0.1:8086'', ''http://127.0.0.1:9999''}
             (home_url sample_tx_env sample_ring 1 ''db'' ''cpu'') ''db'' ''autogen'' ''cpu''"
proof -
  let ?H0 = "sample_rows_at {''http://127.0.0.1:8086''}" and ?H1 = "sample_rows_at {''http://127.0.0.1:8086'', ''http://127.0.0.1:9999''}"
  have b: "0 < length sample_ring" "1 < length sample_ring" "(0::nat) \<noteq> 1"
    "0 < length (tx_CircleStates sample_tx2)" "1 < length (tx_CircleStates sample_tx2)" by (simp_all add: sample_ring_routable)
  from sample_prepare obtain es where p: "prepare sample_tx_env [''db''] (sample_tx2, sample_ring) = Some ([''db''], es, True)" ..
  from sample_ring_sources b(1) have src: "\<forall>be \<in> set (circle_hbs (sample_ring ! 0)). IsActive be \<longrightarrow>
      source_ok sample_tx_env (tx_CircleStates sample_tx2 ! 0) [''db''] be" by blast
  from Recovery_run [OF sample_ring_routable(1) b sample_posts p src, of "[]"] obtain tx' ics' effs where
    r: "Recovery sample_tx_env 0 1 [] [''db''] (sample_tx2, sample_ring) = Some (tx', ics', effs)"
    "\<And>j. j \<in> submitted effs \<Longrightarrow> j \<in> set (recovery.backends_plan sample_tx_env 1 sample_ring
       (to_recover (sample_ring ! 1) []) sample_tx_env [''db''] (circle_hbs (sample_ring ! 0)))"
    by atomize_elim (use prepare_statements [OF p] in auto)
  have c: "copied (\<lambda>r. int r * 2 * 10 ^ 9) sample_ring (submitted effs) ?H0 ?H1"
  proof (rule sample_copied)
    fix src dsts db rp meas tick d
    assume "CopyJob src dsts db rp meas tick \<in> submitted effs" "Some d \<in> set dsts"
    then show "d \<in> {home sample_tx_env sample_ring 0 db meas, home sample_tx_env sample_ring 1 db meas}"
      using r(2) unfolding recovery_jobs by fastforce
  qed
  let ?be = "ib_hb (ic_Backends sample_circle ! 0)"
  have be: "?be \<in> set (circle_hbs (sample_ring ! 0))" "IsActive ?be \<and> shown sample_tx_env ?H0 [''db''] ?be"
    by (simp_all add: sample_ring_hbs sample_shown)
  have h0: "?H0 (hb_Url ?be) ''db'' ''autogen'' ''cpu'' = {1}" by (simp add: sample_rows_at_def sample_ring_hbs)
  from recovery_restores [OF sample_ring_routable(1) b sample_posts p src r(1) c, THEN conjunct1] be
  have "?H0 (hb_Url ?be) ''db'' ''autogen'' ''cpu'' \<subseteq> ?H1 (home_url sample_tx_env sample_ring 1 ''db'' ''cpu'') ''db'' ''autogen'' ''cpu''"
    by blast
  with r(1) h0 sample_ring_hbs(3) show ?thesis by auto
qed

theorem resync_brings_together_witness:
  "\<exists>tx' ics' effs. Resync sample_tx_env [''db''] 1 (sample_tx2, sample_ring) = Some (tx', ics', effs) \<and>
     recent (\<lambda>r. int r * 2 * 10 ^ 9) 1 (sample_rows_at {''http://127.0.0.1:8086''} ''http://127.0.0.1:8086'' ''db'' ''autogen'' ''cpu'') = {1} \<and>
     {1} \<subseteq> sample_rows_at {''http://127.0.0.1:8086'', ''http://127.0.0.1:9999''}
             (home_url sample_tx_env sample_ring 1 ''db'' ''cpu'') ''db'' ''autogen'' ''cpu''"
proof -
  let ?H0 = "sample_rows_at {''http://127.0.0.1:8086''}" and ?H1 = "sample_rows_at {''http://127.0.0.1:8086'', ''http://127.0.0.1:9999''}"
  let ?stamp = "\<lambda>r. int r * 2 * 10 ^ 9"
  have b: "length (tx_CircleStates sample_tx2) = length sample_ring" "0 < length sample_ring" "1 < length sample_ring"
    by (simp_all add: sample_ring_routable)
  from sample_prepare obtain es where p: "prepare sample_tx_env [''db''] (sample_tx2, sample_ring) = Some ([''db''], es, True)" ..
  from Resync_run [OF sample_ring_routable(1) b(1) sample_posts b(2) p sample_ring_sources, of 1] obtain tx' ics' effs where
    r: "Resync sample_tx_env [''db''] 1 (sample_tx2, sample_ring) = Some (tx', ics', effs)"
    "\<And>j. j \<in> submitted effs \<Longrightarrow> \<exists>cid. j \<in> set (resync.backends_plan sample_tx_env cid 1 sample_ring sample_tx_env [''db'']
       (circle_hbs (sample_ring ! cid)))"
    by atomize_elim (use prepare_statements [OF p] in auto)
  have c: "copied ?stamp sample_ring (submitted effs) ?H0 ?H1"
  proof (rule sample_copied)
    fix src dsts db rp meas tick d
    assume j: "CopyJob src dsts db rp meas tick \<in> submitted effs" "Some d \<in> set dsts"
    from r(2) [OF j(1)] obtain cid where "dsts = map (\<lambda>t. Some (home sample_tx_env sample_ring t db meas)) (others sample_ring cid)"
      unfolding resync_jobs by blast
    with j(2) show "d \<in> {home sample_tx_env sample_ring 0 db meas, home sample_tx_env sample_ring 1 db meas}"
      by (auto simp: others_def sample_ring_routable(2) less_2_cases_iff)
  qed
  let ?be = "ib_hb (ic_Backends sample_circle ! 0)"
  have be: "?be \<in> set (circle_hbs (sample_ring ! 0))" "IsActive ?be" "shown sample_tx_env ?H0 [''db''] ?be"
    by (simp_all add: sample_ring_hbs sample_shown)
  have ids: "ic_CircleId (sample_ring ! 1) \<noteq> ic_CircleId (sample_ring ! 0)"
    by (simp add: sample_ring_def sample_second_def sample_ring_hbs(5))
  have h0: "recent ?stamp 1 (?H0 (hb_Url ?be) ''db'' ''autogen'' ''cpu'') = {1}"
    by (auto simp: sample_rows_at_def sample_ring_hbs recent_def)
  from resync_brings_together [OF sample_ring_routable(1) b(1) sample_posts b(2) p sample_ring_sources r(1) c b(2,3) ids be,
      of "''db''" "''autogen''" "''cpu''"] r(1) h0 sample_ring_hbs(3)
  show ?thesis by auto
qed

end
