(* ===== verification/Announcing.thy ===== *)
theory Announcing
  imports Relocation Service
begin

text \<open>
  A transfer from the outside: what the other proxies are told and what is left of it. Each of
  the four transfers is announced before its first task and taken back after its last; in the
  end the flags are down and the parameters have their defaults, and nothing else has changed.
\<close>

section \<open>What going through the measurements leaves alone\<close>

text \<open>The contract of the functions for a measurement: they look up backends, which fills the
  caches of the circles, and touch no backend.\<close>

locale looking_up =
  fixes fn :: tx_step
  assumes keeps: "fn be db meas ics = Some (ics', jobs, r) \<Longrightarrow> map ic_Backends ics' = map ic_Backends ics"
begin

lemma run_measures_keeps:
  "run_measures (fn be db) ms (ics, jobs, st) = Some (ics', jobs', st') \<Longrightarrow> map ic_Backends ics' = map ic_Backends ics"
  by (induction ms arbitrary: ics jobs st) (auto simp: bind_eq_Some_conv dest!: keeps)

lemma run_dbs_keeps:
  "run_dbs (fn be) work (ics, jobs, st) = Some (ics', jobs', st') \<Longrightarrow> map ic_Backends ics' = map ic_Backends ics"
proof (induction work arbitrary: ics jobs st)
  case (Cons w work)
  obtain db ms where "w = (db, ms)" by (cases w)
  with Cons show ?case by (auto simp: bind_eq_Some_conv dest!: run_measures_keeps)
qed simp

lemma runTransfer_keeps:
  assumes "runTransfer env cs be dbs fn ics = Some (cs', ics', jobs)"
  shows "map ic_Backends ics' = map ic_Backends ics \<and> cs_Transferring cs' = cs_Transferring cs"
  using assms by (auto simp: runTransfer_def Let_def bind_eq_Some_conv split: if_splits dest!: run_dbs_keeps)

lemma run_backends_keeps:
  "run_backends env fn dbs bes (cs, ics, jobs) = Some (cs', ics', jobs') \<Longrightarrow>
     map ic_Backends ics' = map ic_Backends ics \<and> cs_Transferring cs' = cs_Transferring cs"
  by (induction bes arbitrary: cs ics jobs) (auto simp: bind_eq_Some_conv dest!: runTransfer_keeps)

lemma run_circle_keeps:
  assumes "run_circle env fn cid bes dbs (tx, ics, es) = Some (tx', ics', es')"
  shows "map ic_Backends ics' = map ic_Backends ics \<and>
    map cs_Transferring (tx_CircleStates tx') = map cs_Transferring (tx_CircleStates tx) \<and> tx_Resyncing tx' = tx_Resyncing tx"
proof -
  from assms obtain cs cs' jobs where r: "byte_at (tx_CircleStates tx) cid = Some cs"
    "run_backends env fn dbs bes (cs, ics, []) = Some (cs', ics', jobs)" "tx' = with_state tx cid cs'"
    by (auto simp: run_circle_def bind_eq_Some_conv)
  from r(1) have c: "cid < length (tx_CircleStates tx)" "tx_CircleStates tx ! cid = cs" by (auto simp: byte_at_Some_iff)
  have "map cs_Transferring (tx_CircleStates tx') = map cs_Transferring (tx_CircleStates tx)"
    using run_backends_keeps [OF r(2)] r(3) c
    by (simp add: map_update) (metis list_update_id nth_map)
  with run_backends_keeps [OF r(2)] r(3) show ?thesis by simp
qed

end

interpretation rebalance_looks: looking_up "runRebalance env cid" for env cid
  by unfold_locales (auto simp: runRebalance_def Let_def bind_eq_Some_conv dest!: cs_GetBackend_backends)

interpretation recovery_looks: looking_up "runRecovery env tcid urls" for env tcid urls
  by unfold_locales (auto simp: runRecovery_def Let_def bind_eq_Some_conv dest!: cs_GetBackend_backends)

lemma other_dsts_backends:
  "other_dsts env cid key ts ics = Some (ics', ds) \<Longrightarrow> map ic_Backends ics' = map ic_Backends ics"
  by (induction ts arbitrary: ics ds) (auto simp: bind_eq_Some_conv split: if_splits dest!: cs_GetBackend_backends)

interpretation resync_looks: looking_up "runResync env cid tick" for env cid tick
  by unfold_locales (auto simp: runResync_def Let_def bind_eq_Some_conv dest!: other_dsts_backends)

interpretation cleanup_looks: looking_up "runCleanup env cid" for env cid
  by unfold_locales (auto simp: runCleanup_def Let_def bind_eq_Some_conv dest!: cs_GetBackend_backends)

lemma cleanup_backends_keeps:
  "cleanup_backends env cid bes (cs, ics, jobs) = Some (cs', ics', jobs') \<Longrightarrow>
     map ic_Backends ics' = map ic_Backends ics \<and> cs_Transferring cs' = cs_Transferring cs"
  by (induction bes arbitrary: cs ics jobs)
    (auto simp: bind_eq_Some_conv split: if_splits dest!: cleanup_looks.runTransfer_keeps)

lemma resync_circles_keeps:
  "resync_circles env tick dbs cids (tx, ics, es) = Some (tx', ics', es') \<Longrightarrow>
     map ic_Backends ics' = map ic_Backends ics \<and>
     map cs_Transferring (tx_CircleStates tx') = map cs_Transferring (tx_CircleStates tx)"
  by (induction cids arbitrary: tx ics es) (auto simp: bind_eq_Some_conv dest!: resync_looks.run_circle_keeps)

section \<open>The flags\<close>

text \<open>Everything that marks a transfer: whether the proxy resynchronises, which circles are
  transferring, and which backends are write-only for a transfer.\<close>

definition status_flags :: "Transfer \<Rightarrow> Circle list \<Rightarrow> bool \<times> bool list \<times> bool list list" where
  "status_flags tx ics =
     (tx_Resyncing tx, map cs_Transferring (tx_CircleStates tx), map (map (hb_transferIn \<circ> ib_hb) \<circ> ic_Backends) ics)"

text \<open>The flags with those of one circle set.\<close>

definition flag_circle :: "nat \<Rightarrow> bool \<Rightarrow> bool \<times> bool list \<times> bool list list \<Rightarrow> bool \<times> bool list \<times> bool list list" where
  "flag_circle cid b fl = (case fl of (resyncing, transferring, ins) \<Rightarrow>
     (resyncing, transferring[cid := b], ins[cid := map (\<lambda>_. b) (ins ! cid)]))"

lemma flag_twice: "flag_circle cid b (flag_circle cid c fl) = flag_circle cid b fl"
  by (cases fl; cases "cid < length (snd (snd fl))") (auto simp: flag_circle_def comp_def list_update_beyond)

lemma flags_marked:
  assumes "broadcastTransferring env cid b (tx, ics, es) = Some (tx', ics', es')"
  shows "status_flags tx' ics' = flag_circle cid b (status_flags tx ics)"
proof -
  from assms obtain cs ic where c: "byte_at (tx_CircleStates tx) cid = Some cs" "byte_at ics cid = Some ic"
    "tx' = with_state tx cid (cs\<lparr>cs_Transferring := b\<rparr>)" "ics' = ics[cid := ic_SetTransferIn ic b]"
    by (auto simp: broadcastTransferring_def bind_eq_Some_conv)
  then have "cid < length ics" "ics ! cid = ic" by (auto simp: byte_at_Some_iff)
  with c(3,4) show ?thesis
    by (simp add: status_flags_def flag_circle_def map_update ic_SetTransferIn_def SetTransferIn_def comp_def)
qed

lemma flags_kept:
  assumes "map ic_Backends ics' = map ic_Backends ics"
    "map cs_Transferring (tx_CircleStates tx') = map cs_Transferring (tx_CircleStates tx)" "tx_Resyncing tx' = tx_Resyncing tx"
  shows "status_flags tx' ics' = status_flags tx ics"
  using assms by (simp add: status_flags_def) (metis map_map)

lemma flags_reset [simp]:
  "status_flags (resetCircleStates tx) ics = status_flags tx ics" "status_flags (resetBasicParam tx) ics = status_flags tx ics"
  by (simp_all add: status_flags_def resetCircleStates_def resetBasicParam_def ResetStates_def comp_def)

lemma Rebalance_flags:
  assumes "Rebalance env cid bes dbs0 (tx, ics) = Some (tx', ics', effs)" "prepare env dbs0 (tx, ics) = Some (dbs, es, True)"
  shows "status_flags tx' ics' = flag_circle cid False (status_flags tx ics)"
proof -
  from assms obtain tx1 ics1 es1 tx2 ics2 es2 where
    r: "broadcastTransferring env cid True (resetCircleStates tx, ics, es) = Some (tx1, ics1, es1)"
    "run_circle env (runRebalance env cid) cid bes dbs (tx1, ics1, es1) = Some (tx2, ics2, es2)"
    "broadcastTransferring env cid False (resetBasicParam tx2, ics2, es2) = Some (tx', ics', effs)"
    by (auto simp: Rebalance_def bind_eq_Some_conv)
  have "status_flags tx2 ics2 = status_flags tx1 ics1" using rebalance_looks.run_circle_keeps [OF r(2)] by (blast intro: flags_kept)
  with flags_marked [OF r(1)] flags_marked [OF r(3)] show ?thesis by (simp add: flag_twice)
qed

lemma Recovery_flags:
  assumes "Recovery env fid tid urls dbs0 (tx, ics) = Some (tx', ics', effs)" "prepare env dbs0 (tx, ics) = Some (dbs, es, True)"
  shows "status_flags tx' ics' = flag_circle tid False (status_flags tx ics)"
proof -
  from assms obtain tx1 ics1 es1 fic us tx2 ics2 es2 where
    r: "broadcastTransferring env tid True (resetCircleStates tx, ics, es) = Some (tx1, ics1, es1)"
    "run_circle env (runRecovery env tid us) fid (circle_hbs fic) dbs (tx1, ics1, es1) = Some (tx2, ics2, es2)"
    "broadcastTransferring env tid False (resetBasicParam tx2, ics2, es2) = Some (tx', ics', effs)"
    by (auto simp: Recovery_def Let_def bind_eq_Some_conv)
  have "status_flags tx2 ics2 = status_flags tx1 ics1" using recovery_looks.run_circle_keeps [OF r(2)] by (blast intro: flags_kept)
  with flags_marked [OF r(1)] flags_marked [OF r(3)] show ?thesis by (simp add: flag_twice)
qed

lemma Resync_flags:
  assumes "Resync env dbs0 tick (tx, ics) = Some (tx', ics', effs)" "prepare env dbs0 (tx, ics) = Some (dbs, es, True)"
  shows "status_flags tx' ics' = (False, snd (status_flags tx ics)) \<and>
    tx_Worker tx' = DefaultWorker \<and> tx_Batch tx' = DefaultBatch \<and> tx_Limit tx' = DefaultLimit"
proof -
  from assms obtain p cids tx2 es2 where
    r: "resync_circles env tick dbs cids ((resetCircleStates tx)\<lparr>tx_Resyncing := True\<rparr>, ics, es @ p) = Some (tx2, ics', es2)"
    "tx' = (resetBasicParam tx2)\<lparr>tx_Resyncing := False\<rparr>"
    by (auto simp: Resync_def broadcastResyncing_def bind_eq_Some_conv)
  from resync_circles_keeps [OF r(1)] have "snd (status_flags tx2 ics') = snd (status_flags (resetCircleStates tx) ics)"
    by (simp add: status_flags_def) (metis map_map)
  with r(2) show ?thesis by (simp add: resetBasicParam_def) (simp add: status_flags_def)
qed

lemma Cleanup_flags:
  assumes "Cleanup env cid (tx, ics) = Some (tx', ics', effs)" "te_NewPool env (tx_Worker tx) = None"
  shows "status_flags tx' ics' = flag_circle cid False (status_flags tx ics)"
proof -
  from assms obtain tx1 ics1 es1 ic cs cs2 ics2 jobs where
    r: "broadcastTransferring env cid True (resetCircleStates tx, ics, []) = Some (tx1, ics1, es1)"
    "byte_at (tx_CircleStates tx1) cid = Some cs"
    "cleanup_backends env cid (circle_hbs ic) (cs, ics1, []) = Some (cs2, ics2, jobs)"
    "broadcastTransferring env cid False (resetBasicParam (with_state tx1 cid cs2), ics2, es1 @ map Submitted jobs) = Some (tx', ics', effs)"
    by (auto simp: Cleanup_def bind_eq_Some_conv)
  from r(2) have c: "cid < length (tx_CircleStates tx1)" "tx_CircleStates tx1 ! cid = cs" by (auto simp: byte_at_Some_iff)
  have "map cs_Transferring (tx_CircleStates (with_state tx1 cid cs2)) = map cs_Transferring (tx_CircleStates tx1)"
    using cleanup_backends_keeps [OF r(3)] c by (simp add: map_update) (metis list_update_id nth_map)
  with cleanup_backends_keeps [OF r(3)] have "status_flags (with_state tx1 cid cs2) ics2 = status_flags tx1 ics1"
    by (intro flags_kept) simp_all
  with flags_marked [OF r(1)] flags_marked [OF r(4)] show ?thesis by (simp add: flag_twice)
qed

section \<open>A whole transfer\<close>

text \<open>The circle that a transfer marks; a resynchronisation marks the proxy.\<close>

fun marked_circle :: "background \<Rightarrow> nat option" where
  "marked_circle (Rebalancing cid bes dbs) = Some cid"
| "marked_circle (Recovering fromId toId urls dbs) = Some toId"
| "marked_circle (Resyncing dbs tick) = None"
| "marked_circle (Cleaning cid) = Some cid"

text \<open>The posts say to every other proxy that the transfer is on, or that it is not.\<close>

definition told :: "Transfer \<Rightarrow> Circle list \<Rightarrow> background \<Rightarrow> bool \<Rightarrow> Request list \<Rightarrow> bool" where
  "told tx ics b on posts \<longleftrightarrow> map rq_URL posts = map (\<lambda>addr. peer_url tx
     (case marked_circle b of
        Some cid \<Rightarrow> transferring_url addr (ic_CircleId (ics ! cid)) on
      | None \<Rightarrow> resyncing_url addr on)) (tx_HaAddrs tx)"

text \<open>A transfer that comes to its tasks: its circles exist, the databases have been created and
  there are some, a pool can be made, and the lists of the active backends that it goes through
  decode.\<close>

fun under_way :: "tx_env \<Rightarrow> Transfer \<Rightarrow> Circle list \<Rightarrow> background \<Rightarrow> bool" where
  "under_way env tx ics (Rebalancing cid bes dbs0) \<longleftrightarrow> cid < length ics \<and>
     (\<exists>dbs es. prepare env dbs0 (tx, ics) = Some (dbs, es, True) \<and>
        (\<forall>be \<in> set bes. IsActive be \<longrightarrow> source_ok env (tx_CircleStates tx ! cid) dbs be))"
| "under_way env tx ics (Recovering fid tid urls dbs0) \<longleftrightarrow> fid < length ics \<and> tid < length ics \<and> fid \<noteq> tid \<and>
     (\<exists>dbs es. prepare env dbs0 (tx, ics) = Some (dbs, es, True) \<and>
        (\<forall>be \<in> set (circle_hbs (ics ! fid)). IsActive be \<longrightarrow> source_ok env (tx_CircleStates tx ! fid) dbs be))"
| "under_way env tx ics (Resyncing dbs0 tick) \<longleftrightarrow> 0 < length ics \<and>
     (\<exists>dbs es. prepare env dbs0 (tx, ics) = Some (dbs, es, True) \<and>
        (\<forall>cid < length ics. \<forall>be \<in> set (circle_hbs (ics ! cid)). IsActive be \<longrightarrow>
           source_ok env (tx_CircleStates tx ! cid) dbs be))"
| "under_way env tx ics (Cleaning cid) \<longleftrightarrow> cid < length ics \<and> te_NewPool env (tx_Worker tx) = None \<and>
     (\<forall>be \<in> set (circle_hbs (ics ! cid)). cleanable env (tx_CircleStates tx ! cid) be)"

lemma prepare_effects: "prepare env dbs0 s = Some (dbs, es, go) \<Longrightarrow> \<exists>qs. es = map Statement qs"
  by (auto simp: prepare_def bind_eq_Some_conv split: prod.splits)

lemma settled_defaults:
  "settled_down cid tx ics \<Longrightarrow> tx_Worker tx = DefaultWorker \<and> tx_Batch tx = DefaultBatch \<and> tx_Limit tx = DefaultLimit"
  by (simp add: settled_down_def)

text \<open>C21: a transfer is announced, taken back, and leaves nothing behind. Each of the four
  transfers, once it comes to its tasks, runs to its end. To the outside it first creates the
  databases, then tells every other proxy that it is on, then submits its tasks, and only
  after the last of them tells every other proxy that it is over: for the circle that it writes
  to, or, when it resynchronises, for the proxy. In the end the flags of that circle and of all
  its backends are down, or that of the proxy; those of the other circles and backends are as
  they were; the parameters have their defaults, and every key still has its backend in every
  circle.\<close>

theorem transfer_announced_and_over:
  assumes "routable env ics" "length (tx_CircleStates tx) = length ics" "posts_ok env tx" "under_way env tx ics b"
  shows "\<exists>tx' ics' qs p jobs q. run_background env b (tx, ics) =
      Some (tx', ics', map Statement qs @ map Posted p @ map Submitted jobs @ map Posted q) \<and>
    told tx ics b True p \<and> told tx ics b False q \<and>
    status_flags tx' ics' = (case marked_circle b of
        Some cid \<Rightarrow> flag_circle cid False (status_flags tx ics) | None \<Rightarrow> (False, snd (status_flags tx ics))) \<and>
    tx_Worker tx' = DefaultWorker \<and> tx_Batch tx' = DefaultBatch \<and> tx_Limit tx' = DefaultLimit \<and>
    same_places (te_lookup env) ics ics'"
proof (cases b)
  case (Rebalancing cid bes dbs0)
  with assms(2,4) obtain dbs es where c: "cid < length ics" "cid < length (tx_CircleStates tx)" and
    p: "prepare env dbs0 (tx, ics) = Some (dbs, es, True)"
    "\<forall>be \<in> set bes. IsActive be \<longrightarrow> source_ok env (tx_CircleStates tx ! cid) dbs be" by auto
  from Rebalance_run [OF assms(1) c assms(3) p] obtain tx' ics' p1 q1 where
    r: "Rebalance env cid bes dbs0 (tx, ics) =
      Some (tx', ics', es @ map Posted p1 @ map Submitted (rebalance.backends_plan env cid ics env dbs bes) @ map Posted q1)"
    "announced tx (ic_CircleId (ics ! cid)) True p1" "announced tx (ic_CircleId (ics ! cid)) False q1"
    "settled_down cid tx' ics'" "good env cid ics ics'" by blast
  from prepare_effects [OF p(1)] obtain qs where "es = map Statement qs" by blast
  with r Rebalance_flags [OF r(1) p(1)] settled_defaults [OF r(4)] show ?thesis
    by (intro exI [of _ tx'] exI [of _ ics'] exI [of _ qs] exI [of _ p1]
        exI [of _ "rebalance.backends_plan env cid ics env dbs bes"] exI [of _ q1])
      (simp add: Rebalancing run_background_def told_def announced_def good_def)
next
  case (Recovering fid tid urls dbs0)
  with assms(2,4) obtain dbs es where c: "fid < length ics" "tid < length ics" "fid \<noteq> tid"
    "fid < length (tx_CircleStates tx)" "tid < length (tx_CircleStates tx)" and
    p: "prepare env dbs0 (tx, ics) = Some (dbs, es, True)"
    "\<forall>be \<in> set (circle_hbs (ics ! fid)). IsActive be \<longrightarrow> source_ok env (tx_CircleStates tx ! fid) dbs be" by auto
  let ?jobs = "recovery.backends_plan env tid ics (to_recover (ics ! tid) urls) env dbs (circle_hbs (ics ! fid))"
  from Recovery_run [OF assms(1) c assms(3) p, of urls] obtain tx' ics' p1 q1 where
    r: "Recovery env fid tid urls dbs0 (tx, ics) = Some (tx', ics', es @ map Posted p1 @ map Submitted ?jobs @ map Posted q1)"
    "announced tx (ic_CircleId (ics ! tid)) True p1" "announced tx (ic_CircleId (ics ! tid)) False q1"
    "settled_down tid tx' ics'" "good env tid ics ics'" by blast
  from prepare_effects [OF p(1)] obtain qs where "es = map Statement qs" by blast
  with r Recovery_flags [OF r(1) p(1)] settled_defaults [OF r(4)] show ?thesis
    by (intro exI [of _ tx'] exI [of _ ics'] exI [of _ qs] exI [of _ p1] exI [of _ ?jobs] exI [of _ q1])
      (simp add: Recovering run_background_def told_def announced_def good_def)
next
  case (Resyncing dbs0 tick)
  with assms(4) obtain dbs es where c: "0 < length ics" and p: "prepare env dbs0 (tx, ics) = Some (dbs, es, True)"
    "\<forall>cid < length ics. \<forall>be \<in> set (circle_hbs (ics ! cid)). IsActive be \<longrightarrow> source_ok env (tx_CircleStates tx ! cid) dbs be"
    by auto
  let ?jobs = "concat (map (\<lambda>cid. resync.backends_plan env cid tick ics env dbs (circle_hbs (ics ! cid))) [0..<length ics])"
  from Resync_run [OF assms(1-3) c p, of tick] obtain tx' ics' p1 q1 where
    r: "Resync env dbs0 tick (tx, ics) = Some (tx', ics', es @ map Posted p1 @ map Submitted ?jobs @ map Posted q1)"
    "told_resyncing tx True p1" "told_resyncing tx False q1" "untouched env 0 ics ics'" by blast
  from prepare_effects [OF p(1)] obtain qs where "es = map Statement qs" by blast
  with r Resync_flags [OF r(1) p(1)] show ?thesis
    by (intro exI [of _ tx'] exI [of _ ics'] exI [of _ qs] exI [of _ p1] exI [of _ ?jobs] exI [of _ q1])
      (simp add: Resyncing run_background_def told_def told_resyncing_def untouched_def good_def)
next
  case (Cleaning cid)
  with assms(2,4) have c: "cid < length ics" "cid < length (tx_CircleStates tx)" and
    p: "te_NewPool env (tx_Worker tx) = None" and
    b: "\<forall>be \<in> set (circle_hbs (ics ! cid)). GetDatabases (te_http env) be \<noteq> None \<and>
      (IsActive be \<longrightarrow> lists_ok env be (the (GetDatabases (te_http env) be)) \<and>
         hb_Url be \<in> dom (map_get (cs_Stats (tx_CircleStates tx ! cid))))" by (auto simp: cleanable_def)
  from Cleanup_posts [OF assms(1) c assms(3) p b] obtain tx' ics' p1 q1 jobs where
    r: "Cleanup env cid (tx, ics) = Some (tx', ics', map Posted p1 @ map Submitted jobs @ map Posted q1)"
    "announced tx (ic_CircleId (ics ! cid)) True p1" "announced tx (ic_CircleId (ics ! cid)) False q1"
    "settled_down cid tx' ics'" "good env cid ics ics'" by blast
  from r Cleanup_flags [OF r(1) p] settled_defaults [OF r(4)] show ?thesis
    by (intro exI [of _ tx'] exI [of _ ics'] exI [of _ "[]"] exI [of _ p1] exI [of _ jobs] exI [of _ q1])
      (simp add: Cleaning run_background_def told_def announced_def good_def)
qed

text \<open>Two peers, and a second circle that is already transferring.\<close>

definition peered_tx :: Transfer where
  "peered_tx = sample_tx2\<lparr>tx_HaAddrs := [''10.0.0.1:7076'', ''10.0.0.2:7076''],
     tx_CircleStates := [tx_CircleStates sample_tx ! 0, (tx_CircleStates sample_tx ! 0)\<lparr>cs_Transferring := True\<rparr>]\<rparr>"

theorem transfer_announced_and_over_witness:
  "\<exists>tx' ics' qs p jobs q.
     run_background sample_tx_env (Rebalancing 0 [old_backend] [''db'']) (peered_tx, sample_ring) =
       Some (tx', ics', map Statement qs @ map Posted p @ map Submitted jobs @ map Posted q) \<and>
     map rq_URL p = [''http://10.0.0.1:7076/transfer/state?circle_id=0&transferring=true'',
                     ''http://10.0.0.2:7076/transfer/state?circle_id=0&transferring=true''] \<and>
     map rq_URL q = [''http://10.0.0.1:7076/transfer/state?circle_id=0&transferring=false'',
                     ''http://10.0.0.2:7076/transfer/state?circle_id=0&transferring=false''] \<and>
     status_flags tx' ics' = (False, [False, True], [[False], [False]])"
proof -
  from sample_prepare obtain es where p: "prepare sample_tx_env [''db''] (peered_tx, sample_ring) = Some ([''db''], es, True)" ..
  have "source_ok sample_tx_env (tx_CircleStates peered_tx ! 0) [''db''] old_backend"
    using sample_source [of old_backend "[''db'']"] by (simp add: peered_tx_def)
  with p have u: "under_way sample_tx_env peered_tx sample_ring (Rebalancing 0 [old_backend] [''db''])"
    by (auto simp: sample_ring_routable(2))
  have n: "length (tx_CircleStates peered_tx) = length sample_ring" by (simp add: peered_tx_def sample_ring_routable(2))
  have cfg: "tx_HaAddrs peered_tx = [''10.0.0.1:7076'', ''10.0.0.2:7076'']" "\<not> tx_httpsEnabled peered_tx" "\<not> tx_Resyncing peered_tx"
    by (simp_all add: peered_tx_def sample_tx2_def sample_tx_def NewTransfer_def sample_config_def)
  have f: "status_flags peered_tx sample_ring = (False, [False, True], [[False], [False]])"
    by (simp add: status_flags_def cfg(3))
      (simp add: peered_tx_def sample_tx_def sample_ring_def sample_second_def sample_circle_def NewCircle_def sample_config_def
        NewBackend_def addRouter_def Let_def NewHttpBackend_def NewSimpleHttpBackend_def)
  have id: "ic_CircleId (sample_ring ! 0) = 0" by (simp add: sample_ring_def sample_ring_hbs(5))
  have url: "transferring_url a 0 b = ''http://'' @ a @ ''/transfer/state?circle_id=0&transferring='' @ bool_text b" for a b
  proof -
    have "Itoa (int 0) = ''0''" by code_simp
    then show ?thesis by (simp add: transferring_url_def)
  qed
  have peer: "peer_url peered_tx u = u" for u by (simp add: peer_url_def cfg(2))
  from transfer_announced_and_over [OF sample_ring_routable(1) n sample_posts u]
  show ?thesis
    by (simp add: told_def cfg(1) peer id url bool_text_def f flag_circle_def)
      (elim exE conjE, intro exI conjI, assumption+)
qed

end
