(* ===== verification/Spec2Isabelle.thy ===== *)
theory Spec2Isabelle
  imports Startup Readback Announcing
begin

text \<open>
  InfluxDB Proxy: an HTTP proxy that spreads writes over circles of InfluxDB servers, queries
  one of them, keeps what a server did not take in a backlog on disk, and moves measurements
  between servers. The theories follow the Go packages \<^verbatim>\<open>util\<close>, \<^verbatim>\<open>backend\<close>, \<^verbatim>\<open>transfer\<close> and
  \<^verbatim>\<open>service\<close>, bottom up.

  \<^bold>\<open>How the parts interact.\<close> A request reaches a handler of \<^verbatim>\<open>service/http.go\<close> (\<open>Service\<close>). A write
  goes to the proxy (\<open>Proxy\<close>), which completes each line with a time stamp (\<open>Lineproto\<close>), takes the
  measurement out of it, and hands the line to one backend in every circle: the circle (\<open>Circle\<close>)
  asks the consistent hash for the member that the key, made of database and measurement,
  belongs to. A backend (\<open>Backend\<close>) collects lines in buffers, sends full or old buffers to its
  server (\<open>Http_Backend\<close>), and puts what the server could not take into its backlog
  (\<open>File_Backend\<close>), from where a loop resends it. A query is scanned (\<open>Influxql\<close>, or \<open>Flux\<close>), checked
  against the list of databases, and sent to one backend of its key, to all backends in parallel, or
  to the backend of the key in every circle (\<open>Executor\<close>), the answers being merged on the level of
  the decoded JSON (\<open>Result\<close>). A transfer (\<open>Transfers\<close>) compares where measurements are with where
  the circles want them and copies or drops them, while the other proxies are told. Credentials
  may be encrypted (\<open>Cipher\<close>), the configuration is completed and checked (\<open>Config\<close>), and
  Prometheus writes are converted (\<open>Prometheus\<close>).

  \<^bold>\<open>The theories.\<close>
  \<^item> \<open>Prelude\<close> and \<open>GoStrings\<close>: the run time and the parts of Go's string, number and URL packages
    that the code uses. Panics are \<open>None\<close>, errors the left side of a sum or an \<open>error option\<close>; a Go
    map is an association list with one entry per key, behind the interface \<open>go_map\<close>.
  \<^item> \<open>Util\<close>: \<^verbatim>\<open>util/escape.go\<close>, \<^verbatim>\<open>util/set.go\<close> and \<^verbatim>\<open>util/util.go\<close>, with the contracts \<open>escaping\<close> and \<open>string_set\<close>.
  \<^item> \<open>Cipher\<close>: \<^verbatim>\<open>util/cipher.go\<close>; encryption and decryption are inverse for every block function
    that has an inverse.
  \<^item> \<open>Config\<close>: \<^verbatim>\<open>backend/config.go\<close>; the check accepts exactly the well-formed configurations.
  \<^item> \<open>Influxql\<close> and \<open>Identifiers\<close>: \<^verbatim>\<open>backend/influxql.go\<close>; the scanner ends and its tokens are
    proper, identifiers are looked up without a panic but for one case, a passing statement is of a
    supported kind, and names quoted into a statement are found in it again.
  \<^item> \<open>Lineproto\<close>: \<^verbatim>\<open>backend/lineproto.go\<close>; keys, time stamps with their 64-bit arithmetic, and the
    format check.
  \<^item> \<open>Result\<close> and \<open>Http_Backend\<close>: \<^verbatim>\<open>backend/result.go\<close> and \<^verbatim>\<open>backend/http.go\<close>; the requests sent, what
    becomes of each answer, and the credentials of a request.
  \<^item> \<open>File_Backend\<close>: \<^verbatim>\<open>backend/file.go\<close>; the two files implement the abstract queue \<open>backlog\<close>, which
    survives a restart.
  \<^item> \<open>Backend\<close>: \<^verbatim>\<open>backend/backend.go\<close>; no line is lost or doubled between the channel and the tasks
    of the pool, over all interleavings of the worker (\<open>worker_step\<close>, \<open>worker_run\<close>); the outcome of a
    task for every answer of the server; the rewriting of the backlog.
  \<^item> \<open>Delivery\<close>: a backend as a whole, its worker, the tasks of the pool, the rewriting loop and the two
    files they share, in any order (\<open>site_step\<close>, \<open>site_run\<close>); every record that was accepted is
    settled, waiting, in the backlog or \<open>lost\<close>, once each while the files are open. Lost are exactly
    the records whose resending failed before any offset had been committed (\<open>si_skipped\<close>), once one
    is: the code cannot roll back there. A backlog with a committed offset loses nothing.
  \<^item> \<open>Progress\<close>: from every state of a running backend with a committed offset everything can still
    be written; without one the first failed record is a dead end.
  \<^item> \<open>Circle\<close> and \<open>Proxy\<close>: \<^verbatim>\<open>backend/circle.go\<close> and \<^verbatim>\<open>backend/proxy.go\<close>; a key has one backend per
    circle, which the cache does not change (\<open>cached_lookup\<close>), every line reaches exactly these, and
    a query looks for it where it was put.
  \<^item> \<open>Ingest\<close>: the proxy as a whole, any number of write requests and all backends interleaved
    (\<open>grid_step\<close>, \<open>grid_run\<close>), from the configuration on; every line taken is accounted for in every
    circle, with the same exception, and can arrive at a server of each.
  \<^item> \<open>Executor\<close>: \<^verbatim>\<open>backend/executor.go\<close> and \<^verbatim>\<open>Proxy.Query\<close>; the order in which backends are asked and
    whose answer counts, all or nothing for statements that change data, the merged answers.
  \<^item> \<open>Readback\<close>: writes and queries together; every backend that a query may ask has been sent all
    lines of its key.
  \<^item> \<open>Flux\<close>: \<^verbatim>\<open>backend/flux.go\<close> and \<^verbatim>\<open>Proxy.QueryFlux\<close>.
  \<^item> \<open>Transfers\<close>: \<^verbatim>\<open>transfer/transfer.go\<close> and \<^verbatim>\<open>transfer/circlestate.go\<close>; which tasks each of the four
    operations submits, over the contract \<open>transfer_step\<close> of the functions they call for each
    measurement; what a copy reads and sends; counters and announcements.
  \<^item> \<open>Announcing\<close>: each of the four transfers from outside, once it comes to its tasks: the other
    proxies are told, the tasks submitted, the proxies told again, and the flags are down.
  \<^item> \<open>Relocation\<close>: the operations of a transfer followed to the rows that the servers hold, for copies
    that succeed: a
    rebalancing and a cleanup together lose no row and leave every backend healthy, a recovery
    brings back what the other circle has, a resynchronisation brings all circles together.
  \<^item> \<open>Prometheus\<close>: \<^verbatim>\<open>service/prometheus/converters.go\<close>; the points of the finite samples, up to the
    first that the library refuses, and the count of each other kind.
  \<^item> \<open>Transfer_Steps\<close>: a frame, the single changes that a transfer may make (\<open>transfer_part\<close>, which
    leaves open to what a flag or a counter is set); each of the four operations is a sequence of
    them.
  \<^item> \<open>Shape\<close>: frame rules, what no request and no step of a transfer changes: the circles, their
    consistent hashes and the coherence of their caches.
  \<^item> \<open>Service\<close> and \<open>Service_Runs\<close>: \<^verbatim>\<open>service/http.go\<close>; every handler, the contracts \<open>service_handler\<close>
    and \<open>guarded_handler\<close> that they satisfy, and the states of the service over time
    (\<open>service_run\<close>): authentication, the invariant of the transfer parameters, when transfers start,
    no panic of the administrative requests, announcements between two proxies, and the two write
    endpoints.
  \<^item> \<open>Service_Routing\<close>: in all these states every key has the backends it had at the start, and
    writes, reads and queries are answered; a query that is merged by names as long as the answers
    to it that decode list strings.
  \<^item> \<open>Startup\<close>: \<^verbatim>\<open>main.go\<close>; the flags, what is printed and logged, and what is established when the
    service starts.

  \<^bold>\<open>State.\<close> A struct is a record with the fields of the code. A pointer to a backend is the pair of
  the numbers of its circle and of the backend in it, so the proxy is the only store. Where code
  reads the clock, the network, the file system, a random order or the order of arrival, the
  definition takes it as an argument. Machine integers are words where they can wrap: time stamps
  and counters of dropped samples have 64 bits, the counters of a transfer 32 (signed, read with
  \<^verbatim>\<open>sint\<close>).

  \<^bold>\<open>Parameters.\<close> Not under \<^verbatim>\<open>src/\<close> and so arguments of the definitions: the AES block function, the
  consistent hash (\<open>router\<close>; \<open>picks_member\<close> says that it answers with one of its members), gzip, the
  JSON, MIME, snappy and protocol buffer codecs, \<^verbatim>\<open>models.GetPrecisionMultiplier\<close>,
  \<^verbatim>\<open>models.NewPoint\<close>, \<^verbatim>\<open>models.EscapeStringField\<close>, \<^verbatim>\<open>net/http\<close> and the pool \<^verbatim>\<open>ants\<close>. What an InfluxDB
  server does with the statement of a drop and lists of itself is a hypothesis of \<open>Relocation\<close>
  (\<open>dropped\<close>, \<open>shown\<close>). So is that the copies have succeeded (\<open>copied\<close>), which the program does
  not ensure: a write that fails often enough is given up with a log entry (\<open>Transfers\<close>).

  \<^bold>\<open>Loops.\<close> Loops over data are structural or have a measure. Two may run for ever and are
  partial functions with the value \<open>None\<close> then: the format check \<open>RapidCheck\<close>, shown to end on
  every line that the proxy gives it, and the paging \<open>tx_pages\<close>, shown to end on a source with
  finitely many rows. There is no fuel.

  \<^bold>\<open>Concurrency.\<close> The worker of a backend is a step relation with the channel as a queue; in
  \<open>Delivery\<close> its steps alternate with the tasks of the pool and with those of the rewriting loop,
  the operations of \<^verbatim>\<open>file.go\<close> being single steps. All but \<^verbatim>\<open>Read\<close> hold its lock; \<^verbatim>\<open>Read\<close> only meets
  a half-written record at the end of a file without a committed offset, as the invariant
  of \<open>Delivery\<close> shows and \<open>read_meets_half_written_record\<close> spells out. \<open>Ingest\<close> interleaves
  all backends with any number of requests, one step for each line and each backend it goes to. The
  check of \<^verbatim>\<open>WritePoint\<close> and its send are one step; in the program a \<^verbatim>\<open>Close\<close> may come between them
  and the send panics (\<open>close_between_check_and_send\<close>). In
  \<open>Transfers\<close> the goroutines of one transfer operation run one after the other and the tasks it
  hands to the pool are part of its result; in \<open>service_run\<close> the single changes of any number of
  transfers, their tasks, requests and the work of the backends are interleaved freely, each
  being one step.

  \<^bold>\<open>Not modelled.\<close> Logging, but for that of the program start, the server loop of \<^verbatim>\<open>net/http\<close>, the generated
  protocol buffer code, the reading of the configuration file by viper, and the objects of the
  HTTP client and server libraries.
\<close>

end
